(* ===== verification/Zyrnix_Prelude.thy ===== *)
theory Zyrnix_Prelude
  imports Main "HOL-Library.Word" "HOL-Library.Sublist" "HOL-Library.List_Lexorder"
    "HOL-Library.Char_ord"
begin

text \<open>
  What every component shares: the machine integers, the operations of \<open>std::string\<close> that the
  sources call (\<open>find\<close>, \<open>substr\<close>, \<open>find_first_not_of\<close>, \<open>find_last_not_of\<close>, \<open>tolower\<close>,
  \<open>std::to_string\<close>), and \<open>std::map\<close> as an interface with one implementation.  A position is a
  natural number and \<open>npos\<close> is \<^const>\<open>None\<close>.
\<close>

named_theorems str_simps \<open>string operations\<close>
named_theorems inv_intros \<open>invariants kept by operations\<close>

type_synonym u64 = "64 word"
type_synonym time = int
type_synonym clock = "nat \<Rightarrow> time"

section \<open>Strings\<close>

text \<open>\<open>s.find(pat)\<close> on a whole string.\<close>

fun find_in :: "string \<Rightarrow> string \<Rightarrow> nat option" where
  "find_in pat s =
     (if prefix pat s then Some 0
      else (case s of [] \<Rightarrow> None | _ # t \<Rightarrow> map_option Suc (find_in pat t)))"

declare find_in.simps [simp del]

text \<open>\<open>s.find(pat, pos)\<close>: the least position from \<open>pos\<close> on at which \<open>pat\<close> occurs; a
  \<open>pos\<close> beyond the end finds nothing, the empty pattern is found at every \<open>pos\<close> up to the length.\<close>

definition find_from :: "string \<Rightarrow> string \<Rightarrow> nat \<Rightarrow> nat option" where
  "find_from pat s pos =
     (if pos \<le> length s then map_option ((+) pos) (find_in pat (drop pos s)) else None)"

text \<open>The same with a position that may itself be \<open>npos\<close>, the greatest \<open>size_t\<close>.\<close>

definition find_at :: "string \<Rightarrow> string \<Rightarrow> nat option \<Rightarrow> nat option" where
  "find_at pat s pos = (case pos of None \<Rightarrow> None | Some p \<Rightarrow> find_from pat s p)"

definition substr :: "string \<Rightarrow> nat \<Rightarrow> nat \<Rightarrow> string" where
  "substr s pos n = take n (drop pos s)"

fun find_first_not_of :: "string \<Rightarrow> string \<Rightarrow> nat option" where
  "find_first_not_of cs [] = None"
| "find_first_not_of cs (c # s) =
     (if c \<in> set cs then map_option Suc (find_first_not_of cs s) else Some 0)"

definition find_last_not_of :: "string \<Rightarrow> string \<Rightarrow> nat option" where
  "find_last_not_of cs s =
     map_option (\<lambda>i. length s - 1 - i) (find_first_not_of cs (rev s))"

definition char_code :: "char \<Rightarrow> nat" where
  "char_code c = of_char c"

text \<open>\<open>std::tolower\<close> in the "C" locale.\<close>

definition to_lower :: "char \<Rightarrow> char" where
  "to_lower c = (if 65 \<le> char_code c \<and> char_code c \<le> 90 then char_of (char_code c + 32) else c)"

definition is_digit :: "char \<Rightarrow> bool" where
  "is_digit c \<longleftrightarrow> 48 \<le> char_code c \<and> char_code c \<le> 57"

definition digit_char :: "nat \<Rightarrow> char" where
  "digit_char d = char_of (48 + d)"

text \<open>\<open>std::to_string\<close> and \<open>operator<<\<close> on unsigned and signed integers.\<close>

fun show_nat :: "nat \<Rightarrow> string" where
  "show_nat n = (if n < 10 then [digit_char n] else show_nat (n div 10) @ [digit_char (n mod 10)])"

declare show_nat.simps [simp del]

definition show_int :: "int \<Rightarrow> string" where
  "show_int i = (if i < 0 then CHR ''-'' # show_nat (nat (- i)) else show_nat (nat i))"

definition show_u64 :: "u64 \<Rightarrow> string" where
  "show_u64 w = show_nat (unat w)"

text \<open>Integer division of C++, towards zero.\<close>

definition trunc_div :: "int \<Rightarrow> int \<Rightarrow> int" where
  "trunc_div a b = sgn a * sgn b * (\<bar>a\<bar> div \<bar>b\<bar>)"

definition newline :: string where "newline = [CHR 0x0A]"
definition dquote :: string where "dquote = [CHR 0x22]"
definition bslash :: string where "bslash = [CHR 0x5C]"

text \<open>A string between double quotes, as in the hand-written JSON of the sources.\<close>

definition quoted :: "string \<Rightarrow> string" where
  "quoted s = dquote @ s @ dquote"

definition show_bool :: "bool \<Rightarrow> string" where
  "show_bool b = (if b then ''true'' else ''false'')"

subsection \<open>Facts about searching\<close>

lemma find_in_Nil [str_simps]: "find_in pat [] = (if pat = [] then Some 0 else None)"
  by (subst find_in.simps) simp

lemma find_in_Cons [str_simps]:
  "find_in pat (c # s) =
     (if prefix pat (c # s) then Some 0 else map_option Suc (find_in pat s))"
  by (subst find_in.simps) simp

lemma find_in_empty_pat [simp]: "find_in [] s = Some 0"
  by (subst find_in.simps) simp

lemma find_in_None_iff: "find_in pat s = None \<longleftrightarrow> \<not> sublist pat s"
  by (induction s) (auto simp: find_in_Nil find_in_Cons sublist_Cons_right)

lemma find_in_SomeD:
  "find_in pat s = Some i \<Longrightarrow> prefix pat (drop i s) \<and> i + length pat \<le> length s"
proof (induction s arbitrary: i)
  case Nil
  then show ?case by (auto simp: find_in_Nil split: if_splits)
next
  case (Cons c s)
  then show ?case
    by (fastforce simp: find_in_Cons dest: prefix_length_le split: if_splits)
qed

lemma find_in_least: "find_in pat s = Some i \<Longrightarrow> j < i \<Longrightarrow> \<not> prefix pat (drop j s)"
proof (induction s arbitrary: i j)
  case Nil
  then show ?case by (auto simp: find_in_Nil split: if_splits)
next
  case (Cons c s)
  show ?case
  proof (cases j)
    case 0
    with Cons.prems show ?thesis by (auto simp: find_in_Cons split: if_splits)
  next
    case (Suc j')
    with Cons.prems obtain i' where "find_in pat s = Some i'" "j' < i'"
      by (auto simp: find_in_Cons split: if_splits)
    with Cons.IH Suc show ?thesis by simp
  qed
qed

lemma find_in_split:
  assumes "find_in pat s = Some i"
  shows "s = take i s @ pat @ drop (i + length pat) s"
proof -
  from find_in_SomeD[OF assms] obtain r where r: "drop i s = pat @ r"
    by (auto elim: prefixE)
  then have "r = drop (i + length pat) s"
    by (metis add.commute append_eq_conv_conj drop_drop)
  with r show ?thesis by (metis append_take_drop_id)
qed

lemma sublist_take_find_in:
  assumes "find_in pat s = Some i" and "pat \<noteq> []"
  shows "\<not> sublist pat (take i s)"
proof
  assume "sublist pat (take i s)"
  then obtain u v where uv: "take i s = u @ pat @ v" by (auto simp: sublist_def)
  then have "drop (length u) s = pat @ v @ drop i s"
    by (metis append.assoc append_eq_conv_conj append_take_drop_id)
  then have "prefix pat (drop (length u) s)" by simp
  moreover have "length u < i"
  proof -
    from uv have "length (take i s) = length u + length pat + length v" by simp
    moreover have "length (take i s) \<le> i" by simp
    moreover from \<open>pat \<noteq> []\<close> have "length pat > 0" by simp
    ultimately show ?thesis by linarith
  qed
  ultimately show False using find_in_least[OF assms(1)] by blast
qed

lemma find_from_SomeD:
  assumes "find_from pat s pos = Some p"
  shows "pos \<le> p" and "p + length pat \<le> length s" and "prefix pat (drop p s)"
proof -
  from assms obtain i where i: "find_in pat (drop pos s) = Some i" "p = pos + i" "pos \<le> length s"
    by (auto simp: find_from_def split: if_splits)
  from find_in_SomeD[OF i(1)] i show "pos \<le> p" "p + length pat \<le> length s" "prefix pat (drop p s)"
    by (auto simp: add.commute)
qed

lemma find_from_empty [simp]: "find_from [] s pos = (if pos \<le> length s then Some pos else None)"
  by (simp add: find_from_def)

lemma find_from_char_None: "find_from [c] s pos = None \<longleftrightarrow> c \<notin> set (drop pos s)"
  by (auto simp: find_from_def find_in_None_iff sublist_def in_set_conv_decomp)

lemma find_at_None [simp]: "find_at pat s None = None"
  by (simp add: find_at_def)

lemma find_at_Some [simp]: "find_at pat s (Some p) = find_from pat s p"
  by (simp add: find_at_def)

lemma set_substr_subset: "set (substr s p n) \<subseteq> set s"
  unfolding substr_def by (meson order_trans set_drop_subset set_take_subset)
lemma find_first_not_of_None_iff: "find_first_not_of cs s = None \<longleftrightarrow> set s \<subseteq> set cs"
  by (induction s) auto

lemma find_first_not_of_SomeD:
  "find_first_not_of cs s = Some i \<Longrightarrow>
     i < length s \<and> s ! i \<notin> set cs \<and> set (take i s) \<subseteq> set cs"
  by (induction s arbitrary: i) (auto split: if_splits)

lemma find_last_not_of_None_iff: "find_last_not_of cs s = None \<longleftrightarrow> set s \<subseteq> set cs"
  by (simp add: find_last_not_of_def find_first_not_of_None_iff)

lemma find_last_not_of_SomeD:
  assumes "find_last_not_of cs s = Some i"
  shows "i < length s" and "s ! i \<notin> set cs" and "set (drop (Suc i) s) \<subseteq> set cs"
proof -
  from assms obtain j where j: "find_first_not_of cs (rev s) = Some j" "i = length s - 1 - j"
    by (auto simp: find_last_not_of_def)
  from find_first_not_of_SomeD[OF j(1)]
  have f: "j < length s" "rev s ! j \<notin> set cs" "set (take j (rev s)) \<subseteq> set cs" by auto
  then show "i < length s" using j(2) by simp
  have "rev s ! j = s ! i" using f(1) j(2) by (simp add: rev_nth)
  with f(2) show "s ! i \<notin> set cs" by simp
  have "Suc i = length s - j" using f(1) j(2) by simp
  then have "take j (rev s) = rev (drop (Suc i) s)" by (simp add: take_rev)
  with f(3) show "set (drop (Suc i) s) \<subseteq> set cs" by simp
qed

lemma split_at_first:
  "x \<notin> set xs \<Longrightarrow> x \<notin> set xs' \<Longrightarrow> xs @ x # ys = xs' @ x # ys' \<longleftrightarrow> xs = xs' \<and> ys = ys'"
proof (induction xs arbitrary: xs')
  case Nil
  then show ?case by (cases xs') auto
next
  case (Cons c xs)
  then show ?case by (cases xs') auto
qed

subsection \<open>Decimal numbers\<close>

lemma show_nat_nonempty [simp]: "show_nat n \<noteq> []"
  by (subst show_nat.simps) simp

fun digits_val :: "string \<Rightarrow> nat" where
  "digits_val s = foldl (\<lambda>acc c. 10 * acc + (char_code c - 48)) 0 s"

declare digits_val.simps [simp del]

lemma char_code_digit [simp]: "d < 10 \<Longrightarrow> char_code (digit_char d) = 48 + d"
  by (simp add: char_code_def digit_char_def of_char_of)

lemma digits_val_snoc: "digits_val (s @ [c]) = 10 * digits_val s + (char_code c - 48)"
  by (simp add: digits_val.simps)

lemma digits_val_show_nat [simp]: "digits_val (show_nat n) = n"
proof (induction n rule: show_nat.induct)
  case (1 n)
  show ?case
  proof (cases "n < 10")
    case True
    then show ?thesis by (subst show_nat.simps) (simp add: digits_val.simps)
  next
    case False
    with "1.IH" show ?thesis by (subst show_nat.simps) (simp add: digits_val_snoc)
  qed
qed

lemma show_nat_inj [simp]: "show_nat m = show_nat n \<longleftrightarrow> m = n"
  by (metis digits_val_show_nat)

lemma is_digit_digit_char: "d < 10 \<Longrightarrow> is_digit (digit_char d)"
  by (simp add: is_digit_def)

lemma show_nat_digits: "c \<in> set (show_nat n) \<Longrightarrow> is_digit c"
proof (induction n rule: show_nat.induct)
  case (1 n)
  show ?case
  proof (cases "n < 10")
    case True
    with "1.prems" show ?thesis
      by (subst (asm) show_nat.simps) (simp add: is_digit_digit_char)
  next
    case False
    with "1.prems" have "c \<in> set (show_nat (n div 10)) \<or> c = digit_char (n mod 10)"
      by (subst (asm) show_nat.simps) auto
    with False "1.IH" show ?thesis by (auto simp: is_digit_digit_char)
  qed
qed

section \<open>Ordered maps\<close>

text \<open>
  \<open>std::map\<close> as an interface: lookup after insertion and erasure, and an enumeration of the
  entries in strictly ascending key order.  The components that iterate over a map
  (the registries, the JSON sink) rely on these laws only.
\<close>

lemma map_keys_map_of:
  assumes "distinct (map fst xs)"
  shows "map (\<lambda>k. (k, the (map_of xs k))) (map fst xs) = xs"
proof -
  have "map ((\<lambda>k. (k, the (map_of xs k))) \<circ> fst) xs = map id xs"
    using assms by (intro map_cong) (auto simp: map_of_is_SomeI)
  then show ?thesis by simp
qed

locale std_map =
  fixes empty :: "'m"
    and get :: "'m \<Rightarrow> 'k::linorder \<Rightarrow> 'v option"
    and put :: "'k \<Rightarrow> 'v \<Rightarrow> 'm \<Rightarrow> 'm"
    and erase :: "'k \<Rightarrow> 'm \<Rightarrow> 'm"
    and entries :: "'m \<Rightarrow> ('k \<times> 'v) list"
    and valid :: "'m \<Rightarrow> bool"
  assumes get_empty: "get empty = Map.empty"
    and get_put: "valid m \<Longrightarrow> get (put k v m) = (get m)(k \<mapsto> v)"
    and get_erase: "valid m \<Longrightarrow> get (erase k m) = (get m)(k := None)"
    and entries_get: "valid m \<Longrightarrow> map_of (entries m) = get m"
    and entries_sorted: "valid m \<Longrightarrow> sorted_wrt (<) (map fst (entries m))"
    and valid_empty: "valid empty"
    and valid_put: "valid m \<Longrightarrow> valid (put k v m)"
    and valid_erase: "valid m \<Longrightarrow> valid (erase k m)"
begin

lemmas map_laws = get_empty get_put get_erase valid_empty valid_put valid_erase

lemma entries_distinct: "valid m \<Longrightarrow> distinct (map fst (entries m))"
  using entries_sorted strict_sorted_iff by blast

lemma entry_iff: "valid m \<Longrightarrow> (k, v) \<in> set (entries m) \<longleftrightarrow> get m k = Some v"
  by (metis entries_distinct entries_get map_of_eq_Some_iff)

lemma keys_dom: "valid m \<Longrightarrow> fst ` set (entries m) = dom (get m)"
  by (metis dom_map_of_conv_image_fst entries_get)

lemma entries_from_keys:
  "valid m \<Longrightarrow> entries m = map (\<lambda>k. (k, the (get m k))) (map fst (entries m))"
  using map_keys_map_of[OF entries_distinct, of m] by (simp add: entries_get)

lemma same_entries:
  assumes "valid m" and "valid n" and "get m = get n"
  shows "entries m = entries n"
proof -
  have "set (map fst (entries m)) = set (map fst (entries n))"
    using assms by (simp add: keys_dom)
  then have "map fst (entries m) = map fst (entries n)"
    using assms(1,2) entries_sorted strict_sorted_equal by blast
  with assms show ?thesis
    using entries_from_keys[of m] entries_from_keys[of n] by simp
qed

lemma put_put: "valid m \<Longrightarrow> entries (put k v (put k w m)) = entries (put k v m)"
  by (rule same_entries) (simp_all add: map_laws)

text \<open>A loop that stores a value per entry of another enumeration, as the registries do.\<close>

lemma valid_fold_put: "valid m \<Longrightarrow> valid (foldl (\<lambda>acc kv. put (fst kv) (snd kv) acc) m kvs)"
  by (induction kvs arbitrary: m) (auto simp: valid_put)

lemma get_fold_put:
  "valid m \<Longrightarrow> distinct (map fst kvs) \<Longrightarrow>
     get (foldl (\<lambda>acc kv. put (fst kv) (snd kv) acc) m kvs) = get m ++ map_of kvs"
proof (induction kvs arbitrary: m)
  case (Cons kv kvs)
  obtain k v where kv: "kv = (k, v)" by (cases kv)
  from Cons.prems kv have "k \<notin> dom (map_of kvs)"
    by (simp add: dom_map_of_conv_image_fst)
  moreover have "get (foldl (\<lambda>acc kv. put (fst kv) (snd kv) acc) (put k v m) kvs)
      = get (put k v m) ++ map_of kvs"
    using Cons.prems kv by (intro Cons.IH) (simp_all add: valid_put)
  ultimately show ?case using Cons.prems kv
    by (simp add: get_put map_add_upd_left) (simp add: fun_eq_iff map_add_def)
qed simp

lemma copy_entries:
  assumes "sorted_wrt (<) (map fst kvs)"
  shows "entries (foldl (\<lambda>acc kv. put (fst kv) (snd kv) acc) empty kvs) = kvs"
proof -
  let ?m = "foldl (\<lambda>acc kv. put (fst kv) (snd kv) acc) empty kvs"
  have d: "distinct (map fst kvs)" using assms strict_sorted_iff by blast
  have v: "valid ?m" by (simp add: valid_fold_put valid_empty)
  have g: "get ?m = map_of kvs" using d by (simp add: get_fold_put get_empty valid_empty)
  have "set (map fst (entries ?m)) = set (map fst kvs)"
    using keys_dom[OF v] g by (simp add: dom_map_of_conv_image_fst)
  then have k: "map fst (entries ?m) = map fst kvs"
    using assms entries_sorted[OF v] strict_sorted_equal by blast
  have "entries ?m = map (\<lambda>k. (k, the (map_of kvs k))) (map fst kvs)"
    using entries_from_keys[OF v] g k by simp
  also have "\<dots> = kvs" using d by (rule map_keys_map_of)
  finally show ?thesis .
qed

end

text \<open>The implementation: an association list in ascending key order.\<close>

type_synonym ('k, 'v) omap = "('k \<times> 'v) list"

primrec omap_put :: "'k::linorder \<Rightarrow> 'v \<Rightarrow> ('k, 'v) omap \<Rightarrow> ('k, 'v) omap" where
  "omap_put k v [] = [(k, v)]"
| "omap_put k v (e # m) =
     (if k < fst e then (k, v) # e # m
      else if k = fst e then (k, v) # m
      else e # omap_put k v m)"

definition omap_get :: "('k::linorder, 'v) omap \<Rightarrow> 'k \<Rightarrow> 'v option" where
  "omap_get m k = map_of m k"

definition omap_erase :: "'k::linorder \<Rightarrow> ('k, 'v) omap \<Rightarrow> ('k, 'v) omap" where
  "omap_erase k m = filter (\<lambda>e. fst e \<noteq> k) m"

definition omap_valid :: "('k::linorder, 'v) omap \<Rightarrow> bool" where
  "omap_valid m \<longleftrightarrow> sorted_wrt (<) (map fst m)"

lemma fst_set_omap_put: "fst ` set (omap_put k v m) = insert k (fst ` set m)"
  by (induction m) auto

lemma omap_valid_put: "omap_valid m \<Longrightarrow> omap_valid (omap_put k v m)"
proof (induction m)
  case (Cons e m)
  then have "omap_valid (omap_put k v m)" by (simp add: omap_valid_def)
  with Cons.prems fst_set_omap_put[of k v m] show ?case
    by (auto simp: omap_valid_def)
qed (simp add: omap_valid_def)

lemma omap_get_put: "omap_valid m \<Longrightarrow> omap_get (omap_put k v m) = (omap_get m)(k \<mapsto> v)"
proof (induction m)
  case (Cons e m)
  then show ?case
    by (auto simp: omap_valid_def omap_get_def fun_eq_iff split: if_splits)
qed (auto simp: omap_get_def)

lemma omap_get_erase: "omap_get (omap_erase k m) = (omap_get m)(k := None)"
  by (induction m) (auto simp: omap_get_def omap_erase_def)

lemma omap_valid_erase: "omap_valid m \<Longrightarrow> omap_valid (omap_erase k m)"
  by (induction m) (auto simp: omap_valid_def omap_erase_def)

interpretation omap: std_map "[] :: ('k::linorder, 'v) omap" omap_get omap_put omap_erase
  "\<lambda>m. m" omap_valid
  by unfold_locales
    (auto simp: omap_get_put omap_get_erase omap_valid_put omap_valid_erase,
      auto simp: omap_get_def omap_valid_def)

lemmas omap_laws = omap.map_laws

end
