(* ===== verification/Transitions.thy ===== *)
theory Transitions
  imports Zyrnix_Prelude
begin

text \<open>
  Systems of threads: a predicate of initial states and a step relation with labels.  The locale
  \<open>invariant_of\<close> is the interface of an inductive invariant; every concurrent component
  interprets it on its own step relation.
\<close>

inductive reach :: "('s \<Rightarrow> bool) \<Rightarrow> ('s \<Rightarrow> 'l \<Rightarrow> 's \<Rightarrow> bool) \<Rightarrow> 's \<Rightarrow> bool"
  for init :: "'s \<Rightarrow> bool" and step :: "'s \<Rightarrow> 'l \<Rightarrow> 's \<Rightarrow> bool" where
  reach_init: "init s \<Longrightarrow> reach init step s"
| reach_step: "reach init step s \<Longrightarrow> step s l s' \<Longrightarrow> reach init step s'"

text \<open>A sequence of labelled steps.\<close>

inductive run :: "('s \<Rightarrow> 'l \<Rightarrow> 's \<Rightarrow> bool) \<Rightarrow> 's \<Rightarrow> 'l list \<Rightarrow> 's \<Rightarrow> bool"
  for step :: "'s \<Rightarrow> 'l \<Rightarrow> 's \<Rightarrow> bool" where
  run_Nil: "run step s [] s"
| run_Cons: "step s l s1 \<Longrightarrow> run step s1 ls s2 \<Longrightarrow> run step s (l # ls) s2"

inductive_simps run_Nil_iff [simp]: "run step s [] s'"
inductive_simps run_Cons_iff: "run step s (l # ls) s'"

lemma run_append:
  "run step s ls s1 \<Longrightarrow> run step s1 ls' s2 \<Longrightarrow> run step s (ls @ ls') s2"
  by (induction rule: run.induct) (auto intro: run_Cons)

lemma run_reach: "run step s ls s' \<Longrightarrow> reach init step s \<Longrightarrow> reach init step s'"
  by (induction rule: run.induct) (auto intro: reach_step)

text \<open>A state in which no step is possible.\<close>

definition stuck :: "('s \<Rightarrow> 'l \<Rightarrow> 's \<Rightarrow> bool) \<Rightarrow> 's \<Rightarrow> bool" where
  "stuck step s \<longleftrightarrow> \<not> (\<exists>l s'. step s l s')"

locale invariant_of =
  fixes init :: "'s \<Rightarrow> bool" and step :: "'s \<Rightarrow> 'l \<Rightarrow> 's \<Rightarrow> bool" and inv :: "'s \<Rightarrow> bool"
  assumes inv_init: "init s \<Longrightarrow> inv s"
    and inv_step: "inv s \<Longrightarrow> step s l s' \<Longrightarrow> inv s'"
begin

lemma invariant: "reach init step s \<Longrightarrow> inv s"
  by (induction rule: reach.induct) (auto intro: inv_init inv_step)

lemma invariant_run: "run step s ls s' \<Longrightarrow> inv s \<Longrightarrow> inv s'"
  by (induction rule: run.induct) (auto intro: inv_step)

end

text \<open>Counting the threads in a position.\<close>

lemma length_filter_update:
  "i < length xs \<Longrightarrow>
     int (length (filter P (xs[i := x])))
     = int (length (filter P xs)) - (if P (xs ! i) then 1 else 0) + (if P x then 1 else 0)"
proof (induction xs arbitrary: i)
  case (Cons y xs)
  show ?case
  proof (cases i)
    case (Suc k)
    with Cons.IH[of k] Cons.prems show ?thesis
      by (cases "P (xs ! k)"; cases "P x"; cases "P y"; simp)
  qed (use Cons.prems in simp)
qed simp

text \<open>A relation between any two different threads, when one thread moves.\<close>

lemma pairwise_update:
  assumes "\<forall>i < length xs. \<forall>j < length xs. i \<noteq> j \<longrightarrow> R (xs ! i) (xs ! j)" and "k < length xs"
    and "\<And>u. u \<in> set xs \<Longrightarrow> R (xs ! k) u \<Longrightarrow> R u (xs ! k) \<Longrightarrow> R x u \<and> R u x"
  shows "\<forall>i < length (xs[k := x]). \<forall>j < length (xs[k := x]). i \<noteq> j \<longrightarrow>
    R (xs[k := x] ! i) (xs[k := x] ! j)"
proof -
  have "R x (xs ! j) \<and> R (xs ! j) x" if "j < length xs" "j \<noteq> k" for j
    using that assms(1,2) assms(3)[of "xs ! j"] by simp
  with assms(1,2) show ?thesis by (simp add: nth_list_update)
qed

lemma all_update:
  assumes "\<And>j. j < length xs \<Longrightarrow> j \<noteq> k \<Longrightarrow> P (xs ! j)" and "P x"
  shows "\<forall>u \<in> set (xs[k := x]). P u"
proof -
  have "P (xs[k := x] ! j)" if "j < length xs" for j
    using that assms by (cases "j = k") simp_all
  then show ?thesis by (simp add: all_set_conv_all_nth)
qed

end
