(* ===== verification/Logger_Threads.thy ===== *)
theory Logger_Threads
  imports Transitions
begin

text \<open>
  Threads inside the logger: the locking of \<open>src/logger.cpp\<close>.  A method is the list of its
  synchronisation actions and shared accesses in program order, \<open>mtx_\<close> being the mutex and
  \<open>sinks_mtx_\<close> the reader-writer lock; the reference counts of the sink entries are those of
  \<open>SinkGuard\<close>.  What a method decides from the state (whether a temporary level has expired, a
  filter accepts, a sink is found) is an argument of its program, so that the theorems hold for
  every outcome.  A system is a list of threads, each with the locks it holds and the actions it
  has left.  \<open>User_code\<close> stands for callbacks and filters, which the logger calls while it holds
  \<open>mtx_\<close>: as an action of its own it is code that does not come back to the logger;
  \<open>reenter\<close> below puts code that does in its place.
\<close>

section \<open>Actions and methods\<close>

datatype action =
  Lock_mtx | Unlock_mtx
| Lock_sinks | Unlock_sinks
| Lock_shared | Unlock_shared
| Take_ref nat | Drop_ref nat
| Call_sink nat
| Mark nat
| Await_ref nat             \<comment> \<open>\<open>wait_for_sink_drain\<close>, which also ends by a timeout\<close>
| Read_mark nat
| Read_entries | Write_entries
| Read_overrides | Write_overrides
| Access_settings           \<comment> \<open>filters, redaction settings, callbacks, history\<close>
| User_code                 \<comment> \<open>level change callbacks, filters\<close>

text \<open>\<open>check_temporary_level_expiry\<close>: the callbacks run when the temporary level has expired.\<close>

definition expiry_prog :: "bool \<Rightarrow> action list" where
  "expiry_prog expired =
     [Lock_mtx, Access_settings] @ (if expired then [User_code] else []) @ [Unlock_mtx]"

text \<open>
  An iteration of the loop over the sinks: the entry is marked, its override refuses the level,
  the guard is false (no sink), or the sink is called.
\<close>

datatype visit = Skip_marked nat | Skip_level nat | Skip_null nat | Visit nat

fun visit_prog :: "visit \<Rightarrow> action list" where
  "visit_prog (Skip_marked i) = [Read_entries, Read_mark i]"
| "visit_prog (Skip_level i) = [Read_entries, Read_mark i, Read_overrides]"
| "visit_prog (Skip_null i) = [Read_entries, Read_mark i, Read_overrides, Take_ref i, Drop_ref i]"
| "visit_prog (Visit i) =
     [Read_entries, Read_mark i, Read_overrides, Take_ref i, Read_mark i, Call_sink i, Drop_ref i]"

text \<open>
  \<open>log\<close>: the expiry of a temporary level, the filters under \<open>mtx_\<close>, and, unless they refuse the
  record (\<^const>\<open>None\<close>), the copy of the redaction settings and the loop over the sinks.
\<close>

definition log_prog :: "bool \<Rightarrow> visit list option \<Rightarrow> action list" where
  "log_prog expired visits =
     expiry_prog expired @ [Lock_mtx, Access_settings, User_code]
     @ (case visits of
          None \<Rightarrow> [Unlock_mtx]
        | Some vs \<Rightarrow>
            [Access_settings, Unlock_mtx, Lock_shared] @ concat (map visit_prog vs)
            @ [Read_entries, Unlock_shared])"

definition add_sink_prog :: "action list" where
  "add_sink_prog = [Lock_sinks, Write_entries, Unlock_sinks]"

definition clear_sinks_prog :: "nat list \<Rightarrow> action list" where
  "clear_sinks_prog es =
     [Lock_sinks] @ map Mark es @ map Await_ref es
     @ [Write_entries, Lock_mtx, Write_overrides, Unlock_mtx, Unlock_sinks]"

definition remove_sink_prog :: "nat \<Rightarrow> bool \<Rightarrow> action list" where
  "remove_sink_prog e wait_for_completion =
     [Lock_sinks, Read_entries, Mark e, Unlock_sinks]
     @ (if wait_for_completion then [Await_ref e] else [])
     @ [Lock_sinks, Write_entries, Unlock_sinks]"

text \<open>\<open>remove_sink\<close> that finds no sink.\<close>

definition remove_missing_prog :: "action list" where
  "remove_missing_prog = [Lock_sinks, Read_entries, Unlock_sinks]"

definition sink_count_prog :: "action list" where
  "sink_count_prog = [Lock_shared, Read_entries, Unlock_shared]"

definition set_sink_level_prog :: "action list" where
  "set_sink_level_prog =
     [Lock_mtx, Lock_shared, Read_entries, Write_overrides, Unlock_shared, Unlock_mtx]"

text \<open>An index out of range: nothing is written.\<close>

definition set_sink_level_ignored_prog :: "action list" where
  "set_sink_level_ignored_prog = [Lock_mtx, Lock_shared, Read_entries, Unlock_shared, Unlock_mtx]"

definition clear_overrides_prog :: "action list" where
  "clear_overrides_prog = [Lock_mtx, Write_overrides, Unlock_mtx]"

text \<open>
  \<open>set_level_dynamic\<close> takes \<open>mtx_\<close> for the expiry and again, when the level changes, for the
  history and the callbacks; the other level operations take it once.
\<close>

definition set_level_dynamic_prog :: "bool \<Rightarrow> bool \<Rightarrow> action list" where
  "set_level_dynamic_prog expired changed =
     expiry_prog expired
     @ (if changed then [Lock_mtx, Access_settings, User_code, Unlock_mtx] else [])"

definition set_level_temporary_prog :: "action list" where
  "set_level_temporary_prog = [Lock_mtx, Access_settings, User_code, Unlock_mtx]"

definition cancel_temporary_prog :: "bool \<Rightarrow> action list" where
  "cancel_temporary_prog active =
     [Lock_mtx, Access_settings] @ (if active then [User_code] else []) @ [Unlock_mtx]"

text \<open>
  The setters and getters that take \<open>mtx_\<close> once: redaction settings, callbacks, filters, named
  sink levels, level history, the queries of the temporary level.
\<close>

definition settings_prog :: "action list" where
  "settings_prog = [Lock_mtx, Access_settings, Unlock_mtx]"

section \<open>Threads\<close>

record thread =
  th_prog :: "action list"
  th_mtx :: bool
  th_excl :: bool
  th_shared :: bool
  th_guard :: "nat option"

definition thread_new :: "action list \<Rightarrow> thread" where
  "thread_new p =
     \<lparr>th_prog = p, th_mtx = False, th_excl = False, th_shared = False, th_guard = None\<rparr>"

record system =
  sy_threads :: "thread list"
  sy_refs :: "nat \<Rightarrow> int"

definition enabled :: "action \<Rightarrow> thread list \<Rightarrow> bool" where
  "enabled a ts =
     (case a of
        Lock_mtx \<Rightarrow> list_all (\<lambda>t. \<not> th_mtx t) ts
      | Lock_sinks \<Rightarrow> list_all (\<lambda>t. \<not> th_excl t \<and> \<not> th_shared t) ts
      | Lock_shared \<Rightarrow> list_all (\<lambda>t. \<not> th_excl t) ts
      | _ \<Rightarrow> True)"

fun perform :: "action \<Rightarrow> thread \<Rightarrow> thread" where
  "perform Lock_mtx t = t\<lparr>th_mtx := True\<rparr>"
| "perform Unlock_mtx t = t\<lparr>th_mtx := False\<rparr>"
| "perform Lock_sinks t = t\<lparr>th_excl := True\<rparr>"
| "perform Unlock_sinks t = t\<lparr>th_excl := False\<rparr>"
| "perform Lock_shared t = t\<lparr>th_shared := True\<rparr>"
| "perform Unlock_shared t = t\<lparr>th_shared := False\<rparr>"
| "perform (Take_ref i) t = t\<lparr>th_guard := Some i\<rparr>"
| "perform (Drop_ref i) t = t\<lparr>th_guard := None\<rparr>"
| "perform _ t = t"

fun count_refs :: "action \<Rightarrow> (nat \<Rightarrow> int) \<Rightarrow> nat \<Rightarrow> int" where
  "count_refs (Take_ref i) refs = refs(i := refs i + 1)"
| "count_refs (Drop_ref i) refs = refs(i := refs i - 1)"
| "count_refs _ refs = refs"

inductive sys_step :: "system \<Rightarrow> nat \<Rightarrow> system \<Rightarrow> bool" where
  sys_act: "i < length (sy_threads s) \<Longrightarrow> th_prog (sy_threads s ! i) = a # rest \<Longrightarrow>
    enabled a (sy_threads s) \<Longrightarrow>
    sys_step s i (s\<lparr>sy_threads := (sy_threads s)[i := perform a ((sy_threads s ! i)\<lparr>th_prog := rest\<rparr>)],
                    sy_refs := count_refs a (sy_refs s)\<rparr>)"

inductive_cases sys_stepE: "sys_step s i s'"

definition sys_init :: "action list list \<Rightarrow> system \<Rightarrow> bool" where
  "sys_init progs s \<longleftrightarrow> s = \<lparr>sy_threads = map thread_new progs, sy_refs = (\<lambda>_. 0)\<rparr>"

section \<open>The locking discipline\<close>

text \<open>
  What is checked of a program, given the locks held: every lock is released, none is taken twice,
  an entry is referenced only under the shared lock, the list of entries is read under a lock on
  it and written under the exclusive one.
\<close>

fun disciplined :: "bool \<Rightarrow> bool \<Rightarrow> bool \<Rightarrow> nat option \<Rightarrow> action list \<Rightarrow> bool" where
  "disciplined m x r g [] = (\<not> m \<and> \<not> x \<and> \<not> r \<and> g = None)"
| "disciplined m x r g (a # as) =
     (case a of
        Lock_mtx \<Rightarrow> \<not> m \<and> disciplined True x r g as
      | Unlock_mtx \<Rightarrow> m \<and> disciplined False x r g as
      | Lock_sinks \<Rightarrow> \<not> x \<and> \<not> r \<and> disciplined m True r g as
      | Unlock_sinks \<Rightarrow> x \<and> disciplined m False r g as
      | Lock_shared \<Rightarrow> \<not> x \<and> \<not> r \<and> disciplined m x True g as
      | Unlock_shared \<Rightarrow> r \<and> g = None \<and> disciplined m x False g as
      | Take_ref i \<Rightarrow> r \<and> g = None \<and> disciplined m x r (Some i) as
      | Drop_ref i \<Rightarrow> g = Some i \<and> disciplined m x r None as
      | Call_sink i \<Rightarrow> g = Some i \<and> disciplined m x r g as
      | Read_entries \<Rightarrow> (x \<or> r) \<and> disciplined m x r g as
      | Write_entries \<Rightarrow> x \<and> disciplined m x r g as
      | Access_settings \<Rightarrow> m \<and> disciplined m x r g as
      | _ \<Rightarrow> disciplined m x r g as)"

text \<open>\<open>sinks_mtx_\<close> is never requested while \<open>mtx_\<close> is held.\<close>

fun ordered :: "bool \<Rightarrow> action list \<Rightarrow> bool" where
  "ordered m [] = True"
| "ordered m (a # as) =
     (case a of
        Lock_mtx \<Rightarrow> ordered True as
      | Unlock_mtx \<Rightarrow> ordered False as
      | Lock_sinks \<Rightarrow> \<not> m \<and> ordered m as
      | Lock_shared \<Rightarrow> \<not> m \<and> ordered m as
      | _ \<Rightarrow> ordered m as)"

lemma disciplined_visit: "disciplined m x True None (visit_prog v @ as) = disciplined m x True None as"
  by (cases v) simp_all

lemma disciplined_visits:
  "disciplined m x True None (concat (map visit_prog vs) @ as) = disciplined m x True None as"
  by (induction vs) (simp_all add: disciplined_visit)

lemma disciplined_marks:
  "disciplined m x r g (map Mark es @ as) = disciplined m x r g as"
  "disciplined m x r g (map Await_ref es @ as) = disciplined m x r g as"
  by (induction es) simp_all

lemma ordered_visit: "ordered m (visit_prog v @ as) = ordered m as"
  by (cases v) simp_all

lemma ordered_visits: "ordered m (concat (map visit_prog vs) @ as) = ordered m as"
  by (induction vs) (simp_all add: ordered_visit)

lemma ordered_marks:
  "ordered m (map Mark es @ as) = ordered m as"
  "ordered m (map Await_ref es @ as) = ordered m as"
  by (induction es) simp_all

datatype logger_call =
  Log bool "visit list option" | Add_sink | Clear_sinks "nat list" | Remove_sink nat bool
| Remove_missing | Sink_count | Clear_overrides | Settings
| Set_level_dynamic bool bool | Set_level_temporary | Cancel_temporary bool
| Set_sink_level | Set_sink_level_ignored

fun method_prog :: "logger_call \<Rightarrow> action list" where
  "method_prog (Log expired visits) = log_prog expired visits"
| "method_prog Add_sink = add_sink_prog"
| "method_prog (Clear_sinks es) = clear_sinks_prog es"
| "method_prog (Remove_sink e wait) = remove_sink_prog e wait"
| "method_prog Remove_missing = remove_missing_prog"
| "method_prog Sink_count = sink_count_prog"
| "method_prog Clear_overrides = clear_overrides_prog"
| "method_prog Settings = settings_prog"
| "method_prog (Set_level_dynamic expired changed) = set_level_dynamic_prog expired changed"
| "method_prog Set_level_temporary = set_level_temporary_prog"
| "method_prog (Cancel_temporary active) = cancel_temporary_prog active"
| "method_prog Set_sink_level = set_sink_level_prog"
| "method_prog Set_sink_level_ignored = set_sink_level_ignored_prog"

lemmas prog_defs = log_prog_def expiry_prog_def add_sink_prog_def clear_sinks_prog_def
  remove_sink_prog_def remove_missing_prog_def sink_count_prog_def clear_overrides_prog_def
  settings_prog_def set_level_dynamic_prog_def set_level_temporary_prog_def
  cancel_temporary_prog_def set_sink_level_prog_def set_sink_level_ignored_prog_def

lemma method_disciplined: "disciplined False False False None (method_prog m)"
  by (cases m) (simp_all add: prog_defs disciplined_visits disciplined_marks split: option.splits)

lemma method_ordered:
  "m \<noteq> Set_sink_level \<Longrightarrow> m \<noteq> Set_sink_level_ignored \<Longrightarrow> ordered False (method_prog m)"
  by (cases m) (simp_all add: prog_defs ordered_visits ordered_marks split: option.splits)

section \<open>Invariants\<close>

definition thread_ok :: "thread \<Rightarrow> bool" where
  "thread_ok t \<longleftrightarrow>
     disciplined (th_mtx t) (th_excl t) (th_shared t) (th_guard t) (th_prog t)
     \<and> (th_guard t \<noteq> None \<longrightarrow> th_shared t) \<and> \<not> (th_excl t \<and> th_shared t)"

definition exclusive :: "thread \<Rightarrow> thread \<Rightarrow> bool" where
  "exclusive t u \<longleftrightarrow>
     \<not> (th_mtx t \<and> th_mtx u) \<and> (th_excl t \<longrightarrow> \<not> th_excl u \<and> \<not> th_shared u)"

definition sys_ok :: "system \<Rightarrow> bool" where
  "sys_ok s \<longleftrightarrow>
     (\<forall>t \<in> set (sy_threads s). thread_ok t)
     \<and> (\<forall>i < length (sy_threads s). \<forall>j < length (sy_threads s). i \<noteq> j \<longrightarrow>
          exclusive (sy_threads s ! i) (sy_threads s ! j))
     \<and> (\<forall>e. sy_refs s e = int (length (filter (\<lambda>t. th_guard t = Some e) (sy_threads s))))"

lemma perform_ok:
  assumes "thread_ok t" and "th_prog t = a # rest"
  shows "thread_ok (perform a (t\<lparr>th_prog := rest\<rparr>))"
  using assms by (cases a) (auto simp: thread_ok_def)

lemma perform_exclusive:
  assumes "thread_ok t" "th_prog t = a # rest" and "enabled a ts" and "u \<in> set ts"
    and "exclusive t u" and "exclusive u t"
  shows "exclusive (perform a (t\<lparr>th_prog := rest\<rparr>)) u
    \<and> exclusive u (perform a (t\<lparr>th_prog := rest\<rparr>))"
  using assms by (cases a) (auto simp: thread_ok_def exclusive_def enabled_def list_all_iff)

lemma perform_refs:
  assumes "thread_ok t" and "th_prog t = a # rest"
  shows "count_refs a refs e = refs e - (if th_guard t = Some e then 1 else 0)
    + (if th_guard (perform a (t\<lparr>th_prog := rest\<rparr>)) = Some e then 1 else 0)"
  using assms by (cases a) (auto simp: thread_ok_def)

lemma sys_step_ok:
  assumes ok: "sys_ok s" and "sys_step s i s'"
  shows "sys_ok s'"
proof -
  obtain a rest where 1: "i < length (sy_threads s)" "th_prog (sy_threads s ! i) = a # rest"
      "enabled a (sy_threads s)"
      "s' = s\<lparr>sy_threads := (sy_threads s)[i := perform a ((sy_threads s ! i)\<lparr>th_prog := rest\<rparr>)],
              sy_refs := count_refs a (sy_refs s)\<rparr>"
    using assms(2) by (elim sys_stepE) blast
  let ?ts = "sy_threads s" and ?t = "perform a ((sy_threads s ! i)\<lparr>th_prog := rest\<rparr>)"
  from ok 1(1) have t: "thread_ok (?ts ! i)" by (simp add: sys_ok_def)
  have "\<forall>u \<in> set (?ts[i := ?t]). thread_ok u"
    using ok perform_ok[OF t 1(2)] by (intro all_update) (simp_all add: sys_ok_def)
  moreover have "\<forall>j < length (?ts[i := ?t]). \<forall>k < length (?ts[i := ?t]). j \<noteq> k \<longrightarrow>
      exclusive (?ts[i := ?t] ! j) (?ts[i := ?t] ! k)"
    using ok perform_exclusive[OF t 1(2,3)]
    by (intro pairwise_update[OF _ 1(1)]) (simp_all add: sys_ok_def)
  moreover have "count_refs a (sy_refs s) e
      = int (length (filter (\<lambda>t. th_guard t = Some e) (?ts[i := ?t])))" for e
    using ok perform_refs[OF t 1(2), of "sy_refs s" e] length_filter_update[OF 1(1)]
    by (simp add: sys_ok_def)
  ultimately show ?thesis using 1(4) by (simp add: sys_ok_def)
qed

lemma sys_init_ok:
  assumes "\<forall>p \<in> set progs. disciplined False False False None p" and "sys_init progs s"
  shows "sys_ok s"
proof -
  have "filter (\<lambda>t. th_guard t = Some e) (map thread_new progs) = []" for e
    by (simp add: filter_empty_conv thread_new_def)
  with assms show ?thesis
    by (simp add: sys_ok_def sys_init_def thread_ok_def exclusive_def thread_new_def)
qed

interpretation logger_threads: invariant_of "sys_init (map method_prog ms)" sys_step sys_ok
proof
  show "sys_init (map method_prog ms) s \<Longrightarrow> sys_ok s" for s
    by (rule sys_init_ok[of "map method_prog ms"]) (simp_all add: method_disciplined)
  show "sys_ok s \<Longrightarrow> sys_step s i s' \<Longrightarrow> sys_ok s'" for s i s'
    by (rule sys_step_ok)
qed

text \<open>
  C12. In every interleaving of any calls of the logger's methods: a thread that holds
  \<open>sinks_mtx_\<close> exclusively is alone on it and finds every reference count zero, so that
  \<open>clear_sinks\<close> never waits for a sink; the reference counts are the numbers of guards alive;
  and no two threads access the list of entries at the same time when one of them writes it.
\<close>

theorem sinks_lock_protects:
  assumes "reach (sys_init (map method_prog ms)) sys_step s"
    and "i < length (sy_threads s)" and "j < length (sy_threads s)" and "i \<noteq> j"
  shows "(th_excl (sy_threads s ! i) \<longrightarrow> (\<forall>e. sy_refs s e = 0)
        \<and> \<not> th_excl (sy_threads s ! j) \<and> \<not> th_shared (sy_threads s ! j))
    \<and> (\<forall>e. sy_refs s e = int (length (filter (\<lambda>t. th_guard t = Some e) (sy_threads s))))
    \<and> (\<forall>rest rest'. th_prog (sy_threads s ! i) = Write_entries # rest \<longrightarrow>
          th_prog (sy_threads s ! j) \<notin> {Write_entries # rest', Read_entries # rest'})"
proof -
  from logger_threads.invariant[OF assms(1)] have ok: "sys_ok s" .
  let ?t = "sy_threads s ! i" and ?u = "sy_threads s ! j"
  have t: "thread_ok ?t" "thread_ok ?u" and ex: "exclusive ?t ?u"
    using ok assms(2-4) by (simp_all add: sys_ok_def)
  have alone: "\<forall>e. sy_refs s e = 0" if x: "th_excl ?t"
  proof
    fix e
    have "th_guard v = None" if vs: "v \<in> set (sy_threads s)" for v
    proof -
      obtain k where k: "k < length (sy_threads s)" "v = sy_threads s ! k"
        using vs by (auto simp: in_set_conv_nth)
      have v: "thread_ok v" using ok vs by (simp add: sys_ok_def)
      have "\<not> th_shared v"
      proof (cases "k = i")
        case True
        with k v x show ?thesis by (simp add: thread_ok_def)
      next
        case False
        then have "exclusive ?t v" using ok assms(2) k by (auto simp: sys_ok_def)
        with x show ?thesis by (simp add: exclusive_def)
      qed
      with v show ?thesis by (auto simp: thread_ok_def)
    qed
    then have "filter (\<lambda>t. th_guard t = Some e) (sy_threads s) = []"
      by (auto simp: filter_empty_conv)
    with ok show "sy_refs s e = 0" by (simp add: sys_ok_def)
  qed
  have race: "th_prog ?u \<notin> {Write_entries # rest', Read_entries # rest'}"
    if "th_prog ?t = Write_entries # rest" for rest rest'
  proof -
    have "th_excl ?t" using t(1) that by (simp add: thread_ok_def)
    with ex have "\<not> th_excl ?u" "\<not> th_shared ?u" by (simp_all add: exclusive_def)
    with t(2) show ?thesis by (auto simp: thread_ok_def)
  qed
  from alone race ex ok show ?thesis by (auto simp: exclusive_def sys_ok_def)
qed

section \<open>Deadlock\<close>

text \<open>A schedule, executed: the thread of each step, \<^const>\<open>None\<close> if one of them is blocked.\<close>

definition act :: "nat \<Rightarrow> system \<Rightarrow> system option" where
  "act i s =
     (if i < length (sy_threads s)
      then (case th_prog (sy_threads s ! i) of
              [] \<Rightarrow> None
            | a # rest \<Rightarrow>
                if enabled a (sy_threads s)
                then Some (s\<lparr>sy_threads := (sy_threads s)[i := perform a ((sy_threads s ! i)\<lparr>th_prog := rest\<rparr>)],
                             sy_refs := count_refs a (sy_refs s)\<rparr>)
                else None)
      else None)"

fun schedule :: "nat list \<Rightarrow> system \<Rightarrow> system option" where
  "schedule [] s = Some s"
| "schedule (i # is) s = (case act i s of None \<Rightarrow> None | Some s' \<Rightarrow> schedule is s')"

lemma act_step: "act i s = Some s' \<longleftrightarrow> sys_step s i s'"
  by (auto simp: act_def sys_step.simps split: list.splits if_splits)

lemma schedule_run: "schedule is s = Some s' \<Longrightarrow> run sys_step s is s'"
proof (induction "is" arbitrary: s)
  case Nil
  then show ?case by (simp add: run_Nil)
next
  case (Cons i "is")
  then obtain s1 where "act i s = Some s1" "schedule is s1 = Some s'"
    by (auto split: option.splits)
  with Cons.IH show ?case by (auto simp: act_step intro: run_Cons)
qed

definition sys_of :: "logger_call list \<Rightarrow> system" where
  "sys_of ms = \<lparr>sy_threads = map (\<lambda>m. thread_new (method_prog m)) ms, sy_refs = (\<lambda>_. 0)\<rparr>"

lemma sys_of_reach: "reach (sys_init (map method_prog ms)) sys_step (sys_of ms)"
  by (rule reach_init) (simp add: sys_init_def sys_of_def)

lemma stuck_iff: "stuck sys_step s \<longleftrightarrow> (\<forall>i < length (sy_threads s). act i s = None)"
proof -
  have "\<not> (\<exists>s'. sys_step s i s') \<longleftrightarrow> act i s = None" for i
    by (auto simp flip: act_step)
  moreover have "act i s = None" if "\<not> i < length (sy_threads s)" for i
    using that by (simp add: act_def)
  ultimately show ?thesis unfolding stuck_def by blast
qed

theorem sinks_lock_protects_witness:
  "\<exists>s. schedule [0, 1, 1, 1] (sys_of [Clear_sinks [3], Log False (Some [Visit 3])]) = Some s
    \<and> (\<forall>e. sy_refs s e = 0) \<and> \<not> th_shared (sy_threads s ! 1)"
proof -
  let ?s0 = "sys_of [Clear_sinks [3], Log False (Some [Visit 3])]"
  obtain s where s: "schedule [0, 1, 1, 1] ?s0 = Some s"
    and f: "length (sy_threads s) = 2" "th_excl (sy_threads s ! 0)"
    by (simp add: sys_of_def act_def prog_defs thread_new_def enabled_def)
  from sinks_lock_protects[OF run_reach[OF schedule_run[OF s] sys_of_reach], of 0 1] f s
  show ?thesis by auto
qed

text \<open>A thread without \<open>mtx_\<close> in its way cannot be blocked for ever by the others.\<close>

definition thread_ordered :: "thread \<Rightarrow> bool" where
  "thread_ordered t \<longleftrightarrow> ordered (th_mtx t) (th_prog t)"

lemma perform_ordered:
  "thread_ordered t \<Longrightarrow> th_prog t = a # rest \<Longrightarrow> thread_ordered (perform a (t\<lparr>th_prog := rest\<rparr>))"
  by (cases a) (auto simp: thread_ordered_def)

lemma next_action:
  assumes "thread_ok t" and "th_mtx t \<or> th_excl t \<or> th_shared t"
  obtains a rest where "th_prog t = a # rest"
  using assms by (cases "th_prog t") (auto simp: thread_ok_def)

lemma ordered_not_stuck:
  assumes ok: "sys_ok s" and ord: "\<forall>t \<in> set (sy_threads s). thread_ordered t"
    and t: "t \<in> set (sy_threads s)" "th_prog t \<noteq> []"
  shows "\<not> stuck sys_step s"
proof -
  let ?ts = "sy_threads s"
  have step: "\<not> stuck sys_step s" if u: "u \<in> set ?ts" "th_prog u = a # rest" "enabled a ?ts" for u a rest
  proof -
    obtain i where "i < length ?ts" "u = ?ts ! i" using u(1) by (auto simp: in_set_conv_nth)
    with u(2,3) sys_act[of i s a rest] show ?thesis by (auto simp: stuck_def)
  qed
  have okt: "thread_ok u" if "u \<in> set ?ts" for u using ok that by (simp add: sys_ok_def)
  consider (mtx) u where "u \<in> set ?ts" "th_mtx u"
    | (sinks) u where "u \<in> set ?ts" "th_excl u \<or> th_shared u" "list_all (\<lambda>t. \<not> th_mtx t) ?ts"
    | (free) "list_all (\<lambda>t. \<not> th_mtx t \<and> \<not> th_excl t \<and> \<not> th_shared t) ?ts"
    by (auto simp: list_all_iff)
  then show ?thesis
  proof cases
    case mtx
    from next_action[OF okt[OF mtx(1)]] mtx(2) obtain a rest where p: "th_prog u = a # rest" by blast
    have "enabled a ?ts"
      using p mtx okt[OF mtx(1)] ord
      by (cases a) (auto simp: enabled_def thread_ok_def thread_ordered_def)
    with step mtx(1) p show ?thesis by blast
  next
    case sinks
    from next_action[OF okt[OF sinks(1)]] sinks(2) obtain a rest where p: "th_prog u = a # rest"
      by blast
    have "enabled a ?ts"
      using p sinks okt[OF sinks(1)] by (cases a) (auto simp: enabled_def thread_ok_def)
    with step sinks(1) p show ?thesis by blast
  next
    case free
    obtain a rest where p: "th_prog t = a # rest" using t(2) by (cases "th_prog t") auto
    have "enabled a ?ts" using free by (cases a) (auto simp: enabled_def list_all_iff)
    with step t(1) p show ?thesis by blast
  qed
qed

lemma ordered_invariant:
  "reach (sys_init progs) sys_step s \<Longrightarrow> \<forall>p \<in> set progs. ordered False p \<Longrightarrow>
     \<forall>t \<in> set (sy_threads s). thread_ordered t"
proof (induction rule: reach.induct)
  case (reach_init s)
  then show ?case by (auto simp: sys_init_def thread_ordered_def thread_new_def)
next
  case (reach_step s i s')
  from reach_step.hyps(2) obtain a rest where 1: "i < length (sy_threads s)"
      "th_prog (sy_threads s ! i) = a # rest"
      "sy_threads s' = (sy_threads s)[i := perform a ((sy_threads s ! i)\<lparr>th_prog := rest\<rparr>)]"
    by (elim sys_stepE) auto
  have "thread_ordered (sy_threads s ! i)" using reach_step 1(1) by simp
  from perform_ordered[OF this 1(2)] reach_step 1(3) show ?case
    using set_update_subset_insert by fastforce
qed

text \<open>
  C11. The logger's methods other than \<open>set_sink_level\<close> on an index never deadlock, if the level
  callbacks, filters and sinks do not come back to the logger: in every reachable state of any
  number of threads calling them, with every outcome of the tests the methods make, either all
  calls have returned or some thread can take a step.
\<close>

theorem logger_deadlock_free:
  assumes "Set_sink_level \<notin> set ms" and "Set_sink_level_ignored \<notin> set ms"
    and "reach (sys_init (map method_prog ms)) sys_step s" and "stuck sys_step s"
  shows "list_all (\<lambda>t. th_prog t = []) (sy_threads s)"
proof -
  have "\<forall>p \<in> set (map method_prog ms). ordered False p"
    using assms(1,2) by (auto intro!: method_ordered)
  from ordered_invariant[OF assms(3) this] logger_threads.invariant[OF assms(3)] assms(4)
  show ?thesis using ordered_not_stuck[of s] by (auto simp: list_all_iff)
qed

theorem logger_deadlock_free_witness:
  "\<exists>s. schedule (replicate 8 0) (sys_of [Set_level_dynamic True True]) = Some s
     \<and> list_all (\<lambda>t. th_prog t = []) (sy_threads s)"
proof -
  obtain s where s: "schedule (replicate 8 0) (sys_of [Set_level_dynamic True True]) = Some s"
    and st: "stuck sys_step s"
    by (simp add: sys_of_def act_def prog_defs thread_new_def enabled_def stuck_iff
        eval_nat_numeral)
  from logger_deadlock_free[OF _ _ run_reach[OF schedule_run[OF s] sys_of_reach] st] s
  show ?thesis by simp
qed

text \<open>
  User code that does come back to the logger: \<open>reenter\<close> puts the program of the method it calls
  in the place of \<open>User_code\<close>.  A level callback, or a filter, that calls a method that takes
  \<open>mtx_\<close>, as \<open>log\<close> does, waits for the mutex its own thread holds.
\<close>

definition reenter :: "action list \<Rightarrow> action list \<Rightarrow> action list" where
  "reenter nested p = concat (map (\<lambda>a. if a = User_code then nested else [a]) p)"

definition sys_with :: "action list \<Rightarrow> system" where
  "sys_with p = \<lparr>sy_threads = [thread_new p], sy_refs = (\<lambda>_. 0)\<rparr>"

lemma log_takes_mtx: "\<exists>rest. log_prog expired visits = Lock_mtx # rest"
  by (simp add: prog_defs)

lemma callback_self_deadlock:
  assumes "nested = Lock_mtx # rest"
  shows "\<exists>s. run sys_step (sys_with (reenter nested set_level_temporary_prog)) [0, 0] s
    \<and> stuck sys_step s \<and> th_prog (sy_threads s ! 0) \<noteq> []"
proof -
  obtain s where "schedule [0, 0] (sys_with (reenter nested set_level_temporary_prog)) = Some s"
    and "stuck sys_step s" and "th_prog (sy_threads s ! 0) \<noteq> []"
    using assms by (simp add: sys_with_def reenter_def act_def prog_defs thread_new_def
        enabled_def stuck_iff)
  with schedule_run show ?thesis by blast
qed

lemma filter_self_deadlock:
  assumes "nested = Lock_mtx # rest"
  shows "\<exists>s. run sys_step (sys_with (reenter nested (log_prog False visits))) [0, 0, 0, 0, 0] s
    \<and> stuck sys_step s \<and> th_prog (sy_threads s ! 0) \<noteq> []"
proof -
  obtain s where "schedule [0, 0, 0, 0, 0] (sys_with (reenter nested (log_prog False visits))) = Some s"
    and "stuck sys_step s" and "th_prog (sy_threads s ! 0) \<noteq> []"
    using assms by (simp add: sys_with_def reenter_def act_def prog_defs thread_new_def
        enabled_def stuck_iff)
  with schedule_run show ?thesis by blast
qed

text \<open>
  C36. With \<open>set_sink_level\<close> on an index they do: \<open>clear_sinks\<close> takes \<open>sinks_mtx_\<close> and then
  \<open>mtx_\<close>, \<open>set_sink_level\<close> takes \<open>mtx_\<close> and then \<open>sinks_mtx_\<close>; after the first lock of each
  no thread can go on.
\<close>

theorem clear_sinks_set_level_deadlock:
  "\<exists>s. run sys_step (sys_of [Clear_sinks [], Set_sink_level]) [0, 1, 0] s
    \<and> stuck sys_step s
    \<and> th_prog (sy_threads s ! 0) = [Lock_mtx, Write_overrides, Unlock_mtx, Unlock_sinks]
    \<and> th_prog (sy_threads s ! 1) = [Lock_shared, Read_entries, Write_overrides, Unlock_shared, Unlock_mtx]"
proof -
  obtain s where "schedule [0, 1, 0] (sys_of [Clear_sinks [], Set_sink_level]) = Some s"
    and "stuck sys_step s"
    and "th_prog (sy_threads s ! 0) = [Lock_mtx, Write_overrides, Unlock_mtx, Unlock_sinks]"
    and "th_prog (sy_threads s ! 1) = [Lock_shared, Read_entries, Write_overrides, Unlock_shared, Unlock_mtx]"
    by (simp add: sys_of_def act_def prog_defs thread_new_def enabled_def stuck_iff less_Suc_eq
        numeral_2_eq_2)
  with schedule_run show ?thesis by blast
qed

text \<open>
  The level overrides are read by \<open>log\<close> under the shared lock and written by \<open>set_sink_level\<close>
  under \<open>mtx_\<close> and the shared lock, so both can be at their access at once: a data race on
  \<open>sink_level_overrides_\<close>.
\<close>

lemma overrides_data_race:
  "\<exists>s. run sys_step (sys_of [Log False (Some [Visit 0]), Set_sink_level])
       (replicate 11 0 @ [1, 1, 1]) s
    \<and> hd (th_prog (sy_threads s ! 0)) = Read_overrides
    \<and> hd (th_prog (sy_threads s ! 1)) = Write_overrides
    \<and> enabled Read_overrides (sy_threads s) \<and> enabled Write_overrides (sy_threads s)"
proof -
  obtain s where "schedule (replicate 11 0 @ [1, 1, 1])
      (sys_of [Log False (Some [Visit 0]), Set_sink_level]) = Some s"
    and "hd (th_prog (sy_threads s ! 0)) = Read_overrides"
    and "hd (th_prog (sy_threads s ! 1)) = Write_overrides"
    by (simp add: sys_of_def act_def prog_defs thread_new_def enabled_def eval_nat_numeral)
  moreover have "enabled Read_overrides (sy_threads s)" "enabled Write_overrides (sy_threads s)"
    by (simp_all add: enabled_def)
  ultimately show ?thesis using schedule_run by blast
qed

end
