(* ===== verification/Log_Level.thy ===== *)
theory Log_Level
  imports Zyrnix_Prelude
begin

text \<open>
  Levels, records and colours: \<open>include/Zyrnix/log_level.hpp\<close>, \<open>log_record.hpp\<close>,
  \<open>log_macros.hpp\<close>, \<open>src/color.cpp\<close>, the level conversions of the sinks, and the two parsers
  of level names (\<open>parse_log_level\<close> of \<open>logger.cpp\<close> and \<open>ConfigLoader::parse_log_level\<close> of
  \<open>config.cpp\<close>).  The enumeration is ordered by its underlying integer.
\<close>

datatype level = Trace | Debug | Info | Warn | Error | Critical

primrec level_int :: "level \<Rightarrow> int" where
  "level_int Trace = 0"
| "level_int Debug = 1"
| "level_int Info = 2"
| "level_int Warn = 3"
| "level_int Error = 4"
| "level_int Critical = 5"

instantiation level :: linorder
begin

definition less_eq_level :: "level \<Rightarrow> level \<Rightarrow> bool" where
  "less_eq_level a b \<longleftrightarrow> level_int a \<le> level_int b"

definition less_level :: "level \<Rightarrow> level \<Rightarrow> bool" where
  "less_level a b \<longleftrightarrow> level_int a < level_int b"

instance
proof
  fix x y :: level
  show "x \<le> y \<Longrightarrow> y \<le> x \<Longrightarrow> x = y"
    by (cases x; cases y) (simp_all add: less_eq_level_def)
qed (auto simp: less_eq_level_def less_level_def)

end

lemma level_less_code [simp, code]: "a < b \<longleftrightarrow> level_int a < level_int (b :: level)"
  by (simp add: less_level_def)

lemma level_le_code [simp, code]: "a \<le> b \<longleftrightarrow> level_int a \<le> level_int (b :: level)"
  by (simp add: less_eq_level_def)

lemma level_int_inj [simp]: "level_int a = level_int b \<longleftrightarrow> a = b"
  by (cases a; cases b) simp_all

lemma level_int_range: "0 \<le> level_int l" "level_int l \<le> 5"
  by (cases l, simp_all)+

primrec to_string :: "level \<Rightarrow> string" where
  "to_string Trace = ''TRACE''"
| "to_string Debug = ''DEBUG''"
| "to_string Info = ''INFO''"
| "to_string Warn = ''WARN''"
| "to_string Error = ''ERROR''"
| "to_string Critical = ''CRITICAL''"

text \<open>\<open>struct LogRecord\<close>: the unordered map of fields is only ever searched, so it is a map.\<close>

record log_record =
  rec_logger_name :: string
  rec_level :: level
  rec_message :: string
  rec_timestamp :: time
  rec_fields :: "string \<Rightarrow> string option"

definition has_field :: "log_record \<Rightarrow> string \<Rightarrow> bool" where
  "has_field r key \<longleftrightarrow> rec_fields r key \<noteq> None"

definition get_field :: "log_record \<Rightarrow> string \<Rightarrow> string" where
  "get_field r key = (case rec_fields r key of Some v \<Rightarrow> v | None \<Rightarrow> [])"

text \<open>\<open>parse_log_level\<close> of \<open>logger.cpp\<close>: success and the level.\<close>

definition parse_log_level :: "string \<Rightarrow> bool \<times> level" where
  "parse_log_level level_str =
     (let lower = map to_lower level_str in
      if lower = ''trace'' then (True, Trace)
      else if lower = ''debug'' then (True, Debug)
      else if lower = ''info'' then (True, Info)
      else if lower = ''warn'' \<or> lower = ''warning'' then (True, Warn)
      else if lower = ''error'' then (True, Error)
      else if lower = ''critical'' \<or> lower = ''fatal'' then (True, Critical)
      else (False, Info))"

text \<open>\<open>ConfigLoader::parse_log_level\<close>: no report of failure, and no \<open>fatal\<close>.\<close>

definition config_parse_log_level :: "string \<Rightarrow> level" where
  "config_parse_log_level level =
     (let lower = map to_lower level in
      if lower = ''trace'' then Trace
      else if lower = ''debug'' then Debug
      else if lower = ''info'' then Info
      else if lower = ''warn'' \<or> lower = ''warning'' then Warn
      else if lower = ''error'' then Error
      else if lower = ''critical'' then Critical
      else Info)"

text \<open>Colours of the terminal.\<close>

datatype color = ColorNone | Red | Yellow | Blue | Green

definition ansi :: "string \<Rightarrow> string" where
  "ansi code = CHR 0x1B # ''['' @ code @ ''m''"

primrec apply_color :: "string \<Rightarrow> color \<Rightarrow> string" where
  "apply_color t Red = ansi ''31'' @ t @ ansi ''0''"
| "apply_color t Yellow = ansi ''33'' @ t @ ansi ''0''"
| "apply_color t Blue = ansi ''34'' @ t @ ansi ''0''"
| "apply_color t Green = ansi ''32'' @ t @ ansi ''0''"
| "apply_color t ColorNone = t"

text \<open>The level names of the sinks.\<close>

primrec level_to_str :: "level \<Rightarrow> string" where
  "level_to_str Trace = ''[TRACE] ''"
| "level_to_str Debug = ''[DEBUG] ''"
| "level_to_str Info = ''[INFO] ''"
| "level_to_str Warn = ''[WARN] ''"
| "level_to_str Error = ''[ERROR] ''"
| "level_to_str Critical = ''[CRITICAL] ''"

primrec level_to_severity :: "level \<Rightarrow> string" where
  "level_to_severity Trace = ''Verbose''"
| "level_to_severity Debug = ''Verbose''"
| "level_to_severity Info = ''Information''"
| "level_to_severity Warn = ''Warning''"
| "level_to_severity Error = ''Error''"
| "level_to_severity Critical = ''Critical''"

text \<open>\<open>SyslogSink::map_level\<close>, with the priorities of \<open>syslog.h\<close>.\<close>

primrec map_level :: "level \<Rightarrow> int" where
  "map_level Trace = 7"
| "map_level Debug = 7"
| "map_level Info = 6"
| "map_level Warn = 4"
| "map_level Error = 3"
| "map_level Critical = 2"

section \<open>Facts\<close>

lemma to_lower_idem: "to_lower (to_lower c) = to_lower c"
  by (auto simp: to_lower_def char_code_def of_char_of)

text \<open>Printing a level and parsing it back.\<close>

lemma parse_to_string: "parse_log_level (to_string l) = (True, l)"
  by (cases l; hypsubst; code_simp)

lemma config_parse_to_string: "config_parse_log_level (to_string l) = l"
  by (cases l; hypsubst; code_simp)

lemma level_to_str_nonempty [simp]: "level_to_str l \<noteq> []"
  by (cases l) simp_all

lemma map_level_mono: "a \<le> b \<Longrightarrow> map_level b \<le> map_level a"
  by (cases a; cases b) simp_all

end
