(* ===== verification/Sink_Removal.thy ===== *)
theory Sink_Removal
  imports Transitions Log_Level
begin

text \<open>
  Removing sinks while other threads log: \<open>add_sink\<close>, both \<open>remove_sink\<close>, \<open>clear_sinks\<close>,
  \<open>set_sink_level\<close> and the loop of \<open>log\<close> in \<open>src/logger.cpp\<close>, with \<open>SinkEntry\<close> and \<open>SinkGuard\<close> of
  \<open>include/Zyrnix/logger.hpp\<close>.  Where \<open>Logger_Threads\<close> has only the locks of the methods, here
  the entries themselves are shared: an entry is an object named by a number, the vector holds such
  numbers, and what a thread does next depends on the marks it reads.  The lock is the position of
  the threads: some positions are inside it, shared or exclusive.  \<open>wait_for_sink_drain\<close> may always
  end, because of its timeout.  \<open>mtx_\<close> is left out (it only removes interleavings).
\<close>

section \<open>The entries\<close>

record sink_table =
  ks_entries :: "nat list"
  ks_name :: "nat \<Rightarrow> string"
  ks_null :: "nat \<Rightarrow> bool"
  ks_marked :: "nat \<Rightarrow> bool"
  ks_refs :: "nat \<Rightarrow> int"
  ks_override :: "nat \<Rightarrow> level option"
  ks_next :: nat

definition table_new :: sink_table where
  "table_new =
     \<lparr>ks_entries = [], ks_name = (\<lambda>_. []), ks_null = (\<lambda>_. False), ks_marked = (\<lambda>_. False),
      ks_refs = (\<lambda>_. 0), ks_override = (\<lambda>_. None), ks_next = 0\<rparr>"

definition push_entry :: "string \<Rightarrow> bool \<Rightarrow> sink_table \<Rightarrow> sink_table" where
  "push_entry nm null k =
     k\<lparr>ks_entries := ks_entries k @ [ks_next k], ks_name := (ks_name k)(ks_next k := nm),
       ks_null := (ks_null k)(ks_next k := null), ks_next := Suc (ks_next k)\<rparr>"

datatype removal = By_name string | By_index nat

definition select_entry :: "removal \<Rightarrow> sink_table \<Rightarrow> nat option" where
  "select_entry target k =
     (case target of
        By_name nm \<Rightarrow> find (\<lambda>e. ks_name k e = nm \<and> \<not> ks_marked k e) (ks_entries k)
      | By_index i \<Rightarrow> if i < length (ks_entries k) then Some (ks_entries k ! i) else None)"

definition mark_removed :: "nat set \<Rightarrow> sink_table \<Rightarrow> sink_table" where
  "mark_removed es k = k\<lparr>ks_marked := (\<lambda>e. e \<in> es \<or> ks_marked k e)\<rparr>"

definition erase_entries :: "removal \<Rightarrow> sink_table \<Rightarrow> sink_table" where
  "erase_entries target k =
     k\<lparr>ks_entries := filter (\<lambda>e. \<not> (case target of
          By_name nm \<Rightarrow> ks_name k e = nm \<and> ks_marked k e
        | By_index i \<Rightarrow> ks_marked k e \<and> ks_refs k e = 0)) (ks_entries k)\<rparr>"

definition clear_entries :: "sink_table \<Rightarrow> sink_table" where
  "clear_entries k = k\<lparr>ks_entries := [], ks_override := (\<lambda>_. None)\<rparr>"

definition override_level :: "nat \<Rightarrow> level \<Rightarrow> sink_table \<Rightarrow> sink_table" where
  "override_level i l k =
     (if i < length (ks_entries k) then k\<lparr>ks_override := (ks_override k)(i := Some l)\<rparr> else k)"

text \<open>The two tests at the head of the loop.\<close>

definition passed_over :: "level \<Rightarrow> nat \<Rightarrow> sink_table \<Rightarrow> bool" where
  "passed_over l i k \<longleftrightarrow>
     ks_marked k (ks_entries k ! i)
     \<or> (case ks_override k i of None \<Rightarrow> False | Some lv \<Rightarrow> l < lv)"

definition add_ref :: "nat \<Rightarrow> int \<Rightarrow> sink_table \<Rightarrow> sink_table" where
  "add_ref e d k = k\<lparr>ks_refs := (ks_refs k)(e := ks_refs k e + d)\<rparr>"

text \<open>\<open>SinkGuard::operator bool\<close>.\<close>

definition guard_holds :: "nat \<Rightarrow> sink_table \<Rightarrow> bool" where
  "guard_holds e k \<longleftrightarrow> \<not> ks_null k e \<and> \<not> ks_marked k e"

section \<open>The threads\<close>

text \<open>
  Where a thread is.  \<open>log\<close>: before its lock, at the head of the loop, with the guard constructed,
  in the sink's \<open>log\<close>, before the guard's destructor.  \<open>remove_sink\<close>: before the first lock, inside it,
  waiting, before the second lock, inside it.
\<close>

datatype position =
  Outside
| Log_lock level
| Log_head level nat
| Log_guarded level nat nat
| Log_calling level nat nat
| Log_release level nat nat
| Remove_lock removal
| Remove_mark removal
| Remove_drain removal nat
| Remove_relock removal nat
| Remove_erase removal nat
| Add_lock string bool
| Add_push string bool
| Clear_lock
| Clear_mark
| Clear_drain
| Override_lock nat level
| Override_set nat level
| Unlocking bool            \<comment> \<open>at the end of a method that holds the lock: exclusively or not\<close>

fun holds_excl :: "position \<Rightarrow> bool" where
  "holds_excl (Remove_mark t) = True"
| "holds_excl (Remove_erase t e) = True"
| "holds_excl (Add_push nm null) = True"
| "holds_excl Clear_mark = True"
| "holds_excl Clear_drain = True"
| "holds_excl (Unlocking x) = x"
| "holds_excl _ = False"

fun holds_shared :: "position \<Rightarrow> bool" where
  "holds_shared (Log_head l i) = True"
| "holds_shared (Log_guarded l i e) = True"
| "holds_shared (Log_calling l i e) = True"
| "holds_shared (Log_release l i e) = True"
| "holds_shared (Override_set i l) = True"
| "holds_shared (Unlocking x) = (\<not> x)"
| "holds_shared _ = False"

text \<open>The entry a thread holds a guard of.\<close>

fun guarded :: "position \<Rightarrow> nat option" where
  "guarded (Log_guarded l i e) = Some e"
| "guarded (Log_calling l i e) = Some e"
| "guarded (Log_release l i e) = Some e"
| "guarded _ = None"

datatype sink_event =
  Silent
| Called nat
| Removed nat
| Not_found
| Cleared

text \<open>
  The steps of one thread on the table.
\<close>

inductive thread_step ::
    "sink_table \<Rightarrow> position \<Rightarrow> sink_event \<Rightarrow> sink_table \<Rightarrow> position \<Rightarrow> bool" where
  start_log: "thread_step k Outside Silent k (Log_lock l)"
| start_remove: "thread_step k Outside Silent k (Remove_lock t)"
| start_add: "thread_step k Outside Silent k (Add_lock nm null)"
| start_clear: "thread_step k Outside Silent k Clear_lock"
| log_lock: "thread_step k (Log_lock l) Silent k (Log_head l 0)"
| log_end: "length (ks_entries k) \<le> i \<Longrightarrow> thread_step k (Log_head l i) Silent k (Unlocking False)"
| log_skip: "i < length (ks_entries k) \<Longrightarrow>
    passed_over l i k \<Longrightarrow>
    thread_step k (Log_head l i) Silent k (Log_head l (Suc i))"
| log_guard: "i < length (ks_entries k) \<Longrightarrow> e = ks_entries k ! i \<Longrightarrow> \<not> passed_over l i k \<Longrightarrow>
    thread_step k (Log_head l i) Silent (add_ref e 1 k) (Log_guarded l i e)"
| log_call: "guard_holds e k \<Longrightarrow>
    thread_step k (Log_guarded l i e) (Called e) k (Log_calling l i e)"
| log_no_call: "\<not> guard_holds e k \<Longrightarrow>
    thread_step k (Log_guarded l i e) Silent k (Log_release l i e)"
| log_called: "thread_step k (Log_calling l i e) Silent k (Log_release l i e)"
| log_release: "thread_step k (Log_release l i e) Silent (add_ref e (- 1) k) (Log_head l (Suc i))"
| remove_lock: "thread_step k (Remove_lock t) Silent k (Remove_mark t)"
| remove_none: "select_entry t k = None \<Longrightarrow>
    thread_step k (Remove_mark t) Not_found k (Unlocking True)"
| remove_mark: "select_entry t k = Some e \<Longrightarrow>
    thread_step k (Remove_mark t) Silent (mark_removed {e} k) (Remove_drain t e)"
| remove_drain: "thread_step k (Remove_drain t e) Silent k (Remove_relock t e)"
| remove_relock: "thread_step k (Remove_relock t e) Silent k (Remove_erase t e)"
| remove_erase: "thread_step k (Remove_erase t e) (Removed e) (erase_entries t k) (Unlocking True)"
| add_lock: "thread_step k (Add_lock nm null) Silent k (Add_push nm null)"
| add_push: "thread_step k (Add_push nm null) Silent (push_entry nm null k) (Unlocking True)"
| clear_lock: "thread_step k Clear_lock Silent k Clear_mark"
| clear_mark: "thread_step k Clear_mark Silent (mark_removed (set (ks_entries k)) k) Clear_drain"
| clear_erase: "thread_step k Clear_drain Cleared (clear_entries k) (Unlocking True)"
| start_override: "thread_step k Outside Silent k (Override_lock i l)"
| override_lock: "thread_step k (Override_lock i l) Silent k (Override_set i l)"
| override_set: "thread_step k (Override_set i l) Silent (override_level i l k) (Unlocking False)"
| unlock: "thread_step k (Unlocking x) Silent k Outside"

inductive_cases thread_stepE: "thread_step k p ev k' p'"

record removal_system =
  rs_table :: sink_table
  rs_threads :: "position list"

text \<open>
  A step that enters the lock waits for it: an exclusive one for every other thread, a shared one
  for those that hold it exclusively.
\<close>

definition may_enter :: "position \<Rightarrow> position \<Rightarrow> position list \<Rightarrow> bool" where
  "may_enter p p' ts \<longleftrightarrow>
     (holds_excl p' \<and> \<not> holds_excl p \<longrightarrow> list_all (\<lambda>q. \<not> holds_excl q \<and> \<not> holds_shared q) ts)
     \<and> (holds_shared p' \<and> \<not> holds_shared p \<longrightarrow> list_all (\<lambda>q. \<not> holds_excl q) ts)"

inductive removal_step ::
    "removal_system \<Rightarrow> nat \<times> sink_event \<Rightarrow> removal_system \<Rightarrow> bool" where
  removal_act: "j < length (rs_threads s) \<Longrightarrow>
    thread_step (rs_table s) (rs_threads s ! j) ev k p \<Longrightarrow>
    may_enter (rs_threads s ! j) p (rs_threads s) \<Longrightarrow>
    removal_step s (j, ev) (s\<lparr>rs_table := k, rs_threads := (rs_threads s)[j := p]\<rparr>)"

inductive_cases removal_stepE: "removal_step s l s'"

definition removal_init :: "nat \<Rightarrow> removal_system \<Rightarrow> bool" where
  "removal_init threads s \<longleftrightarrow> s = \<lparr>rs_table = table_new, rs_threads = replicate threads Outside\<rparr>"

section \<open>What holds in every interleaving\<close>

text \<open>
  What a thread in a position knows: the entry it guards is in the vector and not marked, the entry it removes is
  marked and is one the name or the index selects.
\<close>

fun position_ok :: "sink_table \<Rightarrow> position \<Rightarrow> bool" where
  "position_ok k (Log_guarded l i e) = (e \<in> set (ks_entries k) \<and> \<not> ks_marked k e)"
| "position_ok k (Log_calling l i e) = (e \<in> set (ks_entries k) \<and> \<not> ks_marked k e)"
| "position_ok k (Log_release l i e) = (e \<in> set (ks_entries k) \<and> \<not> ks_marked k e)"
| "position_ok k (Remove_drain t e) = (ks_marked k e \<and> e < ks_next k \<and> (\<forall>nm. t = By_name nm \<longrightarrow> ks_name k e = nm))"
| "position_ok k (Remove_relock t e) = (ks_marked k e \<and> e < ks_next k \<and> (\<forall>nm. t = By_name nm \<longrightarrow> ks_name k e = nm))"
| "position_ok k (Remove_erase t e) = (ks_marked k e \<and> e < ks_next k \<and> (\<forall>nm. t = By_name nm \<longrightarrow> ks_name k e = nm))"
| "position_ok k Clear_drain = (\<forall>e \<in> set (ks_entries k). ks_marked k e)"
| "position_ok k _ = True"

definition compatible :: "position \<Rightarrow> position \<Rightarrow> bool" where
  "compatible p q \<longleftrightarrow> (holds_excl p \<longrightarrow> \<not> holds_excl q \<and> \<not> holds_shared q)"

definition removal_ok :: "removal_system \<Rightarrow> bool" where
  "removal_ok s \<longleftrightarrow>
     (\<forall>p \<in> set (rs_threads s). position_ok (rs_table s) p)
     \<and> (\<forall>i < length (rs_threads s). \<forall>j < length (rs_threads s). i \<noteq> j \<longrightarrow>
          compatible (rs_threads s ! i) (rs_threads s ! j))
     \<and> (\<forall>e \<in> set (ks_entries (rs_table s)). e < ks_next (rs_table s))
     \<and> (\<forall>e. ks_refs (rs_table s) e = int (length (filter (\<lambda>p. guarded p = Some e) (rs_threads s))))"

lemmas table_defs = push_entry_def mark_removed_def erase_entries_def clear_entries_def
  override_level_def add_ref_def

lemma select_entry_in: "select_entry t k = Some e \<Longrightarrow> e \<in> set (ks_entries k)"
  by (auto simp: select_entry_def find_Some_iff split: removal.splits if_splits)

lemma select_entry_name: "select_entry (By_name nm) k = Some e \<Longrightarrow> ks_name k e = nm"
  by (auto simp: select_entry_def find_Some_iff)

lemma not_exclusive_keeps:
  assumes "thread_step k p ev k' p'" and "\<not> holds_excl p"
  shows "ks_entries k' = ks_entries k \<and> ks_marked k' = ks_marked k"
  using assms by (cases rule: thread_step.cases) (auto simp: table_defs)

text \<open>A step keeps the marks and the names of the entries that exist, and takes no name again.\<close>

lemma step_next: "thread_step k p ev k' p' \<Longrightarrow> ks_next k \<le> ks_next k'"
  by (elim thread_stepE) (simp_all add: table_defs)

lemma step_marks: "thread_step k p ev k' p' \<Longrightarrow> ks_marked k e \<Longrightarrow> ks_marked k' e"
  by (elim thread_stepE) (simp_all add: table_defs)

lemma step_names: "thread_step k p ev k' p' \<Longrightarrow> e < ks_next k \<Longrightarrow> ks_name k' e = ks_name k e"
  by (elim thread_stepE) (simp_all add: table_defs)

lemma step_entries:
  "thread_step k p ev k' p' \<Longrightarrow> e \<in> set (ks_entries k') \<Longrightarrow>
     e \<in> set (ks_entries k) \<or> ks_next k \<le> e \<and> e < ks_next k'"
  by (elim thread_stepE) (auto simp: table_defs split: if_splits)

lemma other_position_ok:
  assumes "thread_step k p ev k' p'" and "position_ok k q" and "compatible p q" and "compatible q p"
  shows "position_ok k' q"
proof (cases "holds_excl q \<or> holds_shared q")
  case True
  with assms(3,4) have "\<not> holds_excl p" by (auto simp: compatible_def)
  from not_exclusive_keeps[OF assms(1) this] assms(2)
    step_next[OF assms(1)] step_names[OF assms(1)]
  show ?thesis by (cases q) (auto intro: order.strict_trans2)
next
  case False
  with assms(2) step_next[OF assms(1)] step_marks[OF assms(1)] step_names[OF assms(1)]
  show ?thesis by (cases q) (auto intro: order.strict_trans2)
qed

lemma own_position_ok:
  assumes "thread_step k p ev k' p'" and "position_ok k p"
    and "\<forall>e \<in> set (ks_entries k). e < ks_next k"
  shows "position_ok k' p'"
  using assms
  by (cases rule: thread_step.cases)
     (auto simp: table_defs passed_over_def dest: select_entry_in select_entry_name)

lemma step_refs:
  assumes "thread_step k p ev k' p'"
  shows "ks_refs k' e = ks_refs k e - (if guarded p = Some e then 1 else 0)
    + (if guarded p' = Some e then 1 else 0)"
  using assms by (cases rule: thread_step.cases) (auto simp: table_defs)

lemma step_converts: "thread_step k p ev k' p' \<Longrightarrow> holds_shared p' \<Longrightarrow> \<not> holds_excl p"
  by (elim thread_stepE) simp_all

lemma step_enters:
  assumes "thread_step k p ev k' p'" and "may_enter p p' ts" and "q \<in> set ts"
    and "compatible p q" and "compatible q p"
  shows "compatible p' q \<and> compatible q p'"
proof -
  have "holds_excl p' \<Longrightarrow> holds_excl p \<or> \<not> holds_excl q \<and> \<not> holds_shared q"
    and "holds_shared p' \<Longrightarrow> holds_shared p \<or> \<not> holds_excl q"
    using assms(2,3) unfolding may_enter_def list_all_iff by blast+
  then show ?thesis using assms(4,5) step_converts[OF assms(1)] unfolding compatible_def by blast
qed

lemma removal_step_ok:
  assumes ok: "removal_ok s" and "removal_step s l s'"
  shows "removal_ok s'"
proof -
  let ?ts = "rs_threads s" and ?k = "rs_table s"
  obtain j ev k p where 1: "j < length ?ts" "thread_step ?k (?ts ! j) ev k p"
      "may_enter (?ts ! j) p ?ts" "s' = s\<lparr>rs_table := k, rs_threads := ?ts[j := p]\<rparr>"
    using assms(2) by (elim removal_stepE)
  have pos: "\<forall>q \<in> set ?ts. position_ok ?k q" and less: "\<forall>e \<in> set (ks_entries ?k). e < ks_next ?k"
    and comp: "\<forall>i < length ?ts. \<forall>j < length ?ts. i \<noteq> j \<longrightarrow> compatible (?ts ! i) (?ts ! j)"
    using ok by (simp_all add: removal_ok_def)
  have "\<forall>q \<in> set (?ts[j := p]). position_ok k q"
    using pos comp 1(1) other_position_ok[OF 1(2)] own_position_ok[OF 1(2) _ less]
    by (intro all_update) simp_all
  moreover have "\<forall>i < length (?ts[j := p]). \<forall>h < length (?ts[j := p]). i \<noteq> h \<longrightarrow>
      compatible (?ts[j := p] ! i) (?ts[j := p] ! h)"
    using comp step_enters[OF 1(2,3)] by (intro pairwise_update[OF _ 1(1)])
  moreover have "\<forall>e \<in> set (ks_entries k). e < ks_next k"
    using step_entries[OF 1(2)] step_next[OF 1(2)] less by (meson order.strict_trans2)
  moreover have "ks_refs k e = int (length (filter (\<lambda>p. guarded p = Some e) (?ts[j := p])))" for e
    using ok step_refs[OF 1(2), of e] length_filter_update[OF 1(1)] by (simp add: removal_ok_def)
  ultimately show ?thesis using 1(4) by (simp add: removal_ok_def)
qed

lemma removal_init_ok: "removal_init n s \<Longrightarrow> removal_ok s"
  by (auto simp: removal_ok_def removal_init_def table_new_def compatible_def filter_empty_conv)

interpretation removals: invariant_of "removal_init n" removal_step removal_ok
  by unfold_locales (erule removal_init_ok, erule removal_step_ok)

text \<open>
  A marked entry has no guard: it was marked when no thread was in the loop, and the loop reads
  the mark before it makes a guard.
\<close>

lemma marked_unguarded:
  assumes "removal_ok s" and "ks_marked (rs_table s) e"
  shows "ks_refs (rs_table s) e = 0"
proof -
  have "guarded p \<noteq> Some e" if "p \<in> set (rs_threads s)" for p
  proof -
    have "position_ok (rs_table s) p" using assms(1) that by (simp add: removal_ok_def)
    with assms(2) show ?thesis by (cases p) auto
  qed
  then have "filter (\<lambda>p. guarded p = Some e) (rs_threads s) = []" by (simp add: filter_empty_conv)
  with assms(1) show ?thesis by (simp add: removal_ok_def)
qed

lemma marked_step: "removal_step s l s' \<Longrightarrow> ks_marked (rs_table s) e \<Longrightarrow> ks_marked (rs_table s') e"
  by (auto elim!: removal_stepE dest: step_marks)

lemma called_unmarked: "removal_step s (u, Called e) s' \<Longrightarrow> \<not> ks_marked (rs_table s) e"
  by (auto simp: guard_holds_def elim!: removal_stepE thread_stepE)

lemma marked_never_called:
  "run removal_step s ls s' \<Longrightarrow> ks_marked (rs_table s) e \<Longrightarrow>
     (\<forall>u. (u, Called e) \<notin> set ls) \<and> ks_marked (rs_table s') e"
proof (induction rule: run.induct)
  case (run_Cons s l s1 ls s2)
  then have "l \<noteq> (u, Called e)" for u using called_unmarked by blast
  moreover have "ks_marked (rs_table s1) e" using run_Cons by (blast intro: marked_step)
  ultimately show ?case using run_Cons.IH by auto
qed simp

text \<open>An entry that is in the vector no more is a number that was given once.\<close>

definition gone :: "nat \<Rightarrow> sink_table \<Rightarrow> bool" where
  "gone e k \<longleftrightarrow> e < ks_next k \<and> e \<notin> set (ks_entries k)"

lemma gone_step: "removal_step s l s' \<Longrightarrow> gone e (rs_table s) \<Longrightarrow> gone e (rs_table s')"
  by (auto simp: gone_def elim!: removal_stepE dest: step_entries step_next)

lemma gone_run: "run removal_step s ls s' \<Longrightarrow> gone e (rs_table s) \<Longrightarrow> gone e (rs_table s')"
  by (induction rule: run.induct) (auto intro: gone_step)

text \<open>The end of a removal: the position that fires the event, and what it leaves.\<close>

lemma removed_gone:
  assumes ok: "removal_ok s" and "removal_step s (t, Removed e) s'"
  shows "ks_marked (rs_table s) e \<and> gone e (rs_table s')"
proof -
  let ?k = "rs_table s"
  obtain r where 1: "t < length (rs_threads s)" "rs_threads s ! t = Remove_erase r e"
      "rs_table s' = erase_entries r ?k"
    using assms(2) by (elim removal_stepE) (auto elim: thread_stepE)
  have p: "position_ok ?k (rs_threads s ! t)" using ok 1(1) by (simp add: removal_ok_def)
  then have "ks_refs ?k e = 0" using 1(2) marked_unguarded[OF ok] by simp
  with p 1(2,3) show ?thesis by (cases r) (auto simp: gone_def erase_entries_def)
qed

lemma cleared_gone:
  assumes ok: "removal_ok s" and "removal_step s (t, Cleared) s'" and "e \<in> set (ks_entries (rs_table s))"
  shows "ks_marked (rs_table s) e \<and> gone e (rs_table s')"
proof -
  have 1: "t < length (rs_threads s)" "rs_threads s ! t = Clear_drain"
      "rs_table s' = clear_entries (rs_table s)"
    using assms(2) by (elim removal_stepE; auto elim: thread_stepE)+
  have "position_ok (rs_table s) (rs_threads s ! t)" using ok 1(1) by (simp add: removal_ok_def)
  with assms 1(2,3) show ?thesis by (auto simp: gone_def clear_entries_def removal_ok_def)
qed

text \<open>
  C3. However the calls of the logger's threads are interleaved: when \<open>remove_sink\<close> has erased the
  entry it chose, or \<open>clear_sinks\<close> those it found, no thread holds a guard of the entry (which is
  what \<open>wait_for_sink_drain\<close> waits for, so it never sleeps), its sink is never called again, and the
  entry is not in the vector again.
\<close>

theorem removed_sink_never_called:
  assumes "reach (removal_init n) removal_step s" and "removal_step s (t, ev) s1"
    and "ev = Removed e \<or> ev = Cleared \<and> e \<in> set (ks_entries (rs_table s))"
    and "run removal_step s1 ls s2"
  shows "ks_refs (rs_table s) e = 0 \<and> (\<forall>u. (u, Called e) \<notin> set ls)
    \<and> e \<notin> set (ks_entries (rs_table s2)) \<and> ks_refs (rs_table s2) e = 0"
proof -
  from removals.invariant[OF assms(1)] have ok: "removal_ok s" .
  then have ok2: "removal_ok s2"
    using assms(2,4) removal_step_ok removals.invariant_run by blast
  have e: "ks_marked (rs_table s) e" "gone e (rs_table s1)"
    using assms(2,3) removed_gone[OF ok] cleared_gone[OF ok] by blast+
  with marked_step[OF assms(2)] have "ks_marked (rs_table s1) e" by blast
  with marked_never_called[OF assms(4)] e gone_run[OF assms(4)] marked_unguarded ok ok2
  show ?thesis by (auto simp: gone_def)
qed

lemma single_step:
  "thread_step k p ev k' p' \<Longrightarrow> may_enter p p' [p] \<Longrightarrow>
     removal_step \<lparr>rs_table = k, rs_threads = [p]\<rparr> (0, ev) \<lparr>rs_table = k', rs_threads = [p']\<rparr>"
  using removal_act[of 0 "\<lparr>rs_table = k, rs_threads = [p]\<rparr>" ev k' p'] by simp

lemma single_reach:
  "reach init removal_step \<lparr>rs_table = k, rs_threads = [p]\<rparr> \<Longrightarrow> thread_step k p ev k' p' \<Longrightarrow>
     may_enter p p' [p] \<Longrightarrow> reach init removal_step \<lparr>rs_table = k', rs_threads = [p']\<rparr>"
  by (rule reach_step[of init removal_step, OF _ single_step])

lemma single_run:
  "thread_step k p ev k' p' \<Longrightarrow> may_enter p p' [p] \<Longrightarrow>
     run removal_step \<lparr>rs_table = k', rs_threads = [p']\<rparr> ls s \<Longrightarrow>
     run removal_step \<lparr>rs_table = k, rs_threads = [p]\<rparr> ((0, ev) # ls) s"
  by (rule run_Cons[of removal_step, OF single_step])

theorem removed_sink_never_called_witness:
  "\<exists>k. gone 0 k
    \<and> ks_refs (rs_table \<lparr>rs_table = k, rs_threads = [Log_head Info 0]\<rparr>) 0 = 0
    \<and> run removal_step \<lparr>rs_table = k, rs_threads = [Unlocking True]\<rparr>
        [(0, Silent), (0, Silent), (0, Silent)] \<lparr>rs_table = k, rs_threads = [Log_head Info 0]\<rparr>"
proof -
  let ?k1 = "push_entry ''a'' False table_new"
  let ?k2 = "mark_removed {0} ?k1" and ?s = "\<lambda>k p. \<lparr>rs_table = k, rs_threads = [p]\<rparr>"
  let ?k3 = "erase_entries (By_index 0) ?k2"
  have "reach (removal_init 1) removal_step (?s table_new Outside)"
    by (rule reach_init) (simp add: removal_init_def)
  then have "reach (removal_init 1) removal_step (?s table_new (Add_push ''a'' False))"
    by (rule single_reach[OF single_reach[OF _ start_add] add_lock]) (simp_all add: may_enter_def)
  then have "reach (removal_init 1) removal_step (?s ?k1 Outside)"
    by (rule single_reach[OF single_reach[OF _ add_push] unlock]) (simp_all add: may_enter_def)
  then have "reach (removal_init 1) removal_step (?s ?k1 (Remove_mark (By_index 0)))"
    by (rule single_reach[OF single_reach[OF _ start_remove] remove_lock]) (simp_all add: may_enter_def)
  then have "reach (removal_init 1) removal_step (?s ?k2 (Remove_relock (By_index 0) 0))"
    by (rule single_reach[OF single_reach[OF _ remove_mark] remove_drain])
       (simp_all add: may_enter_def select_entry_def push_entry_def table_new_def)
  then have s: "reach (removal_init 1) removal_step (?s ?k2 (Remove_erase (By_index 0) 0))"
    by (rule single_reach[OF _ remove_relock]) (simp add: may_enter_def)
  have rm: "removal_step (?s ?k2 (Remove_erase (By_index 0) 0)) (0, Removed 0) (?s ?k3 (Unlocking True))"
    by (rule single_step[OF remove_erase]) (simp add: may_enter_def)
  have run: "run removal_step (?s ?k3 (Unlocking True)) [(0, Silent), (0, Silent), (0, Silent)]
      (?s ?k3 (Log_head Info 0))"
    by (rule single_run[OF unlock _ single_run[OF start_log _ single_run[OF log_lock _ run_Nil]]])
       (simp_all add: may_enter_def)
  have "gone 0 ?k3" by (simp add: gone_def table_defs table_new_def)
  with removed_sink_never_called[OF s rm _ run, of 0] run show ?thesis by blast
qed

end
