(* ===== verification/Formatter.thy ===== *)
theory Formatter
  imports Log_Level
begin

text \<open>
  Text: \<open>src/formatter.cpp\<close> (the line format and redaction), \<open>trim\<close> of \<open>src/util.cpp\<close> and
  \<open>split_and_trim\<close> of \<open>src/config.cpp\<close>.

  The redaction loop searches again from the end of each replacement.  With the empty pattern the
  position never moves, so the loop is a \<open>partial_function\<close> whose value is \<^const>\<open>None\<close>
  when it does not return; that it returns for every other pattern is a theorem.  Times are
  nanoseconds since the epoch; \<open>gmtime\<close> is the proleptic Gregorian calendar, \<open>localtime\<close> adds the
  offset of the time zone, which is an argument.
\<close>

section \<open>Calendar time\<close>

definition to_time_t :: "time \<Rightarrow> int" where
  "to_time_t t = trunc_div t 1000000000"

text \<open>Year, month and day of a day number, in the usual computation by 400-year eras.\<close>

definition civil_from_days :: "int \<Rightarrow> int \<times> int \<times> int" where
  "civil_from_days days =
     (let z = days + 719468;
          era = z div 146097;
          doe = z mod 146097;
          yoe = (doe - doe div 1460 + doe div 36524 - doe div 146096) div 365;
          doy = doe - (365 * yoe + yoe div 4 - yoe div 100);
          mp = (5 * doy + 2) div 153;
          d = doy - (153 * mp + 2) div 5 + 1;
          m = (if mp < 10 then mp + 3 else mp - 9);
          y = yoe + era * 400 + (if m \<le> 2 then 1 else 0)
      in (y, m, d))"

definition pad :: "nat \<Rightarrow> int \<Rightarrow> string" where
  "pad w n = (let s = show_int n in replicate (w - length s) CHR ''0'' @ s)"

text \<open>\<open>%Y-%m-%d\<close>, a separator, \<open>%H:%M:%S\<close> of a broken-down time.\<close>

definition put_date :: "int \<Rightarrow> string" where
  "put_date t =
     (let (y, m, d) = civil_from_days (t div 86400) in
      show_int y @ ''-'' @ pad 2 m @ ''-'' @ pad 2 d)"

definition put_clock :: "int \<Rightarrow> string" where
  "put_clock t =
     (let s = t mod 86400 in
      pad 2 (s div 3600) @ '':'' @ pad 2 ((s div 60) mod 60) @ '':'' @ pad 2 (s mod 60))"

type_synonym tz_offset = "int \<Rightarrow> int"

definition local_time :: "tz_offset \<Rightarrow> time \<Rightarrow> int" where
  "local_time tz t = (let s = to_time_t t in s + tz s)"

section \<open>The line format\<close>

definition format :: "tz_offset \<Rightarrow> time \<Rightarrow> string \<Rightarrow> level \<Rightarrow> string \<Rightarrow> string" where
  "format tz now logger_name lv message =
     (let t = local_time tz now in
      put_date t @ '' '' @ put_clock t
      @ '' ['' @ to_string lv @ ''] '' @ logger_name @ '': '' @ message)"

section \<open>Redaction\<close>

partial_function (option) redact_loop :: "string \<Rightarrow> string \<Rightarrow> nat \<Rightarrow> string option" where
  "redact_loop pat redacted pos =
     (case find_from pat redacted pos of
        None \<Rightarrow> Some redacted
      | Some p \<Rightarrow>
          redact_loop pat
            (take p redacted @ replicate (length pat) CHR ''*'' @ drop (p + length pat) redacted)
            (p + length pat))"

primrec redact :: "string \<Rightarrow> string list \<Rightarrow> string option" where
  "redact redacted [] = Some redacted"
| "redact redacted (pat # pats) =
     (case redact_loop pat redacted 0 of None \<Rightarrow> None | Some r \<Rightarrow> redact r pats)"

section \<open>Trimming and splitting\<close>

definition trim :: "string \<Rightarrow> string" where
  "trim s =
     (let ws = [CHR '' '', CHR 0x09, CHR 0x0A, CHR 0x0D];
          b = find_first_not_of ws s;
          e = find_last_not_of ws s
      in case b of None \<Rightarrow> []
         | Some bp \<Rightarrow> (case e of None \<Rightarrow> [] | Some ep \<Rightarrow> substr s bp (ep - bp + 1)))"

text \<open>The step that ends a piece, and the loop over the characters.\<close>

definition push_trimmed :: "string \<Rightarrow> string list \<Rightarrow> string list" where
  "push_trimmed current result =
     (if current \<noteq> []
      then (case (find_first_not_of [CHR '' '', CHR 0x09] current,
                  find_last_not_of [CHR '' '', CHR 0x09] current) of
              (Some start, Some e) \<Rightarrow> result @ [substr current start (e - start + 1)]
            | _ \<Rightarrow> result)
      else result)"

fun split_loop :: "string \<Rightarrow> string \<Rightarrow> string list \<Rightarrow> string list" where
  "split_loop [] current result = push_trimmed current result"
| "split_loop (c # value) current result =
     (if c = CHR '','' then split_loop value [] (push_trimmed current result)
      else split_loop value (current @ [c]) result)"

definition split_and_trim :: "string \<Rightarrow> string list" where
  "split_and_trim value = split_loop value [] []"

section \<open>The redaction loop as a scan\<close>

text \<open>
  The reference definition: replace the leftmost occurrences one after the other, never looking
  back at what was replaced.
\<close>

function starred :: "string \<Rightarrow> string \<Rightarrow> string" where
  "starred pat s =
     (if pat = [] then s
      else case find_in pat s of
             None \<Rightarrow> s
           | Some i \<Rightarrow> take i s @ replicate (length pat) CHR ''*'' @ starred pat (drop (i + length pat) s))"
  by pat_completeness auto
termination
proof (relation "measure (\<lambda>(pat, s). length s)")
  fix pat s i
  assume "pat \<noteq> []" and "find_in pat s = Some i"
  then show "((pat, drop (i + length pat) s), (pat, s)) \<in> measure (\<lambda>(pat, s). length s)"
    using find_in_SomeD[of pat s i] by (cases pat) auto
qed simp

declare starred.simps [simp del]

lemma starred_None [simp]: "find_in pat s = None \<Longrightarrow> starred pat s = s"
  by (subst starred.simps) simp

lemma starred_Some:
  "pat \<noteq> [] \<Longrightarrow> find_in pat s = Some i \<Longrightarrow>
     starred pat s = take i s @ replicate (length pat) CHR ''*'' @ starred pat (drop (i + length pat) s)"
  by (subst starred.simps) simp

lemma redact_loop_starred:
  "pat \<noteq> [] \<Longrightarrow> redact_loop pat (a @ s) (length a) = Some (a @ starred pat s)"
proof (induction pat s arbitrary: a rule: starred.induct)
  case (1 pat s)
  show ?case
  proof (cases "find_in pat s")
    case None
    then show ?thesis by (simp add: redact_loop.simps find_from_def)
  next
    case (Some i)
    let ?st = "replicate (length pat) CHR ''*''"
    have i: "i + length pat \<le> length s" using find_in_SomeD[OF Some] by simp
    have "redact_loop pat (a @ s) (length a)
        = redact_loop pat ((a @ take i s @ ?st) @ drop (i + length pat) s)
            (length (a @ take i s @ ?st))"
      using Some i
      by (subst redact_loop.simps) (simp add: find_from_def min_absorb2 add.assoc)
    also have "\<dots> = Some ((a @ take i s @ ?st) @ starred pat (drop (i + length pat) s))"
      using "1.IH"[OF "1.prems" Some "1.prems"] .
    also have "\<dots> = Some (a @ starred pat s)"
      using starred_Some[OF "1.prems" Some] by simp
    finally show ?thesis .
  qed
qed

corollary redact_loop_eq_starred: "pat \<noteq> [] \<Longrightarrow> redact_loop pat s 0 = Some (starred pat s)"
  using redact_loop_starred[of pat "[]" s] by simp

lemma redact_eq_starreds:
  "\<forall>pat \<in> set pats. pat \<noteq> [] \<Longrightarrow> redact s pats = Some (foldl (\<lambda>acc pat. starred pat acc) s pats)"
  by (induction pats arbitrary: s) (simp_all add: redact_loop_eq_starred)

lemma length_starred [simp]: "length (starred pat s) = length s"
proof (induction pat s rule: starred.induct)
  case (1 pat s)
  show ?case
  proof (cases "pat = [] \<or> find_in pat s = None")
    case True
    then show ?thesis by (subst starred.simps) auto
  next
    case False
    then obtain i where i: "pat \<noteq> []" "find_in pat s = Some i" by auto
    with "1.IH" have "length (starred pat (drop (i + length pat) s)) = length s - (i + length pat)"
      by simp
    with i find_in_SomeD[OF i(2)] show ?thesis by (simp add: starred_Some)
  qed
qed

text \<open>A pattern without the mask character cannot straddle a masked piece.\<close>

lemma prefix_sep: "x \<notin> set pat \<Longrightarrow> prefix pat (u @ x # w) \<longleftrightarrow> prefix pat u"
  by (induction u arbitrary: pat) (auto simp: prefix_Cons)

lemma sublist_sep:
  "x \<notin> set pat \<Longrightarrow> sublist pat (u @ x # w) \<longleftrightarrow> sublist pat u \<or> sublist pat w"
proof (induction u)
  case Nil
  then show ?case using prefix_sep[of x pat "[]" w] by (auto simp: sublist_Cons_right)
next
  case (Cons c u)
  then show ?case using prefix_sep[of x pat "c # u" w] by (auto simp: sublist_Cons_right)
qed

lemma sublist_stars:
  assumes "CHR ''*'' \<notin> set pat" and "n > 0"
  shows "sublist pat (u @ replicate n CHR ''*'' @ w) \<longleftrightarrow> sublist pat u \<or> sublist pat w"
  using assms(2)
proof (induction n arbitrary: u)
  case (Suc n)
  show ?case
  proof (cases "n = 0")
    case False
    with Suc.IH[of "[]"] show ?thesis
      by (auto simp: sublist_sep[OF assms(1)])
  qed (simp add: sublist_sep[OF assms(1)])
qed simp

lemma sublist_starred_absent:
  assumes "CHR ''*'' \<notin> set pat"
  shows "\<not> sublist pat s \<Longrightarrow> \<not> sublist pat (starred q s)"
proof (induction q s rule: starred.induct)
  case (1 q s)
  show ?case
  proof (cases "q = [] \<or> find_in q s = None")
    case True
    with "1.prems" show ?thesis by (subst starred.simps) auto
  next
    case False
    then obtain i where i: "q \<noteq> []" "find_in q s = Some i" by auto
    have "\<not> sublist pat (take i s)" "\<not> sublist pat (drop (i + length q) s)"
      using "1.prems" sublist_order.order.trans sublist_take sublist_drop by blast+
    with "1.IH"[OF i] i assms show ?thesis by (simp add: starred_Some sublist_stars)
  qed
qed

lemma sublist_starred_self:
  "CHR ''*'' \<notin> set pat \<Longrightarrow> pat \<noteq> [] \<Longrightarrow> \<not> sublist pat (starred pat s)"
proof (induction pat s rule: starred.induct)
  case (1 pat s)
  show ?case
  proof (cases "find_in pat s")
    case None
    then show ?thesis by (simp add: find_in_None_iff)
  next
    case (Some i)
    with "1" have "\<not> sublist pat (starred pat (drop (i + length pat) s))" by simp
    with sublist_take_find_in[OF Some "1.prems"(2)] "1.prems" Some show ?thesis
      by (simp add: starred_Some sublist_stars)
  qed
qed

lemma starred_chars: "i < length s \<Longrightarrow> starred pat s ! i = s ! i \<or> starred pat s ! i = CHR ''*''"
proof (induction pat s arbitrary: i rule: starred.induct)
  case (1 pat s)
  show ?case
  proof (cases "pat = [] \<or> find_in pat s = None")
    case True
    then show ?thesis by (subst starred.simps) auto
  next
    case False
    then obtain k where k: "pat \<noteq> []" "find_in pat s = Some k" by auto
    let ?m = "k + length pat"
    have len: "?m \<le> length s" using find_in_SomeD[OF k(2)] by simp
    consider "i < k" | "k \<le> i" "i - k < length pat" | "?m \<le> i" by linarith
    then show ?thesis
    proof cases
      case 3
      with "1.prems" have "i - ?m < length (drop ?m s)" by simp
      with "1.IH"[OF k, of "i - ?m"] 3 k len "1.prems" show ?thesis
        by (simp add: starred_Some nth_append min_absorb2)
    qed (use k len in \<open>simp_all add: starred_Some nth_append min_absorb2\<close>)
  qed
qed

section \<open>What redaction guarantees\<close>

text \<open>A position that an occurrence of a pattern covers.\<close>

definition covered :: "string \<Rightarrow> string \<Rightarrow> nat \<Rightarrow> bool" where
  "covered pat s i \<longleftrightarrow> (\<exists>p \<le> i. i < p + length pat \<and> prefix pat (drop p s))"

text \<open>
  The text is that of the reference definition, pattern after pattern; it has the length of the
  message and differs from it by stars only; a pattern without a star does not occur in it any
  more; and if no pattern has a star, only what an occurrence of a pattern in the message covers
  is replaced.
\<close>

definition redacts :: "string list \<Rightarrow> string \<Rightarrow> string \<Rightarrow> bool" where
  "redacts pats s r \<longleftrightarrow>
     r = foldl (\<lambda>acc pat. starred pat acc) s pats
     \<and> length r = length s
     \<and> (\<forall>i < length s. r ! i = s ! i \<or> r ! i = CHR ''*'')
     \<and> (\<forall>pat \<in> set pats. CHR ''*'' \<notin> set pat \<longrightarrow> \<not> sublist pat r)
     \<and> ((\<forall>pat \<in> set pats. CHR ''*'' \<notin> set pat) \<longrightarrow>
          (\<forall>i < length s. r ! i \<noteq> s ! i \<longrightarrow> (\<exists>pat \<in> set pats. covered pat s i)))"

lemma covered_drop: "covered pat (drop m s) (i - m) \<Longrightarrow> m \<le> i \<Longrightarrow> covered pat s i"
  by (auto simp: covered_def add.commute) (metis Nat.le_diff_conv2 add.commute add.assoc less_diff_conv2)

lemma starred_covered:
  "i < length s \<Longrightarrow> starred pat s ! i \<noteq> s ! i \<Longrightarrow> covered pat s i"
proof (induction pat s arbitrary: i rule: starred.induct)
  case (1 pat s)
  show ?case
  proof (cases "pat = [] \<or> find_in pat s = None")
    case True
    then have "starred pat s = s" by (subst starred.simps) auto
    with "1.prems" show ?thesis by simp
  next
    case False
    then obtain k where k: "pat \<noteq> []" "find_in pat s = Some k" by auto
    let ?m = "k + length pat"
    have len: "?m \<le> length s" "prefix pat (drop k s)" using find_in_SomeD[OF k(2)] by simp_all
    consider "i < k" | "k \<le> i" "i < ?m" | "?m \<le> i" by linarith
    then show ?thesis
    proof cases
      case 1
      with "1.prems" k len show ?thesis by (simp add: starred_Some nth_append min_absorb2)
    next
      case 2
      with len show ?thesis by (auto simp: covered_def)
    next
      case 3
      then have "\<not> i < k" "\<not> i - k < length pat" by auto
      with 3 k len(1) have "starred pat s ! i = starred pat (drop ?m s) ! (i - ?m)"
        by (simp add: starred_Some nth_append min_absorb2)
      with 3 "1.prems" len(1) have "i - ?m < length (drop ?m s)"
        "starred pat (drop ?m s) ! (i - ?m) \<noteq> drop ?m s ! (i - ?m)" by simp_all
      from covered_drop[OF "1.IH"[OF k this] 3] show ?thesis .
    qed
  qed
qed

text \<open>An occurrence without a star in a text that differs by stars is an occurrence in the message.\<close>

lemma covered_unstarred:
  assumes "CHR ''*'' \<notin> set pat" and "covered pat t i"
    and "length t = length s" and "\<forall>j < length s. t ! j = s ! j \<or> t ! j = CHR ''*''"
  shows "covered pat s i"
proof -
  obtain p where p: "p \<le> i" "i < p + length pat" "prefix pat (drop p t)"
    using assms(2) by (auto simp: covered_def)
  have n: "p + length pat \<le> length s"
    using prefix_length_le[OF p(3)] assms(3) p(1,2) by simp
  have "drop p s ! j = pat ! j" if j: "j < length pat" for j
  proof -
    have "t ! (p + j) = pat ! j"
      using p(3) j n assms(3) by (auto simp: prefix_def) (metis nth_append nth_drop add_leD1)
    moreover have "pat ! j \<noteq> CHR ''*''" using assms(1) j by (metis nth_mem)
    moreover have "t ! (p + j) = s ! (p + j) \<or> t ! (p + j) = CHR ''*''"
      using assms(4) n j by simp
    ultimately have "s ! (p + j) = pat ! j" by auto
    then show ?thesis using n by simp
  qed
  then have "take (length pat) (drop p s) = pat"
    using n by (intro nth_equalityI) simp_all
  then have "prefix pat (drop p s)" by (metis take_is_prefix)
  with p(1,2) show ?thesis by (auto simp: covered_def)
qed

lemma starreds_absent:
  "CHR ''*'' \<notin> set pat \<Longrightarrow> \<not> sublist pat s \<Longrightarrow>
     \<not> sublist pat (foldl (\<lambda>acc q. starred q acc) s pats)"
  by (induction pats arbitrary: s) (simp_all add: sublist_starred_absent)

lemma starreds_redact:
  "\<forall>pat \<in> set pats. pat \<noteq> [] \<Longrightarrow> redacts pats s (foldl (\<lambda>acc q. starred q acc) s pats)"
proof (induction pats arbitrary: s)
  case Nil
  then show ?case by (simp add: redacts_def)
next
  case (Cons q pats)
  let ?s = "starred q s"
  let ?r = "foldl (\<lambda>acc q. starred q acc) ?s pats"
  from Cons have IH: "redacts pats ?s ?r" by simp
  have 1: "CHR ''*'' \<notin> set q \<longrightarrow> \<not> sublist q ?r"
    using Cons.prems by (simp add: starreds_absent sublist_starred_self)
  have 2: "\<forall>i < length s. ?r ! i = s ! i \<or> ?r ! i = CHR ''*''"
    using IH starred_chars[of _ s q] unfolding redacts_def length_starred by metis
  have 3: "\<exists>pat \<in> set (q # pats). covered pat s i"
    if free: "\<forall>pat \<in> set (q # pats). CHR ''*'' \<notin> set pat" and i: "i < length s" "?r ! i \<noteq> s ! i" for i
  proof (cases "?s ! i = s ! i")
    case False
    with starred_covered[OF i(1)] show ?thesis by auto
  next
    case True
    with IH free i obtain pat where pat: "pat \<in> set pats" "covered pat ?s i"
      by (auto simp: redacts_def)
    have "covered pat s i"
      using free pat starred_chars[of _ s q] by (intro covered_unstarred[OF _ pat(2)]) auto
    with pat(1) show ?thesis by auto
  qed
  show ?case using IH 1 2 3 unfolding redacts_def by simp
qed

text \<open>With the empty pattern the loop does not return.\<close>

lemma redact_loop_diverges: "pos \<le> length s \<Longrightarrow> redact_loop [] s pos = None"
proof (rule ccontr)
  assume pos: "pos \<le> length s" and "redact_loop [] s pos \<noteq> None"
  then obtain r where ret: "redact_loop [] s pos = Some r" by auto
  have "\<not> ([] = ([] :: string) \<and> pos \<le> length s)"
  proof (rule redact_loop.raw_induct[where P = "\<lambda>pat s pos r. \<not> (pat = [] \<and> pos \<le> length s)", OF _ ret])
    fix f :: "string \<Rightarrow> string \<Rightarrow> nat \<Rightarrow> string option" and pat s pos r
    assume IH: "\<And>pat s pos r. f pat s pos = Some r \<Longrightarrow> \<not> (pat = [] \<and> pos \<le> length s)"
      and eq: "(case find_from pat s pos of None \<Rightarrow> Some s
        | Some p \<Rightarrow> f pat (take p s @ replicate (length pat) CHR ''*'' @ drop (p + length pat) s)
            (p + length pat)) = Some r"
    show "\<not> (pat = [] \<and> pos \<le> length s)"
    proof
      assume a: "pat = [] \<and> pos \<le> length s"
      with eq have "f [] s pos = Some r" by simp
      with IH a show False by blast
    qed
  qed
  with pos show False by simp
qed

lemma redact_returns_iff: "redact s pats = None \<longleftrightarrow> [] \<in> set pats"
proof (induction pats arbitrary: s)
  case (Cons q pats)
  show ?case
  proof (cases "q = []")
    case True
    then show ?thesis by (simp add: redact_loop_diverges)
  next
    case False
    with Cons.IH show ?thesis by (simp add: redact_loop_eq_starred)
  qed
qed simp

lemma redact_Some_redacts: "redact s pats = Some r \<Longrightarrow> redacts pats s r"
  using redact_returns_iff[of s pats] redact_eq_starreds[of pats s] starreds_redact[of pats s]
  by (metis option.inject option.simps(3))

text \<open>
  C8. Redaction by substrings: when no pattern is empty the loop returns, and its text is that of
  replacing, pattern after pattern, the leftmost occurrences by as many stars, never looking back.
  It keeps the length of the message, every character is the one of the message or a star, no
  pattern without a star in it occurs in the result, whatever the order of the patterns, and, when
  no pattern has a star in it, a character is replaced only where an occurrence of a pattern in
  the message covers it.  With an empty pattern among them the call never returns.
\<close>

theorem redact_correct:
  "if [] \<in> set pats then redact s pats = None
   else (case redact s pats of None \<Rightarrow> False | Some r \<Rightarrow> redacts pats s r)"
  using redact_returns_iff[of s pats] redact_Some_redacts[of s pats]
  by (auto split: option.split)

section \<open>What trimming and splitting compute\<close>

definition strip :: "string \<Rightarrow> string \<Rightarrow> string" where
  "strip cs s = rev (dropWhile (\<lambda>c. c \<in> set cs) (rev (dropWhile (\<lambda>c. c \<in> set cs) s)))"

lemma find_first_not_of_takeWhile:
  "find_first_not_of cs s =
     (if set s \<subseteq> set cs then None else Some (length (takeWhile (\<lambda>c. c \<in> set cs) s)))"
  by (induction s) auto

lemma strip_blank: "set s \<subseteq> set cs \<Longrightarrow> strip cs s = []"
  by (auto simp: strip_def dropWhile_eq_Nil_conv dest: set_dropWhileD)

lemma substr_strip:
  assumes "\<not> set s \<subseteq> set cs"
    and "find_first_not_of cs s = Some b" and "find_last_not_of cs s = Some e"
  shows "substr s b (e - b + 1) = strip cs s" and "strip cs s \<noteq> []"
proof -
  let ?P = "\<lambda>c. c \<in> set cs"
  let ?k = "length (takeWhile ?P (rev s))"
  from assms have b: "b = length (takeWhile ?P s)" and k: "e = length s - 1 - ?k"
    by (simp_all add: find_first_not_of_takeWhile find_last_not_of_def)
  from assms obtain x where x: "x \<in> set s" "\<not> ?P x" by blast
  have ex: "\<exists>x \<in> set (drop b s). \<not> ?P x"
  proof -
    have "set (take b s) \<subseteq> set cs"
      using find_first_not_of_SomeD[OF assms(2)] by simp
    moreover have "x \<in> set (take b s) \<or> x \<in> set (drop b s)"
      using x(1) by (metis append_take_drop_id UnE set_append)
    ultimately show ?thesis using x(2) by blast
  qed
  then have "takeWhile ?P (rev (drop b s) @ rev (take b s)) = takeWhile ?P (rev (drop b s))"
    by (metis set_rev takeWhile_append1)
  moreover have "rev s = rev (drop b s) @ rev (take b s)"
    by (metis append_take_drop_id rev_append)
  ultimately have kd: "?k = length (takeWhile ?P (rev (drop b s)))" by simp
  have "?k < length (rev (drop b s))"
    using ex kd by (metis set_rev length_takeWhile_le nat_less_le takeWhile_eq_all_conv
        takeWhile_eq_take take_all_iff order_refl)
  then have n: "e - b + 1 = length (drop b s) - ?k" and "?k < length (drop b s)"
    using k by auto
  have "strip cs s = rev (drop ?k (rev (drop b s)))"
    unfolding strip_def dropWhile_eq_drop using b kd by simp
  then have st: "strip cs s = take (length (drop b s) - ?k) (drop b s)"
    by (simp add: drop_rev)
  with n show "substr s b (e - b + 1) = strip cs s" by (simp add: substr_def)
  show "strip cs s \<noteq> []" using st \<open>?k < length (drop b s)\<close> by auto
qed

lemma find_not_of_both:
  assumes "\<not> set s \<subseteq> set cs"
  obtains b e where "find_first_not_of cs s = Some b" and "find_last_not_of cs s = Some e"
  using assms find_first_not_of_None_iff[of cs s] find_last_not_of_None_iff[of cs s] by auto

lemma trim_eq_strip: "trim s = strip [CHR '' '', CHR 0x09, CHR 0x0A, CHR 0x0D] s"
proof (cases "set s \<subseteq> set [CHR '' '', CHR 0x09, CHR 0x0A, CHR 0x0D]")
  case True
  then show ?thesis
    using find_first_not_of_None_iff[of "[CHR '' '', CHR 0x09, CHR 0x0A, CHR 0x0D]" s]
    by (simp add: trim_def strip_blank Let_def)
next
  case False
  from find_not_of_both[OF this] obtain b e where
    "find_first_not_of [CHR '' '', CHR 0x09, CHR 0x0A, CHR 0x0D] s = Some b"
    "find_last_not_of [CHR '' '', CHR 0x09, CHR 0x0A, CHR 0x0D] s = Some e" by blast
  with substr_strip(1)[OF False] show ?thesis by (simp add: trim_def Let_def)
qed

abbreviation "blanks \<equiv> [CHR '' '', CHR 0x09]"

lemma push_trimmed_strip:
  "push_trimmed current result =
     result @ (if strip blanks current = [] then [] else [strip blanks current])"
proof (cases "set current \<subseteq> set blanks")
  case True
  then show ?thesis
    using find_first_not_of_None_iff[of blanks current]
    by (simp add: push_trimmed_def strip_blank)
next
  case False
  from find_not_of_both[OF this] obtain b e where
    be: "find_first_not_of blanks current = Some b" "find_last_not_of blanks current = Some e"
    by blast
  have "current \<noteq> []" using False by auto
  with be substr_strip[OF False be] show ?thesis by (simp add: push_trimmed_def)
qed

text \<open>The pieces between commas, as a reference.\<close>

fun pieces :: "string \<Rightarrow> string list" where
  "pieces [] = [[]]"
| "pieces (c # s) =
     (if c = CHR '','' then [] # pieces s
      else (case pieces s of [] \<Rightarrow> [[c]] | p # ps \<Rightarrow> (c # p) # ps))"

lemma pieces_nonempty [simp]: "pieces s \<noteq> []"
  by (induction s) (auto split: list.splits)

lemma split_loop_pieces:
  "split_loop s current result =
     result @ filter (\<lambda>p. p \<noteq> []) (map (strip blanks) ((current @ hd (pieces s)) # tl (pieces s)))"
  by (induction s current result rule: split_loop.induct)
    (auto simp: push_trimmed_strip neq_Nil_conv split: list.splits)

lemma split_and_trim_pieces:
  "split_and_trim s = filter (\<lambda>p. p \<noteq> []) (map (strip blanks) (pieces s))"
  by (simp add: split_and_trim_def split_loop_pieces flip: list.map(2) del: list.map(2) filter.simps)

text \<open>Joining with commas and splitting again.\<close>

fun join_commas :: "string list \<Rightarrow> string" where
  "join_commas [] = []"
| "join_commas [p] = p"
| "join_commas (p # ps) = p @ CHR '','' # join_commas ps"

definition clean_piece :: "string \<Rightarrow> bool" where
  "clean_piece p \<longleftrightarrow> p \<noteq> [] \<and> CHR '','' \<notin> set p \<and> hd p \<notin> set blanks \<and> last p \<notin> set blanks"

lemma pieces_prefix:
  "CHR '','' \<notin> set p \<Longrightarrow> pieces (p @ s) = (p @ hd (pieces s)) # tl (pieces s)"
  by (induction p) auto

lemma pieces_join: "ps \<noteq> [] \<Longrightarrow> \<forall>p \<in> set ps. CHR '','' \<notin> set p \<Longrightarrow> pieces (join_commas ps) = ps"
proof (induction ps rule: join_commas.induct)
  case (2 p)
  then show ?case using pieces_prefix[of p "[]"] by simp
next
  case (3 p q ps)
  then show ?case using pieces_prefix[of p "CHR '','' # join_commas (q # ps)"] by simp
qed simp

lemma strip_clean: "clean_piece p \<Longrightarrow> strip blanks p = p"
proof -
  assume c: "clean_piece p"
  then have "dropWhile (\<lambda>c. c \<in> set blanks) p = p"
    by (cases p) (auto simp: clean_piece_def)
  moreover from c have "dropWhile (\<lambda>c. c \<in> set blanks) (rev p) = rev p"
    by (cases p rule: rev_cases) (auto simp: clean_piece_def)
  ultimately show ?thesis by (simp add: strip_def)
qed

text \<open>
  A list of patterns survives the configuration's comma-separated form: splitting what joining
  wrote gives back every pattern, in order, when none is empty, holds a comma, or starts or ends
  with a blank.
\<close>

theorem split_join_roundtrip:
  assumes "\<forall>p \<in> set ps. clean_piece p"
  shows "split_and_trim (join_commas ps) = ps"
proof (cases "ps = []")
  case True
  then show ?thesis by (simp add: split_and_trim_def push_trimmed_def)
next
  case False
  then have "pieces (join_commas ps) = ps"
    using assms by (intro pieces_join) (auto simp: clean_piece_def)
  moreover have "map (strip blanks) ps = ps"
    using assms by (simp add: map_idI strip_clean)
  moreover have "filter (\<lambda>p. p \<noteq> []) ps = ps"
    using assms by (auto simp: filter_id_conv clean_piece_def)
  ultimately show ?thesis by (simp add: split_and_trim_pieces)
qed

theorem split_join_roundtrip_witness:
  "split_and_trim ''password, api key'' = [''password'', ''api key'']
   \<and> split_and_trim (join_commas [''password'', ''api key'']) = [''password'', ''api key'']"
  using split_join_roundtrip[of "[''password'', ''api key'']"]
  by (simp add: clean_piece_def) code_simp

end
