(* ===== verification/Log_Context.thy ===== *)
theory Log_Context
  imports Zyrnix_Prelude
begin

text \<open>
  The thread-local context: \<open>src/log_context.cpp\<close>.  \<open>LogContext::context_\<close> is a map from keys to
  values; a \<open>ScopedContext\<close> is the vector of the keys it introduced, erased by its destructor.
  Programs that use scopes are trees of operations, because a scope is a C++ block: the destructor
  runs at its end, after those of the scopes opened inside it.
\<close>

type_synonym context_map = "string \<Rightarrow> string option"

definition ctx_set :: "string \<Rightarrow> string \<Rightarrow> context_map \<Rightarrow> context_map" where
  "ctx_set key v ctx = ctx(key \<mapsto> v)"

definition ctx_get :: "context_map \<Rightarrow> string \<Rightarrow> string" where
  "ctx_get ctx key = (case ctx key of Some v \<Rightarrow> v | None \<Rightarrow> [])"

definition ctx_remove :: "string \<Rightarrow> context_map \<Rightarrow> context_map" where
  "ctx_remove key ctx = ctx(key := None)"

definition ctx_clear :: "context_map \<Rightarrow> context_map" where
  "ctx_clear ctx = Map.empty"

definition ctx_contains :: "context_map \<Rightarrow> string \<Rightarrow> bool" where
  "ctx_contains ctx key \<longleftrightarrow> ctx key \<noteq> None"

record scoped_context =
  scoped_keys :: "string list"

definition scoped_set ::
    "string \<Rightarrow> string \<Rightarrow> scoped_context \<times> context_map \<Rightarrow> scoped_context \<times> context_map" where
  "scoped_set key v s =
     (let (sc, ctx) = s;
          sc' = (if \<not> ctx_contains ctx key then sc\<lparr>scoped_keys := scoped_keys sc @ [key]\<rparr> else sc)
      in (sc', ctx_set key v ctx))"

definition scoped_remove ::
    "string \<Rightarrow> scoped_context \<times> context_map \<Rightarrow> scoped_context \<times> context_map" where
  "scoped_remove key s =
     (let (sc, ctx) = s
      in (sc\<lparr>scoped_keys := remove1 key (scoped_keys sc)\<rparr>, ctx_remove key ctx))"

text \<open>The constructors; the initial map is given by the order in which it is iterated.\<close>

definition scoped_new :: "(string \<times> string) list \<Rightarrow> context_map \<Rightarrow> scoped_context \<times> context_map" where
  "scoped_new initial ctx = foldl (\<lambda>s kv. scoped_set (fst kv) (snd kv) s) (\<lparr>scoped_keys = []\<rparr>, ctx) initial"

definition scoped_delete :: "scoped_context \<times> context_map \<Rightarrow> context_map" where
  "scoped_delete s = foldl (\<lambda>ctx key. ctx_remove key ctx) (snd s) (scoped_keys (fst s))"

text \<open>Code that runs while a scope is alive.\<close>

datatype scope_op =
    ScopedSet string string
  | ScopedRemove string
  | ContextRemove string
  | ContextClear
  | Block "(string \<times> string) list" "scope_op list"

fun run_op :: "scope_op \<Rightarrow> scoped_context \<times> context_map \<Rightarrow> scoped_context \<times> context_map"
  and run_ops :: "scope_op list \<Rightarrow> scoped_context \<times> context_map \<Rightarrow> scoped_context \<times> context_map" where
  "run_op (ScopedSet k v) s = scoped_set k v s"
| "run_op (ScopedRemove k) s = scoped_remove k s"
| "run_op (ContextRemove k) s = (fst s, ctx_remove k (snd s))"
| "run_op ContextClear s = (fst s, ctx_clear (snd s))"
| "run_op (Block initial ops) s =
     (fst s, scoped_delete (run_ops ops (scoped_new initial (snd s))))"
| "run_ops [] s = s"
| "run_ops (x # xs) s = run_ops xs (run_op x s)"

text \<open>A block: construct, run, destroy.\<close>

definition run_block :: "(string \<times> string) list \<Rightarrow> scope_op list \<Rightarrow> context_map \<Rightarrow> context_map" where
  "run_block initial ops ctx = scoped_delete (run_ops ops (scoped_new initial ctx))"

text \<open>The keys a program can write.\<close>

fun op_keys :: "scope_op \<Rightarrow> string set"
  and ops_keys :: "scope_op list \<Rightarrow> string set" where
  "op_keys (ScopedSet k v) = {k}"
| "op_keys (ScopedRemove k) = {k}"
| "op_keys (ContextRemove k) = {k}"
| "op_keys ContextClear = UNIV"
| "op_keys (Block initial ops) = fst ` set initial \<union> ops_keys ops"
| "ops_keys [] = {}"
| "ops_keys (x # xs) = op_keys x \<union> ops_keys xs"

section \<open>Facts\<close>

lemma ctx_get_set [simp]: "ctx_get (ctx_set k v ctx) k' = (if k' = k then v else ctx_get ctx k')"
  by (simp add: ctx_get_def ctx_set_def)

lemma scoped_delete_apply:
  "scoped_delete s k = (if k \<in> set (scoped_keys (fst s)) then None else snd s k)"
proof -
  have "foldl (\<lambda>ctx key. ctx_remove key ctx) ctx ks k = (if k \<in> set ks then None else ctx k)"
    for ks and ctx :: context_map
    by (induction ks arbitrary: ctx) (auto simp: ctx_remove_def)
  then show ?thesis by (simp add: scoped_delete_def)
qed

text \<open>Every key that the outer context lacks is one the scope will erase.\<close>

definition tracks :: "context_map \<Rightarrow> scoped_context \<times> context_map \<Rightarrow> bool" where
  "tracks outer s \<longleftrightarrow> dom (snd s) \<subseteq> dom outer \<union> set (scoped_keys (fst s))"

lemma tracks_set: "tracks outer s \<Longrightarrow> tracks outer (scoped_set k v s)"
  by (cases s) (auto simp: tracks_def scoped_set_def ctx_contains_def ctx_set_def split: if_splits)

lemma tracks_remove:
  assumes "tracks outer s"
  shows "tracks outer (scoped_remove k s)"
proof -
  obtain sc ctx where s: "s = (sc, ctx)" by (cases s)
  have "x \<in> set (remove1 k (scoped_keys sc))" if "x \<in> set (scoped_keys sc)" "x \<noteq> k" for x
    using that by (simp add: in_set_remove1)
  with assms s show ?thesis
    by (auto simp: tracks_def scoped_remove_def ctx_remove_def split: if_splits)
qed

lemma tracks_new: "tracks ctx (scoped_new initial ctx)"
proof -
  have "tracks outer s \<Longrightarrow> tracks outer (foldl (\<lambda>s kv. scoped_set (fst kv) (snd kv) s) s kvs)"
    for outer s kvs by (induction kvs arbitrary: s) (auto simp: tracks_set)
  from this[of ctx "(\<lparr>scoped_keys = []\<rparr>, ctx)"] show ?thesis
    by (simp add: scoped_new_def tracks_def)
qed

lemma dom_delete: "tracks outer s \<Longrightarrow> dom (scoped_delete s) \<subseteq> dom outer"
  by (auto simp: tracks_def scoped_delete_apply dom_def split: if_splits)

lemma tracks_run:
  "tracks outer s \<Longrightarrow> tracks outer (run_op x s)"
  "tracks outer s \<Longrightarrow> tracks outer (run_ops xs s)"
proof (induction x s and xs s arbitrary: outer and outer rule: run_op_run_ops.induct)
  case (3 k s)
  then show ?case by (auto simp: tracks_def ctx_remove_def split: if_splits)
next
  case (5 initial ops s)
  then have "dom (scoped_delete (run_ops ops (scoped_new initial (snd s)))) \<subseteq> dom (snd s)"
    using tracks_new dom_delete by blast
  with "5.prems" show ?case by (auto simp: tracks_def)
qed (simp_all add: tracks_set tracks_remove, simp_all add: tracks_def ctx_clear_def)

text \<open>Keys a program does not mention keep their values, and its scopes never erase them.\<close>

definition untouched :: "string \<Rightarrow> string option \<Rightarrow> scoped_context \<times> context_map \<Rightarrow> bool" where
  "untouched k v s \<longleftrightarrow> snd s k = v \<and> k \<notin> set (scoped_keys (fst s))"

lemma untouched_set: "untouched k v s \<Longrightarrow> k \<noteq> k' \<Longrightarrow> untouched k v (scoped_set k' v' s)"
  by (cases s) (auto simp: untouched_def scoped_set_def ctx_set_def)

lemma untouched_remove: "untouched k v s \<Longrightarrow> k \<noteq> k' \<Longrightarrow> untouched k v (scoped_remove k' s)"
  by (cases s) (auto simp: untouched_def scoped_remove_def ctx_remove_def dest: notin_set_remove1)

lemma untouched_new: "k \<notin> fst ` set initial \<Longrightarrow> untouched k (ctx k) (scoped_new initial ctx)"
proof -
  have "untouched k v s \<Longrightarrow> k \<notin> fst ` set kvs \<Longrightarrow>
      untouched k v (foldl (\<lambda>s kv. scoped_set (fst kv) (snd kv) s) s kvs)" for v s kvs
    by (induction kvs arbitrary: s) (auto simp: untouched_set)
  from this[of "ctx k" "(\<lparr>scoped_keys = []\<rparr>, ctx)" initial]
  show "k \<notin> fst ` set initial \<Longrightarrow> untouched k (ctx k) (scoped_new initial ctx)"
    by (simp add: scoped_new_def untouched_def)
qed

lemma untouched_delete: "untouched k v s \<Longrightarrow> scoped_delete s k = v"
  by (simp add: untouched_def scoped_delete_apply)

lemma untouched_run:
  "untouched k v s \<Longrightarrow> k \<notin> op_keys x \<Longrightarrow> untouched k v (run_op x s)"
  "untouched k v s \<Longrightarrow> k \<notin> ops_keys xs \<Longrightarrow> untouched k v (run_ops xs s)"
proof (induction x s and xs s arbitrary: v and v rule: run_op_run_ops.induct)
  case (5 initial ops s)
  have "untouched k (snd s k) (scoped_new initial (snd s))"
    using "5.prems" by (intro untouched_new) auto
  with "5.IH" "5.prems" have "untouched k (snd s k) (run_ops ops (scoped_new initial (snd s)))"
    by simp
  with "5.prems"(1) show ?case by (simp add: untouched_def scoped_delete_apply)
qed (auto simp: untouched_set untouched_remove, auto simp: untouched_def ctx_remove_def)

text \<open>
  A scope leaves no key behind: whatever the block and the blocks nested in it do, every key
  present afterwards was present before, and every key the block does not mention has its old value.
\<close>

theorem scope_leaves_no_key:
  "dom (run_block initial ops ctx) \<subseteq> dom ctx
   \<and> (\<forall>k. k \<notin> fst ` set initial \<union> ops_keys ops \<longrightarrow> run_block initial ops ctx k = ctx k)"
proof
  show "dom (run_block initial ops ctx) \<subseteq> dom ctx"
    unfolding run_block_def by (intro dom_delete tracks_run tracks_new)
  show "\<forall>k. k \<notin> fst ` set initial \<union> ops_keys ops \<longrightarrow> run_block initial ops ctx k = ctx k"
    unfolding run_block_def using untouched_run(2) untouched_new untouched_delete by (metis UnCI)
qed

theorem scope_leaves_no_key_witness:
  "run_block [(''id'', ''7'')] [ScopedSet ''user'' ''bob''] [''app'' \<mapsto> ''z''] ''app'' = Some ''z''"
  using scope_leaves_no_key[of "[(''id'', ''7'')]" "[ScopedSet ''user'' ''bob'']" "[''app'' \<mapsto> ''z'']"]
  by simp

text \<open>
  A scope does not restore what it shadowed: a value set over a key of the enclosing context
  stays after the block, and a key removed inside the block stays removed.
\<close>

theorem scope_does_not_restore:
  assumes "ctx k = Some v"
  shows "run_block [] [ScopedSet k w] ctx k = Some w
    \<and> run_block [] [ScopedRemove k] ctx k = None"
  using assms
  by (simp add: run_block_def scoped_new_def scoped_delete_apply scoped_set_def scoped_remove_def
      ctx_contains_def ctx_set_def ctx_remove_def)

theorem scope_does_not_restore_witness:
  "run_block [] [ScopedSet ''a'' ''2''] [''a'' \<mapsto> ''1''] ''a'' = Some ''2''"
  using scope_does_not_restore[of "[''a'' \<mapsto> ''1'']" "''a''" "''1''" "''2''"] by simp

end
