(* ===== verification/Log_Filter.thy ===== *)
theory Log_Filter
  imports Log_Level Log_Context
begin

text \<open>
  Filters: \<open>src/log_filter.cpp\<close>.  Filters are objects behind shared pointers, so they live in a
  heap and a \<open>CompositeFilter\<close> holds pointers to its children; a regex filter counts its matches,
  so evaluating a filter changes the heap.  A composite may, through \<open>add_filter\<close>, come to contain
  itself; evaluation is then an endless recursion, which is why it is a \<open>partial_function\<close>.
  A function given as a filter may read the thread's context.  The regular expressions of the C++
  library are an argument: a record of compilation (with the
  case-insensitive flag, \<^const>\<open>None\<close> for \<open>std::regex_error\<close>), search and replacement.
\<close>

record 'rx regex_lib =
  rx_compile :: "bool \<Rightarrow> string \<Rightarrow> 'rx option"
  rx_search :: "string \<Rightarrow> 'rx \<Rightarrow> bool"
  rx_replace :: "string \<Rightarrow> 'rx \<Rightarrow> string \<Rightarrow> string"

type_synonym fptr = nat

datatype filter_mode = And | Or

record regex_options =
  opt_case_insensitive :: bool
  opt_invert :: bool
  opt_track_stats :: bool

definition default_options :: regex_options where
  "default_options = \<lparr>opt_case_insensitive = False, opt_invert = False, opt_track_stats = True\<rparr>"

record 'rx regex_filter =
  rf_pattern :: string
  rf_regex :: 'rx
  rf_field :: string
  rf_invert :: bool
  rf_case_insensitive :: bool
  rf_track_stats :: bool
  rf_match_count :: u64
  rf_miss_count :: u64

datatype 'rx filter_obj =
    LevelFilter level
  | FieldFilter string string
  | LambdaFilter "context_map \<Rightarrow> log_record \<Rightarrow> bool"
  | CompositeFilter filter_mode "fptr list"
  | RegexFilter "'rx regex_filter"

record 'rx filter_heap =
  fh_next :: fptr
  fh_objs :: "fptr \<Rightarrow> 'rx filter_obj"

definition alloc_filter :: "'rx filter_obj \<Rightarrow> 'rx filter_heap \<Rightarrow> fptr \<times> 'rx filter_heap" where
  "alloc_filter x h =
     (fh_next h, h\<lparr>fh_next := Suc (fh_next h), fh_objs := (fh_objs h)(fh_next h := x)\<rparr>)"

definition set_filter :: "fptr \<Rightarrow> 'rx filter_obj \<Rightarrow> 'rx filter_heap \<Rightarrow> 'rx filter_heap" where
  "set_filter p x h = h\<lparr>fh_objs := (fh_objs h)(p := x)\<rparr>"

text \<open>\<open>CompositeFilter::add_filter\<close>.\<close>

definition composite_add_filter :: "fptr \<Rightarrow> fptr \<Rightarrow> 'rx filter_heap \<Rightarrow> 'rx filter_heap" where
  "composite_add_filter p q h =
     (case fh_objs h p of
        CompositeFilter m ps \<Rightarrow> set_filter p (CompositeFilter m (ps @ [q])) h
      | _ \<Rightarrow> h)"

text \<open>The value of a field: the thread's context first, then the record.\<close>

definition field_target :: "context_map \<Rightarrow> log_record \<Rightarrow> string \<Rightarrow> string" where
  "field_target ctx r name = (case ctx name of Some v \<Rightarrow> v | None \<Rightarrow> get_field r name)"

definition field_should_log :: "context_map \<Rightarrow> string \<Rightarrow> string \<Rightarrow> log_record \<Rightarrow> bool" where
  "field_should_log ctx name expected r =
     (case ctx name of Some v \<Rightarrow> v = expected | None \<Rightarrow> get_field r name = expected)"

definition update_stats :: "bool \<Rightarrow> 'rx regex_filter \<Rightarrow> 'rx regex_filter" where
  "update_stats matched rf =
     (if rf_track_stats rf
      then (if matched then rf\<lparr>rf_match_count := rf_match_count rf + 1\<rparr>
            else rf\<lparr>rf_miss_count := rf_miss_count rf + 1\<rparr>)
      else rf)"

definition regex_matches ::
    "'rx regex_lib \<Rightarrow> context_map \<Rightarrow> 'rx regex_filter \<Rightarrow> log_record \<Rightarrow> bool" where
  "regex_matches rx ctx rf r =
     (let target = (if rf_field rf = [] then rec_message r else field_target ctx r (rf_field rf))
      in rx_search rx target (rf_regex rf))"

definition regex_should_log ::
    "'rx regex_lib \<Rightarrow> context_map \<Rightarrow> 'rx regex_filter \<Rightarrow> log_record \<Rightarrow> bool \<times> 'rx regex_filter"
  where
  "regex_should_log rx ctx rf r =
     (let matches = regex_matches rx ctx rf r
      in (if rf_invert rf then \<not> matches else matches, update_stats matches rf))"

text \<open>
  \<open>should_log\<close> of every class.  A job is a filter, or the rest of the loop over the children of a
  composite.
\<close>

partial_function (option) filter_run ::
    "'rx regex_lib \<Rightarrow> context_map \<Rightarrow> log_record \<Rightarrow> fptr + filter_mode \<times> fptr list
     \<Rightarrow> 'rx filter_heap \<Rightarrow> (bool \<times> 'rx filter_heap) option" where
  "filter_run rx ctx r job h =
     (case job of
        Inl p \<Rightarrow>
          (case fh_objs h p of
             LevelFilter m \<Rightarrow> Some (m \<le> rec_level r, h)
           | FieldFilter name expected \<Rightarrow> Some (field_should_log ctx name expected r, h)
           | LambdaFilter f \<Rightarrow> Some (f ctx r, h)
           | RegexFilter rf \<Rightarrow>
               (let (b, rf') = regex_should_log rx ctx rf r in Some (b, set_filter p (RegexFilter rf') h))
           | CompositeFilter m ps \<Rightarrow>
               (if ps = [] then Some (True, h) else filter_run rx ctx r (Inr (m, ps)) h))
      | Inr (m, ps) \<Rightarrow>
          (case ps of
             [] \<Rightarrow> Some (m = And, h)
           | p # qs \<Rightarrow>
               Option.bind (filter_run rx ctx r (Inl p) h)
                 (\<lambda>(b, h'). if m = And
                    then (if \<not> b then Some (False, h') else filter_run rx ctx r (Inr (m, qs)) h')
                    else (if b then Some (True, h') else filter_run rx ctx r (Inr (m, qs)) h'))))"

definition filter_should_log ::
    "'rx regex_lib \<Rightarrow> context_map \<Rightarrow> log_record \<Rightarrow> fptr \<Rightarrow> 'rx filter_heap
     \<Rightarrow> (bool \<times> 'rx filter_heap) option" where
  "filter_should_log rx ctx r p h = filter_run rx ctx r (Inl p) h"

record filter_stats =
  fs_matches :: u64
  fs_misses :: u64
  fs_total_checks :: u64

definition get_stats :: "'rx regex_filter \<Rightarrow> filter_stats" where
  "get_stats rf =
     \<lparr>fs_matches = rf_match_count rf, fs_misses = rf_miss_count rf,
      fs_total_checks = rf_match_count rf + rf_miss_count rf\<rparr>"

definition reset_stats :: "'rx regex_filter \<Rightarrow> 'rx regex_filter" where
  "reset_stats rf = rf\<lparr>rf_match_count := 0, rf_miss_count := 0\<rparr>"

text \<open>The constructors with options, and those with the inversion flag only.\<close>

definition regex_filter_new ::
    "'rx regex_lib \<Rightarrow> string \<Rightarrow> string \<Rightarrow> regex_options \<Rightarrow> 'rx regex_filter option" where
  "regex_filter_new rx field_name pattern options =
     map_option (\<lambda>re.
       \<lparr>rf_pattern = pattern, rf_regex = re, rf_field = field_name,
        rf_invert = opt_invert options, rf_case_insensitive = opt_case_insensitive options,
        rf_track_stats = opt_track_stats options, rf_match_count = 0, rf_miss_count = 0\<rparr>)
       (rx_compile rx (opt_case_insensitive options) pattern)"

definition regex_filter_plain ::
    "'rx regex_lib \<Rightarrow> string \<Rightarrow> string \<Rightarrow> bool \<Rightarrow> 'rx regex_filter option" where
  "regex_filter_plain rx field_name pattern invert =
     map_option (\<lambda>re.
       \<lparr>rf_pattern = pattern, rf_regex = re, rf_field = field_name,
        rf_invert = invert, rf_case_insensitive = False,
        rf_track_stats = True, rf_match_count = 0, rf_miss_count = 0\<rparr>)
       (rx_compile rx False pattern)"

section \<open>The cache of compiled filters\<close>

datatype filter_error = RegexError

record 'rx regex_cache =
  rc_cache :: "(string, fptr) omap"
  rc_precompiled :: "(string, fptr) omap"
  rc_hits :: u64
  rc_misses :: u64

definition make_cache_key :: "string \<Rightarrow> string \<Rightarrow> regex_options \<Rightarrow> string" where
  "make_cache_key pattern field options =
     pattern @ ''|'' @ field @ ''|''
     @ (if opt_case_insensitive options then ''i'' else [])
     @ (if opt_invert options then ''v'' else [])"

type_synonym 'rx cache_state = "'rx regex_cache \<times> 'rx filter_heap"

definition get_or_create ::
    "'rx regex_lib \<Rightarrow> string \<Rightarrow> string \<Rightarrow> regex_options \<Rightarrow> 'rx cache_state
     \<Rightarrow> (filter_error + fptr) \<times> 'rx cache_state" where
  "get_or_create rx field_name pattern options s =
     (let (c, h) = s; key = make_cache_key pattern field_name options in
      case omap_get (rc_cache c) key of
        Some p \<Rightarrow> (Inr p, c\<lparr>rc_hits := rc_hits c + 1\<rparr>, h)
      | None \<Rightarrow>
          (let c' = c\<lparr>rc_misses := rc_misses c + 1\<rparr> in
           case regex_filter_new rx field_name pattern options of
             None \<Rightarrow> (Inl RegexError, c', h)
           | Some rf \<Rightarrow>
               (let (p, h') = alloc_filter (RegexFilter rf) h
                in (Inr p, c'\<lparr>rc_cache := omap_put key p (rc_cache c')\<rparr>, h'))))"

definition get_or_create_pattern ::
    "'rx regex_lib \<Rightarrow> string \<Rightarrow> regex_options \<Rightarrow> 'rx cache_state
     \<Rightarrow> (filter_error + fptr) \<times> 'rx cache_state" where
  "get_or_create_pattern rx pattern options s = get_or_create rx [] pattern options s"

definition precompile ::
    "'rx regex_lib \<Rightarrow> string \<Rightarrow> string \<Rightarrow> regex_options \<Rightarrow> 'rx cache_state
     \<Rightarrow> (filter_error + unit) \<times> 'rx cache_state" where
  "precompile rx name pattern options s =
     (let (c, h) = s in
      case regex_filter_new rx [] pattern options of
        None \<Rightarrow> (Inl RegexError, c, h)
      | Some rf \<Rightarrow>
          (let (p, h') = alloc_filter (RegexFilter rf) h
           in (Inr (), c\<lparr>rc_precompiled := omap_put name p (rc_precompiled c)\<rparr>, h')))"

definition get_precompiled :: "'rx regex_cache \<Rightarrow> string \<Rightarrow> fptr option" where
  "get_precompiled c name = omap_get (rc_precompiled c) name"

definition cache_clear :: "'rx regex_cache \<Rightarrow> 'rx regex_cache" where
  "cache_clear c = c\<lparr>rc_cache := []\<rparr>"

definition cache_size :: "'rx regex_cache \<Rightarrow> nat" where
  "cache_size c = length (rc_cache c)"

section \<open>Evaluation against a reference\<close>

text \<open>
  The reference: conjunction or disjunction over the children, to a given depth.  Evaluation only
  changes counters, so the shape of the heap, and with it every verdict, stays.
\<close>

primrec verdict ::
    "nat \<Rightarrow> 'rx regex_lib \<Rightarrow> context_map \<Rightarrow> log_record \<Rightarrow> (fptr \<Rightarrow> 'rx filter_obj) \<Rightarrow> fptr \<Rightarrow> bool"
  where
  "verdict 0 rx ctx r objs p = False"
| "verdict (Suc n) rx ctx r objs p =
     (case objs p of
        LevelFilter m \<Rightarrow> m \<le> rec_level r
      | FieldFilter name expected \<Rightarrow> field_target ctx r name = expected
      | LambdaFilter f \<Rightarrow> f ctx r
      | RegexFilter rf \<Rightarrow> regex_matches rx ctx rf r \<noteq> rf_invert rf
      | CompositeFilter m ps \<Rightarrow>
          ps = [] \<or> (if m = And then list_all (verdict n rx ctx r objs) ps
                     else list_ex (verdict n rx ctx r objs) ps))"

primrec erase_stats :: "'rx filter_obj \<Rightarrow> 'rx filter_obj" where
  "erase_stats (LevelFilter m) = LevelFilter m"
| "erase_stats (FieldFilter n v) = FieldFilter n v"
| "erase_stats (LambdaFilter f) = LambdaFilter f"
| "erase_stats (CompositeFilter m ps) = CompositeFilter m ps"
| "erase_stats (RegexFilter rf) = RegexFilter (reset_stats rf)"

definition same_shape :: "'rx filter_heap \<Rightarrow> 'rx filter_heap \<Rightarrow> bool" where
  "same_shape h h' \<longleftrightarrow>
     fh_next h' = fh_next h \<and> (\<forall>p. erase_stats (fh_objs h' p) = erase_stats (fh_objs h p))"

definition ranked :: "(fptr \<Rightarrow> nat) \<Rightarrow> 'rx filter_heap \<Rightarrow> bool" where
  "ranked rank h \<longleftrightarrow>
     (\<forall>p m ps. fh_objs h p = CompositeFilter m ps \<longrightarrow> (\<forall>q \<in> set ps. rank q < rank p))"

lemma same_shape_refl [simp]: "same_shape h h"
  by (simp add: same_shape_def)

lemma same_shape_trans [trans]: "same_shape h h' \<Longrightarrow> same_shape h' h'' \<Longrightarrow> same_shape h h''"
  by (simp add: same_shape_def)

lemma erase_stats_update [simp]:
  "reset_stats (update_stats b rf) = reset_stats rf"
  by (simp add: update_stats_def reset_stats_def)

lemma same_shape_set:
  "fh_objs h p = RegexFilter rf \<Longrightarrow> same_shape h (set_filter p (RegexFilter (update_stats b rf)) h)"
  by (simp add: same_shape_def set_filter_def)

lemma erase_stats_composite [simp]:
  "erase_stats x = CompositeFilter m ps \<longleftrightarrow> x = CompositeFilter m ps"
  by (cases x) auto

lemma same_shape_ranked: "same_shape h h' \<Longrightarrow> ranked rank h \<Longrightarrow> ranked rank h'"
  unfolding ranked_def same_shape_def by (metis erase_stats_composite)

lemma regex_matches_reset [simp]:
  "regex_matches rx ctx (reset_stats rf) r = regex_matches rx ctx rf r"
  "rf_invert (reset_stats rf) = rf_invert rf"
  by (simp_all add: regex_matches_def reset_stats_def)

lemma verdict_erase:
  "verdict n rx ctx r (\<lambda>p. erase_stats (objs p)) p = verdict n rx ctx r objs p"
proof (induction n arbitrary: p)
  case (Suc n)
  then have "verdict n rx ctx r (\<lambda>p. erase_stats (objs p)) = verdict n rx ctx r objs" by auto
  then show ?case by (cases "objs p") simp_all
qed simp

lemma same_shape_verdict:
  "same_shape h h' \<Longrightarrow> verdict n rx ctx r (fh_objs h') p = verdict n rx ctx r (fh_objs h) p"
  unfolding same_shape_def by (metis (no_types, lifting) verdict_erase ext)

lemma filter_run_loop:
  assumes child: "\<And>q h. q \<in> set ps \<Longrightarrow> ranked rank h \<Longrightarrow>
      \<exists>h'. filter_run rx ctx r (Inl q) h = Some (verdict n rx ctx r (fh_objs h) q, h')
        \<and> same_shape h h'"
    and "ranked rank h"
  shows "\<exists>h'. filter_run rx ctx r (Inr (m, ps)) h =
      Some (if m = And then list_all (verdict n rx ctx r (fh_objs h)) ps
            else list_ex (verdict n rx ctx r (fh_objs h)) ps, h') \<and> same_shape h h'"
  using assms
proof (induction ps arbitrary: h)
  case Nil
  then show ?case by (cases m) (simp_all add: filter_run.simps)
next
  case (Cons p ps)
  from Cons.prems(1)[of p h] Cons.prems(2) obtain h1 where
    p: "filter_run rx ctx r (Inl p) h = Some (verdict n rx ctx r (fh_objs h) p, h1)"
    and h1: "same_shape h h1" by auto
  from same_shape_ranked[OF h1 Cons.prems(2)] Cons.IH[of h1] Cons.prems(1) obtain h2 where
    ps: "filter_run rx ctx r (Inr (m, ps)) h1 =
      Some (if m = And then list_all (verdict n rx ctx r (fh_objs h1)) ps
            else list_ex (verdict n rx ctx r (fh_objs h1)) ps, h2)"
    and h2: "same_shape h1 h2" by auto
  have v: "verdict n rx ctx r (fh_objs h1) = verdict n rx ctx r (fh_objs h)"
    using same_shape_verdict[OF h1] by blast
  show ?case
    using p ps h1 same_shape_trans[OF h1 h2]
    by (subst filter_run.simps) (auto simp: v)
qed

lemma filter_run_verdict:
  fixes h :: "'rx filter_heap"
  shows "ranked rank h \<Longrightarrow> rank p < n \<Longrightarrow>
     \<exists>h'. filter_run rx ctx r (Inl p) h = Some (verdict n rx ctx r (fh_objs h) p, h')
       \<and> same_shape h h'"
proof (induction n arbitrary: p h)
  case (Suc n)
  show ?case
  proof (cases "fh_objs h p")
    case (CompositeFilter m ps)
    have "\<exists>h'. filter_run rx ctx r (Inr (m, ps)) h =
      Some (if m = And then list_all (verdict n rx ctx r (fh_objs h)) ps
            else list_ex (verdict n rx ctx r (fh_objs h)) ps, h') \<and> same_shape h h'"
    proof (rule filter_run_loop[OF _ Suc.prems(1)])
      fix q and h0 :: "'rx filter_heap"
      assume "q \<in> set ps" and h0: "ranked rank h0"
      then have "rank q < n"
        using Suc.prems CompositeFilter unfolding ranked_def by (meson less_Suc_eq_le order_less_le_trans)
      with Suc.IH h0 show "\<exists>h'. filter_run rx ctx r (Inl q) h0 =
          Some (verdict n rx ctx r (fh_objs h0) q, h') \<and> same_shape h0 h'" by blast
    qed
    with CompositeFilter show ?thesis by (subst filter_run.simps) auto
  next
    case (RegexFilter rf)
    then show ?thesis
      by (subst filter_run.simps)
        (auto simp: regex_should_log_def Let_def intro: same_shape_set)
  qed (simp_all add: filter_run.simps field_should_log_def field_target_def split: option.splits)
qed simp

lemma filter_run_cyclic:
  fixes h :: "'rx filter_heap"
  assumes "fh_objs h p = CompositeFilter m (p # ps)"
  shows "filter_run rx ctx r (Inl p) h = None"
proof (rule ccontr)
  let ?P = "\<lambda>(rx :: 'rx regex_lib) (ctx :: context_map) (r :: log_record)
    (job :: fptr + filter_mode \<times> fptr list) (h :: 'rx filter_heap) (res :: bool \<times> 'rx filter_heap).
      \<not> ((job = Inl p \<or> job = Inr (m, p # ps)) \<and> fh_objs h p = CompositeFilter m (p # ps))"
  assume "filter_run rx ctx r (Inl p) h \<noteq> None"
  then obtain res where ret: "filter_run rx ctx r (Inl p) h = Some res" by auto
  have "?P rx ctx r (Inl p) h res"
  proof (rule filter_run.raw_induct[where P = ?P, OF _ ret])
    fix f and rx :: "'rx regex_lib" and ctx r job and h :: "'rx filter_heap" and res
    assume IH: "\<And>rx ctx r job h res. f rx ctx r job h = Some res \<Longrightarrow> ?P rx ctx r job h res"
      and eq: "(case job of
        Inl p \<Rightarrow>
          (case fh_objs h p of
             LevelFilter m \<Rightarrow> Some (m \<le> rec_level r, h)
           | FieldFilter name expected \<Rightarrow> Some (field_should_log ctx name expected r, h)
           | LambdaFilter f \<Rightarrow> Some (f ctx r, h)
           | CompositeFilter m ps \<Rightarrow> (if ps = [] then Some (True, h) else f rx ctx r (Inr (m, ps)) h)
           | RegexFilter rf \<Rightarrow>
               (let (b, rf') = regex_should_log rx ctx rf r in Some (b, set_filter p (RegexFilter rf') h)))
      | Inr (m, ps) \<Rightarrow>
          (case ps of
             [] \<Rightarrow> Some (m = And, h)
           | p # qs \<Rightarrow>
               Option.bind (f rx ctx r (Inl p) h)
                 (\<lambda>(b, h'). if m = And
                    then (if \<not> b then Some (False, h') else f rx ctx r (Inr (m, qs)) h')
                    else (if b then Some (True, h') else f rx ctx r (Inr (m, qs)) h')))) = Some res"
    show "?P rx ctx r job h res"
    proof
      assume a: "(job = Inl p \<or> job = Inr (m, p # ps)) \<and> fh_objs h p = CompositeFilter m (p # ps)"
      then consider "job = Inl p" | "job = Inr (m, p # ps)" by blast
      then show False
      proof cases
        case 1
        with a eq have "f rx ctx r (Inr (m, p # ps)) h = Some res" by simp
        with IH a show False by blast
      next
        case 2
        with eq obtain b h' where "f rx ctx r (Inl p) h = Some (b, h')"
          by (auto simp: bind_eq_Some_conv)
        with IH a show False by blast
      qed
    qed
  qed
  with assms show False by simp
qed

section \<open>What the cache returns\<close>

definition answers :: "'rx regex_filter \<Rightarrow> string \<Rightarrow> string \<Rightarrow> regex_options \<Rightarrow> bool" where
  "answers rf field pattern opts \<longleftrightarrow>
     rf_pattern rf = pattern \<and> rf_field rf = field \<and> rf_invert rf = opt_invert opts
     \<and> rf_case_insensitive rf = opt_case_insensitive opts"

definition plain_name :: "string \<Rightarrow> bool" where
  "plain_name field \<longleftrightarrow> CHR ''|'' \<notin> set field"

definition cache_entry_ok :: "'rx filter_heap \<Rightarrow> string \<Rightarrow> fptr \<Rightarrow> bool" where
  "cache_entry_ok h key p \<longleftrightarrow>
     p < fh_next h \<and>
     (\<exists>field pattern opts rf. plain_name field \<and> key = make_cache_key pattern field opts
        \<and> fh_objs h p = RegexFilter rf \<and> answers rf field pattern opts)"

definition cache_ok :: "'rx cache_state \<Rightarrow> bool" where
  "cache_ok s \<longleftrightarrow>
     omap_valid (rc_cache (fst s))
     \<and> (\<forall>key p. omap_get (rc_cache (fst s)) key = Some p \<longrightarrow> cache_entry_ok (snd s) key p)"

lemma make_cache_key_inj:
  assumes "plain_name f" and "plain_name f'"
    and "make_cache_key p f opts = make_cache_key p' f' opts'"
  shows "p = p' \<and> f = f' \<and> opt_invert opts = opt_invert opts'
    \<and> opt_case_insensitive opts = opt_case_insensitive opts'"
proof -
  let ?fl = "\<lambda>opts. (if opt_case_insensitive opts then ''i'' else []) @
    (if opt_invert opts then ''v'' else [])"
  have eq: "rev (?fl opts) @ CHR ''|'' # (rev f @ CHR ''|'' # rev p)
      = rev (?fl opts') @ CHR ''|'' # (rev f' @ CHR ''|'' # rev p')"
    using arg_cong[OF assms(3), of rev] by (simp add: make_cache_key_def)
  have bar: "CHR ''|'' \<notin> set (rev (?fl q))" for q by simp
  from eq have fl: "rev (?fl opts) = rev (?fl opts')"
    and rest: "rev f @ CHR ''|'' # rev p = rev f' @ CHR ''|'' # rev p'"
    by (simp_all only: split_at_first[OF bar bar])
  have "rev f = rev f' \<and> rev p = rev p'"
    using rest split_at_first[of "CHR ''|''" "rev f" "rev f'"] assms(1,2)
    by (simp add: plain_name_def)
  moreover have "?fl opts = ?fl opts'" using fl by (simp only: rev_is_rev_conv)
  ultimately show ?thesis
    by (cases "opt_invert opts"; cases "opt_invert opts'"; cases "opt_case_insensitive opts";
        cases "opt_case_insensitive opts'") simp_all
qed

lemma cache_entry_alloc:
  "cache_entry_ok h key p \<Longrightarrow> cache_entry_ok (snd (alloc_filter x h)) key p"
  by (fastforce simp: cache_entry_ok_def alloc_filter_def)

lemma cache_entry_same_shape:
  assumes "same_shape h h'" and "cache_entry_ok h key p"
  shows "cache_entry_ok h' key p"
proof -
  from assms(2) obtain field pattern opts rf where
    e: "p < fh_next h" "plain_name field" "key = make_cache_key pattern field opts"
      "fh_objs h p = RegexFilter rf" "answers rf field pattern opts"
    by (auto simp: cache_entry_ok_def)
  from assms(1) e(4) have "erase_stats (fh_objs h' p) = RegexFilter (reset_stats rf)"
    by (simp add: same_shape_def)
  then obtain rf' where "fh_objs h' p = RegexFilter rf'" "reset_stats rf' = reset_stats rf"
    by (cases "fh_objs h' p") auto
  moreover from this(2) e(5) have "answers rf' field pattern opts"
    by (cases rf; cases rf') (simp add: answers_def reset_stats_def)
  ultimately show ?thesis using e assms(1) by (auto simp: cache_entry_ok_def same_shape_def)
qed

lemma regex_filter_new_answers:
  "regex_filter_new rx field pattern opts = Some rf \<Longrightarrow> answers rf field pattern opts"
  by (auto simp: regex_filter_new_def answers_def)

lemma get_or_create_ok:
  assumes ok: "cache_ok s" and plain: "plain_name field"
    and run: "get_or_create rx field pattern opts s = (res, s')"
  shows "cache_ok s'"
    and "res = Inr p \<Longrightarrow> \<exists>rf. fh_objs (snd s') p = RegexFilter rf \<and> answers rf field pattern opts"
proof -
  obtain c h where s: "s = (c, h)" by (cases s)
  let ?key = "make_cache_key pattern field opts"
  have "cache_ok s' \<and> (\<forall>p. res = Inr p \<longrightarrow>
      (\<exists>rf. fh_objs (snd s') p = RegexFilter rf \<and> answers rf field pattern opts))"
  proof (cases "omap_get (rc_cache c) ?key")
    case (Some q)
    with ok s have "cache_entry_ok h ?key q" by (simp add: cache_ok_def)
    then obtain rf where "fh_objs h q = RegexFilter rf" "answers rf field pattern opts"
      using make_cache_key_inj plain unfolding cache_entry_ok_def answers_def by metis
    with ok run s Some show ?thesis by (auto simp: get_or_create_def cache_ok_def)
  next
    case None
    show ?thesis
    proof (cases "regex_filter_new rx field pattern opts")
      case None
      with ok run s \<open>omap_get (rc_cache c) ?key = None\<close> show ?thesis
        by (auto simp: get_or_create_def cache_ok_def)
    next
      case (Some rf)
      let ?h = "snd (alloc_filter (RegexFilter rf) h)"
      have s': "res = Inr (fh_next h)" "snd s' = ?h"
        "rc_cache (fst s') = omap_put ?key (fh_next h) (rc_cache c)"
        using run s None Some by (auto simp: get_or_create_def alloc_filter_def Let_def)
      have new: "cache_entry_ok ?h ?key (fh_next h)"
        using plain regex_filter_new_answers[OF Some]
        by (fastforce simp: cache_entry_ok_def alloc_filter_def)
      have "cache_ok s'"
        using ok s new s' by (auto simp: cache_ok_def omap_laws cache_entry_alloc)
      with s' regex_filter_new_answers[OF Some] show ?thesis by (auto simp: alloc_filter_def)
    qed
  qed
  then show "cache_ok s'"
    and "res = Inr p \<Longrightarrow> \<exists>rf. fh_objs (snd s') p = RegexFilter rf \<and> answers rf field pattern opts"
    by blast+
qed

section \<open>Properties\<close>

text \<open>A regex library for the witnesses: every pattern is a literal.\<close>

definition literal_rx :: "string regex_lib" where
  "literal_rx = \<lparr>rx_compile = (\<lambda>icase p. Some p), rx_search = (\<lambda>s p. find_in p s \<noteq> None),
                 rx_replace = (\<lambda>s p r. s)\<rparr>"

text \<open>
  C21. Evaluation of a filter returns whenever composites contain only filters of lower rank (no
  cycle), the answer is the conjunction or disjunction of the children's answers, and nothing but
  the match counters of regex filters has changed.
\<close>

theorem filter_evaluation_correct:
  assumes "ranked rank h"
  shows "\<exists>h'. filter_should_log rx ctx r p h = Some (verdict (Suc (rank p)) rx ctx r (fh_objs h) p, h')
    \<and> same_shape h h'"
  unfolding filter_should_log_def using filter_run_verdict[OF assms] by blast

definition sample_filters :: "string filter_heap" where
  "sample_filters = \<lparr>fh_next = 3, fh_objs = (\<lambda>_. LevelFilter Trace)
     (0 := CompositeFilter Or [1, 2], 1 := LevelFilter Error, 2 := FieldFilter ''user'' ''bob'')\<rparr>"

definition sample_record :: log_record where
  "sample_record = \<lparr>rec_logger_name = ''app'', rec_level = Info, rec_message = ''hi'',
     rec_timestamp = 0, rec_fields = [''user'' \<mapsto> ''bob'']\<rparr>"

theorem filter_evaluation_correct_witness:
  "\<exists>h'. filter_should_log literal_rx Map.empty sample_record 0 sample_filters = Some (True, h')"
proof -
  have "ranked (\<lambda>p. if p = 0 then 1 else 0) sample_filters"
    by (auto simp: ranked_def sample_filters_def split: if_splits)
  from filter_evaluation_correct[OF this, of literal_rx Map.empty sample_record 0]
  show ?thesis
    by (auto simp: sample_filters_def sample_record_def field_target_def get_field_def
        numeral_eq_Suc)
qed

text \<open>
  A composite that, after \<open>add_filter\<close>, contains itself as its first child makes
  \<open>should_log\<close> recurse for ever.
\<close>

theorem composite_self_diverges:
  assumes "fh_objs h p = CompositeFilter m []"
  shows "filter_should_log rx ctx r p (composite_add_filter p p h) = None"
  unfolding filter_should_log_def using assms
  by (intro filter_run_cyclic[where m = m and ps = "[]"])
    (simp add: composite_add_filter_def set_filter_def)

theorem composite_self_diverges_witness:
  "filter_should_log literal_rx Map.empty sample_record 5 (composite_add_filter 5 5
     \<lparr>fh_next = 6, fh_objs = (\<lambda>_. CompositeFilter And [])\<rparr>) = None"
  by (rule composite_self_diverges) simp

text \<open>
  C22. The cache answers with the filter that was asked for: as long as no field name contains the
  separator of the keys, a successful \<open>get_or_create\<close> returns a filter with the pattern, the
  field, the inversion and the case flag of the request, and the cache stays in that condition.
\<close>

theorem cache_returns_requested:
  assumes "cache_ok s" and "plain_name field"
    and "get_or_create rx field pattern opts s = (Inr p, s')"
  shows "cache_ok s' \<and>
    (\<exists>rf. fh_objs (snd s') p = RegexFilter rf \<and> answers rf field pattern opts)"
  using get_or_create_ok[OF assms] by blast

definition empty_cache :: "'rx cache_state" where
  "empty_cache = (\<lparr>rc_cache = [], rc_precompiled = [], rc_hits = 0, rc_misses = 0\<rparr>,
     \<lparr>fh_next = 0, fh_objs = (\<lambda>_. LevelFilter Trace)\<rparr>)"

lemma empty_cache_ok: "cache_ok empty_cache"
  by (simp add: cache_ok_def empty_cache_def omap_laws)

theorem cache_returns_requested_witness:
  "cache_ok (snd (get_or_create literal_rx ''user'' ''bob'' default_options empty_cache))"
proof -
  have "plain_name ''user''" by (simp add: plain_name_def)
  moreover have "get_or_create literal_rx ''user'' ''bob'' default_options empty_cache
      = (Inr 0, snd (get_or_create literal_rx ''user'' ''bob'' default_options empty_cache))"
    by (simp add: get_or_create_def empty_cache_def literal_rx_def regex_filter_new_def
        alloc_filter_def omap_get_def)
  ultimately show ?thesis using cache_returns_requested[OF empty_cache_ok] by blast
qed

text \<open>
  Without that condition the keys collide: after a request for pattern \<open>a\<close> on field
  \<open>b|c\<close>, a request for pattern \<open>a|b\<close> on field \<open>c\<close> is answered with the first filter.
\<close>

theorem cache_keys_collide:
  assumes "cache_ok s"
    and "get_or_create rx (b @ ''|'' @ c) a opts s = (Inr p, s')"
  shows "fst (get_or_create rx c (a @ ''|'' @ b) opts s') = Inr p"
proof -
  have key: "make_cache_key (a @ ''|'' @ b) c opts = make_cache_key a (b @ ''|'' @ c) opts"
    by (simp add: make_cache_key_def)
  have "omap_get (rc_cache (fst s')) (make_cache_key a (b @ ''|'' @ c) opts) = Some p"
    using assms unfolding get_or_create_def cache_ok_def
    by (cases s) (auto simp: Let_def alloc_filter_def omap_laws split: option.splits)
  with key show ?thesis by (cases s') (simp add: get_or_create_def Let_def)
qed

theorem cache_keys_collide_witness:
  "fst (get_or_create literal_rx ''f'' ''x|y'' default_options
     (snd (get_or_create literal_rx ''y|f'' ''x'' default_options empty_cache))) = Inr 0"
proof -
  have "get_or_create literal_rx (''y'' @ ''|'' @ ''f'') ''x'' default_options empty_cache
      = (Inr 0, snd (get_or_create literal_rx ''y|f'' ''x'' default_options empty_cache))"
    by (simp add: get_or_create_def empty_cache_def literal_rx_def regex_filter_new_def
        alloc_filter_def omap_get_def)
  from cache_keys_collide[OF empty_cache_ok this] show ?thesis by simp
qed

end
