(* ===== verification/Logger.thy ===== *)
theory Logger
  imports Formatter Log_Filter
begin

text \<open>
  The logger: \<open>include/Zyrnix/logger.hpp\<close> and \<open>src/logger.cpp\<close>.  Each method is a function of the
  logger's fields and of the world \<open>'w\<close> its sinks and callbacks act on.  A sink is reached
  through its pointer (a number) by the two virtual functions the logger calls, collected in
  \<open>sink_ops\<close>; the locale \<open>log_sinks\<close> states what the logger relies on.  Readings of the system
  clock inside one call are \<open>clk 0\<close>, \<open>clk 1\<close>, and so on, one per place of the call that reads it.
  \<open>log\<close> is optional: \<^const>\<open>None\<close> means that it does not return (an empty redaction pattern, a
  composite filter that contains itself).  The calls of sinks, of level callbacks and of lambda
  filters are total functions of their arguments: code of the user that does not return is outside
  the model, and of the library's sinks the one whose \<open>log\<close> need not return, a multi sink that
  contains itself, marks the world as stuck (\<open>w_stuck\<close> in \<open>All_Sinks\<close>), so that what is
  said of a call that returns is said of worlds without the mark.
\<close>

section \<open>State\<close>

type_synonym sink_ptr = nat

record 'w sink_ops =
  so_log :: "sink_ptr \<Rightarrow> string \<Rightarrow> level \<Rightarrow> string \<Rightarrow> 'w \<Rightarrow> 'w"
  so_cloud :: "sink_ptr \<Rightarrow> 'w \<Rightarrow> bool"

record level_change_entry =
  lce_old_level :: level
  lce_new_level :: level
  lce_timestamp :: time
  lce_reason :: string

record temporary_level_change =
  tmp_original_level :: level
  tmp_revert_time :: time
  tmp_active :: bool

record sink_entry =
  se_sink :: "sink_ptr option"
  se_name :: string
  se_marked :: bool
  se_refs :: int

type_synonym 'w level_callback = "level \<Rightarrow> level \<Rightarrow> 'w \<Rightarrow> 'w"

record 'w logger =
  lg_name :: string
  lg_redact_patterns :: "string list"
  lg_redact_regex_patterns :: "string list"
  lg_redact_pii_presets :: "string list"
  lg_redact_cloud_only :: bool
  lg_sink_entries :: "sink_entry list"
  lg_filters :: "fptr list"
  lg_filter_func :: "(context_map \<Rightarrow> log_record \<Rightarrow> bool) option"
  lg_min_level :: level
  lg_callbacks :: "'w level_callback list"
  lg_overrides :: "nat \<Rightarrow> level option"
  lg_overrides_by_name :: "string \<Rightarrow> level option"
  lg_history :: "level_change_entry list"
  lg_max_history :: nat
  lg_temp :: temporary_level_change

text \<open>
  The constructor.  The default member initialisers give 100 history entries; of the temporary
  level only \<open>active\<close> is set, its other fields are indeterminate until the first use.
\<close>

definition logger_new :: "temporary_level_change \<Rightarrow> string \<Rightarrow> 'w logger" where
  "logger_new t n =
     \<lparr>lg_name = n, lg_redact_patterns = [], lg_redact_regex_patterns = [],
      lg_redact_pii_presets = [], lg_redact_cloud_only = False, lg_sink_entries = [],
      lg_filters = [], lg_filter_func = None, lg_min_level = Trace, lg_callbacks = [],
      lg_overrides = Map.empty, lg_overrides_by_name = Map.empty, lg_history = [],
      lg_max_history = 100, lg_temp = t\<lparr>tmp_active := False\<rparr>\<rparr>"

section \<open>Redaction settings, filters, callbacks\<close>

definition set_redact_patterns :: "string list \<Rightarrow> 'w logger \<Rightarrow> 'w logger" where
  "set_redact_patterns patterns lg = lg\<lparr>lg_redact_patterns := patterns\<rparr>"

definition clear_redact_patterns :: "'w logger \<Rightarrow> 'w logger" where
  "clear_redact_patterns lg = lg\<lparr>lg_redact_patterns := []\<rparr>"

definition set_redact_regex_patterns :: "string list \<Rightarrow> 'w logger \<Rightarrow> 'w logger" where
  "set_redact_regex_patterns patterns lg = lg\<lparr>lg_redact_regex_patterns := patterns\<rparr>"

definition set_redact_pii_presets :: "string list \<Rightarrow> 'w logger \<Rightarrow> 'w logger" where
  "set_redact_pii_presets presets lg = lg\<lparr>lg_redact_pii_presets := presets\<rparr>"

definition set_redact_apply_to_cloud_only :: "bool \<Rightarrow> 'w logger \<Rightarrow> 'w logger" where
  "set_redact_apply_to_cloud_only cloud_only lg = lg\<lparr>lg_redact_cloud_only := cloud_only\<rparr>"

definition add_filter :: "fptr \<Rightarrow> 'w logger \<Rightarrow> 'w logger" where
  "add_filter p lg = lg\<lparr>lg_filters := lg_filters lg @ [p]\<rparr>"

definition clear_filters :: "'w logger \<Rightarrow> 'w logger" where
  "clear_filters lg = lg\<lparr>lg_filters := [], lg_filter_func := None\<rparr>"

definition set_filter_func :: "(context_map \<Rightarrow> log_record \<Rightarrow> bool) option \<Rightarrow> 'w logger \<Rightarrow> 'w logger" where
  "set_filter_func f lg = lg\<lparr>lg_filter_func := f\<rparr>"

definition register_level_change_callback :: "'w level_callback \<Rightarrow> 'w logger \<Rightarrow> 'w logger" where
  "register_level_change_callback f lg = lg\<lparr>lg_callbacks := lg_callbacks lg @ [f]\<rparr>"

definition clear_level_change_callbacks :: "'w logger \<Rightarrow> 'w logger" where
  "clear_level_change_callbacks lg = lg\<lparr>lg_callbacks := []\<rparr>"

section \<open>Sinks\<close>

definition add_sink :: "sink_ptr option \<Rightarrow> string \<Rightarrow> 'w logger \<Rightarrow> 'w logger" where
  "add_sink sink nm lg =
     lg\<lparr>lg_sink_entries := lg_sink_entries lg @
       [\<lparr>se_sink = sink, se_name = nm, se_marked = False, se_refs = 0\<rparr>]\<rparr>"

definition add_sink_unnamed :: "sink_ptr option \<Rightarrow> 'w logger \<Rightarrow> 'w logger" where
  "add_sink_unnamed sink lg = add_sink sink [] lg"

text \<open>
  \<open>wait_for_sink_drain\<close>: \<open>polls n\<close> is the reference count read after \<open>n\<close> milliseconds; the result
  is the time waited.
\<close>

function wait_for_sink_drain :: "(nat \<Rightarrow> int) \<Rightarrow> nat \<Rightarrow> nat" where
  "wait_for_sink_drain polls waited_ms =
     (if polls waited_ms > 0 \<and> waited_ms < 5000
      then wait_for_sink_drain polls (waited_ms + 1) else waited_ms)"
  by pat_completeness auto
termination by (relation "measure (\<lambda>(polls, waited_ms). 5000 - waited_ms)") auto

declare wait_for_sink_drain.simps [simp del]

definition clear_sinks :: "'w logger \<Rightarrow> 'w logger" where
  "clear_sinks lg =
     lg\<lparr>lg_sink_entries := [], lg_overrides := Map.empty, lg_overrides_by_name := Map.empty\<rparr>"

text \<open>The first entry with a property, as an index (\<open>std::find_if\<close>).\<close>

fun find_entry :: "(sink_entry \<Rightarrow> bool) \<Rightarrow> sink_entry list \<Rightarrow> nat option" where
  "find_entry P [] = None"
| "find_entry P (e # es) = (if P e then Some 0 else map_option Suc (find_entry P es))"

definition mark_entry :: "nat \<Rightarrow> sink_entry list \<Rightarrow> sink_entry list" where
  "mark_entry i es = es[i := (es ! i)\<lparr>se_marked := True\<rparr>]"

definition remove_sink_named :: "string \<Rightarrow> 'w logger \<Rightarrow> bool \<times> 'w logger" where
  "remove_sink_named nm lg =
     (case find_entry (\<lambda>e. se_name e = nm \<and> \<not> se_marked e) (lg_sink_entries lg) of
        None \<Rightarrow> (False, lg)
      | Some i \<Rightarrow>
          (let es = mark_entry i (lg_sink_entries lg) in
           (True, lg\<lparr>lg_sink_entries := filter (\<lambda>e. \<not> (se_name e = nm \<and> se_marked e)) es\<rparr>)))"

definition cleanup_removed_sinks :: "sink_entry list \<Rightarrow> sink_entry list" where
  "cleanup_removed_sinks es = filter (\<lambda>e. \<not> (se_marked e \<and> se_refs e = 0)) es"

definition remove_sink_at :: "nat \<Rightarrow> 'w logger \<Rightarrow> bool \<times> 'w logger" where
  "remove_sink_at index lg =
     (if index \<ge> length (lg_sink_entries lg) then (False, lg)
      else (True, lg\<lparr>lg_sink_entries :=
              cleanup_removed_sinks (mark_entry index (lg_sink_entries lg))\<rparr>))"

definition sink_count :: "'w logger \<Rightarrow> nat" where
  "sink_count lg = length (filter (\<lambda>e. \<not> se_marked e) (lg_sink_entries lg))"

definition set_sink_level_at :: "nat \<Rightarrow> level \<Rightarrow> 'w logger \<Rightarrow> 'w logger" where
  "set_sink_level_at i l lg =
     (if i < length (lg_sink_entries lg) then lg\<lparr>lg_overrides := (lg_overrides lg)(i \<mapsto> l)\<rparr>
      else lg)"

definition set_sink_level_named :: "string \<Rightarrow> level \<Rightarrow> 'w logger \<Rightarrow> 'w logger" where
  "set_sink_level_named nm l lg =
     lg\<lparr>lg_overrides_by_name := (lg_overrides_by_name lg)(nm \<mapsto> l)\<rparr>"

definition clear_sink_level_overrides :: "'w logger \<Rightarrow> 'w logger" where
  "clear_sink_level_overrides lg =
     lg\<lparr>lg_overrides := Map.empty, lg_overrides_by_name := Map.empty\<rparr>"

section \<open>Levels, history and temporary levels\<close>

definition set_level :: "level \<Rightarrow> 'w logger \<Rightarrow> 'w logger" where
  "set_level l lg = lg\<lparr>lg_min_level := l\<rparr>"

definition get_level :: "'w logger \<Rightarrow> level" where
  "get_level lg = lg_min_level lg"

text \<open>\<open>while (size > max) pop_front\<close>.\<close>

fun pop_excess :: "nat \<Rightarrow> 'a list \<Rightarrow> 'a list" where
  "pop_excess m [] = []"
| "pop_excess m (x # xs) = (if length (x # xs) > m then pop_excess m xs else x # xs)"

definition record_level_change :: "level \<Rightarrow> level \<Rightarrow> string \<Rightarrow> time \<Rightarrow> 'w logger \<Rightarrow> 'w logger" where
  "record_level_change old_level new_level reason now lg =
     lg\<lparr>lg_history := pop_excess (lg_max_history lg)
          (lg_history lg @ [\<lparr>lce_old_level = old_level, lce_new_level = new_level,
                             lce_timestamp = now, lce_reason = reason\<rparr>])\<rparr>"

definition run_callbacks :: "level \<Rightarrow> level \<Rightarrow> 'w logger \<Rightarrow> 'w \<Rightarrow> 'w" where
  "run_callbacks old_level new_level lg w =
     foldl (\<lambda>w f. f old_level new_level w) w (lg_callbacks lg)"

definition get_level_history :: "nat \<Rightarrow> 'w logger \<Rightarrow> level_change_entry list" where
  "get_level_history max_entries lg =
     (let count = min max_entries (length (lg_history lg))
      in drop (length (lg_history lg) - count) (lg_history lg))"

definition clear_level_history :: "'w logger \<Rightarrow> 'w logger" where
  "clear_level_history lg = lg\<lparr>lg_history := []\<rparr>"

definition set_max_history_entries :: "nat \<Rightarrow> 'w logger \<Rightarrow> 'w logger" where
  "set_max_history_entries m lg =
     lg\<lparr>lg_max_history := m, lg_history := pop_excess m (lg_history lg)\<rparr>"

definition second :: time where "second = 1000000000"

definition temporary_reason :: "string \<Rightarrow> int \<Rightarrow> string" where
  "temporary_reason reason seconds =
     (if reason = [] then ''Temporary level change for '' @ show_int seconds @ ''s''
      else reason @ '' (temporary, '' @ show_int seconds @ ''s)'')"

definition set_level_temporary ::
    "clock \<Rightarrow> level \<Rightarrow> int \<Rightarrow> string \<Rightarrow> 'w logger \<times> 'w \<Rightarrow> 'w logger \<times> 'w" where
  "set_level_temporary clk l seconds reason s =
     (let (lg, w) = s;
          t = lg_temp lg;
          t1 = (if \<not> tmp_active t then t\<lparr>tmp_original_level := lg_min_level lg\<rparr> else t);
          t2 = t1\<lparr>tmp_revert_time := clk 0 + seconds * second, tmp_active := True\<rparr>;
          old_level = lg_min_level lg;
          lg1 = lg\<lparr>lg_temp := t2, lg_min_level := l\<rparr>;
          lg2 = record_level_change old_level l (temporary_reason reason seconds) (clk 1) lg1
      in (lg2, run_callbacks old_level l lg2 w))"

text \<open>What \<open>cancel_temporary_level\<close> and the expiry check have in common.\<close>

definition revert_level :: "string \<Rightarrow> time \<Rightarrow> 'w logger \<times> 'w \<Rightarrow> 'w logger \<times> 'w" where
  "revert_level reason now s =
     (let (lg, w) = s;
          current = lg_min_level lg;
          original = tmp_original_level (lg_temp lg);
          lg1 = lg\<lparr>lg_min_level := original, lg_temp := (lg_temp lg)\<lparr>tmp_active := False\<rparr>\<rparr>;
          lg2 = record_level_change current original reason now lg1
      in (lg2, run_callbacks current original lg2 w))"

definition cancel_temporary_level :: "clock \<Rightarrow> 'w logger \<times> 'w \<Rightarrow> 'w logger \<times> 'w" where
  "cancel_temporary_level clk s =
     (if tmp_active (lg_temp (fst s)) then revert_level ''Temporary level cancelled'' (clk 0) s
      else s)"

definition has_temporary_level :: "'w logger \<Rightarrow> bool" where
  "has_temporary_level lg = tmp_active (lg_temp lg)"

definition remaining_temporary_duration :: "clock \<Rightarrow> 'w logger \<Rightarrow> int" where
  "remaining_temporary_duration clk lg =
     (if \<not> tmp_active (lg_temp lg) then 0
      else if clk 0 \<ge> tmp_revert_time (lg_temp lg) then 0
      else trunc_div (tmp_revert_time (lg_temp lg) - clk 0) second)"

definition check_temporary_level_expiry :: "clock \<Rightarrow> 'w logger \<times> 'w \<Rightarrow> 'w logger \<times> 'w" where
  "check_temporary_level_expiry clk s =
     (if tmp_active (lg_temp (fst s)) \<and> clk 0 \<ge> tmp_revert_time (lg_temp (fst s))
      then revert_level ''Temporary level expired'' (clk 1) s else s)"

definition set_level_dynamic ::
    "clock \<Rightarrow> level \<Rightarrow> string \<Rightarrow> 'w logger \<times> 'w \<Rightarrow> 'w logger \<times> 'w" where
  "set_level_dynamic clk l reason s =
     (let (lg, w) = check_temporary_level_expiry clk s;
          old_level = lg_min_level lg;
          lg1 = lg\<lparr>lg_min_level := l\<rparr>
      in if old_level \<noteq> l
         then (let lg2 = record_level_change old_level l reason (clk 2) lg1
               in (lg2, run_callbacks old_level l lg2 w))
         else (lg1, w))"

definition set_level_dynamic_silent :: "clock \<Rightarrow> level \<Rightarrow> 'w logger \<times> 'w \<Rightarrow> 'w logger \<times> 'w" where
  "set_level_dynamic_silent clk l s = set_level_dynamic clk l [] s"

section \<open>Logging\<close>

text \<open>\<open>Logger::should_log\<close>: the level, the function, then the filters up to the first refusal.\<close>

primrec filters_accept ::
    "'rx regex_lib \<Rightarrow> context_map \<Rightarrow> log_record \<Rightarrow> fptr list \<Rightarrow> 'rx filter_heap
     \<Rightarrow> (bool \<times> 'rx filter_heap) option" where
  "filters_accept rx ctx r [] h = Some (True, h)"
| "filters_accept rx ctx r (p # ps) h =
     (case filter_should_log rx ctx r p h of
        None \<Rightarrow> None
      | Some (b, h') \<Rightarrow> if \<not> b then Some (False, h') else filters_accept rx ctx r ps h')"

definition should_log ::
    "'rx regex_lib \<Rightarrow> context_map \<Rightarrow> log_record \<Rightarrow> 'w logger \<Rightarrow> 'rx filter_heap
     \<Rightarrow> (bool \<times> 'rx filter_heap) option" where
  "should_log rx ctx r lg h =
     (if rec_level r < lg_min_level lg then Some (False, h)
      else if (case lg_filter_func lg of Some f \<Rightarrow> \<not> f ctx r | None \<Rightarrow> False) then Some (False, h)
      else filters_accept rx ctx r (lg_filters lg) h)"

text \<open>The built-in patterns, by lower-case name.\<close>

definition preset_pattern :: "string \<Rightarrow> string option" where
  "preset_pattern preset =
     (let lower = map to_lower preset; bs = bslash in
      if lower = ''email'' then
        Some (''[A-Za-z0-9._%+-]+@[A-Za-z0-9.-]+'' @ bs @ ''.[A-Za-z]{2,}'')
      else if lower = ''ipv4'' then
        Some (''(25[0-5]|2[0-4]'' @ bs @ ''d|[01]?'' @ bs @ ''d?'' @ bs @ ''d)('' @ bs
              @ ''.(25[0-5]|2[0-4]'' @ bs @ ''d|[01]?'' @ bs @ ''d?'' @ bs @ ''d)){3}'')
      else if lower = ''credit_card'' then
        Some (bs @ ''b(?:'' @ bs @ ''d[ -]*?){13,16}'' @ bs @ ''b'')
      else if lower = ''ssn'' then
        Some (bs @ ''b'' @ bs @ ''d{3}-'' @ bs @ ''d{2}-'' @ bs @ ''d{4}'' @ bs @ ''b'')
      else None)"

text \<open>Patterns that do not compile, and unknown presets, are skipped.\<close>

definition compile_patterns :: "'rx regex_lib \<Rightarrow> string list \<Rightarrow> 'rx list" where
  "compile_patterns rx pats = List.map_filter (rx_compile rx False) pats"

definition apply_redaction ::
    "'rx regex_lib \<Rightarrow> string list \<Rightarrow> string list \<Rightarrow> string list \<Rightarrow> string \<Rightarrow> (string \<times> bool) option"
  where
  "apply_redaction rx substr_patterns regex_patterns pii_presets message =
     (if substr_patterns \<noteq> [] \<or> regex_patterns \<noteq> [] \<or> pii_presets \<noteq> [] then
        (case (if substr_patterns \<noteq> [] then redact message substr_patterns else Some message) of
           None \<Rightarrow> None
         | Some m \<Rightarrow>
             (let compiled = compile_patterns rx regex_patterns
                    @ compile_patterns rx (List.map_filter preset_pattern pii_presets);
                  redacted = foldl (\<lambda>m re. rx_replace rx m re ''***'') m compiled
              in Some (redacted, redacted \<noteq> message)))
      else Some (message, False))"

text \<open>
  The loop over the sinks, under the shared lock.  The reference count is raised before the call
  of the sink and lowered after it, so it is the same again after each round.
\<close>

fun sinks_loop ::
    "'w sink_ops \<Rightarrow> string \<Rightarrow> level \<Rightarrow> string \<Rightarrow> string \<Rightarrow> bool \<Rightarrow> bool \<Rightarrow> (nat \<Rightarrow> level option)
     \<Rightarrow> nat \<Rightarrow> sink_entry list \<Rightarrow> 'w \<Rightarrow> 'w" where
  "sinks_loop so nm l message redacted has_redaction cloud_only ov i [] w = w"
| "sinks_loop so nm l message redacted has_redaction cloud_only ov i (e # es) w =
     (let next = sinks_loop so nm l message redacted has_redaction cloud_only ov (Suc i) es in
      if se_marked e then next w
      else if (case ov i of Some lv \<Rightarrow> l < lv | None \<Rightarrow> False) then next w
      else (case se_sink e of
              None \<Rightarrow> next w
            | Some p \<Rightarrow>
                (let is_cloud = so_cloud so p w;
                     use_redacted = has_redaction \<and> (\<not> cloud_only \<or> is_cloud);
                     msg_to_log = (if use_redacted then redacted else message)
                 in next (so_log so p nm l msg_to_log w))))"

definition probe_record :: "string \<Rightarrow> level \<Rightarrow> log_record" where
  "probe_record nm l =
     \<lparr>rec_logger_name = nm, rec_level = l, rec_message = [], rec_timestamp = 0,
      rec_fields = Map.empty\<rparr>"

definition log ::
    "'rx regex_lib \<Rightarrow> 'w sink_ops \<Rightarrow> clock \<Rightarrow> context_map \<Rightarrow> level \<Rightarrow> string
     \<Rightarrow> 'w logger \<times> 'rx filter_heap \<times> 'w \<Rightarrow> ('w logger \<times> 'rx filter_heap \<times> 'w) option" where
  "log rx so clk ctx l message s =
     (let (lg0, h, w0) = s;
          (lg, w) = check_temporary_level_expiry clk (lg0, w0);
          r = probe_record (lg_name lg) l
      in case should_log rx ctx r lg h of
           None \<Rightarrow> None
         | Some (False, h') \<Rightarrow> Some (lg, h', w)
         | Some (True, h') \<Rightarrow>
             (case apply_redaction rx (lg_redact_patterns lg) (lg_redact_regex_patterns lg)
                     (lg_redact_pii_presets lg) message of
                None \<Rightarrow> None
              | Some (redacted, has_redaction) \<Rightarrow>
                  Some (lg, h',
                    sinks_loop so (lg_name lg) l message redacted has_redaction
                      (lg_redact_cloud_only lg) (lg_overrides lg) 0 (lg_sink_entries lg) w)))"

text \<open>The methods named after the levels; \<open>AsyncLogger\<close> forwards to them unchanged.\<close>

definition log_trace where "log_trace rx so clk ctx msg s = log rx so clk ctx Trace msg s"
definition log_debug where "log_debug rx so clk ctx msg s = log rx so clk ctx Debug msg s"
definition log_info where "log_info rx so clk ctx msg s = log rx so clk ctx Info msg s"
definition log_warn where "log_warn rx so clk ctx msg s = log rx so clk ctx Warn msg s"
definition log_error where "log_error rx so clk ctx msg s = log rx so clk ctx Error msg s"
definition log_critical where "log_critical rx so clk ctx msg s = log rx so clk ctx Critical msg s"

text \<open>The macros of \<open>log_macros.hpp\<close>: the compiled-in level, the logger's level, a condition.\<close>

definition xlog_level_enabled :: "int \<Rightarrow> 'w logger \<Rightarrow> level \<Rightarrow> bool" where
  "xlog_level_enabled active lg l \<longleftrightarrow> level_int l \<ge> active \<and> get_level lg \<le> l"

definition xlog_log_if ::
    "int \<Rightarrow> 'rx regex_lib \<Rightarrow> 'w sink_ops \<Rightarrow> clock \<Rightarrow> context_map \<Rightarrow> level \<Rightarrow> bool \<Rightarrow> string
     \<Rightarrow> 'w logger \<times> 'rx filter_heap \<times> 'w \<Rightarrow> ('w logger \<times> 'rx filter_heap \<times> 'w) option" where
  "xlog_log_if active rx so clk ctx l condition message s =
     (if xlog_level_enabled active (fst s) l \<and> condition then log rx so clk ctx l message s
      else Some s)"

definition xlog_log ::
    "int \<Rightarrow> 'rx regex_lib \<Rightarrow> 'w sink_ops \<Rightarrow> clock \<Rightarrow> context_map \<Rightarrow> level \<Rightarrow> string
     \<Rightarrow> 'w logger \<times> 'rx filter_heap \<times> 'w \<Rightarrow> ('w logger \<times> 'rx filter_heap \<times> 'w) option" where
  "xlog_log active rx so clk ctx l message s =
     (if active \<le> level_int l then log rx so clk ctx l message s else Some s)"

section \<open>Requests to change the level\<close>

record level_control_response =
  resp_success :: bool
  resp_message :: string
  resp_current_level :: level
  resp_logger_name :: string

primrec json_level :: "level \<Rightarrow> string" where
  "json_level Trace = ''trace''"
| "json_level Debug = ''debug''"
| "json_level Info = ''info''"
| "json_level Warn = ''warn''"
| "json_level Error = ''error''"
| "json_level Critical = ''critical''"

definition response_to_json :: "level_control_response \<Rightarrow> string" where
  "response_to_json r =
     ''{'' @ newline
     @ ''  '' @ quoted ''success'' @ '': '' @ show_bool (resp_success r) @ '','' @ newline
     @ ''  '' @ quoted ''message'' @ '': '' @ quoted (resp_message r) @ '','' @ newline
     @ ''  '' @ quoted ''logger_name'' @ '': '' @ quoted (resp_logger_name r) @ '','' @ newline
     @ ''  '' @ quoted ''current_level'' @ '': '' @ quoted (json_level (resp_current_level r)) @ newline
     @ ''}''"

text \<open>The logger is a shared pointer that may be null.\<close>

definition handle_level_change_request ::
    "clock \<Rightarrow> string \<Rightarrow> string \<Rightarrow> int \<Rightarrow> 'w logger option \<times> 'w
     \<Rightarrow> level_control_response \<times> 'w logger option \<times> 'w" where
  "handle_level_change_request clk new_level_str reason duration_seconds s =
     (let (lgo, w) = s in
      case lgo of
        None \<Rightarrow>
          (\<lparr>resp_success = False, resp_message = ''Logger not found'', resp_current_level = Info,
            resp_logger_name = []\<rparr>, None, w)
      | Some lg \<Rightarrow>
          (let (valid, l) = parse_log_level new_level_str in
           if \<not> valid then
             (\<lparr>resp_success = False, resp_message = ''Invalid log level: '' @ new_level_str,
               resp_current_level = get_level lg, resp_logger_name = lg_name lg\<rparr>, Some lg, w)
           else
             (let ((lg', w'), msg) =
                (if duration_seconds > 0
                 then (set_level_temporary clk l duration_seconds reason (lg, w),
                       ''Log level changed temporarily for '' @ show_int duration_seconds @ '' seconds'')
                 else (set_level_dynamic clk l reason (lg, w), ''Log level changed successfully''))
              in (\<lparr>resp_success = True, resp_message = msg, resp_current_level = get_level lg',
                   resp_logger_name = lg_name lg'\<rparr>, Some lg', w'))))"

section \<open>What the logger relies on\<close>

text \<open>
  The contract of the sinks: delivering a message to one sink does not change which sinks are cloud
  sinks.  Under it the loop over the sinks is the delivery of a list of messages that is known
  before the first of them.
\<close>

definition delivery ::
    "'w sink_ops \<Rightarrow> level \<Rightarrow> string \<Rightarrow> string \<Rightarrow> bool \<Rightarrow> bool \<Rightarrow> (nat \<Rightarrow> level option) \<Rightarrow> 'w
     \<Rightarrow> nat \<times> sink_entry \<Rightarrow> (sink_ptr \<times> string) option" where
  "delivery so l message redacted has_redaction cloud_only ov w ie =
     (let (i, e) = ie in
      if se_marked e \<or> (case ov i of Some lv \<Rightarrow> l < lv | None \<Rightarrow> False) then None
      else map_option (\<lambda>p. (p, if has_redaction \<and> (\<not> cloud_only \<or> so_cloud so p w) then redacted
                                else message)) (se_sink e))"

definition deliveries ::
    "'w sink_ops \<Rightarrow> level \<Rightarrow> string \<Rightarrow> string \<Rightarrow> bool \<Rightarrow> bool \<Rightarrow> (nat \<Rightarrow> level option) \<Rightarrow> nat
     \<Rightarrow> sink_entry list \<Rightarrow> 'w \<Rightarrow> (sink_ptr \<times> string) list" where
  "deliveries so l message redacted has_redaction cloud_only ov i es w =
     List.map_filter (delivery so l message redacted has_redaction cloud_only ov w)
       (enumerate i es)"

definition deliver_all ::
    "'w sink_ops \<Rightarrow> string \<Rightarrow> level \<Rightarrow> (sink_ptr \<times> string) list \<Rightarrow> 'w \<Rightarrow> 'w" where
  "deliver_all so nm l ds w = foldl (\<lambda>w d. so_log so (fst d) nm l (snd d) w) w ds"

lemma deliver_all_simps [simp]:
  "deliver_all so nm l [] w = w"
  "deliver_all so nm l ((p, m) # ds) w = deliver_all so nm l ds (so_log so p nm l m w)"
  by (simp_all add: deliver_all_def)

locale log_sinks =
  fixes so :: "'w sink_ops"
  assumes cloud_stable: "so_cloud so q (so_log so p nm l m w) = so_cloud so q w"
begin

lemma deliveries_stable:
  "deliveries so l message redacted hr co ov i es (so_log so p nm l' m w)
   = deliveries so l message redacted hr co ov i es w"
proof -
  have "delivery so l message redacted hr co ov (so_log so p nm l' m w)
      = delivery so l message redacted hr co ov w"
    by (intro ext) (simp only: delivery_def cloud_stable)
  then show ?thesis by (simp only: deliveries_def)
qed

lemma sinks_loop_deliveries:
  "sinks_loop so nm l message redacted hr co ov i es w
   = deliver_all so nm l (deliveries so l message redacted hr co ov i es w) w"
proof (induction es arbitrary: i w)
  case Nil
  then show ?case by (simp add: deliveries_def map_filter_def)
next
  case (Cons e es)
  have step: "deliveries so l message redacted hr co ov i (e # es) w =
      (case delivery so l message redacted hr co ov w (i, e) of
         None \<Rightarrow> deliveries so l message redacted hr co ov (Suc i) es w
       | Some d \<Rightarrow> d # deliveries so l message redacted hr co ov (Suc i) es w)"
    by (simp add: deliveries_def List.map_filter_simps split: option.split)
  show ?case
    unfolding step using Cons.IH
    by (auto simp: delivery_def Let_def deliveries_stable split: option.splits)
qed

end

end
