(* ===== verification/Logger_Facts.thy ===== *)
theory Logger_Facts
  imports Logger
begin

text \<open>
  What the methods of the logger guarantee: the history of level changes, temporary levels, the
  list of sinks, and the path of a message through filters and redaction to the sinks.
\<close>

section \<open>The history\<close>

lemma pop_excess_drop: "pop_excess m xs = drop (length xs - m) xs"
  by (induction m xs rule: pop_excess.induct) (auto simp: Suc_diff_le)

lemma length_pop_excess [simp]: "length (pop_excess m xs) \<le> m"
  by (simp add: pop_excess_drop)

definition history_ok :: "'w logger \<Rightarrow> bool" where
  "history_ok lg \<longleftrightarrow> length (lg_history lg) \<le> lg_max_history lg"

lemma get_level_history_bounds:
  "length (get_level_history m lg) = min m (length (lg_history lg))"
  "suffix (get_level_history m lg) (lg_history lg)"
  by (auto simp: get_level_history_def suffix_drop)

section \<open>Operations on the level, in any order\<close>

datatype level_op =
    OpSet level
  | OpDynamic clock level string
  | OpTemporary clock level int string
  | OpCancel clock
  | OpCheck clock
  | OpMaxHistory nat
  | OpClearHistory

primrec level_step :: "level_op \<Rightarrow> 'w logger \<times> 'w \<Rightarrow> 'w logger \<times> 'w" where
  "level_step (OpSet l) s = (set_level l (fst s), snd s)"
| "level_step (OpDynamic clk l reason) s = set_level_dynamic clk l reason s"
| "level_step (OpTemporary clk l d reason) s = set_level_temporary clk l d reason s"
| "level_step (OpCancel clk) s = cancel_temporary_level clk s"
| "level_step (OpCheck clk) s = check_temporary_level_expiry clk s"
| "level_step (OpMaxHistory m) s = (set_max_history_entries m (fst s), snd s)"
| "level_step OpClearHistory s = (clear_level_history (fst s), snd s)"

definition level_run :: "level_op list \<Rightarrow> 'w logger \<times> 'w \<Rightarrow> 'w logger \<times> 'w" where
  "level_run xs s = foldl (\<lambda>s x. level_step x s) s xs"

lemma level_run_simps [simp]:
  "level_run [] s = s" "level_run (x # xs) s = level_run xs (level_step x s)"
  by (simp_all add: level_run_def)

lemmas level_defs =
  set_level_def set_level_dynamic_def set_level_temporary_def cancel_temporary_level_def
  check_temporary_level_expiry_def set_max_history_entries_def clear_level_history_def
  revert_level_def record_level_change_def Let_def

lemma level_step_history: "history_ok (fst s) \<Longrightarrow> history_ok (fst (level_step x s))"
  by (cases x; cases s) (auto simp: history_ok_def level_defs)

lemma level_run_history: "history_ok (fst s) \<Longrightarrow> history_ok (fst (level_run xs s))"
proof (induction xs arbitrary: s)
  case (Cons x xs)
  from Cons.IH[OF level_step_history[OF Cons.prems]] show ?case by simp
qed simp

text \<open>The level the logger is at, or will return to when the temporary level ends.\<close>

definition base_level :: "'w logger \<Rightarrow> level" where
  "base_level lg = (if tmp_active (lg_temp lg) then tmp_original_level (lg_temp lg)
                    else lg_min_level lg)"

fun permanent :: "level_op \<Rightarrow> bool" where
  "permanent (OpSet l) = True"
| "permanent (OpDynamic clk l reason) = True"
| "permanent _ = False"

lemma level_step_base:
  "\<not> permanent x \<Longrightarrow> base_level (fst (level_step x s)) = base_level (fst s)"
  by (cases x; cases s) (auto simp: base_level_def level_defs)

lemma level_run_base:
  "\<forall>x \<in> set xs. \<not> permanent x \<Longrightarrow> base_level (fst (level_run xs s)) = base_level (fst s)"
  by (induction xs arbitrary: s) (auto simp: level_step_base)

lemma cancel_base:
  "lg_min_level (fst (cancel_temporary_level clk s)) = base_level (fst s)"
  "\<not> tmp_active (lg_temp (fst (cancel_temporary_level clk s)))"
  by (cases s; simp add: base_level_def level_defs)+

lemma expiry_base:
  "tmp_revert_time (lg_temp (fst s)) \<le> clk 0 \<Longrightarrow>
     lg_min_level (fst (check_temporary_level_expiry clk s)) = base_level (fst s)"
  by (cases s; simp add: base_level_def level_defs)

text \<open>A permanent change while a temporary level is active does not reach the base level.\<close>

lemma permanent_while_temporary:
  assumes "tmp_active (lg_temp lg)" and "clk 0 < tmp_revert_time (lg_temp lg)"
  shows "base_level (fst (set_level_dynamic clk l reason (lg, w))) = base_level lg"
    and "lg_min_level (fst (set_level_dynamic clk l reason (lg, w))) = l"
  using assms by (simp_all add: base_level_def level_defs)

text \<open>
  C7. Temporary levels come undone: after any sequence of temporary changes, cancellations and
  expiry checks, a cancellation brings the logger back to the level it had before the first of
  them, and so does the first expiry check at or after the deadline.
\<close>

theorem temporary_levels_restore:
  assumes "\<forall>x \<in> set xs. \<not> permanent x" and "\<not> tmp_active (lg_temp lg)"
  shows "get_level (fst (cancel_temporary_level clk (level_run xs (lg, w)))) = get_level lg
    \<and> (tmp_revert_time (lg_temp (fst (level_run xs (lg, w)))) \<le> clk 0 \<longrightarrow>
        get_level (fst (check_temporary_level_expiry clk (level_run xs (lg, w)))) = get_level lg)"
  using assms level_run_base[OF assms(1), of "(lg, w)"]
  by (simp add: get_level_def cancel_base expiry_base) (simp add: base_level_def)

definition sample_logger :: "unit logger" where
  "sample_logger = logger_new
     \<lparr>tmp_original_level = Trace, tmp_revert_time = 0, tmp_active = False\<rparr> ''app''"

theorem temporary_levels_restore_witness:
  "get_level (fst (cancel_temporary_level (\<lambda>_. 9)
     (level_run [OpTemporary (\<lambda>_. 0) Debug 60 ''x'', OpTemporary (\<lambda>_. 5) Error 10 ''y'']
        (set_level Warn sample_logger, ())))) = Warn"
  using temporary_levels_restore[of "[OpTemporary (\<lambda>_. 0) Debug 60 ''x'', OpTemporary (\<lambda>_. 5) Error 10 ''y'']"
      "set_level Warn sample_logger" "\<lambda>_. 9" "()"]
  by (simp add: sample_logger_def logger_new_def set_level_def get_level_def)

text \<open>
  A change made with \<open>set_level_dynamic\<close> while a temporary level is active takes effect and is
  then lost: cancelling the temporary level restores the level from before it, not the new one.
\<close>

theorem dynamic_change_lost_on_cancel:
  assumes "tmp_active (lg_temp lg)" and "clk 0 < tmp_revert_time (lg_temp lg)"
  shows "get_level (fst (set_level_dynamic clk l reason (lg, w))) = l
    \<and> get_level (fst (cancel_temporary_level clk' (set_level_dynamic clk l reason (lg, w))))
      = tmp_original_level (lg_temp lg)"
  using permanent_while_temporary[of lg clk l reason w] assms
  by (simp add: get_level_def cancel_base) (simp add: base_level_def)

theorem dynamic_change_lost_on_cancel_witness:
  "get_level (fst (cancel_temporary_level (\<lambda>_. 3)
     (set_level_dynamic (\<lambda>_. 2) Critical ''ops''
       (set_level_temporary (\<lambda>_. 1) Debug 60 [] (set_level Warn sample_logger, ()))))) = Warn"
proof -
  obtain lg w where s: "set_level_temporary (\<lambda>_. 1) Debug 60 [] (set_level Warn sample_logger, ()) = (lg, w)"
    by (cases "set_level_temporary (\<lambda>_. 1) Debug 60 [] (set_level Warn sample_logger, ())")
  then have "tmp_active (lg_temp lg)" "(2 :: int) < tmp_revert_time (lg_temp lg)"
    "tmp_original_level (lg_temp lg) = Warn"
    by (auto simp: level_defs sample_logger_def logger_new_def second_def)
  with dynamic_change_lost_on_cancel[of lg "\<lambda>_. 2" Critical "''ops''" w "\<lambda>_. 3"] s show ?thesis
    by simp
qed

text \<open>
  The history stays within its bound whatever is done to the level, and
  \<open>get_level_history\<close> returns its most recent entries, as many as asked for.
\<close>

theorem level_history_bounded:
  assumes "history_ok lg"
  shows "let lg' = fst (level_run xs (lg, w)) in
    length (lg_history lg') \<le> lg_max_history lg'
    \<and> length (get_level_history m lg') = min m (length (lg_history lg'))
    \<and> suffix (get_level_history m lg') (lg_history lg')"
  using assms level_run_history[of "(lg, w)" xs] get_level_history_bounds
  unfolding history_ok_def fst_conv Let_def by blast

theorem level_history_bounded_witness:
  "length (lg_history (fst (level_run
     [OpMaxHistory 1, OpDynamic (\<lambda>_. 0) Info ''a'', OpDynamic (\<lambda>_. 0) Error ''b'']
     (sample_logger, ())))) \<le> 1"
proof -
  have "history_ok sample_logger" by (simp add: history_ok_def sample_logger_def logger_new_def)
  from level_history_bounded[OF this,
      of "[OpMaxHistory 1, OpDynamic (\<lambda>_. 0) Info ''a'', OpDynamic (\<lambda>_. 0) Error ''b'']" "()"]
  show ?thesis by (simp add: Let_def) (simp add: level_defs sample_logger_def logger_new_def)
qed

section \<open>The list of sinks\<close>

lemma wait_for_sink_drain_bound: "t \<le> 5000 \<Longrightarrow> wait_for_sink_drain polls t \<le> 5000"
proof (induction polls t rule: wait_for_sink_drain.induct)
  case (1 polls t)
  then show ?case by (subst wait_for_sink_drain.simps) auto
qed

lemma wait_for_sink_drain_stop:
  "polls (wait_for_sink_drain polls t) \<le> 0 \<or> 5000 \<le> wait_for_sink_drain polls t"
proof (induction polls t rule: wait_for_sink_drain.induct)
  case (1 polls t)
  then show ?case
    by (cases "polls t > 0 \<and> t < 5000") (simp_all add: wait_for_sink_drain.simps[of polls t], linarith)
qed

definition remove_nth :: "nat \<Rightarrow> 'a list \<Rightarrow> 'a list" where
  "remove_nth i xs = take i xs @ drop (Suc i) xs"

text \<open>Between operations no entry is marked and nobody holds a reference.\<close>

definition quiet :: "sink_entry list \<Rightarrow> bool" where
  "quiet es \<longleftrightarrow> (\<forall>e \<in> set es. \<not> se_marked e \<and> se_refs e = 0)"

lemma find_entry_SomeD: "find_entry P es = Some i \<Longrightarrow> i < length es \<and> P (es ! i)"
  by (induction es arbitrary: i) (auto split: if_splits)

lemma find_entry_least: "find_entry P es = Some i \<Longrightarrow> j < i \<Longrightarrow> \<not> P (es ! j)"
proof (induction es arbitrary: i j)
  case (Cons e es)
  then show ?case by (cases j) (auto split: if_splits)
qed simp

lemma find_entry_None: "find_entry P es = None \<longleftrightarrow> (\<forall>e \<in> set es. \<not> P e)"
  by (induction es) auto

lemma filter_mark_entry:
  assumes "quiet es" and "i < length es" and "Q ((es ! i)\<lparr>se_marked := True\<rparr>)"
    and "\<And>e. Q e \<Longrightarrow> se_marked e"
  shows "filter (\<lambda>e. \<not> Q e) (mark_entry i es) = remove_nth i es"
proof -
  have keep: "filter (\<lambda>e. \<not> Q e) xs = xs" if "set xs \<subseteq> set es" for xs
    using that assms(1,4) by (auto simp: quiet_def filter_id_conv)
  have "mark_entry i es = take i es @ (es ! i)\<lparr>se_marked := True\<rparr> # drop (Suc i) es"
    using assms(2) by (simp add: mark_entry_def upd_conv_take_nth_drop)
  with assms(3) keep[OF set_take_subset] keep[OF set_drop_subset] show ?thesis
    by (simp add: remove_nth_def)
qed

lemma remove_sink_named_quiet:
  assumes "quiet (lg_sink_entries lg)"
  shows "remove_sink_named nm lg =
    (case find_entry (\<lambda>e. se_name e = nm) (lg_sink_entries lg) of
       None \<Rightarrow> (False, lg)
     | Some i \<Rightarrow> (True, lg\<lparr>lg_sink_entries := remove_nth i (lg_sink_entries lg)\<rparr>))"
proof -
  have "find_entry (\<lambda>e. se_name e = nm \<and> \<not> se_marked e) es = find_entry (\<lambda>e. se_name e = nm) es"
    if "quiet es" for es
    using that by (induction es) (auto simp: quiet_def)
  with assms show ?thesis
    using find_entry_SomeD[of "\<lambda>e. se_name e = nm" "lg_sink_entries lg"]
      filter_mark_entry[of "lg_sink_entries lg" _ "\<lambda>e. se_name e = nm \<and> se_marked e"]
    by (simp add: remove_sink_named_def split: option.split)
qed

lemma remove_sink_at_quiet:
  assumes "quiet (lg_sink_entries lg)"
  shows "remove_sink_at i lg =
    (if i < length (lg_sink_entries lg)
     then (True, lg\<lparr>lg_sink_entries := remove_nth i (lg_sink_entries lg)\<rparr>) else (False, lg))"
proof (cases "i < length (lg_sink_entries lg)")
  case True
  moreover from this assms have "se_refs (lg_sink_entries lg ! i) = 0" by (simp add: quiet_def)
  ultimately show ?thesis
    using filter_mark_entry[OF assms, of i "\<lambda>e. se_marked e \<and> se_refs e = 0"]
    by (simp add: remove_sink_at_def cleanup_removed_sinks_def)
qed (simp add: remove_sink_at_def)

lemma quiet_remove_nth [inv_intros]: "quiet es \<Longrightarrow> quiet (remove_nth i es)"
  unfolding quiet_def remove_nth_def using set_take_subset[of i es] set_drop_subset[of "Suc i" es]
  by auto

lemma quiet_count: "quiet (lg_sink_entries lg) \<Longrightarrow> sink_count lg = length (lg_sink_entries lg)"
  by (simp add: sink_count_def quiet_def filter_id_conv)

text \<open>
  Removing a sink by name takes out the first sink of that name and nothing else, keeps the
  order of the others, reports failure when there is none, and lowers \<open>sink_count\<close> by one.
\<close>

theorem remove_sink_named_correct:
  assumes "quiet (lg_sink_entries lg)"
  shows "case find_entry (\<lambda>e. se_name e = nm) (lg_sink_entries lg) of
      None \<Rightarrow> remove_sink_named nm lg = (False, lg)
    | Some i \<Rightarrow> fst (remove_sink_named nm lg)
        \<and> lg_sink_entries (snd (remove_sink_named nm lg)) = remove_nth i (lg_sink_entries lg)
        \<and> quiet (lg_sink_entries (snd (remove_sink_named nm lg)))
        \<and> sink_count (snd (remove_sink_named nm lg)) + 1 = sink_count lg"
proof (cases "find_entry (\<lambda>e. se_name e = nm) (lg_sink_entries lg)")
  case None
  then show ?thesis using remove_sink_named_quiet[OF assms] by simp
next
  case (Some i)
  have q: "quiet (remove_nth i (lg_sink_entries lg))" using assms by (rule quiet_remove_nth)
  have "i < length (lg_sink_entries lg)" using find_entry_SomeD[OF Some] by simp
  then show ?thesis
    using remove_sink_named_quiet[OF assms, of nm] Some q
      quiet_count[of "lg\<lparr>lg_sink_entries := remove_nth i (lg_sink_entries lg)\<rparr>"] quiet_count[OF assms]
    by (simp add: remove_nth_def)
qed

theorem remove_sink_named_correct_witness:
  "sink_count (snd (remove_sink_named ''b''
     (add_sink (Some 2) ''b'' (add_sink (Some 1) ''a'' sample_logger)))) = 1"
proof -
  let ?lg = "add_sink (Some 2) ''b'' (add_sink (Some 1) ''a'' sample_logger)"
  have "quiet (lg_sink_entries ?lg)"
    by (simp add: quiet_def add_sink_def sample_logger_def logger_new_def)
  from remove_sink_named_correct[OF this, of "''b''"]
  show ?thesis
    by (simp add: sink_count_def remove_nth_def add_sink_def sample_logger_def logger_new_def)
qed

section \<open>Per-sink levels\<close>

lemma set_named_fields [simp]:
  "lg_overrides (set_sink_level_named nm lv lg) = lg_overrides lg"
  "lg_sink_entries (set_sink_level_named nm lv lg) = lg_sink_entries lg"
  by (simp_all add: set_sink_level_named_def)

lemma revert_level_named:
  "revert_level reason now (set_sink_level_named nm lv lg, w) =
     (let (lg', w') = revert_level reason now (lg, w) in (set_sink_level_named nm lv lg', w'))"
  by (simp add: revert_level_def record_level_change_def run_callbacks_def
      set_sink_level_named_def Let_def)

lemma check_expiry_named:
  "check_temporary_level_expiry clk (set_sink_level_named nm lv lg, w) =
     (let (lg', w') = check_temporary_level_expiry clk (lg, w)
      in (set_sink_level_named nm lv lg', w'))"
proof -
  have "lg_temp (set_sink_level_named nm lv lg) = lg_temp lg"
    by (simp add: set_sink_level_named_def)
  then show ?thesis by (simp add: check_temporary_level_expiry_def revert_level_named)
qed

lemma should_log_named:
  "should_log rx ctx r (set_sink_level_named nm lv lg) h = should_log rx ctx r lg h"
  by (simp add: should_log_def set_sink_level_named_def)

text \<open>
  The level set for a sink by name is never consulted: logging after
  \<open>set_sink_level(name, level)\<close> has exactly the effect of logging without it.
\<close>

theorem named_sink_level_ignored:
  "log rx so clk ctx l message (set_sink_level_named nm lv lg, h, w) =
     map_option (\<lambda>(lg', h', w'). (set_sink_level_named nm lv lg', h', w'))
       (log rx so clk ctx l message (lg, h, w))"
proof -
  obtain lg1 w1 where e: "check_temporary_level_expiry clk (lg, w) = (lg1, w1)"
    by (cases "check_temporary_level_expiry clk (lg, w)")
  have f: "lg_name (set_sink_level_named nm lv lg1) = lg_name lg1"
    "lg_redact_patterns (set_sink_level_named nm lv lg1) = lg_redact_patterns lg1"
    "lg_redact_regex_patterns (set_sink_level_named nm lv lg1) = lg_redact_regex_patterns lg1"
    "lg_redact_pii_presets (set_sink_level_named nm lv lg1) = lg_redact_pii_presets lg1"
    "lg_redact_cloud_only (set_sink_level_named nm lv lg1) = lg_redact_cloud_only lg1"
    by (simp_all add: set_sink_level_named_def)
  show ?thesis
    by (simp add: log_def e check_expiry_named should_log_named f Let_def
        split: option.split prod.split bool.split)
qed

text \<open>
  Per-sink levels are kept by position and are not moved when a sink is removed: with two
  sinks and a level for the first one, removing the first makes the second obey that level, so a
  message it received before the removal no longer reaches it.
\<close>

theorem sink_level_goes_stale:
  assumes entries: "lg_sink_entries lg =
      [\<lparr>se_sink = Some p, se_name = a, se_marked = False, se_refs = 0\<rparr>,
       \<lparr>se_sink = Some q, se_name = b, se_marked = False, se_refs = 0\<rparr>]"
    and ov: "lg_overrides lg = [0 \<mapsto> lv]" and less: "l < lv"
  shows "deliveries so l m m False co (lg_overrides lg) 0 (lg_sink_entries lg) w = [(q, m)]
    \<and> (let lg' = snd (remove_sink_at 0 lg) in
        deliveries so l m m False co (lg_overrides lg') 0 (lg_sink_entries lg') w = [])"
proof -
  have "quiet (lg_sink_entries lg)" by (simp add: entries quiet_def)
  then have "snd (remove_sink_at 0 lg) = lg\<lparr>lg_sink_entries := tl (lg_sink_entries lg)\<rparr>"
    by (simp add: remove_sink_at_quiet entries remove_nth_def)
  then show ?thesis
    using less by (simp add: entries ov deliveries_def delivery_def List.map_filter_simps)
qed

definition two_sinks :: "unit logger" where
  "two_sinks = set_sink_level_at 0 Error (add_sink (Some 8) ''b'' (add_sink (Some 7) ''a'' sample_logger))"

theorem sink_level_goes_stale_witness:
  "let lg' = snd (remove_sink_at 0 two_sinks) in
     deliveries \<lparr>so_log = (\<lambda>p n l m w. w), so_cloud = (\<lambda>p w. False)\<rparr> Info ''hi'' ''hi'' False False
       (lg_overrides lg') 0 (lg_sink_entries lg') () = []"
proof -
  have "lg_sink_entries two_sinks =
      [\<lparr>se_sink = Some 7, se_name = ''a'', se_marked = False, se_refs = 0\<rparr>,
       \<lparr>se_sink = Some 8, se_name = ''b'', se_marked = False, se_refs = 0\<rparr>]"
    and "lg_overrides two_sinks = [0 \<mapsto> Error]"
    by (simp_all add: two_sinks_def set_sink_level_at_def add_sink_def sample_logger_def logger_new_def)
  then show ?thesis by (rule sink_level_goes_stale[THEN conjunct2]) simp
qed

section \<open>The path of a message\<close>

lemma check_expiry_inactive:
  "\<not> tmp_active (lg_temp lg) \<Longrightarrow> check_temporary_level_expiry clk (lg, w) = (lg, w)"
  by (simp add: check_temporary_level_expiry_def)

lemma should_log_below: "rec_level r < lg_min_level lg \<Longrightarrow> should_log rx ctx r lg h = Some (False, h)"
  by (simp add: should_log_def)

lemma log_accepted_after:
  assumes "check_temporary_level_expiry clk (lg0, w0) = (lg, w)"
    and "should_log rx ctx (probe_record (lg_name lg) l) lg h = Some (True, h')"
    and "apply_redaction rx (lg_redact_patterns lg) (lg_redact_regex_patterns lg)
           (lg_redact_pii_presets lg) message = Some (redacted, hr)"
  shows "log rx so clk ctx l message (lg0, h, w0) =
    Some (lg, h', sinks_loop so (lg_name lg) l message redacted hr (lg_redact_cloud_only lg)
                    (lg_overrides lg) 0 (lg_sink_entries lg) w)"
  using assms by (simp add: log_def)

lemma log_accepted:
  assumes "\<not> tmp_active (lg_temp lg)"
    and "should_log rx ctx (probe_record (lg_name lg) l) lg h = Some (True, h')"
    and "apply_redaction rx (lg_redact_patterns lg) (lg_redact_regex_patterns lg)
           (lg_redact_pii_presets lg) message = Some (redacted, hr)"
  shows "log rx so clk ctx l message (lg, h, w) =
    Some (lg, h', sinks_loop so (lg_name lg) l message redacted hr (lg_redact_cloud_only lg)
                    (lg_overrides lg) 0 (lg_sink_entries lg) w)"
  using log_accepted_after[OF check_expiry_inactive[OF assms(1)] assms(2,3)] .

lemma log_refused:
  assumes "\<not> tmp_active (lg_temp lg)"
    and "should_log rx ctx (probe_record (lg_name lg) l) lg h = Some (False, h')"
  shows "log rx so clk ctx l message (lg, h, w) = Some (lg, h', w)"
  using assms by (simp add: log_def check_expiry_inactive)

text \<open>
  The text a logger's redaction makes of a message: the substring patterns one after the other,
  then the regular expressions and the presets that compile, each match replaced by three stars.
\<close>

definition redacted_text :: "'rx regex_lib \<Rightarrow> 'w logger \<Rightarrow> string \<Rightarrow> string" where
  "redacted_text rx lg message =
     foldl (\<lambda>m re. rx_replace rx m re ''***'')
       (foldl (\<lambda>acc pat. starred pat acc) message (lg_redact_patterns lg))
       (compile_patterns rx (lg_redact_regex_patterns lg)
         @ compile_patterns rx (List.map_filter preset_pattern (lg_redact_pii_presets lg)))"

lemma apply_redaction_text:
  assumes "\<forall>pat \<in> set (lg_redact_patterns lg). pat \<noteq> []"
  shows "apply_redaction rx (lg_redact_patterns lg) (lg_redact_regex_patterns lg)
      (lg_redact_pii_presets lg) message
    = Some (redacted_text rx lg message, redacted_text rx lg message \<noteq> message)"
  using redact_eq_starreds[OF assms, of message]
  by (cases "lg_redact_patterns lg = []")
    (auto simp: apply_redaction_def redacted_text_def compile_patterns_def map_filter_def Let_def)

lemma redacted_text_substr:
  assumes "\<forall>pat \<in> set (lg_redact_patterns lg). pat \<noteq> []"
    and "lg_redact_regex_patterns lg = []" and "lg_redact_pii_presets lg = []"
  shows "redacts (lg_redact_patterns lg) message (redacted_text rx lg message)"
  using starreds_redact[OF assms(1)] assms(2,3)
  by (simp add: redacted_text_def compile_patterns_def map_filter_def)

text \<open>What a delivery carries.\<close>

lemma deliveries_mem:
  assumes "(p, m) \<in> set (deliveries so l message redacted hr co ov i es w)"
  shows "\<exists>e \<in> set es. se_sink e = Some p \<and> \<not> se_marked e
    \<and> m = (if hr \<and> (\<not> co \<or> so_cloud so p w) then redacted else message)"
proof -
  from assms obtain ie where "ie \<in> set (enumerate i es)"
    and d: "delivery so l message redacted hr co ov w ie = Some (p, m)"
    by (auto simp: deliveries_def map_filter_def)
  obtain k e where ie: "ie = (k, e)" by (cases ie)
  with \<open>ie \<in> set (enumerate i es)\<close> have "e \<in> set es"
    by (auto simp: in_set_enumerate_eq)
  with d ie show ?thesis by (auto simp: delivery_def split: if_splits)
qed

text \<open>
  A regex filter on the message never sees the message: \<open>log\<close> asks its filters about a record
  whose message is still empty, so when the pattern does not match the empty string (or does, for
  an inverted filter) no message at all passes, whatever its text.
\<close>

theorem message_filter_blind:
  assumes "\<not> tmp_active (lg_temp lg)" and "lg_filter_func lg = None"
    and "lg_filters lg = [p]" and "fh_objs h p = RegexFilter rf" and "rf_field rf = []"
    and "rx_search rx [] (rf_regex rf) = rf_invert rf"
  shows "\<exists>h'. \<forall>message. log rx so clk ctx l message (lg, h, w) = Some (lg, h', w)"
proof (cases "l < lg_min_level lg")
  case True
  then have "should_log rx ctx (probe_record (lg_name lg) l) lg h = Some (False, h)"
    by (intro should_log_below) (simp add: probe_record_def)
  then show ?thesis by (intro exI allI) (rule log_refused[OF assms(1)])
next
  case False
  let ?r = "probe_record (lg_name lg) l"
  have "filter_should_log rx ctx ?r p h
      = Some (False, set_filter p (RegexFilter (update_stats (rf_invert rf) rf)) h)"
    unfolding filter_should_log_def using assms(4-6)
    by (subst filter_run.simps)
      (simp add: regex_should_log_def regex_matches_def probe_record_def Let_def)
  with False assms(2,3) have "should_log rx ctx ?r lg h
      = Some (False, set_filter p (RegexFilter (update_stats (rf_invert rf) rf)) h)"
    by (simp add: should_log_def probe_record_def)
  then show ?thesis by (intro exI allI) (rule log_refused[OF assms(1)])
qed

theorem message_filter_blind_witness:
  "\<exists>h'. log literal_rx \<lparr>so_log = (\<lambda>p n l m w. w @ [m]), so_cloud = (\<lambda>p w. False)\<rparr> (\<lambda>_. 0) Map.empty
     Critical ''disk error''
     (add_filter 0 (add_sink (Some 7) ''a'' (logger_new
        \<lparr>tmp_original_level = Trace, tmp_revert_time = 0, tmp_active = False\<rparr> ''app'')),
      \<lparr>fh_next = 1, fh_objs = (\<lambda>_. RegexFilter (the (regex_filter_plain literal_rx [] ''error'' False)))\<rparr>, [])
   = Some (add_filter 0 (add_sink (Some 7) ''a'' (logger_new
        \<lparr>tmp_original_level = Trace, tmp_revert_time = 0, tmp_active = False\<rparr> ''app'')), h', [])"
proof -
  let ?lg = "add_filter 0 (add_sink (Some 7) ''a'' (logger_new
        \<lparr>tmp_original_level = Trace, tmp_revert_time = 0, tmp_active = False\<rparr> ''app''))"
  let ?rf = "the (regex_filter_plain literal_rx [] ''error'' False)"
  have "\<exists>h'. \<forall>message. log literal_rx \<lparr>so_log = (\<lambda>p n l m w. w @ [m]), so_cloud = (\<lambda>p w. False)\<rparr>
      (\<lambda>_. 0) Map.empty Critical message (?lg, \<lparr>fh_next = 1, fh_objs = (\<lambda>_. RegexFilter ?rf)\<rparr>, [])
      = Some (?lg, h', [])"
    by (rule message_filter_blind[where p = 0 and rf = ?rf])
      (simp_all add: add_filter_def add_sink_def logger_new_def regex_filter_plain_def
        literal_rx_def find_in_Nil)
  then show ?thesis by blast
qed

lemma set_level_dynamic_level: "lg_min_level (fst (set_level_dynamic clk l reason s)) = l"
  by (cases s) (auto simp: set_level_dynamic_def record_level_change_def Let_def split: prod.split)

lemma set_level_temporary_level:
  "lg_min_level (fst (set_level_temporary clk l d reason s)) = l"
  "tmp_active (lg_temp (fst (set_level_temporary clk l d reason s)))"
  by (cases s; simp add: set_level_temporary_def record_level_change_def Let_def)+

text \<open>A dynamic change ends an expired temporary level and leaves one that has not expired.\<close>

lemma set_level_dynamic_temporary:
  "has_temporary_level (fst (set_level_dynamic clk l reason (lg, w)))
    = (has_temporary_level lg \<and> clk 0 < tmp_revert_time (lg_temp lg))"
  by (auto simp: has_temporary_level_def set_level_dynamic_def check_temporary_level_expiry_def
    revert_level_def record_level_change_def Let_def)

lemma level_ops_sinks [simp]:
  "lg_sink_entries (fst (set_level_dynamic clk l reason s)) = lg_sink_entries (fst s)"
  "lg_sink_entries (fst (set_level_temporary clk l d reason s)) = lg_sink_entries (fst s)"
  by (cases s; auto simp: level_defs)+

text \<open>
  C6. A request to change the level: without a logger, or with a name that is no level, it is
  refused and nothing changes; otherwise it succeeds, the logger (and the response) is at the
  level that was named, and the sinks stay.  With a positive duration the change is temporary;
  without, a temporary level is active afterwards exactly if one was before and has not expired:
  the change is for good when none was active or it had expired, and otherwise lasts until the
  temporary level ends.
\<close>

theorem level_request_correct:
  "(let (r, lgo, w') = handle_level_change_request clk nm reason d (None, w) in
      \<not> resp_success r \<and> lgo = None \<and> w' = w)
   \<and> (let (r, lgo, w') = handle_level_change_request clk nm reason d (Some lg, w);
          (valid, l) = parse_log_level nm in
      resp_success r = valid \<and>
      (case lgo of None \<Rightarrow> False
       | Some lg' \<Rightarrow> resp_current_level r = get_level lg'
          \<and> get_level lg' = (if valid then l else get_level lg)
          \<and> (valid \<longrightarrow> has_temporary_level lg'
               = (0 < d \<or> has_temporary_level lg \<and> clk 0 < tmp_revert_time (lg_temp lg)))
          \<and> (\<not> valid \<longrightarrow> lg' = lg \<and> w' = w)
          \<and> lg_sink_entries lg' = lg_sink_entries lg))"
proof
  show "let (r, lgo, w') = handle_level_change_request clk nm reason d (None, w) in
      \<not> resp_success r \<and> lgo = None \<and> w' = w"
    by (simp add: handle_level_change_request_def)
  obtain valid l where p: "parse_log_level nm = (valid, l)" by (cases "parse_log_level nm")
  obtain lg1 w1 where t: "set_level_temporary clk l d reason (lg, w) = (lg1, w1)"
    by (cases "set_level_temporary clk l d reason (lg, w)")
  obtain lg2 w2 where y: "set_level_dynamic clk l reason (lg, w) = (lg2, w2)"
    by (cases "set_level_dynamic clk l reason (lg, w)")
  show "let (r, lgo, w') = handle_level_change_request clk nm reason d (Some lg, w);
          (valid, l) = parse_log_level nm in
      resp_success r = valid \<and>
      (case lgo of None \<Rightarrow> False
       | Some lg' \<Rightarrow> resp_current_level r = get_level lg'
          \<and> get_level lg' = (if valid then l else get_level lg)
          \<and> (valid \<longrightarrow> has_temporary_level lg'
               = (0 < d \<or> has_temporary_level lg \<and> clk 0 < tmp_revert_time (lg_temp lg)))
          \<and> (\<not> valid \<longrightarrow> lg' = lg \<and> w' = w)
          \<and> lg_sink_entries lg' = lg_sink_entries lg)"
    using set_level_temporary_level[of clk l d reason "(lg, w)"]
      set_level_dynamic_level[of clk l reason "(lg, w)"]
      level_ops_sinks(1)[of clk l reason "(lg, w)"] level_ops_sinks(2)[of clk l d reason "(lg, w)"]
      set_level_dynamic_temporary[of clk l reason lg w]
    by (simp add: handle_level_change_request_def p t y get_level_def has_temporary_level_def)
qed

theorem level_request_correct_witness:
  "get_level (the (fst (snd (handle_level_change_request (\<lambda>_. 0) ''error'' [] 0
      (Some sample_logger, ()))))) = Error"
proof -
  have p: "parse_log_level ''error'' = (True, Error)" by code_simp
  show ?thesis
    using level_request_correct[of "\<lambda>_. 0" "''error''" "[]" 0 "()" sample_logger]
    by (auto simp: p split: option.splits prod.splits)
qed

end
