(* ===== verification/Logger_Ops.thy ===== *)
theory Logger_Ops
  imports Logger_Facts
begin

text \<open>
  Every public operation of \<open>Logger\<close> as a value, and programs made of them: what a logger, its
  filters and its sinks may go through.  An operation may not return (\<^const>\<open>None\<close>); the
  well-formedness of the state says when every one does, and is kept by all of them.  The calls of
  sinks, level callbacks and filter functions are total functions of the model; a sink call that
  does not return is a flag of the world (\<open>All_Sinks\<close>), and \<open>programs_keep_world\<close> carries an
  invariant of the world, such as that the flag is down, through every program.
\<close>

section \<open>Operations\<close>

datatype ('rx, 'w) logger_op =
  Op_level level_op
| Op_request clock string string int
| Op_add_sink "sink_ptr option" string
| Op_clear_sinks
| Op_remove_sink string
| Op_remove_sink_at nat
| Op_sink_level_at nat level
| Op_sink_level string level
| Op_clear_overrides
| Op_redact "string list"
| Op_redact_regex "string list"
| Op_redact_presets "string list"
| Op_redact_cloud_only bool
| Op_clear_redact
| Op_new_filter "'rx filter_obj"
| Op_composite_add fptr fptr
| Op_add_filter fptr
| Op_clear_filters
| Op_filter_func "(context_map \<Rightarrow> log_record \<Rightarrow> bool) option"
| Op_callback "'w level_callback"
| Op_clear_callbacks
| Op_log clock context_map level string
| Op_macro int clock context_map level bool string

type_synonym ('rx, 'w) logger_state = "'w logger \<times> 'rx filter_heap \<times> 'w"

text \<open>The calls that touch the logger only, the level and the world, or all three.\<close>

definition on_logger :: "('w logger \<Rightarrow> 'w logger) \<Rightarrow> ('rx, 'w) logger_state \<Rightarrow> ('rx, 'w) logger_state" where
  "on_logger f s = (let (lg, h, w) = s in (f lg, h, w))"

definition on_world ::
    "('w logger \<times> 'w \<Rightarrow> 'w logger \<times> 'w) \<Rightarrow> ('rx, 'w) logger_state \<Rightarrow> ('rx, 'w) logger_state" where
  "on_world f s = (let (lg, h, w) = s; (lg', w') = f (lg, w) in (lg', h, w'))"

definition on_heap ::
    "('rx filter_heap \<Rightarrow> 'rx filter_heap) \<Rightarrow> ('rx, 'w) logger_state \<Rightarrow> ('rx, 'w) logger_state" where
  "on_heap f s = (let (lg, h, w) = s in (lg, f h, w))"

definition request_step :: "clock \<Rightarrow> string \<Rightarrow> string \<Rightarrow> int \<Rightarrow> 'w logger \<times> 'w \<Rightarrow> 'w logger \<times> 'w" where
  "request_step clk str reason seconds s =
     (case handle_level_change_request clk str reason seconds (Some (fst s), snd s) of
        (_, Some lg, w) \<Rightarrow> (lg, w) | (_, None, w) \<Rightarrow> (fst s, w))"

primrec op_step ::
    "'rx regex_lib \<Rightarrow> 'w sink_ops \<Rightarrow> ('rx, 'w) logger_op \<Rightarrow> ('rx, 'w) logger_state
     \<Rightarrow> ('rx, 'w) logger_state option" where
  "op_step rx so (Op_level x) s = Some (on_world (level_step x) s)"
| "op_step rx so (Op_request clk str reason seconds) s =
     Some (on_world (request_step clk str reason seconds) s)"
| "op_step rx so (Op_add_sink p nm) s = Some (on_logger (add_sink p nm) s)"
| "op_step rx so Op_clear_sinks s = Some (on_logger clear_sinks s)"
| "op_step rx so (Op_remove_sink nm) s = Some (on_logger (\<lambda>lg. snd (remove_sink_named nm lg)) s)"
| "op_step rx so (Op_remove_sink_at i) s = Some (on_logger (\<lambda>lg. snd (remove_sink_at i lg)) s)"
| "op_step rx so (Op_sink_level_at i l) s = Some (on_logger (set_sink_level_at i l) s)"
| "op_step rx so (Op_sink_level nm l) s = Some (on_logger (set_sink_level_named nm l) s)"
| "op_step rx so Op_clear_overrides s = Some (on_logger clear_sink_level_overrides s)"
| "op_step rx so (Op_redact pats) s = Some (on_logger (set_redact_patterns pats) s)"
| "op_step rx so (Op_redact_regex pats) s = Some (on_logger (set_redact_regex_patterns pats) s)"
| "op_step rx so (Op_redact_presets ps) s = Some (on_logger (set_redact_pii_presets ps) s)"
| "op_step rx so (Op_redact_cloud_only b) s = Some (on_logger (set_redact_apply_to_cloud_only b) s)"
| "op_step rx so Op_clear_redact s = Some (on_logger clear_redact_patterns s)"
| "op_step rx so (Op_new_filter x) s = Some (on_heap (\<lambda>h. snd (alloc_filter x h)) s)"
| "op_step rx so (Op_composite_add p q) s = Some (on_heap (composite_add_filter p q) s)"
| "op_step rx so (Op_add_filter p) s = Some (on_logger (add_filter p) s)"
| "op_step rx so Op_clear_filters s = Some (on_logger clear_filters s)"
| "op_step rx so (Op_filter_func f) s = Some (on_logger (set_filter_func f) s)"
| "op_step rx so (Op_callback f) s = Some (on_logger (register_level_change_callback f) s)"
| "op_step rx so Op_clear_callbacks s = Some (on_logger clear_level_change_callbacks s)"
| "op_step rx so (Op_log clk ctx l msg) s = log rx so clk ctx l msg s"
| "op_step rx so (Op_macro active clk ctx l condition msg) s =
     xlog_log_if active rx so clk ctx l condition msg s"

primrec op_run ::
    "'rx regex_lib \<Rightarrow> 'w sink_ops \<Rightarrow> ('rx, 'w) logger_op list \<Rightarrow> ('rx, 'w) logger_state
     \<Rightarrow> ('rx, 'w) logger_state option" where
  "op_run rx so [] s = Some s"
| "op_run rx so (x # xs) s = Option.bind (op_step rx so x s) (op_run rx so xs)"

section \<open>Well-formed states\<close>

text \<open>
  No sink is being removed and nobody holds a reference, the history is within its bound, no
  redaction pattern is empty, and the composite filters are well-founded: \<open>rank\<close> falls from a
  composite to its children.
\<close>

definition logger_ok :: "(fptr \<Rightarrow> nat) \<Rightarrow> ('rx, 'w) logger_state \<Rightarrow> bool" where
  "logger_ok rank s \<longleftrightarrow>
     (let (lg, h, w) = s in
      quiet (lg_sink_entries lg) \<and> history_ok lg \<and> [] \<notin> set (lg_redact_patterns lg) \<and> ranked rank h)"

text \<open>What a caller has to keep to: no empty pattern, composites built from below.\<close>

primrec op_ok :: "(fptr \<Rightarrow> nat) \<Rightarrow> ('rx, 'w) logger_op \<Rightarrow> bool" where
  "op_ok rank (Op_level x) = True"
| "op_ok rank (Op_request clk str reason seconds) = True"
| "op_ok rank (Op_add_sink p nm) = True"
| "op_ok rank Op_clear_sinks = True"
| "op_ok rank (Op_remove_sink nm) = True"
| "op_ok rank (Op_remove_sink_at i) = True"
| "op_ok rank (Op_sink_level_at i l) = True"
| "op_ok rank (Op_sink_level nm l) = True"
| "op_ok rank Op_clear_overrides = True"
| "op_ok rank (Op_redact pats) = ([] \<notin> set pats)"
| "op_ok rank (Op_redact_regex pats) = True"
| "op_ok rank (Op_redact_presets ps) = True"
| "op_ok rank (Op_redact_cloud_only b) = True"
| "op_ok rank Op_clear_redact = True"
| "op_ok rank (Op_new_filter x) = (\<forall>m ps. x = CompositeFilter m ps \<longrightarrow> ps = [])"
| "op_ok rank (Op_composite_add p q) = (rank q < rank p)"
| "op_ok rank (Op_add_filter p) = True"
| "op_ok rank Op_clear_filters = True"
| "op_ok rank (Op_filter_func f) = True"
| "op_ok rank (Op_callback f) = True"
| "op_ok rank Op_clear_callbacks = True"
| "op_ok rank (Op_log clk ctx l msg) = True"
| "op_ok rank (Op_macro active clk ctx l condition msg) = True"

text \<open>Which parts of the logger the well-formedness is about.\<close>

definition same_parts :: "'w logger \<Rightarrow> 'w logger \<Rightarrow> bool" where
  "same_parts lg lg' \<longleftrightarrow>
     lg_sink_entries lg' = lg_sink_entries lg \<and> lg_redact_patterns lg' = lg_redact_patterns lg"

lemma level_step_parts: "same_parts (fst s) (fst (level_step x s))"
  by (cases x; cases s) (simp_all add: same_parts_def level_defs)

lemma request_is_level_steps:
  "\<exists>xs. request_step clk str reason seconds s = level_run xs s"
proof -
  obtain valid l where p: "parse_log_level str = (valid, l)" by fastforce
  consider "\<not> valid" | "valid" "seconds > 0" | "valid" "\<not> seconds > 0" by blast
  then show ?thesis
  proof cases
    case 1
    with p show ?thesis
      by (intro exI[of _ "[]"]) (simp add: request_step_def handle_level_change_request_def)
  next
    case 2
    with p show ?thesis
      by (intro exI[of _ "[OpTemporary clk l seconds reason]"])
         (simp add: request_step_def handle_level_change_request_def split: prod.split)
  next
    case 3
    with p show ?thesis
      by (intro exI[of _ "[OpDynamic clk l reason]"])
         (simp add: request_step_def handle_level_change_request_def split: prod.split)
  qed
qed

lemma level_run_parts: "same_parts (fst s) (fst (level_run xs s))"
proof (induction xs arbitrary: s)
  case (Cons x xs)
  from Cons[of "level_step x s"] level_step_parts[of s x] show ?case
    by (simp add: same_parts_def)
qed (simp add: same_parts_def)

lemma level_run_ok:
  "logger_ok rank (lg, h, w) \<Longrightarrow> level_run xs (lg, w) = (lg', w') \<Longrightarrow> logger_ok rank (lg', h, w')"
  using level_run_parts[of "(lg, w)" xs] level_run_history[of "(lg, w)" xs]
  by (simp add: logger_ok_def same_parts_def)

lemma check_expiry_ok:
  "logger_ok rank (lg, h, w) \<Longrightarrow> check_temporary_level_expiry clk (lg, w) = (lg', w') \<Longrightarrow>
     logger_ok rank (lg', h, w')"
  using level_run_ok[of rank lg h w "[OpCheck clk]" lg' w'] by simp

subsection \<open>Logging returns\<close>

lemma filters_accept_returns:
  "ranked rank h \<Longrightarrow> \<exists>b h'. filters_accept rx ctx r ps h = Some (b, h') \<and> ranked rank h'"
proof (induction ps arbitrary: h)
  case (Cons p ps)
  from filter_run_verdict[OF Cons.prems, of p "Suc (rank p)" rx ctx r] obtain h1 where
    1: "filter_should_log rx ctx r p h = Some (verdict (Suc (rank p)) rx ctx r (fh_objs h) p, h1)"
      "same_shape h h1" unfolding filter_should_log_def by auto
  from same_shape_ranked[OF 1(2) Cons.prems] Cons.IH[of h1] 1(1) show ?case by fastforce
next
  case Nil
  then show ?case by (intro exI[of _ True] exI[of _ h]) simp
qed

lemma should_log_returns:
  assumes "ranked rank h"
  shows "\<exists>b h'. should_log rx ctx r lg h = Some (b, h') \<and> ranked rank h'"
proof (cases "rec_level r < lg_min_level lg \<or> (case lg_filter_func lg of Some f \<Rightarrow> \<not> f ctx r | None \<Rightarrow> False)")
  case True
  with assms show ?thesis unfolding should_log_def by (intro exI[of _ False] exI[of _ h]) auto
next
  case False
  with filters_accept_returns[OF assms] show ?thesis unfolding should_log_def by simp
qed

lemma apply_redaction_returns:
  "[] \<notin> set subs \<Longrightarrow> \<exists>out changed. apply_redaction rx subs rxs ps msg = Some (out, changed)"
  using redact_returns_iff[of msg subs] by (auto simp: apply_redaction_def Let_def)

lemma log_ok:
  assumes "logger_ok rank s"
  shows "\<exists>s'. log rx so clk ctx l msg s = Some s' \<and> logger_ok rank s'"
proof -
  obtain lg h w where s: "s = (lg, h, w)" by (cases s)
  obtain lg1 w1 where c: "check_temporary_level_expiry clk (lg, w) = (lg1, w1)" by fastforce
  from check_expiry_ok[OF assms[unfolded s] c] have ok: "logger_ok rank (lg1, h, w1)" .
  then have h: "ranked rank h" and pats: "[] \<notin> set (lg_redact_patterns lg1)"
    by (simp_all add: logger_ok_def)
  obtain b h' where f: "should_log rx ctx (probe_record (lg_name lg1) l) lg1 h = Some (b, h')"
    and h': "ranked rank h'"
    using should_log_returns[OF h] by blast
  have ok': "logger_ok rank (lg1, h', w')" for w' using ok h' by (simp add: logger_ok_def)
  obtain out changed where a: "apply_redaction rx (lg_redact_patterns lg1) (lg_redact_regex_patterns lg1)
      (lg_redact_pii_presets lg1) msg = Some (out, changed)"
    using apply_redaction_returns[OF pats] by blast
  show ?thesis using c f a ok' by (cases b) (simp_all add: s log_def)
qed

text \<open>Operations on the sinks and the filter heap.\<close>

lemma remove_quiet:
  assumes "quiet (lg_sink_entries lg)"
  shows "quiet (lg_sink_entries (snd (remove_sink_named nm lg)))"
    and "quiet (lg_sink_entries (snd (remove_sink_at i lg)))"
  using assms
  by (simp_all add: remove_sink_named_quiet remove_sink_at_quiet quiet_remove_nth split: option.split)

lemma remove_parts [simp]:
  "lg_redact_patterns (snd (remove_sink_named nm lg)) = lg_redact_patterns lg"
  "lg_history (snd (remove_sink_named nm lg)) = lg_history lg"
  "lg_max_history (snd (remove_sink_named nm lg)) = lg_max_history lg"
  "lg_redact_patterns (snd (remove_sink_at i lg)) = lg_redact_patterns lg"
  "lg_history (snd (remove_sink_at i lg)) = lg_history lg"
  "lg_max_history (snd (remove_sink_at i lg)) = lg_max_history lg"
  by (simp_all add: remove_sink_named_def remove_sink_at_def Let_def split: option.split)

lemma alloc_ranked: "ranked rank h \<Longrightarrow> (\<forall>m ps. x = CompositeFilter m ps \<longrightarrow> ps = []) \<Longrightarrow>
    ranked rank (snd (alloc_filter x h))"
  by (auto simp: ranked_def alloc_filter_def)

lemma composite_add_ranked:
  "ranked rank h \<Longrightarrow> rank q < rank p \<Longrightarrow> ranked rank (composite_add_filter p q h)"
  by (auto simp: ranked_def composite_add_filter_def set_filter_def split: filter_obj.split)

lemmas logger_op_defs = add_sink_def clear_sinks_def set_sink_level_at_def set_sink_level_named_def
  clear_sink_level_overrides_def set_redact_patterns_def set_redact_regex_patterns_def
  set_redact_pii_presets_def set_redact_apply_to_cloud_only_def clear_redact_patterns_def
  add_filter_def clear_filters_def set_filter_func_def register_level_change_callback_def
  clear_level_change_callbacks_def

lemma op_step_ok:
  assumes ok: "logger_ok rank s" and "op_ok rank x"
  shows "\<exists>s'. op_step rx so x s = Some s' \<and> logger_ok rank s'"
proof -
  obtain lg h w where s: "s = (lg, h, w)" by (cases s)
  show ?thesis
  proof (cases x)
    case (Op_level y)
    obtain lg' w' where "level_run [y] (lg, w) = (lg', w')" by fastforce
    with level_run_ok[OF ok[unfolded s] this] show ?thesis by (simp add: Op_level s on_world_def)
  next
    case (Op_request clk str reason seconds)
    obtain xs where xs: "request_step clk str reason seconds (lg, w) = level_run xs (lg, w)"
      using request_is_level_steps by blast
    obtain lg' w' where "level_run xs (lg, w) = (lg', w')" by fastforce
    with level_run_ok[OF ok[unfolded s] this] xs show ?thesis by (simp add: Op_request s on_world_def)
  next
    case (Op_log clk ctx l msg)
    with log_ok[OF ok] show ?thesis by simp
  next
    case (Op_macro active clk ctx l condition msg)
    with log_ok[OF ok] ok show ?thesis
      by (cases "xlog_level_enabled active (fst s) l \<and> condition") (auto simp: xlog_log_if_def s)
  next
    case (Op_new_filter y)
    with ok assms(2) alloc_ranked[of rank h y] show ?thesis by (simp add: s on_heap_def logger_ok_def)
  next
    case (Op_composite_add p q)
    with ok assms(2) composite_add_ranked[of rank h q p] show ?thesis by (simp add: s on_heap_def logger_ok_def)
  next
    case (Op_remove_sink nm)
    with ok remove_quiet(1)[of lg nm] show ?thesis by (simp add: s on_logger_def logger_ok_def history_ok_def)
  next
    case (Op_remove_sink_at i)
    with ok remove_quiet(2)[of lg i] show ?thesis by (simp add: s on_logger_def logger_ok_def history_ok_def)
  qed (use ok assms(2) in
      \<open>simp_all add: s on_logger_def logger_ok_def logger_op_defs history_ok_def quiet_def ball_Un\<close>)
qed

lemma programs_return:
  assumes "logger_ok rank s" and "list_all (op_ok rank) xs"
  shows "\<exists>lg h w. op_run rx so xs s = Some (lg, h, w) \<and> logger_ok rank (lg, h, w)
    \<and> sink_count lg = length (lg_sink_entries lg) \<and> length (lg_history lg) \<le> lg_max_history lg"
  using assms
proof (induction xs arbitrary: s)
  case Nil
  obtain lg h w where s: "s = (lg, h, w)" by (cases s)
  with Nil.prems(1) have "quiet (lg_sink_entries lg)" "history_ok lg" by (simp_all add: logger_ok_def)
  with Nil.prems(1) s quiet_count[of lg] show ?case by (simp add: history_ok_def)
next
  case (Cons x xs)
  from op_step_ok[OF Cons.prems(1), of x rx so] Cons.prems(2) obtain s' where
    "op_step rx so x s = Some s'" "logger_ok rank s'" by auto
  with Cons.IH[of s'] Cons.prems(2) show ?case by simp
qed

section \<open>What a program keeps of the world\<close>

text \<open>An invariant of the world that every sink and every level callback keeps.\<close>

definition sinks_keep :: "('w \<Rightarrow> bool) \<Rightarrow> 'w sink_ops \<Rightarrow> bool" where
  "sinks_keep Q so \<longleftrightarrow> (\<forall>p nm l msg w. Q w \<longrightarrow> Q (so_log so p nm l msg w))"

definition callback_keeps :: "('w \<Rightarrow> bool) \<Rightarrow> 'w level_callback \<Rightarrow> bool" where
  "callback_keeps Q f \<longleftrightarrow> (\<forall>a b w. Q w \<longrightarrow> Q (f a b w))"

definition state_keeps :: "('w \<Rightarrow> bool) \<Rightarrow> 'w logger \<times> 'w \<Rightarrow> bool" where
  "state_keeps Q s \<longleftrightarrow> Q (snd s) \<and> (\<forall>f \<in> set (lg_callbacks (fst s)). callback_keeps Q f)"

definition op_keeps :: "('w \<Rightarrow> bool) \<Rightarrow> ('rx, 'w) logger_op \<Rightarrow> bool" where
  "op_keeps Q x \<longleftrightarrow> (case x of Op_callback f \<Rightarrow> callback_keeps Q f | _ \<Rightarrow> True)"

lemma foldl_keeps:
  "\<forall>f \<in> set fs. callback_keeps Q f \<Longrightarrow> Q w \<Longrightarrow> Q (foldl (\<lambda>w f. f a b w) w fs)"
  by (induction fs arbitrary: w) (auto simp: callback_keeps_def)

lemma level_step_keeps: "state_keeps Q s \<Longrightarrow> state_keeps Q (level_step x s)"
proof -
  assume k: "state_keeps Q s"
  obtain lg w where s: "s = (lg, w)" by (cases s)
  have "Q (foldl (\<lambda>w f. f a b w) w (lg_callbacks lg))" for a b
    using k by (intro foldl_keeps[of _ Q]) (simp_all add: s state_keeps_def)
  with k have "state_keeps Q (revert_level reason now s)" for reason now
    by (simp add: s state_keeps_def revert_level_def record_level_change_def run_callbacks_def Let_def)
  then have c: "state_keeps Q (check_temporary_level_expiry clk s)" for clk
    using k by (simp add: check_temporary_level_expiry_def)
  show ?thesis
  proof (cases x)
    case (OpDynamic clk l reason)
    obtain lg1 w1 where e: "check_temporary_level_expiry clk s = (lg1, w1)" by fastforce
    have "Q (foldl (\<lambda>w f. f a b w) w1 (lg_callbacks lg1))" for a b
      using c[of clk] e by (intro foldl_keeps[of _ Q]) (simp_all add: state_keeps_def)
    with c[of clk] e show ?thesis
      by (simp add: OpDynamic set_level_dynamic_def state_keeps_def record_level_change_def
          run_callbacks_def Let_def)
  next
    case (OpTemporary clk l d reason)
    with k \<open>\<And>a b. Q (foldl (\<lambda>w f. f a b w) w (lg_callbacks lg))\<close> show ?thesis
      by (simp add: s set_level_temporary_def state_keeps_def record_level_change_def
          run_callbacks_def Let_def)
  qed (use k c \<open>\<And>reason now. state_keeps Q (revert_level reason now s)\<close> in
      \<open>simp_all add: s state_keeps_def set_level_def cancel_temporary_level_def
        set_max_history_entries_def clear_level_history_def\<close>)
qed

lemma level_run_keeps: "state_keeps Q s \<Longrightarrow> state_keeps Q (level_run xs s)"
  by (induction xs arbitrary: s) (simp_all add: level_step_keeps)

lemma sinks_loop_keeps:
  "sinks_keep Q so \<Longrightarrow> Q w \<Longrightarrow> Q (sinks_loop so nm l m r hr co ov i es w)"
  by (induction es arbitrary: i w) (auto simp: sinks_keep_def Let_def split: option.split)

lemma log_keeps:
  assumes "sinks_keep Q so" and "state_keeps Q (lg, w)"
    and "log rx so clk ctx l msg (lg, h, w) = Some (lg', h', w')"
  shows "state_keeps Q (lg', w')"
proof -
  obtain lg1 w1 where c: "check_temporary_level_expiry clk (lg, w) = (lg1, w1)" by fastforce
  have k: "state_keeps Q (lg1, w1)"
    using level_run_keeps[OF assms(2), of "[OpCheck clk]"] c by simp
  with assms(3) c sinks_loop_keeps[OF assms(1)] show ?thesis
    by (auto simp: log_def state_keeps_def split: option.splits bool.splits prod.splits)
qed

lemma op_step_keeps:
  assumes so: "sinks_keep Q so" and k: "state_keeps Q (lg, w)" and "op_keeps Q x"
    and step: "op_step rx so x (lg, h, w) = Some (lg', h', w')"
  shows "state_keeps Q (lg', w')"
proof (cases x)
  case (Op_level y)
  with level_run_keeps[OF k, of "[y]"] step show ?thesis by (auto simp: on_world_def split: prod.splits)
next
  case (Op_request clk str reason seconds)
  obtain xs where "request_step clk str reason seconds (lg, w) = level_run xs (lg, w)"
    using request_is_level_steps by blast
  with level_run_keeps[OF k, of xs] step Op_request show ?thesis
    by (auto simp: on_world_def split: prod.splits)
next
  case (Op_log clk ctx l msg)
  with log_keeps[OF so k] step show ?thesis by simp
next
  case (Op_macro active clk ctx l condition msg)
  with log_keeps[OF so k] step k show ?thesis by (auto simp: xlog_log_if_def split: if_splits)
qed (use k step assms(3) in \<open>auto simp: on_logger_def on_heap_def state_keeps_def logger_op_defs
    op_keeps_def remove_sink_named_def remove_sink_at_def Let_def split: option.splits if_splits\<close>)

lemma programs_keep_world:
  "sinks_keep Q so \<Longrightarrow> state_keeps Q (lg, w) \<Longrightarrow> list_all (op_keeps Q) xs \<Longrightarrow>
     op_run rx so xs (lg, h, w) = Some (lg', h', w') \<Longrightarrow> Q w'"
proof (induction xs arbitrary: lg h w)
  case Nil
  then show ?case by (simp add: state_keeps_def)
next
  case (Cons x xs)
  then obtain lg1 h1 w1 where step: "op_step rx so x (lg, h, w) = Some (lg1, h1, w1)"
    and rest: "op_run rx so xs (lg1, h1, w1) = Some (lg', h', w')"
    by (auto split: Option.bind_splits)
  from Cons.prems(3) have "op_keeps Q x" "list_all (op_keeps Q) xs" by simp_all
  from Cons.IH[OF Cons.prems(1) op_step_keeps[OF Cons.prems(1,2) this(1) step] this(2) rest]
  show ?case .
qed

end
