(* ===== verification/Std_Regex.thy ===== *)
theory Std_Regex
  imports Zyrnix_Prelude
begin

text \<open>
  What the sources use of \<open>std::regex\<close>: the ECMAScript patterns made of characters, classes, \<open>.\<close>,
  the escapes \<open>\d \w \s\<close> with their complements, word boundaries, groups without back references,
  alternatives and greedy or lazy repetitions.  A pattern is parsed to a tree; the matcher returns
  the end positions of all matches at a position in the order in which the backtracking search of
  the library finds them; \<open>regex_search\<close> takes the first match of the leftmost position, and
  \<open>regex_replace\<close> the matches of a \<open>regex_iterator\<close>.  Other patterns (back references, lookahead,
  anchors, collating classes) are not parsed.
\<close>

section \<open>Patterns\<close>

datatype regex =
  Rx_empty
| Rx_class bool "(char \<times> char) list"        \<comment> \<open>complemented or not; ranges of characters\<close>
| Rx_boundary bool                           \<comment> \<open>\<open>\b\<close>, or \<open>\B\<close> if complemented\<close>
| Rx_seq regex regex
| Rx_alt regex regex
| Rx_repeat regex nat "nat option" bool      \<comment> \<open>at least, how many more at most, greedy\<close>

definition is_word :: "char \<Rightarrow> bool" where
  "is_word c \<longleftrightarrow> is_digit c \<or> 65 \<le> char_code c \<and> char_code c \<le> 90
     \<or> 97 \<le> char_code c \<and> char_code c \<le> 122 \<or> c = CHR ''_''"

definition to_upper :: "char \<Rightarrow> char" where
  "to_upper c = (if 97 \<le> char_code c \<and> char_code c \<le> 122 then char_of (char_code c - 32) else c)"

definition digit_ranges :: "(char \<times> char) list" where
  "digit_ranges = [(CHR ''0'', CHR ''9'')]"

definition word_ranges :: "(char \<times> char) list" where
  "word_ranges = [(CHR ''A'', CHR ''Z''), (CHR ''a'', CHR ''z''), (CHR ''0'', CHR ''9''), (CHR ''_'', CHR ''_'')]"

definition space_ranges :: "(char \<times> char) list" where
  "space_ranges = [(CHR '' '', CHR '' ''), (CHR 0x09, CHR 0x0D)]"

fun class_escape :: "char \<Rightarrow> (char \<times> char) list option" where
  "class_escape c =
     (if c = CHR ''d'' then Some digit_ranges
      else if c = CHR ''w'' then Some word_ranges
      else if c = CHR ''s'' then Some space_ranges
      else None)"

text \<open>The characters that stand for themselves in a pattern, and those an escape makes ordinary.\<close>

definition is_special :: "char \<Rightarrow> bool" where
  "is_special c \<longleftrightarrow> c \<in> set (''^$.*+?()[]{}|'' @ bslash)"

definition is_plain :: "char \<Rightarrow> bool" where
  "is_plain c \<longleftrightarrow> \<not> is_special c \<and> char_code c < 128"

section \<open>Parsing\<close>

fun expect :: "char \<Rightarrow> string \<Rightarrow> string option" where
  "expect c [] = None"
| "expect c (d # s) = (if d = c then Some s else None)"

text \<open>A character of a class, and the ranges up to the closing bracket.\<close>

fun parse_class_char :: "string \<Rightarrow> (char \<times> string) option" where
  "parse_class_char [] = None"
| "parse_class_char (c # s) =
     (if c = CHR ''['' \<or> c = CHR 0x5C \<or> c = CHR '']'' \<or> 128 \<le> char_code c then None else Some (c, s))"

definition parse_range_end :: "char \<Rightarrow> string \<Rightarrow> ((char \<times> char) \<times> string) option" where
  "parse_range_end lo s =
     (case expect CHR ''-'' s of
        None \<Rightarrow> Some ((lo, lo), s)
      | Some s1 \<Rightarrow>
          if s1 = [] \<or> hd s1 = CHR '']'' then Some ((lo, lo), s)
          else
            (case parse_class_char s1 of
               None \<Rightarrow> None
             | Some (hi, s2) \<Rightarrow> if char_code hi < char_code lo then None else Some ((lo, hi), s2)))"

definition parse_class_item :: "string \<Rightarrow> ((char \<times> char) list \<times> string) option" where
  "parse_class_item s =
     (case expect CHR 0x5C s of
        Some s1 \<Rightarrow>
          (case s1 of
             [] \<Rightarrow> None
           | e # s2 \<Rightarrow>
               (case class_escape e of
                  Some rs \<Rightarrow> Some (rs, s2)
                | None \<Rightarrow> if is_special e \<or> e = CHR ''-'' then Some ([(e, e)], s2) else None))
      | None \<Rightarrow>
          (case parse_class_char s of
             None \<Rightarrow> None
           | Some (lo, s1) \<Rightarrow> map_option (\<lambda>(r, s2). ([r], s2)) (parse_range_end lo s1)))"

fun parse_class :: "nat \<Rightarrow> string \<Rightarrow> ((char \<times> char) list \<times> string) option" where
  "parse_class 0 s = None"
| "parse_class (Suc n) s =
     (case expect CHR '']'' s of
        Some s1 \<Rightarrow> Some ([], s1)
      | None \<Rightarrow>
          (case parse_class_item s of
             None \<Rightarrow> None
           | Some (rs, s1) \<Rightarrow> map_option (\<lambda>(rest, s2). (rs @ rest, s2)) (parse_class n s1)))"

fun read_number :: "nat \<Rightarrow> string \<Rightarrow> nat \<times> string" where
  "read_number acc [] = (acc, [])"
| "read_number acc (c # s) =
     (if is_digit c then read_number (10 * acc + (char_code c - 48)) s else (acc, c # s))"

definition parse_number :: "string \<Rightarrow> (nat \<times> string) option" where
  "parse_number s = (if s = [] \<or> \<not> is_digit (hd s) then None else Some (read_number 0 s))"

text \<open>The counts in braces: \<open>{m}\<close>, \<open>{m,}\<close>, \<open>{m,n}\<close>; an interval with \<open>n < m\<close> is an error.\<close>

definition parse_counts :: "string \<Rightarrow> (nat \<times> nat option \<times> string) option" where
  "parse_counts s =
     (case parse_number s of
        None \<Rightarrow> None
      | Some (m, s1) \<Rightarrow>
          (case expect CHR ''}'' s1 of
             Some s2 \<Rightarrow> Some (m, Some 0, s2)
           | None \<Rightarrow>
               (case expect CHR '','' s1 of
                  None \<Rightarrow> None
                | Some s2 \<Rightarrow>
                    (case expect CHR ''}'' s2 of
                       Some s3 \<Rightarrow> Some (m, None, s3)
                     | None \<Rightarrow>
                         (case parse_number s2 of
                            None \<Rightarrow> None
                          | Some (n, s3) \<Rightarrow>
                              (case expect CHR ''}'' s3 of
                                 None \<Rightarrow> None
                               | Some s4 \<Rightarrow> if n < m then None else Some (m, Some (n - m), s4)))))))"

definition parse_lazy :: "regex \<Rightarrow> nat \<Rightarrow> nat option \<Rightarrow> string \<Rightarrow> regex \<times> string" where
  "parse_lazy r m k s =
     (case expect CHR ''?'' s of
        Some s1 \<Rightarrow> (Rx_repeat r m k False, s1)
      | None \<Rightarrow> (Rx_repeat r m k True, s))"

definition parse_quantifier :: "regex \<Rightarrow> string \<Rightarrow> (regex \<times> string) option" where
  "parse_quantifier r s =
     (case s of
        [] \<Rightarrow> Some (r, s)
      | c # s1 \<Rightarrow>
          if c = CHR ''*'' then Some (parse_lazy r 0 None s1)
          else if c = CHR ''+'' then Some (parse_lazy r 1 None s1)
          else if c = CHR ''?'' then Some (parse_lazy r 0 (Some 1) s1)
          else if c = CHR ''{'' then map_option (\<lambda>(m, k, s2). parse_lazy r m k s2) (parse_counts s1)
          else Some (r, s))"

text \<open>Escapes outside a class; a boundary cannot be repeated.\<close>

definition parse_escape :: "char \<Rightarrow> regex option" where
  "parse_escape c =
     (case class_escape c of
        Some rs \<Rightarrow> Some (Rx_class False rs)
      | None \<Rightarrow>
          (case class_escape (to_lower c) of
             Some rs \<Rightarrow> Some (Rx_class True rs)
           | None \<Rightarrow> if is_special c then Some (Rx_class False [(c, c)]) else None))"

definition parse_boundary :: "string \<Rightarrow> (bool \<times> string) option" where
  "parse_boundary s =
     (case expect CHR 0x5C s of
        None \<Rightarrow> None
      | Some s1 \<Rightarrow>
          (case expect CHR ''b'' s1 of
             Some s2 \<Rightarrow> Some (False, s2)
           | None \<Rightarrow> map_option (Pair True) (expect CHR ''B'' s1)))"

text \<open>A single character, an escape or a class.\<close>

definition parse_single :: "char \<Rightarrow> string \<Rightarrow> (regex \<times> string) option" where
  "parse_single c s =
     (if c = CHR ''['' then
        (case expect CHR ''^'' s of
           Some s1 \<Rightarrow> map_option (\<lambda>(rs, s2). (Rx_class True rs, s2)) (parse_class (length s1) s1)
         | None \<Rightarrow> map_option (\<lambda>(rs, s2). (Rx_class False rs, s2)) (parse_class (length s) s))
      else if c = CHR ''.'' then
        Some (Rx_class True [(CHR 0x0A, CHR 0x0A), (CHR 0x0D, CHR 0x0D)], s)
      else if c = CHR 0x5C then
        (case s of [] \<Rightarrow> None | e # s1 \<Rightarrow> map_option (\<lambda>r. (r, s1)) (parse_escape e))
      else if is_plain c then Some (Rx_class False [(c, c)], s)
      else None)"

text \<open>
  Alternatives, sequences and atoms; every call of one of them consumes fuel.  Three calls may
  be made before a character is read, hence the fuel of \<open>parse_regex\<close>; \<open>parse_regex_fuel\<close> below
  proves that more changes nothing.
\<close>

fun parse_alt :: "nat \<Rightarrow> string \<Rightarrow> (regex \<times> string) option"
  and parse_seq :: "nat \<Rightarrow> string \<Rightarrow> (regex \<times> string) option"
  and parse_atom :: "nat \<Rightarrow> string \<Rightarrow> (regex \<times> string) option" where
  "parse_alt 0 s = None"
| "parse_alt (Suc n) s =
     (case parse_seq n s of
        None \<Rightarrow> None
      | Some (r, s1) \<Rightarrow>
          (case expect CHR ''|'' s1 of
             Some s2 \<Rightarrow> map_option (\<lambda>(r', s3). (Rx_alt r r', s3)) (parse_alt n s2)
           | None \<Rightarrow> Some (r, s1)))"
| "parse_seq 0 s = None"
| "parse_seq (Suc n) s =
     (if s = [] \<or> hd s = CHR ''|'' \<or> hd s = CHR '')'' then Some (Rx_empty, s)
      else
        (case parse_boundary s of
           Some (b, s1) \<Rightarrow> map_option (\<lambda>(r, s2). (Rx_seq (Rx_boundary b) r, s2)) (parse_seq n s1)
         | None \<Rightarrow>
             (case parse_atom n s of
                None \<Rightarrow> None
              | Some (a, s1) \<Rightarrow>
                  (case parse_quantifier a s1 of
                     None \<Rightarrow> None
                   | Some (q, s2) \<Rightarrow>
                       map_option (\<lambda>(r, s3). (Rx_seq q r, s3)) (parse_seq n s2)))))"
| "parse_atom 0 s = None"
| "parse_atom (Suc n) s =
     (case s of
        [] \<Rightarrow> None
      | c # s1 \<Rightarrow>
          if c = CHR ''('' then
            (case (case expect CHR ''?'' s1 of None \<Rightarrow> Some s1 | Some s2 \<Rightarrow> expect CHR '':'' s2) of
               None \<Rightarrow> None
             | Some s2 \<Rightarrow>
                 (case parse_alt n s2 of
                    None \<Rightarrow> None
                  | Some (r, s3) \<Rightarrow> map_option (Pair r) (expect CHR '')'' s3)))
          else parse_single c s1)"

definition parse_regex :: "string \<Rightarrow> regex option" where
  "parse_regex pat =
     (case parse_alt (3 * length pat + 3) pat of Some (r, []) \<Rightarrow> Some r | _ \<Rightarrow> None)"

subsection \<open>The fuel is enough\<close>

lemma expect_length: "expect c s = Some s' \<Longrightarrow> length s = Suc (length s')"
  by (cases s) (auto split: if_splits)

lemma parse_class_char_length: "parse_class_char s = Some (c, s') \<Longrightarrow> length s = Suc (length s')"
  by (cases s) (auto split: if_splits)

lemma parse_class_item_length: "parse_class_item s = Some (rs, s') \<Longrightarrow> length s' < length s"
  by (auto simp: parse_class_item_def parse_range_end_def simp del: class_escape.simps
      dest!: expect_length parse_class_char_length split: option.splits list.splits if_splits)

lemma parse_class_length: "parse_class n s = Some (rs, s') \<Longrightarrow> length s' < length s"
  by (induction n s arbitrary: rs s' rule: parse_class.induct)
     (fastforce dest!: expect_length parse_class_item_length split: option.splits)+

lemma parse_class_fuel: "length s \<le> n \<Longrightarrow> parse_class (Suc n) s = parse_class n s"
proof (induction n arbitrary: s)
  case 0
  then show ?case by (simp add: parse_class_item_def)
next
  case (Suc n)
  have "parse_class (Suc n) s1 = parse_class n s1" if "parse_class_item s = Some (rs, s1)" for rs s1
    using Suc.IH[of s1] Suc.prems parse_class_item_length[OF that] by simp
  then show ?case by (simp split: option.split)
qed

lemma read_number_length: "read_number a s = (m, s') \<Longrightarrow> length s' \<le> length s"
  by (induction a s rule: read_number.induct) (auto split: if_splits)

lemma parse_number_length: "parse_number s = Some (m, s') \<Longrightarrow> length s' \<le> length s"
  by (auto simp: parse_number_def dest: read_number_length split: if_splits)

lemma parse_counts_length: "parse_counts s = Some (m, k, s') \<Longrightarrow> length s' \<le> length s"
  by (auto simp: parse_counts_def dest!: expect_length parse_number_length split: option.splits if_splits)

lemma parse_lazy_length: "parse_lazy r m k s = (q, s') \<Longrightarrow> length s' \<le> length s"
  by (auto simp: parse_lazy_def dest!: expect_length split: option.splits)

lemma parse_quantifier_length: "parse_quantifier r s = Some (q, s') \<Longrightarrow> length s' \<le> length s"
  by (auto simp: parse_quantifier_def dest!: parse_lazy_length parse_counts_length
      split: list.splits if_splits)

lemma parse_boundary_length: "parse_boundary s = Some (b, s') \<Longrightarrow> length s' < length s"
  by (auto simp: parse_boundary_def dest!: expect_length split: option.splits)

lemma parse_single_length: "parse_single c s = Some (r, s') \<Longrightarrow> length s' \<le> length s"
  by (auto simp: parse_single_def simp del: parse_class.simps dest!: expect_length parse_class_length
      split: option.splits list.splits if_splits)

lemma parse_lengths:
  "(\<forall>r s'. parse_alt n s = Some (r, s') \<longrightarrow> length s' \<le> length s)
   \<and> (\<forall>r s'. parse_seq n s = Some (r, s') \<longrightarrow> length s' \<le> length s)
   \<and> (\<forall>r s'. parse_atom n s = Some (r, s') \<longrightarrow> length s' < length s)"
proof (induction n arbitrary: s)
  case (Suc n)
  have rec: "parse_alt n s = Some (r, s') \<Longrightarrow> length s' \<le> length s"
    "parse_seq n s = Some (r, s') \<Longrightarrow> length s' \<le> length s"
    "parse_atom n s = Some (r, s') \<Longrightarrow> length s' < length s" for s r s'
    using Suc.IH by blast+
  have "length s' \<le> length s" if "parse_alt (Suc n) s = Some (r, s')" for r s'
    using that by (fastforce dest!: expect_length rec split: option.splits)
  moreover have "length s' \<le> length s" if "parse_seq (Suc n) s = Some (r, s')" for r s'
    using that by (fastforce dest!: parse_boundary_length parse_quantifier_length rec
        split: option.splits if_splits)
  moreover have "length s' < length s" if "parse_atom (Suc n) s = Some (r, s')" for r s'
    using that by (fastforce dest!: expect_length parse_single_length rec
        split: option.splits if_splits list.splits)
  ultimately show ?case by blast
qed simp

lemma parse_more_fuel:
  "(3 * length s + 3 \<le> n \<longrightarrow> parse_alt (Suc n) s = parse_alt n s)
   \<and> (3 * length s + 2 \<le> n \<longrightarrow> parse_seq (Suc n) s = parse_seq n s)
   \<and> (3 * length s + 1 \<le> n \<longrightarrow> parse_atom (Suc n) s = parse_atom n s)"
proof (induction n arbitrary: s)
  case (Suc n)
  have rec: "3 * length s + 3 \<le> n \<Longrightarrow> parse_alt (Suc n) s = parse_alt n s"
    "3 * length s + 2 \<le> n \<Longrightarrow> parse_seq (Suc n) s = parse_seq n s"
    "3 * length s + 1 \<le> n \<Longrightarrow> parse_atom (Suc n) s = parse_atom n s" for s
    using Suc.IH by blast+
  note len = parse_lengths[THEN conjunct1, rule_format] parse_lengths[THEN conjunct2, THEN conjunct1, rule_format]
    parse_lengths[THEN conjunct2, THEN conjunct2, rule_format]
  have "parse_alt (Suc (Suc n)) s = parse_alt (Suc n) s" if "3 * length s + 3 \<le> Suc n"
  proof -
    have "parse_alt (Suc n) s2 = parse_alt n s2" if "parse_seq n s = Some (r, s1)" "expect CHR ''|'' s1 = Some s2"
      for r s1 s2
      using len(2)[OF that(1)] expect_length[OF that(2)] \<open>3 * length s + 3 \<le> Suc n\<close> by (intro rec(1)) simp
    with that rec(2)[of s] show ?thesis
      by (simp only: parse_alt.simps) (simp del: parse_alt.simps parse_seq.simps split: option.split)
  qed
  moreover have "parse_seq (Suc (Suc n)) s = parse_seq (Suc n) s" if n: "3 * length s + 2 \<le> Suc n"
  proof -
    have "parse_seq (Suc n) s1 = parse_seq n s1" if "parse_boundary s = Some (b, s1)" for b s1
      using parse_boundary_length[OF that] n by (intro rec(2)) simp
    moreover have "parse_seq (Suc n) s2 = parse_seq n s2"
      if "parse_atom n s = Some (a, s1)" "parse_quantifier a s1 = Some (q, s2)" for a s1 q s2
      using len(3)[OF that(1)] parse_quantifier_length[OF that(2)] n by (intro rec(2)) simp
    ultimately show ?thesis using n rec(3)[of s]
      by (simp only: parse_seq.simps) (simp del: parse_seq.simps parse_atom.simps split: option.split)
  qed
  moreover have "parse_atom (Suc (Suc n)) s = parse_atom (Suc n) s" if n: "3 * length s + 1 \<le> Suc n"
  proof (cases s)
    case (Cons c s1)
    have "parse_alt (Suc n) s2 = parse_alt n s2"
      if "(case expect CHR ''?'' s1 of None \<Rightarrow> Some s1 | Some s2 \<Rightarrow> expect CHR '':'' s2) = Some s2" for s2
      using that n Cons by (intro rec(1)) (auto dest!: expect_length split: option.splits)
    with Cons show ?thesis
      by (simp only: parse_atom.simps) (simp del: parse_alt.simps split: option.split)
  qed simp
  ultimately show ?case by blast
qed simp

theorem parse_regex_fuel:
  "parse_alt (3 * length pat + 3 + n) pat = parse_alt (3 * length pat + 3) pat"
proof (induction n)
  case (Suc n)
  have "parse_alt (Suc (3 * length pat + 3 + n)) pat = parse_alt (3 * length pat + 3 + n) pat"
    using parse_more_fuel[of pat "3 * length pat + 3 + n", THEN conjunct1] by simp
  with Suc show ?case by (simp only: add_Suc_right)
qed simp

section \<open>Matching\<close>

definition class_matches :: "bool \<Rightarrow> bool \<Rightarrow> (char \<times> char) list \<Rightarrow> char \<Rightarrow> bool" where
  "class_matches icase complement rs c \<longleftrightarrow>
     complement \<noteq> list_ex (\<lambda>(lo, hi).
       let within = (\<lambda>d. char_code lo \<le> char_code d \<and> char_code d \<le> char_code hi) in
       within c \<or> icase \<and> (within (to_lower c) \<or> within (to_upper c))) rs"

definition word_at :: "string \<Rightarrow> nat \<Rightarrow> bool" where
  "word_at s i \<longleftrightarrow> i < length s \<and> is_word (s ! i)"

definition at_boundary :: "string \<Rightarrow> nat \<Rightarrow> bool" where
  "at_boundary s i \<longleftrightarrow> (0 < i \<and> word_at s (i - 1)) \<noteq> word_at s i"

text \<open>
  The ends in the order of the search: the mandatory rounds of a repetition first, then up to
  \<open>k\<close> more, none of which may match the empty string; greedy tries one more round before it
  stops, lazy after it.
\<close>

fun rounds :: "(nat \<Rightarrow> nat list) \<Rightarrow> nat \<Rightarrow> nat \<Rightarrow> nat list" where
  "rounds f 0 i = [i]"
| "rounds f (Suc m) i = concat (map (rounds f m) (f i))"

fun more_rounds :: "(nat \<Rightarrow> nat list) \<Rightarrow> bool \<Rightarrow> nat \<Rightarrow> nat \<Rightarrow> nat list" where
  "more_rounds f greedy 0 i = [i]"
| "more_rounds f greedy (Suc k) i =
     (let more = concat (map (more_rounds f greedy k) (filter (\<lambda>j. j \<noteq> i) (f i)))
      in if greedy then more @ [i] else i # more)"

fun ends :: "bool \<Rightarrow> string \<Rightarrow> regex \<Rightarrow> nat \<Rightarrow> nat list" where
  "ends icase s Rx_empty i = [i]"
| "ends icase s (Rx_class complement rs) i =
     (if i < length s \<and> class_matches icase complement rs (s ! i) then [Suc i] else [])"
| "ends icase s (Rx_boundary complement) i = (if at_boundary s i \<noteq> complement then [i] else [])"
| "ends icase s (Rx_seq r r') i = concat (map (ends icase s r') (ends icase s r i))"
| "ends icase s (Rx_alt r r') i = ends icase s r i @ ends icase s r' i"
| "ends icase s (Rx_repeat r m k greedy) i =
     concat (map (\<lambda>j. more_rounds (ends icase s r) greedy
                        (case k of Some n \<Rightarrow> n | None \<Rightarrow> length s - j) j)
              (rounds (ends icase s r) m i))"

text \<open>The first match at or after a position, and the one the iterator goes to after a match.\<close>

definition match_from :: "bool \<Rightarrow> regex \<Rightarrow> string \<Rightarrow> nat \<Rightarrow> (nat \<times> nat) option" where
  "match_from icase r s p =
     map_option (\<lambda>i. (i, hd (ends icase s r i)))
       (find (\<lambda>i. ends icase s r i \<noteq> []) [p..<Suc (length s)])"

definition next_match :: "bool \<Rightarrow> regex \<Rightarrow> string \<Rightarrow> nat \<times> nat \<Rightarrow> (nat \<times> nat) option" where
  "next_match icase r s m =
     (let (i, j) = m in
      if i < j then match_from icase r s j
      else if length s \<le> j then None
      else (case filter (\<lambda>k. k \<noteq> j) (ends icase s r j) of
              k # _ \<Rightarrow> Some (j, k)
            | [] \<Rightarrow> match_from icase r s (Suc j)))"

section \<open>What the matcher computes\<close>

text \<open>The matches of a pattern as a relation between positions.\<close>

fun spans :: "bool \<Rightarrow> string \<Rightarrow> regex \<Rightarrow> nat \<Rightarrow> nat \<Rightarrow> bool" where
  "spans icase s Rx_empty i j = (i = j)"
| "spans icase s (Rx_class complement rs) i j =
     (i < length s \<and> class_matches icase complement rs (s ! i) \<and> j = Suc i)"
| "spans icase s (Rx_boundary complement) i j = (at_boundary s i \<noteq> complement \<and> i = j)"
| "spans icase s (Rx_seq r r') i j = (\<exists>k. spans icase s r i k \<and> spans icase s r' k j)"
| "spans icase s (Rx_alt r r') i j = (spans icase s r i j \<or> spans icase s r' i j)"
| "spans icase s (Rx_repeat r m k greedy) i j =
     (\<exists>n \<ge> m. (case k of Some x \<Rightarrow> n \<le> m + x | None \<Rightarrow> True) \<and> (spans icase s r ^^ n) i j)"

lemma relpowp_Suc_iff: "(R ^^ Suc n) i j \<longleftrightarrow> (\<exists>x. R i x \<and> (R ^^ n) x j)"
  by (blast elim: relpowp_Suc_E2 intro: relpowp_Suc_I2)

declare relpowp.simps(2) [simp del]

lemma relpowp_bounds:
  "(R ^^ n) i j \<Longrightarrow> (\<And>x y. R x y \<Longrightarrow> x \<le> y \<and> y \<le> max x L) \<Longrightarrow> i \<le> j \<and> j \<le> max i (L :: nat)"
proof (induction n arbitrary: i)
  case (Suc n)
  then obtain k where k: "R i k" "(R ^^ n) k j" unfolding relpowp_Suc_iff by blast
  with Suc.IH[OF k(2)] Suc.prems(2) show ?case by fastforce
qed simp

lemma spans_bounds: "spans icase s r i j \<Longrightarrow> i \<le> j \<and> j \<le> max i (length s)"
proof (induction r arbitrary: i j)
  case (Rx_seq r r')
  then show ?case by fastforce
next
  case (Rx_repeat r m k greedy)
  then obtain n where "(spans icase s r ^^ n) i j" by auto
  then show ?case by (rule relpowp_bounds) (rule Rx_repeat.IH)
qed auto

lemma relpowp_upto_Suc:
  "(\<exists>n \<le> Suc k. (R ^^ n) i j) \<longleftrightarrow> i = j \<or> (\<exists>x. R i x \<and> (\<exists>n \<le> k. (R ^^ n) x j))"
proof
  assume "\<exists>n \<le> Suc k. (R ^^ n) i j"
  then obtain n where n: "n \<le> Suc k" "(R ^^ n) i j" by blast
  show "i = j \<or> (\<exists>x. R i x \<and> (\<exists>n \<le> k. (R ^^ n) x j))"
  proof (cases n)
    case (Suc n')
    with n(2) obtain x where "R i x" "(R ^^ n') x j" unfolding Suc relpowp_Suc_iff by blast
    moreover have "n' \<le> k" using n(1) Suc by simp
    ultimately show ?thesis by blast
  qed (use n in simp)
next
  assume "i = j \<or> (\<exists>x. R i x \<and> (\<exists>n \<le> k. (R ^^ n) x j))"
  then consider "i = j" | x n where "R i x" "n \<le> k" "(R ^^ n) x j" by blast
  then show "\<exists>n \<le> Suc k. (R ^^ n) i j"
  proof cases
    case 1
    then show ?thesis by (intro exI[of _ 0]) simp
  next
    case 2
    then have "(R ^^ Suc n) i j" unfolding relpowp_Suc_iff by blast
    with 2 show ?thesis by (intro exI[of _ "Suc n"]) simp
  qed
qed

lemma set_rounds: "j \<in> set (rounds f m i) \<longleftrightarrow> ((\<lambda>x y. y \<in> set (f x)) ^^ m) i j"
proof (induction m arbitrary: i)
  case (Suc m)
  then show ?case unfolding relpowp_Suc_iff by simp blast
qed auto

lemma set_more_rounds:
  "j \<in> set (more_rounds f greedy k i) \<longleftrightarrow> (\<exists>n \<le> k. ((\<lambda>x y. y \<in> set (f x) \<and> y \<noteq> x) ^^ n) i j)"
proof (induction k arbitrary: i)
  case (Suc k)
  have "j \<in> set (more_rounds f greedy (Suc k) i)
      \<longleftrightarrow> i = j \<or> (\<exists>x. (x \<in> set (f i) \<and> x \<noteq> i) \<and> j \<in> set (more_rounds f greedy k x))"
    by (auto simp: Let_def)
  then show ?case unfolding relpowp_upto_Suc Suc .
qed auto

text \<open>Rounds that match the empty string change nothing, and without them the text is used up.\<close>

lemma proper_rounds: "(R ^^ n) i j \<Longrightarrow> \<exists>n' \<le> n. ((\<lambda>x y. R x y \<and> y \<noteq> x) ^^ n') i j"
proof (induction n arbitrary: i)
  case (Suc n)
  then obtain x where x: "R i x" "(R ^^ n) x j" unfolding relpowp_Suc_iff by blast
  show ?case
  proof (cases "x = i")
    case True
    with Suc.IH[OF x(2)] show ?thesis by (blast intro: le_SucI)
  next
    case False
    with Suc.IH[OF x(2)] x(1) show ?thesis unfolding relpowp_upto_Suc by blast
  qed
qed auto

lemma proper_rounds_bound:
  "((\<lambda>x y. R x y \<and> y \<noteq> x) ^^ n) i j \<Longrightarrow> (\<And>x y. R x y \<Longrightarrow> x \<le> (y :: nat)) \<Longrightarrow> i + n \<le> j"
proof (induction n arbitrary: i)
  case (Suc n)
  then obtain x where x: "R i x" "x \<noteq> i" "((\<lambda>x y. R x y \<and> y \<noteq> x) ^^ n) x j"
    unfolding relpowp_Suc_iff by blast
  from Suc.IH[OF x(3) Suc.prems(2)] Suc.prems(2)[OF x(1)] x(2) show ?case by simp
qed simp

lemma relpowp_weaken:
  fixes P R :: "nat \<Rightarrow> nat \<Rightarrow> bool"
  shows "(P ^^ n) i j \<Longrightarrow> (\<And>x y. P x y \<Longrightarrow> R x y) \<Longrightarrow> (R ^^ n) i j"
proof (induction n arbitrary: i)
  case (Suc n)
  from Suc.prems(1) obtain x where x: "P i x" "(P ^^ n) x j" unfolding relpowp_Suc_iff by blast
  from Suc.IH[OF x(2) Suc.prems(2)] Suc.prems(2)[OF x(1)] show ?case unfolding relpowp_Suc_iff by blast
qed simp

lemma repeat_split:
  "(\<exists>n \<ge> m. (case k of Some x \<Rightarrow> n \<le> m + x | None \<Rightarrow> True) \<and> (R ^^ n) i j)
   \<longleftrightarrow> (\<exists>x. (R ^^ m) i x \<and> (\<exists>n. (case k of Some y \<Rightarrow> n \<le> y | None \<Rightarrow> True) \<and> (R ^^ n) x j))"
proof
  assume "\<exists>n \<ge> m. (case k of Some x \<Rightarrow> n \<le> m + x | None \<Rightarrow> True) \<and> (R ^^ n) i j"
  then obtain n where n: "m \<le> n" "case k of Some x \<Rightarrow> n \<le> m + x | None \<Rightarrow> True" "(R ^^ n) i j"
    by blast
  then have "(R ^^ m OO R ^^ (n - m)) i j" by (simp flip: relpowp_add)
  then obtain x where x: "(R ^^ m) i x" "(R ^^ (n - m)) x j" by (blast elim: relcomppE)
  have "case k of Some y \<Rightarrow> n - m \<le> y | None \<Rightarrow> True" using n(2) by (simp split: option.splits)
  with x show "\<exists>x. (R ^^ m) i x \<and> (\<exists>n. (case k of Some y \<Rightarrow> n \<le> y | None \<Rightarrow> True) \<and> (R ^^ n) x j)"
    by blast
next
  assume "\<exists>x. (R ^^ m) i x \<and> (\<exists>n. (case k of Some y \<Rightarrow> n \<le> y | None \<Rightarrow> True) \<and> (R ^^ n) x j)"
  then obtain x n where n: "(R ^^ m) i x" "case k of Some y \<Rightarrow> n \<le> y | None \<Rightarrow> True" "(R ^^ n) x j"
    by blast
  then have "(R ^^ (m + n)) i j" unfolding relpowp_add by (blast intro: relcomppI)
  moreover have "case k of Some x \<Rightarrow> m + n \<le> m + x | None \<Rightarrow> True"
    using n(2) by (simp split: option.splits)
  ultimately show "\<exists>n \<ge> m. (case k of Some x \<Rightarrow> n \<le> m + x | None \<Rightarrow> True) \<and> (R ^^ n) i j"
    by (intro exI[of _ "m + n"]) simp
qed

lemma optional_rounds:
  assumes bounds: "\<And>x y. R x y \<Longrightarrow> x \<le> y \<and> y \<le> max x (L :: nat)"
  shows "(\<exists>n \<le> (case k of Some y \<Rightarrow> y | None \<Rightarrow> L - i). ((\<lambda>x y. R x y \<and> y \<noteq> x) ^^ n) i j)
    \<longleftrightarrow> (\<exists>n. (case k of Some y \<Rightarrow> n \<le> y | None \<Rightarrow> True) \<and> (R ^^ n) i j)" (is "?A \<longleftrightarrow> ?B")
proof
  assume ?A
  then obtain n where n: "n \<le> (case k of Some y \<Rightarrow> y | None \<Rightarrow> L - i)"
      "((\<lambda>x y. R x y \<and> y \<noteq> x) ^^ n) i j" by blast
  have "(R ^^ n) i j" using n(2) by (rule relpowp_weaken) simp
  with n(1) show ?B by (intro exI[of _ n]) (simp split: option.splits)
next
  assume ?B
  then obtain n where n: "case k of Some y \<Rightarrow> n \<le> y | None \<Rightarrow> True" "(R ^^ n) i j" by blast
  from proper_rounds[OF n(2)] obtain n' where
    n': "n' \<le> n" "((\<lambda>x y. R x y \<and> y \<noteq> x) ^^ n') i j" by blast
  have "i + n' \<le> j" using proper_rounds_bound[OF n'(2)] bounds by blast
  moreover have "j \<le> max i L" using relpowp_bounds[OF n(2) bounds] by blast
  ultimately have "n' \<le> L - i" by simp
  with n n' show ?A by (intro exI[of _ n']) (simp split: option.splits)
qed

lemma ends_spans: "j \<in> set (ends icase s r i) \<longleftrightarrow> spans icase s r i j"
proof (induction r arbitrary: i j)
  case (Rx_repeat r m k greedy)
  have eq: "(\<lambda>x y. y \<in> set (ends icase s r x)) = spans icase s r"
    "(\<lambda>x y. y \<in> set (ends icase s r x) \<and> y \<noteq> x) = (\<lambda>x y. spans icase s r x y \<and> y \<noteq> x)"
    by (simp_all add: Rx_repeat.IH)
  show ?case
    by (simp add: set_rounds set_more_rounds eq repeat_split Bex_def
        optional_rounds[OF spans_bounds])
qed auto

section \<open>Searching and replacing\<close>

lemma match_from_SomeD:
  assumes "match_from icase r s p = Some (i, j)"
  shows "p \<le> i" "i \<le> length s" "spans icase s r i j"
    and "\<And>i' j'. p \<le> i' \<Longrightarrow> i' < i \<Longrightarrow> \<not> spans icase s r i' j'"
proof -
  from assms obtain n where n: "n < length [p..<Suc (length s)]" "i = [p..<Suc (length s)] ! n"
      "ends icase s r i \<noteq> []" "j = hd (ends icase s r i)"
      "\<forall>n' < n. ends icase s r ([p..<Suc (length s)] ! n') = []"
    by (auto simp: match_from_def find_Some_iff simp del: upt_Suc)
  then have i: "i = p + n" by (simp del: upt_Suc)
  from n i show "p \<le> i" "i \<le> length s" by (auto simp del: upt_Suc)
  from n(3,4) have "j \<in> set (ends icase s r i)" by simp
  then show "spans icase s r i j" by (simp add: ends_spans)
  fix i' j' assume "p \<le> i'" "i' < i"
  with n(1,5) i have "ends icase s r i' = []" by (auto simp del: upt_Suc dest!: spec[of _ "i' - p"])
  then show "\<not> spans icase s r i' j'" by (simp flip: ends_spans)
qed

lemma match_from_None:
  "match_from icase r s p = None \<longleftrightarrow> (\<forall>i j. p \<le> i \<and> i \<le> length s \<longrightarrow> \<not> spans icase s r i j)"
proof -
  have "ends icase s r i = [] \<longleftrightarrow> (\<forall>j. \<not> spans icase s r i j)" for i
    using ends_spans[of _ icase s r i] by (cases "ends icase s r i") auto
  then show ?thesis by (auto simp: match_from_def find_None_iff simp del: upt_Suc)
qed

lemma next_match_progress:
  assumes "next_match icase r s (i, j) = Some (i', j')"
  shows "j \<le> i' \<and> i' \<le> j' \<and> j' \<le> length s \<and> (i' < j' \<or> i < j \<or> j < i')
    \<and> spans icase s r i' j'"
proof -
  have from_bounds: "p \<le> i' \<and> i' \<le> j' \<and> j' \<le> length s \<and> spans icase s r i' j'"
    if "match_from icase r s p = Some (i', j')" for p
    using match_from_SomeD[OF that] spans_bounds[of icase s r i' j'] by auto
  show ?thesis
  proof (cases "i < j \<or> length s \<le> j")
    case True
    with assms from_bounds show ?thesis by (auto simp: next_match_def split: if_splits)
  next
    case False
    show ?thesis
    proof (cases "filter (\<lambda>k. k \<noteq> j) (ends icase s r j)")
      case Nil
      with assms from_bounds[of "Suc j"] False show ?thesis by (auto simp: next_match_def)
    next
      case (Cons k ks)
      then have "k \<in> set (filter (\<lambda>k. k \<noteq> j) (ends icase s r j))" by simp
      then have "k \<in> set (ends icase s r j)" "k \<noteq> j" by simp_all
      with Cons assms False spans_bounds[of icase s r j k] show ?thesis
        by (auto simp: next_match_def ends_spans)
    qed
  qed
qed

text \<open>\<open>std::regex_iterator\<close>: all matches from the first one on.\<close>

function match_list :: "bool \<Rightarrow> regex \<Rightarrow> string \<Rightarrow> (nat \<times> nat) option \<Rightarrow> (nat \<times> nat) list" where
  "match_list icase r s None = []"
| "match_list icase r s (Some m) = m # match_list icase r s (next_match icase r s m)"
  by pat_completeness auto

termination
proof (relation "measure (\<lambda>(icase, r, s, m). case m of None \<Rightarrow> 0
    | Some (i, j) \<Rightarrow> Suc (2 * (Suc (length s) - j) + (if i < j then 1 else 0)))")
  fix icase r s and m :: "nat \<times> nat"
  obtain i j where m: "m = (i, j)" by fastforce
  show "((icase, r, s, next_match icase r s m), (icase, r, s, Some m))
      \<in> measure (\<lambda>(icase, r, s, m). case m of None \<Rightarrow> 0
          | Some (i, j) \<Rightarrow> Suc (2 * (Suc (length s) - j) + (if i < j then 1 else 0)))"
  proof (cases "next_match icase r s m")
    case (Some m')
    obtain i' j' where "m' = (i', j')" by fastforce
    with next_match_progress[of icase r s i j i' j'] Some m show ?thesis by auto
  qed (simp add: m)
qed simp

fun splice_matches :: "string \<Rightarrow> string \<Rightarrow> nat \<Rightarrow> (nat \<times> nat) list \<Rightarrow> string" where
  "splice_matches fmt s p [] = drop p s"
| "splice_matches fmt s p ((i, j) # ms) = substr s p (i - p) @ fmt @ splice_matches fmt s j ms"

definition regex_search :: "bool \<Rightarrow> regex \<Rightarrow> string \<Rightarrow> bool" where
  "regex_search icase r s \<longleftrightarrow> match_from icase r s 0 \<noteq> None"

text \<open>The format has no \<open>$\<close>.\<close>

definition regex_replace :: "bool \<Rightarrow> regex \<Rightarrow> string \<Rightarrow> string \<Rightarrow> string" where
  "regex_replace icase r s fmt = splice_matches fmt s 0 (match_list icase r s (match_from icase r s 0))"

lemma regex_search_iff: "regex_search icase r s \<longleftrightarrow> (\<exists>i j. i \<le> length s \<and> spans icase s r i j)"
  by (auto simp: regex_search_def match_from_None)

section \<open>What a match depends on\<close>

text \<open>On its text, and with a word boundary also on the characters next to it.\<close>

fun uses_boundary :: "regex \<Rightarrow> bool" where
  "uses_boundary (Rx_boundary complement) = True"
| "uses_boundary (Rx_seq r r') = (uses_boundary r \<or> uses_boundary r')"
| "uses_boundary (Rx_alt r r') = (uses_boundary r \<or> uses_boundary r')"
| "uses_boundary (Rx_repeat r m k greedy) = uses_boundary r"
| "uses_boundary _ = False"

definition same_text :: "string \<Rightarrow> nat \<Rightarrow> string \<Rightarrow> nat \<Rightarrow> nat \<Rightarrow> bool" where
  "same_text s i s' i' n \<longleftrightarrow>
     i + n \<le> length s \<and> i' + n \<le> length s' \<and> (\<forall>x < n. s' ! (i' + x) = s ! (i + x))"

definition same_context :: "string \<Rightarrow> nat \<Rightarrow> string \<Rightarrow> nat \<Rightarrow> nat \<Rightarrow> bool" where
  "same_context s i s' i' n \<longleftrightarrow>
     (0 < i \<and> word_at s (i - 1)) = (0 < i' \<and> word_at s' (i' - 1))
     \<and> word_at s (i + n) = word_at s' (i' + n)"

lemma same_text_word: "same_text s i s' i' n \<Longrightarrow> x < n \<Longrightarrow> word_at s' (i' + x) = word_at s (i + x)"
  by (auto simp: same_text_def word_at_def)

lemma boundary_local:
  assumes "same_text s i s' i' n" and "same_context s i s' i' n" and "x \<le> n"
  shows "at_boundary s' (i' + x) = at_boundary s (i + x)"
proof -
  have "word_at s' (i' + x) = word_at s (i + x)"
    using assms by (cases "x = n") (auto simp: same_text_word same_context_def)
  moreover have "(0 < i' + x \<and> word_at s' (i' + x - 1)) = (0 < i + x \<and> word_at s (i + x - 1))"
    using assms(2,3) same_text_word[OF assms(1), of "x - 1"] by (cases x) (auto simp: same_context_def)
  ultimately show ?thesis by (simp add: at_boundary_def)
qed

lemma relpowp_local:
  assumes "\<And>x y. R (i + x) (i + y) \<Longrightarrow> y \<le> N \<Longrightarrow> R' (i' + x) (i' + y)"
    and "\<And>x y. R x y \<Longrightarrow> x \<le> (y :: nat)"
  shows "(R ^^ n) (i + x) (i + y) \<Longrightarrow> y \<le> N \<Longrightarrow> (R' ^^ n) (i' + x) (i' + y)"
proof (induction n arbitrary: x)
  case (Suc n)
  then obtain k where k: "R (i + x) k" "(R ^^ n) k (i + y)" unfolding relpowp_Suc_iff by blast
  have mono: "(R ^^ n) a b \<Longrightarrow> a \<le> b" for a b
    by (induction n arbitrary: a) (simp, metis assms(2) le_trans relpowp_Suc_iff)
  obtain z where z: "k = i + z" "z \<le> y"
    using assms(2)[OF k(1)] mono[OF k(2)] by (metis le_add1 le_trans less_eqE nat_add_left_cancel_le)
  then have "R' (i' + x) (i' + z)" "(R' ^^ n) (i' + z) (i' + y)"
    using assms(1) k Suc.IH Suc.prems(2) by auto
  then show ?case unfolding relpowp_Suc_iff by blast
qed simp

lemma spans_local:
  assumes "same_text s i s' i' n" and "uses_boundary r \<longrightarrow> same_context s i s' i' n"
  shows "spans icase s r (i + x) (i + y) \<Longrightarrow> y \<le> n \<Longrightarrow> spans icase s' r (i' + x) (i' + y)"
  using assms(2)
proof (induction r arbitrary: x y)
  case (Rx_class complement rs)
  with assms(1) show ?case by (auto simp: same_text_def)
next
  case (Rx_boundary complement)
  with boundary_local[OF assms(1)] show ?case by auto
next
  case (Rx_seq r r')
  then obtain k where k: "spans icase s r (i + x) k" "spans icase s r' k (i + y)" by auto
  then obtain z where "k = i + z" "z \<le> y"
    by (metis spans_bounds le_add1 le_trans less_eqE nat_add_left_cancel_le)
  with k Rx_seq.IH Rx_seq.prems show ?case by (auto intro!: exI[of _ "i' + z"])
next
  case (Rx_repeat r m k greedy)
  then obtain c where c: "m \<le> c" "case k of Some x \<Rightarrow> c \<le> m + x | None \<Rightarrow> True"
      "(spans icase s r ^^ c) (i + x) (i + y)" by auto
  have "(spans icase s' r ^^ c) (i' + x) (i' + y)"
    by (rule relpowp_local[OF _ _ c(3) Rx_repeat.prems(2)])
      (use Rx_repeat.IH Rx_repeat.prems(3) spans_bounds in auto)
  with c(1,2) show ?case by auto
qed auto

section \<open>Replacing leaves no match\<close>

text \<open>
  A piece of the text that the iterator has gone over, between two replacements or at an end, as
  it stands in the result.
\<close>

definition kept :: "regex \<Rightarrow> string \<Rightarrow> nat \<Rightarrow> string \<Rightarrow> string \<Rightarrow> string \<Rightarrow> bool" where
  "kept r s p seg a b \<longleftrightarrow>
     p + length seg \<le> length s \<and> seg = substr s p (length seg)
     \<and> (p = 0 \<and> a = [] \<or> a \<noteq> [] \<and> last a = CHR ''*'' \<and> (uses_boundary r \<longrightarrow> at_boundary s p))
     \<and> (p + length seg = length s \<and> b = []
        \<or> b \<noteq> [] \<and> hd b = CHR ''*''
          \<and> (uses_boundary r \<longrightarrow> at_boundary s (p + length seg) \<and> word_at s (p + length seg)))"

text \<open>
  The contract of a pattern whose matches disappear when each is replaced by \<open>***\<close>: a match is not
  empty and has no star, and a pattern that looks at the characters around a match starts and ends
  at a word boundary, with a word character first.
\<close>

locale vanishing_pattern =
  fixes icase :: bool and r :: regex
  assumes nonempty: "spans icase s r i j \<Longrightarrow> i < j"
    and no_star: "spans icase s r i j \<Longrightarrow> i \<le> x \<Longrightarrow> x < j \<Longrightarrow> s ! x \<noteq> CHR ''*''"
    and framed: "uses_boundary r \<Longrightarrow> spans icase s r i j \<Longrightarrow>
      at_boundary s i \<and> at_boundary s j \<and> word_at s i"
begin

lemma not_word_star: "\<not> is_word (CHR ''*'')"
  by (simp add: is_word_def is_digit_def char_code_def)

lemma kept_text:
  assumes "kept r s p seg a b"
  shows "same_text (a @ seg @ b) (length a) s p (length seg)"
proof -
  have seg: "seg = substr s p (length seg)" and len: "p + length seg \<le> length s"
    using assms by (simp_all add: kept_def)
  have "s ! (p + x) = (a @ seg @ b) ! (length a + x)" if "x < length seg" for x
    using that len by (simp add: nth_append) (subst seg, simp add: substr_def)
  with len show ?thesis by (simp add: same_text_def)
qed

lemma kept_context:
  assumes k: "kept r s p seg a b" and u: "uses_boundary r" and xy: "x < y" "y \<le> length seg"
    and b: "at_boundary (a @ seg @ b) (length a + x)" "at_boundary (a @ seg @ b) (length a + y)"
      "word_at (a @ seg @ b) (length a + x)"
  shows "same_context (a @ seg @ b) (length a + x) s (p + x) (y - x)"
proof -
  let ?o = "a @ seg @ b"
  note same = same_text_word[OF kept_text[OF k]]
  have "(0 < length a + x \<and> word_at ?o (length a + x - 1)) = (0 < p + x \<and> word_at s (p + x - 1))"
  proof (cases x)
    case 0
    have "\<not> (0 < length a \<and> word_at ?o (length a - 1))"
      using k not_word_star by (auto simp: kept_def word_at_def nth_append last_conv_nth)
    moreover have "word_at s p" using same[of 0] b(3) 0 xy by (cases seg) auto
    then have "\<not> (0 < p \<and> word_at s (p - 1))"
      using k u by (auto simp: kept_def at_boundary_def)
    ultimately show ?thesis using 0 by auto
  next
    case (Suc x')
    with same[of x'] xy show ?thesis by simp
  qed
  moreover have "word_at ?o (length a + y) = word_at s (p + y)"
  proof (cases "y < length seg")
    case True
    with same show ?thesis by simp
  next
    case False
    then have y: "y = length seg" using xy by simp
    have o: "\<not> word_at ?o (length a + y)"
      using k not_word_star by (auto simp: y kept_def word_at_def nth_append hd_conv_nth)
    with b(2) have "word_at ?o (length a + (y - 1))" using xy by (auto simp: at_boundary_def)
    then have "word_at s (p + (y - 1))" using same[of "y - 1"] xy y by simp
    then have "\<not> (at_boundary s (p + y) \<and> word_at s (p + y))" using xy by (auto simp: at_boundary_def)
    with k u have "\<not> word_at s (p + y)" by (auto simp: y kept_def word_at_def)
    with o show ?thesis by simp
  qed
  ultimately show ?thesis using xy by (simp add: same_context_def)
qed

lemma kept_match:
  assumes k: "kept r s p seg a b" and xy: "y \<le> length seg"
    and sp: "spans icase (a @ seg @ b) r (length a + x) (length a + y)"
  shows "spans icase s r (p + x) (p + y)"
proof -
  let ?o = "a @ seg @ b"
  have x: "x < y" using nonempty[OF sp] by simp
  have "same_text ?o (length a + x) s (p + x) (y - x)"
    using kept_text[OF k] x xy by (auto simp: same_text_def add.assoc)
  moreover have "uses_boundary r \<longrightarrow> same_context ?o (length a + x) s (p + x) (y - x)"
    using kept_context[OF k _ x xy] framed sp by blast
  ultimately show ?thesis
    using spans_local[of ?o "length a + x" s "p + x" "y - x" r icase 0 "y - x"] sp x by simp
qed

text \<open>A match in the result that starts in a kept piece lies in it.\<close>

lemma kept_within:
  assumes k: "kept r s p seg a b" and i: "length a \<le> i" "i < length a + length seg"
    and sp: "spans icase (a @ seg @ b) r i j"
  shows "j \<le> length a + length seg"
proof (rule ccontr)
  assume j: "\<not> j \<le> length a + length seg"
  have "j \<le> length (a @ seg @ b)" using spans_bounds[OF sp] i by simp
  with j have "b \<noteq> []" by auto
  with k have "(a @ seg @ b) ! (length a + length seg) = CHR ''*''"
    by (auto simp: kept_def nth_append hd_conv_nth)
  with no_star[OF sp, of "length a + length seg"] i j show False by simp
qed

lemma kept_no_match:
  assumes k: "kept r s p seg a b" and i: "length a \<le> i" "i < length a + length seg"
    and none: "\<And>x y. p \<le> x \<Longrightarrow> x < p + length seg \<Longrightarrow> \<not> spans icase s r x y"
  shows "\<not> spans icase (a @ seg @ b) r i j"
proof
  assume sp: "spans icase (a @ seg @ b) r i j"
  obtain x where x: "i = length a + x" using i by (auto simp: le_iff_add)
  obtain y where y: "j = length a + y"
    using i nonempty[OF sp] by (metis le_iff_add less_imp_le order_trans)
  have "y \<le> length seg" using kept_within[OF k i sp] y by simp
  from kept_match[OF k this] sp x y have "spans icase s r (p + x) (p + y)" by simp
  with none[of "p + x"] i x show False by auto
qed

lemma next_is_from: "spans icase s r i j \<Longrightarrow> next_match icase r s (i, j) = match_from icase r s j"
  using nonempty by (simp add: next_match_def)

text \<open>After the last match the rest of the string is kept.\<close>

lemma clean_without_match:
  assumes "p \<le> length s" and "p = 0 \<and> a = [] \<or> a \<noteq> [] \<and> last a = CHR ''*'' \<and> (uses_boundary r \<longrightarrow> at_boundary s p)"
    and "length a \<le> i" and none: "match_from icase r s p = None"
  shows "\<not> spans icase (a @ drop p s) r i j"
proof (cases "i < length a + length (drop p s)")
  case True
  have k: "kept r s p (drop p s) a []" using assms(1-3) by (auto simp: kept_def substr_def)
  have "\<not> spans icase s r x y" if "p \<le> x" "x < p + length (drop p s)" for x y
    using none that by (auto simp: match_from_None)
  from kept_no_match[OF k assms(3) True this] show ?thesis by simp
next
  case False
  then show ?thesis
    using spans_bounds[of icase "a @ drop p s" r i j] nonempty[of "a @ drop p s" i j] by auto
qed

text \<open>No match begins in the stars that replace one.\<close>

lemma clean_in_stars:
  assumes "length a \<le> i" and "i < length (a @ ''***'')"
  shows "\<not> spans icase (a @ ''***'' @ b) r i j"
proof -
  define d where "d = i - length a"
  have d: "d < 3" "i = length a + d" using assms by (auto simp: d_def)
  have "(''***'' @ b) ! d = CHR ''*''"
    using d(1) by (auto simp: nth_append less_Suc_eq numeral_3_eq_3)
  then have "(a @ ''***'' @ b) ! i = CHR ''*''" by (simp only: d(2) nth_append_length_plus)
  with no_star[of "a @ ''***'' @ b" i j i] nonempty show ?thesis by fastforce
qed

lemma splice_clean:
  assumes "p \<le> length s" and "p = 0 \<and> a = [] \<or> a \<noteq> [] \<and> last a = CHR ''*'' \<and> (uses_boundary r \<longrightarrow> at_boundary s p)"
    and "length a \<le> i"
  shows "\<not> spans icase (a @ splice_matches ''***'' s p (match_list icase r s (match_from icase r s p))) r i j"
  using assms
proof (induction "length s - p" arbitrary: p a i j rule: less_induct)
  case less
  show ?case
  proof (cases "match_from icase r s p")
    case None
    with clean_without_match[OF less.prems None, of j] show ?thesis by simp
  next
    case (Some m)
    then obtain x y where m: "match_from icase r s p = Some (x, y)" by (cases m) auto
    note first = match_from_SomeD[OF m]
    have y: "x < y" "y \<le> length s" using nonempty[OF first(3)] spans_bounds[OF first(3)] first(2) by auto
    let ?seg = "substr s p (x - p)"
    let ?rest = "splice_matches ''***'' s y (match_list icase r s (match_from icase r s y))"
    have len: "length ?seg = x - p" using first(1,2) by (simp add: substr_def)
    have out: "splice_matches ''***'' s p (match_list icase r s (match_from icase r s p)) = ?seg @ ''***'' @ ?rest"
      using m next_is_from[OF first(3)] by simp
    have frame: "uses_boundary r \<longrightarrow> at_boundary s x \<and> at_boundary s y \<and> word_at s x"
      using framed[OF _ first(3)] by blast
    have k: "kept r s p ?seg a (''***'' @ ?rest)"
      using less.prems first(1,2) frame len by (auto simp: kept_def)
    consider "i < length a + length ?seg" | "length a + length ?seg \<le> i" "i < length (a @ ?seg @ ''***'')"
      | "length (a @ ?seg @ ''***'') \<le> i" by fastforce
    then show ?thesis
    proof cases
      case 1
      have "\<not> spans icase s r x' y'" if "p \<le> x'" "x' < p + length ?seg" for x' y'
        using first(4)[of x' y'] that len by simp
      from kept_no_match[OF k less.prems(3) 1 this] out show ?thesis by simp
    next
      case 2
      with clean_in_stars[of "a @ ?seg" i ?rest j] out show ?thesis by simp
    next
      case 3
      have "length s - y < length s - p" using y first(1) by simp
      from less.hyps[OF this y(2) _ 3] frame out show ?thesis by simp
    qed
  qed
qed

lemma replaced_has_no_match: "\<not> regex_search icase r (regex_replace icase r s ''***'')"
  using splice_clean[of 0 s "[]"] by (simp add: regex_search_iff regex_replace_def)

lemma replaced_iff_match: "regex_replace icase r s ''***'' \<noteq> s \<longleftrightarrow> regex_search icase r s"
proof
  assume "regex_replace icase r s ''***'' \<noteq> s"
  then show "regex_search icase r s"
    by (cases "match_from icase r s 0") (auto simp: regex_search_def regex_replace_def)
next
  assume "regex_search icase r s"
  with replaced_has_no_match[of s] show "regex_replace icase r s ''***'' \<noteq> s" by metis
qed

end

subsection \<open>Checking the contract on the tree\<close>

fun consumes :: "regex \<Rightarrow> bool" where
  "consumes (Rx_class complement rs) = True"
| "consumes (Rx_seq r r') = (consumes r \<or> consumes r')"
| "consumes (Rx_alt r r') = (consumes r \<and> consumes r')"
| "consumes (Rx_repeat r m k greedy) = (0 < m \<and> consumes r)"
| "consumes _ = False"

fun avoids :: "char \<Rightarrow> bool \<Rightarrow> regex \<Rightarrow> bool" where
  "avoids c icase (Rx_class complement rs) = (\<not> class_matches icase complement rs c)"
| "avoids c icase (Rx_seq r r') = (avoids c icase r \<and> avoids c icase r')"
| "avoids c icase (Rx_alt r r') = (avoids c icase r \<and> avoids c icase r')"
| "avoids c icase (Rx_repeat r m k greedy) = avoids c icase r"
| "avoids c icase _ = True"

definition word_range :: "char \<Rightarrow> char \<Rightarrow> bool" where
  "word_range lo hi \<longleftrightarrow>
     48 \<le> char_code lo \<and> char_code hi \<le> 57 \<or> 65 \<le> char_code lo \<and> char_code hi \<le> 90
     \<or> 97 \<le> char_code lo \<and> char_code hi \<le> 122"

fun starts_word :: "regex \<Rightarrow> bool" where
  "starts_word (Rx_class complement rs) = (\<not> complement \<and> list_all (\<lambda>(lo, hi). word_range lo hi) rs)"
| "starts_word (Rx_seq (Rx_boundary complement) r) = starts_word r"
| "starts_word (Rx_seq r r') = (starts_word r \<and> consumes r)"
| "starts_word (Rx_repeat r m k greedy) = (0 < m \<and> starts_word r \<and> consumes r)"
| "starts_word _ = False"

fun opens_at_boundary :: "regex \<Rightarrow> bool" where
  "opens_at_boundary (Rx_boundary complement) = (\<not> complement)"
| "opens_at_boundary (Rx_seq r r') = opens_at_boundary r"
| "opens_at_boundary _ = False"

fun closes_at_boundary :: "regex \<Rightarrow> bool" where
  "closes_at_boundary (Rx_boundary complement) = (\<not> complement)"
| "closes_at_boundary (Rx_seq r Rx_empty) = closes_at_boundary r"
| "closes_at_boundary (Rx_seq r r') = closes_at_boundary r'"
| "closes_at_boundary _ = False"

definition vanishes :: "regex \<Rightarrow> bool" where
  "vanishes r \<longleftrightarrow> consumes r \<and> avoids (CHR ''*'') False r
     \<and> (uses_boundary r \<longrightarrow> opens_at_boundary r \<and> closes_at_boundary r \<and> starts_word r)"

lemma consumes_spans: "consumes r \<Longrightarrow> spans icase s r i j \<Longrightarrow> i < j"
proof (induction r arbitrary: i j)
  case (Rx_seq r r')
  then obtain k where k: "spans icase s r i k" "spans icase s r' k j" by auto
  from k[THEN spans_bounds] Rx_seq.IH(1)[OF _ k(1)] Rx_seq.IH(2)[OF _ k(2)] Rx_seq.prems(1)
  show ?case by auto
next
  case (Rx_repeat r m k greedy)
  then obtain n x where "(spans icase s r ^^ Suc n) i j"
    by simp (metis Suc_diff_1 less_le_trans)
  then obtain x where x: "spans icase s r i x" "(spans icase s r ^^ n) x j"
    unfolding relpowp_Suc_iff by blast
  have "x \<le> j" using relpowp_bounds[OF x(2) spans_bounds] by simp
  with Rx_repeat.IH[OF _ x(1)] Rx_repeat.prems(1) show ?case by simp
qed auto

lemma avoids_spans:
  "avoids c icase r \<Longrightarrow> spans icase s r i j \<Longrightarrow> i \<le> x \<Longrightarrow> x < j \<Longrightarrow> s ! x \<noteq> c"
proof (induction r arbitrary: i j)
  case (Rx_class complement rs)
  then have "x = i" by simp
  with Rx_class show ?case by auto
next
  case (Rx_seq r r')
  then obtain k where k: "spans icase s r i k" "spans icase s r' k j" by auto
  with Rx_seq show ?case by (cases "x < k") auto
next
  case (Rx_repeat r m k greedy)
  then obtain n where "(spans icase s r ^^ n) i j" by auto
  then show ?case using Rx_repeat.prems(3)
  proof (induction n arbitrary: i)
    case (Suc n)
    then obtain y where "spans icase s r i y" "(spans icase s r ^^ n) y j"
      unfolding relpowp_Suc_iff by blast
    with Suc.IH[of y] Suc.prems(2) Rx_repeat.IH[of i y] Rx_repeat.prems(1,4) show ?case
      by (cases "x < y") auto
  qed (use Rx_repeat.prems(4) in simp)
qed auto

lemma word_range_is_word:
  "word_range lo hi \<Longrightarrow> char_code lo \<le> char_code c \<Longrightarrow> char_code c \<le> char_code hi \<Longrightarrow> is_word c"
  by (auto simp: word_range_def is_word_def is_digit_def)

lemma starts_word_spans: "starts_word r \<Longrightarrow> spans False s r i j \<Longrightarrow> word_at s i"
proof (induction r arbitrary: i j rule: starts_word.induct)
  case (1 complement rs)
  then show ?case
    by (auto simp: word_at_def class_matches_def list_ex_iff list_all_iff intro: word_range_is_word)
next
  case (4 r m k greedy)
  then obtain n where "(spans False s r ^^ Suc n) i j"
    by simp (metis Suc_diff_1 less_le_trans)
  with 4 show ?case unfolding relpowp_Suc_iff by auto
qed auto

lemma opens_at_boundary_spans: "opens_at_boundary r \<Longrightarrow> spans icase s r i j \<Longrightarrow> at_boundary s i"
  by (induction r arbitrary: i j rule: opens_at_boundary.induct) auto

lemma closes_at_boundary_spans: "closes_at_boundary r \<Longrightarrow> spans icase s r i j \<Longrightarrow> at_boundary s j"
  by (induction r arbitrary: i j rule: closes_at_boundary.induct) fastforce+

lemma vanishes_pattern:
  assumes "vanishes r"
  shows "vanishing_pattern False r"
  using assms
  by unfold_locales
    (auto simp: vanishes_def intro: consumes_spans starts_word_spans
      opens_at_boundary_spans closes_at_boundary_spans dest: avoids_spans)

end
