(* ===== verification/Pii_Redaction.thy ===== *)
theory Pii_Redaction
  imports Std_Regex Logger
begin

text \<open>
  The presets for personal data of \<open>src/logger.cpp\<close> under the regular expressions of \<open>Std_Regex\<close>:
  the four patterns are parsed, meet the contract \<open>vanishing_pattern\<close>, and so a message that has
  been redacted with a preset holds nothing that looks like an address of the kind.
\<close>

definition std_regex :: "(bool \<times> regex) regex_lib" where
  "std_regex =
     \<lparr>rx_compile = (\<lambda>icase pat. map_option (Pair icase) (parse_regex pat)),
      rx_search = (\<lambda>s (icase, r). regex_search icase r s),
      rx_replace = (\<lambda>s (icase, r) fmt. regex_replace icase r s fmt)\<rparr>"

lemma std_regex_simps [simp]:
  "rx_compile std_regex icase pat = map_option (Pair icase) (parse_regex pat)"
  "rx_search std_regex s (icase, r) = regex_search icase r s"
  "rx_replace std_regex s (icase, r) fmt = regex_replace icase r s fmt"
  by (simp_all add: std_regex_def)

text \<open>The tree of the pattern of a preset.\<close>

definition preset_tree :: "string \<Rightarrow> regex option" where
  "preset_tree preset = Option.bind (preset_pattern preset) parse_regex"

definition ssn_tree :: regex where
  "ssn_tree = the (preset_tree ''ssn'')"

definition credit_card_tree :: regex where
  "credit_card_tree = the (preset_tree ''credit_card'')"

definition ipv4_tree :: regex where
  "ipv4_tree = the (preset_tree ''ipv4'')"

definition email_tree :: regex where
  "email_tree = the (preset_tree ''email'')"

lemma ssn_vanishes: "preset_tree ''ssn'' = Some ssn_tree \<and> vanishes ssn_tree"
  by code_simp

lemma credit_card_vanishes: "preset_tree ''credit_card'' = Some credit_card_tree \<and> vanishes credit_card_tree"
  by code_simp

lemma ipv4_vanishes: "preset_tree ''ipv4'' = Some ipv4_tree \<and> vanishes ipv4_tree"
  by code_simp

lemma email_vanishes: "preset_tree ''email'' = Some email_tree \<and> vanishes email_tree"
  by code_simp

interpretation ssn: vanishing_pattern False ssn_tree
  by (rule vanishes_pattern) (simp add: ssn_vanishes)

interpretation credit_card: vanishing_pattern False credit_card_tree
  by (rule vanishes_pattern) (simp add: credit_card_vanishes)

interpretation ipv4: vanishing_pattern False ipv4_tree
  by (rule vanishes_pattern) (simp add: ipv4_vanishes)

interpretation email: vanishing_pattern False email_tree
  by (rule vanishes_pattern) (simp add: email_vanishes)

text \<open>Preset names in any case; the trees are all there is.\<close>

lemma preset_pattern_case:
  assumes "map to_lower p = map to_lower q"
  shows "preset_pattern p = preset_pattern q"
  unfolding preset_pattern_def assms by (rule refl)

lemma preset_cases:
  assumes "preset_pattern p = Some pat"
  obtains r where "parse_regex pat = Some r" and "r \<in> {ssn_tree, credit_card_tree, ipv4_tree, email_tree}"
proof -
  have "map to_lower (map to_lower p) = map to_lower p" by (simp add: comp_def to_lower_idem)
  then have tree: "preset_tree (map to_lower p) = parse_regex pat"
    using assms preset_pattern_case[of "map to_lower p" p] by (simp add: preset_tree_def)
  from assms have "map to_lower p = ''ssn'' \<or> map to_lower p = ''credit_card''
      \<or> map to_lower p = ''ipv4'' \<or> map to_lower p = ''email''"
    unfolding preset_pattern_def Let_def by (metis option.distinct(1))
  then show thesis
    using that tree ssn_vanishes credit_card_vanishes ipv4_vanishes email_vanishes by (metis insertI1 insertI2)
qed

lemma preset_replaced:
  assumes "r \<in> {ssn_tree, credit_card_tree, ipv4_tree, email_tree}"
  shows "\<not> regex_search False r (regex_replace False r s ''***'')"
    and "regex_replace False r s ''***'' \<noteq> s \<longleftrightarrow> regex_search False r s"
  using assms ssn.replaced_has_no_match credit_card.replaced_has_no_match
    ipv4.replaced_has_no_match email.replaced_has_no_match ssn.replaced_iff_match
    credit_card.replaced_iff_match ipv4.replaced_iff_match email.replaced_iff_match
  by blast+

text \<open>The last pattern of the list is the last to replace.\<close>

lemma last_preset_redacts:
  assumes "preset_pattern p = Some pat" and "parse_regex pat = Some r"
    and "apply_redaction std_regex subs rxs (ps @ [p]) msg = Some (out, changed)"
  obtains m where "out = regex_replace False r m ''***''"
    and "subs = [] \<and> rxs = [] \<and> ps = [] \<longrightarrow> m = msg" and "changed \<longleftrightarrow> out \<noteq> msg"
proof -
  have "compile_patterns std_regex (List.map_filter preset_pattern (ps @ [p]))
      = compile_patterns std_regex (List.map_filter preset_pattern ps) @ [(False, r)]"
    using assms(1,2) by (simp add: compile_patterns_def List.map_filter_def)
  moreover obtain m0 where m0: "out = foldl (\<lambda>m re. rx_replace std_regex m re ''***'') m0
        (compile_patterns std_regex rxs @ compile_patterns std_regex (List.map_filter preset_pattern (ps @ [p])))"
      "subs = [] \<longrightarrow> m0 = msg" "changed \<longleftrightarrow> out \<noteq> msg"
    using assms(3) by (auto simp: apply_redaction_def Let_def split: option.splits if_splits)
  ultimately have "out = regex_replace False r (foldl (\<lambda>m re. rx_replace std_regex m re ''***'') m0
      (compile_patterns std_regex rxs @ compile_patterns std_regex (List.map_filter preset_pattern ps))) ''***''"
    by simp
  moreover have "subs = [] \<and> rxs = [] \<and> ps = [] \<longrightarrow> foldl (\<lambda>m re. rx_replace std_regex m re ''***'') m0
      (compile_patterns std_regex rxs @ compile_patterns std_regex (List.map_filter preset_pattern ps)) = msg"
    using m0(2) by (simp add: compile_patterns_def List.map_filter_simps)
  ultimately show thesis using that m0(3) by blast
qed

text \<open>
  C5. After redaction with the presets \<open>... , p\<close>, whatever the other patterns are, no match of the
  pattern of \<open>p\<close> is left in the message; and with \<open>p\<close> alone the message is changed exactly if it
  had a match.
\<close>

theorem pii_preset_complete:
  assumes "preset_pattern p = Some pat"
    and "apply_redaction std_regex subs rxs (ps @ [p]) msg = Some (out, changed)"
  shows "\<exists>re. rx_compile std_regex False pat = Some re \<and> \<not> rx_search std_regex out re
    \<and> (subs = [] \<and> rxs = [] \<and> ps = [] \<longrightarrow> changed = rx_search std_regex msg re)"
proof -
  from assms(1) obtain r where r: "parse_regex pat = Some r"
      "r \<in> {ssn_tree, credit_card_tree, ipv4_tree, email_tree}" by (rule preset_cases)
  from assms(1) r(1) assms(2) obtain m where "out = regex_replace False r m ''***''"
      "subs = [] \<and> rxs = [] \<and> ps = [] \<longrightarrow> m = msg" "changed \<longleftrightarrow> out \<noteq> msg"
    by (rule last_preset_redacts)
  with r preset_replaced[OF r(2)] show ?thesis by auto
qed

theorem pii_preset_complete_witness:
  "apply_redaction std_regex [] [] [''SSN''] ''id 123-45-6789.'' = Some (''id ***.'', True)
   \<and> \<not> rx_search std_regex ''id ***.'' (False, ssn_tree)"
proof -
  have out: "apply_redaction std_regex [] [] ([] @ [''SSN'']) ''id 123-45-6789.'' = Some (''id ***.'', True)"
    by code_simp
  have pat: "preset_pattern ''SSN'' = preset_pattern ''ssn''"
    by (rule preset_pattern_case) code_simp
  obtain p where p: "preset_pattern ''ssn'' = Some p" "parse_regex p = Some ssn_tree"
    using ssn_vanishes by (auto simp: preset_tree_def bind_eq_Some_conv)
  from pii_preset_complete[OF _ out, of p] pat p out show ?thesis by simp
qed

section \<open>What the sinks are given\<close>

lemma check_keeps_redaction:
  assumes "check_temporary_level_expiry clk (lg, w) = (lg1, w1)"
  shows "lg_redact_pii_presets lg1 = lg_redact_pii_presets lg"
    and "lg_redact_cloud_only lg1 = lg_redact_cloud_only lg"
  using assms
  by (auto simp: check_temporary_level_expiry_def revert_level_def record_level_change_def Let_def
      split: if_splits)

text \<open>Without the restriction to cloud sinks every sink is given the redacted message.\<close>

lemma sinks_loop_redacted:
  assumes "\<And>q w. Q w \<Longrightarrow> Q (so_log so q nm l redacted w)" and "has_redaction \<or> redacted = message"
  shows "Q w \<Longrightarrow> Q (sinks_loop so nm l message redacted has_redaction False ov i es w)"
proof (induction es arbitrary: i w)
  case (Cons e es)
  have "Q (so_log so q nm l (if has_redaction then redacted else message) w)" for q
    using assms Cons.prems by auto
  with Cons show ?case by (auto simp: Let_def split: option.splits)
qed simp

lemma apply_redaction_unchanged:
  "apply_redaction rx subs rxs ps msg = Some (out, changed) \<Longrightarrow> changed \<or> out = msg"
  by (auto simp: apply_redaction_def Let_def split: option.splits if_splits)

text \<open>
  C2. A logger whose last preset is \<open>p\<close>, and that redacts for all sinks, gives no sink a message in
  which the pattern of \<open>p\<close> has a match: whatever holds of the world after the expiry check of the
  temporary level and is kept by logging messages without a match to the sinks, holds after \<open>log\<close>.
\<close>

theorem log_hides_pii:
  assumes "preset_pattern p = Some pat" and "rx_compile std_regex False pat = Some re"
    and "lg_redact_pii_presets lg = ps @ [p]" and "\<not> lg_redact_cloud_only lg"
    and "\<And>q nm l m w. Q w \<Longrightarrow> \<not> rx_search std_regex m re \<Longrightarrow> Q (so_log so q nm l m w)"
    and "Q (snd (check_temporary_level_expiry clk (lg, w)))"
    and "Logger.log std_regex so clk ctx l msg (lg, h, w) = Some (lg', h', w')"
  shows "Q w'"
proof -
  obtain lg1 w1 where c: "check_temporary_level_expiry clk (lg, w) = (lg1, w1)" by fastforce
  have lg1: "lg_redact_pii_presets lg1 = ps @ [p]" "\<not> lg_redact_cloud_only lg1"
    using check_keeps_redaction[OF c] assms(3,4) by simp_all
  have w1: "Q w1" using assms(6) c by simp
  from assms(7) c consider "w' = w1"
    | out changed where "apply_redaction std_regex (lg_redact_patterns lg1)
          (lg_redact_regex_patterns lg1) (ps @ [p]) msg = Some (out, changed)"
        "w' = sinks_loop so (lg_name lg1) l msg out changed False (lg_overrides lg1) 0
                (lg_sink_entries lg1) w1"
    using lg1 by (auto simp: Logger.log_def Let_def split: option.splits bool.splits if_splits)
  then show ?thesis
  proof cases
    case 1
    with w1 show ?thesis by simp
  next
    case 2
    from assms(1) obtain r where r: "parse_regex pat = Some r"
        "r \<in> {ssn_tree, credit_card_tree, ipv4_tree, email_tree}" by (rule preset_cases)
    from assms(1) r(1) 2(1) obtain m where "out = regex_replace False r m ''***''"
      by (rule last_preset_redacts)
    then have "\<not> rx_search std_regex out re" using assms(2) r preset_replaced(1)[OF r(2)] by auto
    with assms(5) have "\<And>q w. Q w \<Longrightarrow> Q (so_log so q (lg_name lg1) l out w)" by blast
    from sinks_loop_redacted[of Q, OF this apply_redaction_unchanged[OF 2(1)] w1] show ?thesis
      unfolding 2(2) .
  qed
qed

text \<open>A sink that keeps what it is given.\<close>

definition list_sink :: "string list sink_ops" where
  "list_sink = \<lparr>so_log = (\<lambda>p nm l m w. w @ [m]), so_cloud = (\<lambda>p w. False)\<rparr>"

definition ssn_logger :: "temporary_level_change \<Rightarrow> string list logger" where
  "ssn_logger t =
     add_sink_unnamed (Some 0) (set_redact_pii_presets [''ssn''] (logger_new t ''app''))"

theorem log_hides_pii_witness:
  "\<forall>t h. \<exists>w'. Logger.log std_regex list_sink (\<lambda>_. 0) Map.empty Info ''id 123-45-6789''
          (ssn_logger t, h, []) = Some (ssn_logger t, h, w')
     \<and> w' = [''id ***''] \<and> list_all (\<lambda>m. \<not> rx_search std_regex m (False, ssn_tree)) w'"
proof (intro allI)
  fix t :: temporary_level_change and h :: "(bool \<times> regex) filter_heap"
  have out: "apply_redaction std_regex [] [] [''ssn''] ''id 123-45-6789'' = Some (''id ***'', True)"
    by code_simp
  obtain p where p: "preset_pattern ''ssn'' = Some p" "parse_regex p = Some ssn_tree"
    using ssn_vanishes by (auto simp: preset_tree_def bind_eq_Some_conv)
  have l: "Logger.log std_regex list_sink (\<lambda>_. 0) Map.empty Info ''id 123-45-6789''
      (ssn_logger t, h, []) = Some (ssn_logger t, h, [''id ***''])"
    using out by (simp add: Logger.log_def ssn_logger_def logger_new_def check_temporary_level_expiry_def
        should_log_def probe_record_def add_sink_def add_sink_unnamed_def set_redact_pii_presets_def
        filters_accept.simps list_sink_def Let_def)
  have "list_all (\<lambda>m. \<not> rx_search std_regex m (False, ssn_tree)) [''id ***'']"
    by (rule log_hides_pii[OF p(1) _ _ _ _ _ l, where re = "(False, ssn_tree)" and ps = "[]"])
       (simp_all add: p(2) ssn_logger_def logger_new_def list_sink_def add_sink_def add_sink_unnamed_def
         set_redact_pii_presets_def check_temporary_level_expiry_def)
  with l show "\<exists>w'. Logger.log std_regex list_sink (\<lambda>_. 0) Map.empty Info ''id 123-45-6789''
          (ssn_logger t, h, []) = Some (ssn_logger t, h, w')
     \<and> w' = [''id ***''] \<and> list_all (\<lambda>m. \<not> rx_search std_regex m (False, ssn_tree)) w'"
    by blast
qed

end
