(* ===== verification/Doubles.thy ===== *)
theory Doubles
  imports Complex_Main Zyrnix_Prelude
begin

text \<open>
  \<open>double\<close> as the rational number it stands for.  Every arithmetic operation of the sources is the
  exact operation followed by \<open>fl\<close>, rounding to 53 significant bits, ties to even (IEEE 754
  binary64).  The exponent is unbounded: the quantities of the sources lie between \<open>10^-20\<close>
  and \<open>10^40\<close>, far from the subnormal and the overflowing range.  \<open>show_fixed2\<close> is the output
  format \<open>std::fixed << std::setprecision(2)\<close>.
\<close>

type_synonym double = rat

section \<open>Rounding\<close>

definition round_half_even :: "rat \<Rightarrow> int" where
  "round_half_even x =
     (let f = \<lfloor>x\<rfloor>; d = x - of_int f in
      if d < 1 / 2 then f
      else if 1 / 2 < d then f + 1
      else if even f then f else f + 1)"

fun bit_width :: "nat \<Rightarrow> nat" where
  "bit_width n = (if n = 0 then 0 else Suc (bit_width (n div 2)))"

declare bit_width.simps [simp del]

text \<open>The greatest \<open>e\<close> with \<open>2^e \<le> x\<close>, for positive \<open>x\<close>.\<close>

definition binade :: "rat \<Rightarrow> int" where
  "binade x =
     (if 1 \<le> x then int (bit_width (nat \<lfloor>x\<rfloor>)) - 1
      else - int (bit_width (nat (\<lceil>1 / x\<rceil> - 1))))"

definition fl_pos :: "rat \<Rightarrow> double" where
  "fl_pos x =
     of_int (round_half_even (x * 2 powi (52 - binade x))) * 2 powi (binade x - 52)"

definition fl :: "rat \<Rightarrow> double" where
  "fl x = (if x = 0 then 0 else if x < 0 then - fl_pos (- x) else fl_pos x)"

lemma round_half_even_mono: "x \<le> y \<Longrightarrow> round_half_even x \<le> round_half_even y"
proof -
  assume xy: "x \<le> y"
  show ?thesis
  proof (cases "\<lfloor>x\<rfloor> = \<lfloor>y\<rfloor>")
    case True
    with xy show ?thesis by (auto simp: round_half_even_def Let_def)
  next
    case False
    with xy have "\<lfloor>x\<rfloor> + 1 \<le> \<lfloor>y\<rfloor>" using floor_mono[OF xy] by linarith
    then show ?thesis by (auto simp: round_half_even_def Let_def)
  qed
qed

lemma round_half_even_int [simp]: "round_half_even (of_int i) = i"
  by (simp add: round_half_even_def)

lemma bit_width_bounds: "0 < n \<Longrightarrow> 2 ^ (bit_width n - 1) \<le> n \<and> n < 2 ^ bit_width n"
proof (induction n rule: bit_width.induct)
  case (1 n)
  show ?case
  proof (cases "n div 2 = 0")
    case True
    with "1.prems" have "n = 1" by linarith
    then show ?thesis by (simp add: bit_width.simps[of "Suc 0"] bit_width.simps[of 0])
  next
    case False
    with 1 have IH: "2 ^ (bit_width (n div 2) - 1) \<le> n div 2" "n div 2 < 2 ^ bit_width (n div 2)"
      by simp_all
    from False have "bit_width (n div 2) > 0" by (subst bit_width.simps) simp
    then obtain k where k: "bit_width (n div 2) = Suc k" using gr0_conv_Suc by blast
    have "bit_width n = Suc (Suc k)" using "1.prems" k by (subst bit_width.simps) simp
    with IH k show ?thesis by auto
  qed
qed

lemma bit_width_le: "n < 2 ^ bit_width n"
  using bit_width_bounds[of n] by (cases "n = 0") (auto simp: bit_width.simps)

lemma binade_bounds:
  assumes "0 < x"
  shows "2 powi (binade x) \<le> x \<and> x < 2 powi (binade x + 1)"
proof (cases "1 \<le> x")
  case True
  define n where "n = nat \<lfloor>x\<rfloor>"
  from True have fx: "1 \<le> \<lfloor>x\<rfloor>" by simp
  then have n: "0 < n" "\<lfloor>x\<rfloor> = int n" by (auto simp: n_def)
  from bit_width_bounds[OF n(1)]
  have b: "2 ^ (bit_width n - 1) \<le> n" "n < 2 ^ bit_width n" by auto
  from n(1) have w: "bit_width n \<ge> 1" by (subst bit_width.simps) simp
  have e: "binade x = int (bit_width n - 1)" using True w by (simp add: binade_def n_def of_nat_diff)
  have "(2::rat) ^ (bit_width n - 1) \<le> of_nat n"
    using b(1) by (metis of_nat_le_iff of_nat_numeral of_nat_power)
  also have "\<dots> \<le> x" using n(2) of_int_floor_le[of x] by simp
  finally have lo: "2 ^ (bit_width n - 1) \<le> x" .
  have "Suc n \<le> 2 ^ bit_width n" using b(2) by simp
  then have "(of_nat (Suc n) :: rat) \<le> 2 ^ bit_width n"
    by (metis of_nat_le_iff of_nat_numeral of_nat_power)
  moreover have "x < of_nat (Suc n)" using n(2) floor_correct[of x] by simp
  ultimately have hi: "x < 2 ^ bit_width n" by linarith
  have e1: "binade x + 1 = int (bit_width n)" using e w by simp
  show ?thesis using lo hi unfolding e1 unfolding e by (simp only: power_int_of_nat)
next
  case False
  define y where "y = 1 / x"
  have y: "1 < y" "x = 1 / y" using assms False by (auto simp: y_def)
  define n where "n = nat (\<lceil>y\<rceil> - 1)"
  have cy: "1 < \<lceil>y\<rceil>" using y(1) by simp
  then have n: "0 < n" "\<lceil>y\<rceil> = int n + 1" by (auto simp: n_def)
  define k where "k = bit_width n"
  have e: "binade x = - int k" using False by (simp add: binade_def k_def n_def y_def)
  from bit_width_bounds[OF n(1)] have b: "2 ^ (k - 1) \<le> n" "n < 2 ^ k" by (auto simp: k_def)
  from n(1) have k1: "k \<ge> 1" unfolding k_def by (subst bit_width.simps) simp
  have "y \<le> of_nat (Suc n)" using n(2) le_of_int_ceiling[of y] by simp
  also have "\<dots> \<le> (2::rat) ^ k"
    using b(2) by (metis Suc_leI of_nat_le_iff of_nat_numeral of_nat_power)
  finally have hi: "y \<le> 2 ^ k" .
  have "(2::rat) ^ (k - 1) \<le> of_nat n" using b(1) by (metis of_nat_le_iff of_nat_numeral of_nat_power)
  also have "\<dots> < y" using n(2) ceiling_correct[of y] by simp
  finally have lo: "2 ^ (k - 1) < y" .
  have "(2::rat) powi (binade x) = 1 / 2 ^ k" by (simp add: e power_int_minus divide_inverse)
  moreover have "1 / 2 ^ k \<le> 1 / y" using hi y(1) by (intro divide_left_mono) auto
  then have "1 / 2 ^ k \<le> x" using y(2) by simp
  moreover have "binade x + 1 = - int (k - 1)" using e k1 by simp
  then have "(2::rat) powi (binade x + 1) = 1 / 2 ^ (k - 1)"
    by (simp only:) (simp add: power_int_minus divide_inverse)
  moreover have "1 / y < 1 / 2 ^ (k - 1)" using lo y(1) by (intro divide_strict_left_mono) auto
  then have "x < 1 / 2 ^ (k - 1)" using y(2) by simp
  ultimately show ?thesis by simp
qed

lemma powi_mono: "a \<le> b \<Longrightarrow> (2::rat) powi a \<le> 2 powi b"
  by (simp add: power_int_increasing)

lemma binade_scaled:
  assumes "0 < x"
  shows "2 ^ 52 \<le> x * 2 powi (52 - binade x)" and "x * 2 powi (52 - binade x) < 2 ^ 53"
proof -
  have p: "(2::rat) powi (binade x) * 2 powi (52 - binade x) = 2 ^ 52"
    "(2::rat) powi (binade x + 1) * 2 powi (52 - binade x) = 2 ^ 53"
    by (simp_all flip: power_int_add)
  have pos: "(0::rat) < 2 powi (52 - binade x)" by simp
  from binade_bounds[OF assms] have "2 powi (binade x) \<le> x" "x < 2 powi (binade x + 1)" by auto
  with pos have "2 powi (binade x) * 2 powi (52 - binade x) \<le> x * 2 powi (52 - binade x)"
    "x * 2 powi (52 - binade x) < 2 powi (binade x + 1) * 2 powi (52 - binade x)"
    by (simp_all add: mult_right_mono)
  then show "2 ^ 52 \<le> x * 2 powi (52 - binade x)" "x * 2 powi (52 - binade x) < 2 ^ 53"
    by (simp_all only: p)
qed

lemma fl_pos_bounds:
  assumes "0 < x"
  shows "2 powi (binade x) \<le> fl_pos x" and "fl_pos x \<le> 2 powi (binade x + 1)"
proof -
  let ?m = "round_half_even (x * 2 powi (52 - binade x))"
  have "round_half_even (of_int (2 ^ 52)) \<le> ?m"
    using binade_scaled(1)[OF assms] by (intro round_half_even_mono) simp
  then have lo: "2 ^ 52 \<le> ?m" by (simp only: round_half_even_int)
  have "?m \<le> round_half_even (of_int (2 ^ 53))"
    using binade_scaled(2)[OF assms] by (intro round_half_even_mono) simp
  then have hi: "?m \<le> 2 ^ 53" by (simp only: round_half_even_int)
  have "(2::rat) powi (binade x) = of_int (2 ^ 52) * 2 powi (binade x - 52)"
    by (simp add: power_int_diff)
  also have "\<dots> \<le> fl_pos x" unfolding fl_pos_def using lo
    by (intro mult_right_mono) (simp_all only: of_int_le_iff zero_le_power_int zero_le_numeral)
  finally show "2 powi (binade x) \<le> fl_pos x" .
  have "fl_pos x \<le> of_int (2 ^ 53) * 2 powi (binade x - 52)" unfolding fl_pos_def using hi
    by (intro mult_right_mono) (simp_all only: of_int_le_iff zero_le_power_int zero_le_numeral)
  also have "\<dots> = 2 powi (binade x + 1)" by (simp add: power_int_diff power_int_add)
  finally show "fl_pos x \<le> 2 powi (binade x + 1)" .
qed

lemma fl_pos_mono:
  assumes "0 < x" and "x \<le> y"
  shows "fl_pos x \<le> fl_pos y"
proof -
  from assms have y: "0 < y" by simp
  consider "binade x = binade y" | "binade x + 1 \<le> binade y" | "binade y + 1 \<le> binade x"
    by linarith
  then show ?thesis
  proof cases
    case 1
    then show ?thesis unfolding fl_pos_def using assms
      by (auto intro!: mult_right_mono round_half_even_mono)
  next
    case 2
    with fl_pos_bounds(2)[OF assms(1)] fl_pos_bounds(1)[OF y] powi_mono[OF 2] show ?thesis
      by linarith
  next
    case 3
    with binade_bounds[OF assms(1)] binade_bounds[OF y] powi_mono[OF 3] assms(2) show ?thesis
      by linarith
  qed
qed

lemma fl_zero [simp]: "fl 0 = 0"
  by (simp add: fl_def)

lemma fl_pos_pos: "0 < x \<Longrightarrow> 0 < fl_pos x"
  using fl_pos_bounds(1)[of x] by (meson less_le_trans zero_less_numeral zero_less_power_int)

lemma fl_mono: "x \<le> y \<Longrightarrow> fl x \<le> fl y"
proof -
  assume xy: "x \<le> y"
  consider "0 < x" | "x \<le> 0" "0 \<le> y" | "y < 0" by linarith
  then show ?thesis
  proof cases
    case 1
    with xy fl_pos_mono show ?thesis by (simp add: fl_def)
  next
    case 2
    then have "fl x \<le> 0" using fl_pos_pos[of "- x"] by (auto simp: fl_def)
    moreover have "0 \<le> fl y" using 2 fl_pos_pos[of y] by (auto simp: fl_def)
    ultimately show ?thesis by linarith
  next
    case 3
    with xy fl_pos_mono[of "- y" "- x"] show ?thesis by (simp add: fl_def)
  qed
qed

lemma fl_nonneg: "0 \<le> x \<Longrightarrow> 0 \<le> fl x"
  using fl_mono[of 0 x] by simp

text \<open>Integers up to \<open>2^53\<close> are doubles.\<close>

lemma fl_nat:
  assumes "n \<le> 2 ^ 53"
  shows "fl (of_nat n) = of_nat n"
proof (cases "n = 0")
  case False
  define x :: rat where "x = of_nat n"
  have x: "0 < x" "1 \<le> x" using False by (simp_all add: x_def)
  define e where "e = binade x"
  have e0: "0 \<le> e"
  proof -
    have "n < 2 ^ bit_width n" by (rule bit_width_le)
    with False have "bit_width n \<noteq> 0" by (cases "bit_width n") auto
    with x show ?thesis by (simp add: e_def binade_def x_def)
  qed
  have "\<exists>i. x * 2 powi (52 - e) = of_int i"
  proof (cases "e \<le> 52")
    case True
    then have "x * 2 powi (52 - e) = of_int (int n * 2 ^ nat (52 - e))"
      by (simp add: x_def power_int_def)
    then show ?thesis by blast
  next
    case False
    have "x \<le> 2 ^ 53" using assms unfolding x_def
      by (metis of_nat_le_iff of_nat_numeral of_nat_power)
    moreover have "(2::rat) powi 53 \<le> 2 powi e" using False by (intro powi_mono) simp
    moreover have "2 powi e \<le> x" using binade_bounds[OF x(1)] by (simp add: e_def)
    ultimately have "x = 2 powi e" "2 powi e = (2::rat) powi 53" by simp_all
    then have "x * 2 powi (52 - e) = 2 powi e * 2 powi (52 - e)" by simp
    also have "\<dots> = of_int (2 ^ 52)" by (simp flip: power_int_add)
    finally show ?thesis by blast
  qed
  then obtain i where i: "x * 2 powi (52 - e) = of_int i" by blast
  then have "fl_pos x = (x * 2 powi (52 - e)) * 2 powi (e - 52)"
    by (simp add: fl_pos_def flip: e_def)
  also have "\<dots> = x * (2 powi (52 - e) * 2 powi (e - 52))" by (simp only: mult.assoc)
  also have "\<dots> = x" by (simp flip: power_int_add)
  finally show ?thesis using x by (simp add: fl_def x_def)
qed simp

text \<open>The relative error of a rounding.\<close>

lemma round_half_even_error: "\<bar>of_int (round_half_even x) - x\<bar> \<le> 1 / 2"
proof -
  have "of_int \<lfloor>x\<rfloor> \<le> x" "x < of_int \<lfloor>x\<rfloor> + 1" by linarith+
  then show ?thesis by (auto simp: round_half_even_def Let_def)
qed

lemma fl_error:
  assumes "0 \<le> x"
  shows "x - x / 2 ^ 53 \<le> fl x" and "fl x \<le> x + x / 2 ^ 53"
proof -
  have "\<bar>fl x - x\<bar> \<le> x / 2 ^ 53"
  proof (cases "x = 0")
    case False
    with assms have x: "0 < x" by simp
    define e where "e = binade x"
    define y where "y = x * 2 powi (52 - e)"
    have unit: "(2::rat) powi (52 - e) * 2 powi (e - 52) = 1" by (simp flip: power_int_add)
    have "fl x - x = (of_int (round_half_even y) - y) * 2 powi (e - 52)"
      using x unit by (simp add: fl_def fl_pos_def y_def e_def left_diff_distrib mult.assoc)
    then have "\<bar>fl x - x\<bar> = \<bar>of_int (round_half_even y) - y\<bar> * 2 powi (e - 52)"
      by (simp add: abs_mult)
    also have "\<dots> \<le> 1 / 2 * 2 powi (e - 52)"
      by (intro mult_right_mono round_half_even_error) simp
    also have "\<dots> = 2 powi e / 2 ^ 53" by (simp add: power_int_diff)
    also have "\<dots> \<le> x / 2 ^ 53"
      using binade_bounds[OF x] by (intro divide_right_mono) (simp_all add: e_def)
    finally show ?thesis .
  qed simp
  then show "x - x / 2 ^ 53 \<le> fl x" "fl x \<le> x + x / 2 ^ 53" by linarith+
qed

section \<open>Output with two decimals\<close>

definition show_fixed2 :: "double \<Rightarrow> string" where
  "show_fixed2 x =
     (let c = nat (round_half_even (\<bar>x\<bar> * 100)) in
      (if x < 0 then ''-'' else '''') @ show_nat (c div 100) @ ''.''
      @ [digit_char (c mod 100 div 10), digit_char (c mod 10)])"

text \<open>\<open>static_cast<double>\<close> of a 64-bit integer.\<close>

definition u64_double :: "u64 \<Rightarrow> double" where
  "u64_double w = fl (of_nat (unat w))"

lemma u64_double_nonneg: "0 \<le> u64_double w"
  unfolding u64_double_def by (intro fl_nonneg of_nat_0_le_iff)

section \<open>Output with six significant digits\<close>

text \<open>
  The default format of \<open>operator<<\<close> on a \<open>double\<close> (\<open>%g\<close>): six significant digits, without
  trailing zeros, in scientific notation when the exponent is below -4 or above 5.
\<close>

text \<open>The greatest \<open>e\<close> with \<open>10^e \<le> x\<close>, for positive \<open>x\<close>.\<close>

definition decade :: "rat \<Rightarrow> int" where
  "decade x =
     (if 1 \<le> x then int (length (show_nat (nat \<lfloor>x\<rfloor>))) - 1
      else - int (length (show_nat (nat (\<lceil>1 / x\<rceil> - 1)))))"

definition strip_zeros :: "string \<Rightarrow> string" where
  "strip_zeros s = rev (dropWhile (\<lambda>c. c = CHR ''0'') (rev s))"

definition with_fraction :: "string \<Rightarrow> string \<Rightarrow> string" where
  "with_fraction whole fr =
     (let f = strip_zeros fr in if f = [] then whole else whole @ ''.'' @ f)"

definition zeros :: "nat \<Rightarrow> string" where
  "zeros n = replicate n CHR ''0''"

definition show_general :: "double \<Rightarrow> string" where
  "show_general x =
     (if x = 0 then ''0''
      else
        (let a = \<bar>x\<bar>;
             e0 = decade a;
             m0 = nat (round_half_even (a * 10 powi (5 - e0)));
             m = (if m0 = 10 ^ 6 then 10 ^ 5 else m0);
             e = (if m0 = 10 ^ 6 then e0 + 1 else e0);
             ds = show_nat m
         in (if x < 0 then ''-'' else '''')
            @ (if e < -4 \<or> 6 \<le> e
               then with_fraction (take 1 ds) (drop 1 ds) @ ''e''
                 @ (if e < 0 then ''-'' else ''+'')
                 @ (let t = show_nat (nat \<bar>e\<bar>) in zeros (2 - length t) @ t)
               else if 0 \<le> e then with_fraction (take (nat e + 1) ds) (drop (nat e + 1) ds)
               else with_fraction ''0'' (zeros (nat (- e) - 1) @ ds))))"

end
