(* ===== verification/Log_Metrics.thy ===== *)
theory Log_Metrics
  imports Doubles
begin

text \<open>
  The counters: \<open>include/Zyrnix/log_metrics.hpp\<close> and \<open>src/log_metrics.cpp\<close>.  A counter is a 64-bit
  word that wraps; a shared pointer is an index into the registry's heap of metrics objects, so
  that what is recorded through a pointer is seen by the registry and by every other holder.
  An operation that reads the steady clock takes the reading as an argument, one per logger where it visits
  them all.
\<close>

section \<open>Metrics of a logger\<close>

record log_metrics =
  mt_messages_logged :: u64
  mt_messages_dropped :: u64
  mt_messages_filtered :: u64
  mt_flushes :: u64
  mt_errors :: u64
  mt_total_log_time_us :: u64
  mt_total_flush_time_us :: u64
  mt_max_log_latency_us :: u64
  mt_max_flush_latency_us :: u64
  mt_current_depth :: u64
  mt_max_depth :: u64
  mt_start_time :: time

definition log_metrics_new :: "time \<Rightarrow> log_metrics" where
  "log_metrics_new now =
     \<lparr>mt_messages_logged = 0, mt_messages_dropped = 0, mt_messages_filtered = 0, mt_flushes = 0,
      mt_errors = 0, mt_total_log_time_us = 0, mt_total_flush_time_us = 0,
      mt_max_log_latency_us = 0, mt_max_flush_latency_us = 0, mt_current_depth = 0,
      mt_max_depth = 0, mt_start_time = now\<rparr>"

definition record_message_logged :: "log_metrics \<Rightarrow> log_metrics" where
  "record_message_logged m = m\<lparr>mt_messages_logged := mt_messages_logged m + 1\<rparr>"

definition record_message_dropped :: "log_metrics \<Rightarrow> log_metrics" where
  "record_message_dropped m = m\<lparr>mt_messages_dropped := mt_messages_dropped m + 1\<rparr>"

definition record_message_filtered :: "log_metrics \<Rightarrow> log_metrics" where
  "record_message_filtered m = m\<lparr>mt_messages_filtered := mt_messages_filtered m + 1\<rparr>"

definition record_flush :: "log_metrics \<Rightarrow> log_metrics" where
  "record_flush m = m\<lparr>mt_flushes := mt_flushes m + 1\<rparr>"

definition record_error :: "log_metrics \<Rightarrow> log_metrics" where
  "record_error m = m\<lparr>mt_errors := mt_errors m + 1\<rparr>"

text \<open>
  The compare-and-swap loop on a maximum: \<open>others n\<close> is what another thread has made of the
  variable when the \<open>n\<close>-th exchange is tried, \<^const>\<open>None\<close> when the exchange succeeds.  The list
  ends when no more exchanges fail.
\<close>

fun raise_max :: "u64 list \<Rightarrow> u64 \<Rightarrow> u64 \<Rightarrow> u64" where
  "raise_max failures x current_max =
     (if x > current_max
      then (case failures of [] \<Rightarrow> x | seen # rest \<Rightarrow> raise_max rest x seen)
      else current_max)"

declare raise_max.simps [simp del]

definition record_log_duration :: "u64 \<Rightarrow> log_metrics \<Rightarrow> log_metrics" where
  "record_log_duration us m =
     m\<lparr>mt_total_log_time_us := mt_total_log_time_us m + us,
       mt_max_log_latency_us := raise_max [] us (mt_max_log_latency_us m)\<rparr>"

definition record_flush_duration :: "u64 \<Rightarrow> log_metrics \<Rightarrow> log_metrics" where
  "record_flush_duration us m =
     m\<lparr>mt_total_flush_time_us := mt_total_flush_time_us m + us,
       mt_max_flush_latency_us := raise_max [] us (mt_max_flush_latency_us m)\<rparr>"

definition update_queue_depth :: "u64 \<Rightarrow> log_metrics \<Rightarrow> log_metrics" where
  "update_queue_depth depth m =
     m\<lparr>mt_current_depth := depth, mt_max_depth := raise_max [] depth (mt_max_depth m)\<rparr>"

definition get_messages_per_second :: "time \<Rightarrow> log_metrics \<Rightarrow> double" where
  "get_messages_per_second now m =
     (let elapsed_seconds = fl (fl (of_int (now - mt_start_time m)) / 1000000000) in
      if elapsed_seconds < fl (1 / 1000) then 0
      else fl (u64_double (mt_messages_logged m) / elapsed_seconds))"

definition average_us :: "u64 \<Rightarrow> u64 \<Rightarrow> double" where
  "average_us total_time count =
     (if count = 0 then 0 else fl (u64_double total_time / u64_double count))"

definition get_average_log_latency_us :: "log_metrics \<Rightarrow> double" where
  "get_average_log_latency_us m = average_us (mt_total_log_time_us m) (mt_messages_logged m)"

definition get_average_flush_latency_us :: "log_metrics \<Rightarrow> double" where
  "get_average_flush_latency_us m = average_us (mt_total_flush_time_us m) (mt_flushes m)"

definition reset :: "time \<Rightarrow> log_metrics \<Rightarrow> log_metrics" where
  "reset now m =
     m\<lparr>mt_messages_logged := 0, mt_messages_dropped := 0, mt_messages_filtered := 0,
       mt_flushes := 0, mt_errors := 0, mt_total_log_time_us := 0, mt_total_flush_time_us := 0,
       mt_max_log_latency_us := 0, mt_max_flush_latency_us := 0, mt_current_depth := 0,
       mt_max_depth := 0, mt_start_time := now\<rparr>"

record snapshot =
  sn_messages_logged :: u64
  sn_messages_dropped :: u64
  sn_messages_filtered :: u64
  sn_flushes :: u64
  sn_errors :: u64
  sn_messages_per_second :: double
  sn_avg_log_latency_us :: double
  sn_avg_flush_latency_us :: double
  sn_max_log_latency_us :: u64
  sn_max_flush_latency_us :: u64
  sn_current_queue_depth :: u64
  sn_max_queue_depth :: u64
  sn_timestamp :: time

definition get_snapshot :: "clock \<Rightarrow> log_metrics \<Rightarrow> snapshot" where
  "get_snapshot clk m =
     \<lparr>sn_messages_logged = mt_messages_logged m, sn_messages_dropped = mt_messages_dropped m,
      sn_messages_filtered = mt_messages_filtered m, sn_flushes = mt_flushes m,
      sn_errors = mt_errors m, sn_messages_per_second = get_messages_per_second (clk 0) m,
      sn_avg_log_latency_us = get_average_log_latency_us m,
      sn_avg_flush_latency_us = get_average_flush_latency_us m,
      sn_max_log_latency_us = mt_max_log_latency_us m,
      sn_max_flush_latency_us = mt_max_flush_latency_us m,
      sn_current_queue_depth = mt_current_depth m, sn_max_queue_depth = mt_max_depth m,
      sn_timestamp = clk 1\<rparr>"

section \<open>Export\<close>

definition nl2 :: string where "nl2 = newline @ newline"

text \<open>One metric of the exposition format: help line, type line, sample line, empty line.\<close>

definition prometheus_metric :: "string \<Rightarrow> string \<Rightarrow> string \<Rightarrow> string \<Rightarrow> string \<Rightarrow> string \<Rightarrow> string" where
  "prometheus_metric pfx sfx help kind labels v =
     ''# HELP '' @ pfx @ sfx @ '' '' @ help @ newline
     @ ''# TYPE '' @ pfx @ sfx @ '' '' @ kind @ newline
     @ pfx @ sfx @ labels @ '' '' @ v @ nl2"

definition export_prometheus :: "time \<Rightarrow> string \<Rightarrow> log_metrics \<Rightarrow> string" where
  "export_prometheus now pfx m =
     prometheus_metric pfx ''_messages_logged_total'' ''Total number of messages logged''
       ''counter'' [] (show_u64 (mt_messages_logged m))
     @ prometheus_metric pfx ''_messages_dropped_total'' ''Total number of messages dropped''
         ''counter'' [] (show_u64 (mt_messages_dropped m))
     @ prometheus_metric pfx ''_messages_filtered_total'' ''Total number of messages filtered''
         ''counter'' [] (show_u64 (mt_messages_filtered m))
     @ prometheus_metric pfx ''_messages_per_second'' ''Current logging rate''
         ''gauge'' [] (show_fixed2 (get_messages_per_second now m))
     @ prometheus_metric pfx ''_log_latency_us_avg'' ''Average log call latency in microseconds''
         ''gauge'' [] (show_fixed2 (get_average_log_latency_us m))
     @ prometheus_metric pfx ''_log_latency_us_max'' ''Maximum log call latency in microseconds''
         ''gauge'' [] (show_u64 (mt_max_log_latency_us m))
     @ prometheus_metric pfx ''_queue_depth'' ''Current async queue depth''
         ''gauge'' [] (show_u64 (mt_current_depth m))
     @ prometheus_metric pfx ''_queue_depth_max'' ''Maximum async queue depth''
         ''gauge'' [] (show_u64 (mt_max_depth m))
     @ prometheus_metric pfx ''_errors_total'' ''Total number of logging errors''
         ''counter'' [] (show_u64 (mt_errors m))"

definition json_field :: "string \<Rightarrow> string \<Rightarrow> string" where
  "json_field k v = quoted k @ '':'' @ v"

definition export_json :: "time \<Rightarrow> log_metrics \<Rightarrow> string" where
  "export_json now m =
     ''{'' @ json_field ''messages_logged'' (show_u64 (mt_messages_logged m)) @ '',''
     @ json_field ''messages_dropped'' (show_u64 (mt_messages_dropped m)) @ '',''
     @ json_field ''messages_filtered'' (show_u64 (mt_messages_filtered m)) @ '',''
     @ json_field ''flushes'' (show_u64 (mt_flushes m)) @ '',''
     @ json_field ''errors'' (show_u64 (mt_errors m)) @ '',''
     @ json_field ''messages_per_second'' (show_fixed2 (get_messages_per_second now m)) @ '',''
     @ json_field ''avg_log_latency_us'' (show_fixed2 (get_average_log_latency_us m)) @ '',''
     @ json_field ''avg_flush_latency_us'' (show_fixed2 (get_average_flush_latency_us m)) @ '',''
     @ json_field ''max_log_latency_us'' (show_u64 (mt_max_log_latency_us m)) @ '',''
     @ json_field ''max_flush_latency_us'' (show_u64 (mt_max_flush_latency_us m)) @ '',''
     @ json_field ''current_queue_depth'' (show_u64 (mt_current_depth m)) @ '',''
     @ json_field ''max_queue_depth'' (show_u64 (mt_max_depth m)) @ ''}''"

section \<open>Metrics of a sink\<close>

record sink_metrics =
  sm_name :: string
  sm_writes :: u64
  sm_bytes_written :: u64
  sm_flushes :: u64
  sm_errors :: u64
  sm_total_write_time_us :: u64

definition sink_metrics_new :: "string \<Rightarrow> sink_metrics" where
  "sink_metrics_new n =
     \<lparr>sm_name = n, sm_writes = 0, sm_bytes_written = 0, sm_flushes = 0, sm_errors = 0,
      sm_total_write_time_us = 0\<rparr>"

definition sm_record_write :: "u64 \<Rightarrow> sink_metrics \<Rightarrow> sink_metrics" where
  "sm_record_write bytes m =
     m\<lparr>sm_writes := sm_writes m + 1, sm_bytes_written := sm_bytes_written m + bytes\<rparr>"

definition sm_record_flush :: "sink_metrics \<Rightarrow> sink_metrics" where
  "sm_record_flush m = m\<lparr>sm_flushes := sm_flushes m + 1\<rparr>"

definition sm_record_error :: "sink_metrics \<Rightarrow> sink_metrics" where
  "sm_record_error m = m\<lparr>sm_errors := sm_errors m + 1\<rparr>"

definition sm_record_write_duration :: "u64 \<Rightarrow> sink_metrics \<Rightarrow> sink_metrics" where
  "sm_record_write_duration us m = m\<lparr>sm_total_write_time_us := sm_total_write_time_us m + us\<rparr>"

definition get_average_write_latency_us :: "sink_metrics \<Rightarrow> double" where
  "get_average_write_latency_us m = average_us (sm_total_write_time_us m) (sm_writes m)"

definition sm_export_prometheus :: "string \<Rightarrow> sink_metrics \<Rightarrow> string" where
  "sm_export_prometheus pfx m =
     (let labels = ''{sink='' @ quoted (sm_name m) @ ''}'' in
      prometheus_metric pfx ''_sink_writes_total'' ''Total writes by sink''
        ''counter'' labels (show_u64 (sm_writes m))
      @ prometheus_metric pfx ''_sink_bytes_written_total'' ''Total bytes written by sink''
          ''counter'' labels (show_u64 (sm_bytes_written m))
      @ prometheus_metric pfx ''_sink_write_latency_us_avg'' ''Average write latency by sink''
          ''gauge'' labels (show_fixed2 (get_average_write_latency_us m)))"

section \<open>The registry\<close>

record metrics_registry =
  rg_loggers :: "(string, nat) omap"
  rg_sinks :: "(string, nat) omap"
  rg_logger_heap :: "log_metrics list"
  rg_sink_heap :: "sink_metrics list"

definition registry_new :: metrics_registry where
  "registry_new = \<lparr>rg_loggers = [], rg_sinks = [], rg_logger_heap = [], rg_sink_heap = []\<rparr>"

definition get_logger_metrics ::
    "time \<Rightarrow> string \<Rightarrow> metrics_registry \<Rightarrow> nat \<times> metrics_registry" where
  "get_logger_metrics now logger_name r =
     (case omap_get (rg_loggers r) logger_name of
        Some p \<Rightarrow> (p, r)
      | None \<Rightarrow>
          (let p = length (rg_logger_heap r) in
           (p, r\<lparr>rg_logger_heap := rg_logger_heap r @ [log_metrics_new now],
                 rg_loggers := omap_put logger_name p (rg_loggers r)\<rparr>)))"

definition get_sink_metrics :: "string \<Rightarrow> metrics_registry \<Rightarrow> nat \<times> metrics_registry" where
  "get_sink_metrics sink_name r =
     (case omap_get (rg_sinks r) sink_name of
        Some p \<Rightarrow> (p, r)
      | None \<Rightarrow>
          (let p = length (rg_sink_heap r) in
           (p, r\<lparr>rg_sink_heap := rg_sink_heap r @ [sink_metrics_new sink_name],
                 rg_sinks := omap_put sink_name p (rg_sinks r)\<rparr>)))"

text \<open>A method called through a pointer.\<close>

definition on_logger_metrics ::
    "(log_metrics \<Rightarrow> log_metrics) \<Rightarrow> nat \<Rightarrow> metrics_registry \<Rightarrow> metrics_registry" where
  "on_logger_metrics f p r =
     r\<lparr>rg_logger_heap := (rg_logger_heap r)[p := f (rg_logger_heap r ! p)]\<rparr>"

definition on_sink_metrics ::
    "(sink_metrics \<Rightarrow> sink_metrics) \<Rightarrow> nat \<Rightarrow> metrics_registry \<Rightarrow> metrics_registry" where
  "on_sink_metrics f p r =
     r\<lparr>rg_sink_heap := (rg_sink_heap r)[p := f (rg_sink_heap r ! p)]\<rparr>"

definition get_all_logger_snapshots ::
    "(string \<Rightarrow> clock) \<Rightarrow> metrics_registry \<Rightarrow> (string, snapshot) omap" where
  "get_all_logger_snapshots clk r =
     foldl (\<lambda>acc (k, p). omap_put k (get_snapshot (clk k) (rg_logger_heap r ! p)) acc) []
       (rg_loggers r)"

definition export_all_prometheus :: "(string \<Rightarrow> time) \<Rightarrow> string \<Rightarrow> metrics_registry \<Rightarrow> string" where
  "export_all_prometheus now pfx r =
     concat (map (\<lambda>(k, p). ''# Logger: '' @ k @ newline
                 @ export_prometheus (now k) (pfx @ ''_logger'') (rg_logger_heap r ! p))
               (rg_loggers r))
     @ concat (map (\<lambda>(k, p). sm_export_prometheus pfx (rg_sink_heap r ! p)) (rg_sinks r))"

fun comma_separated :: "string list \<Rightarrow> string" where
  "comma_separated [] = []"
| "comma_separated [x] = x"
| "comma_separated (x # xs) = x @ '','' @ comma_separated xs"

definition sink_json :: "sink_metrics \<Rightarrow> string" where
  "sink_json m =
     ''{'' @ json_field ''writes'' (show_u64 (sm_writes m)) @ '',''
     @ json_field ''bytes_written'' (show_u64 (sm_bytes_written m)) @ '',''
     @ json_field ''flushes'' (show_u64 (sm_flushes m)) @ '',''
     @ json_field ''errors'' (show_u64 (sm_errors m)) @ '',''
     @ json_field ''avg_write_latency_us'' (show_fixed2 (get_average_write_latency_us m)) @ ''}''"

definition export_all_json :: "(string \<Rightarrow> time) \<Rightarrow> metrics_registry \<Rightarrow> string" where
  "export_all_json now r =
     ''{'' @ quoted ''loggers'' @ '':{''
     @ comma_separated (map (\<lambda>(k, p). json_field k (export_json (now k) (rg_logger_heap r ! p)))
         (rg_loggers r))
     @ ''},'' @ quoted ''sinks'' @ '':{''
     @ comma_separated (map (\<lambda>(k, p). json_field k (sink_json (rg_sink_heap r ! p)))
         (rg_sinks r))
     @ ''}}''"

definition reset_all :: "(string \<Rightarrow> time) \<Rightarrow> metrics_registry \<Rightarrow> metrics_registry" where
  "reset_all now r = foldl (\<lambda>acc (k, p). on_logger_metrics (reset (now k)) p acc) r (rg_loggers r)"

text \<open>\<open>ScopedTimer\<close>: the callback gets the microseconds between construction and destruction.\<close>

definition scoped_timer :: "(u64 \<Rightarrow> 'a \<Rightarrow> 'a) \<Rightarrow> time \<Rightarrow> time \<Rightarrow> 'a \<Rightarrow> 'a" where
  "scoped_timer callback start stop s = callback (word_of_int ((stop - start) div 1000)) s"

section \<open>What the counters show\<close>

datatype metric_event =
  Logged | Dropped | Filtered | Flushed | Errored
| Log_took u64 | Flush_took u64 | Depth_is u64

primrec record_event :: "metric_event \<Rightarrow> log_metrics \<Rightarrow> log_metrics" where
  "record_event Logged m = record_message_logged m"
| "record_event Dropped m = record_message_dropped m"
| "record_event Filtered m = record_message_filtered m"
| "record_event Flushed m = record_flush m"
| "record_event Errored m = record_error m"
| "record_event (Log_took us) m = record_log_duration us m"
| "record_event (Flush_took us) m = record_flush_duration us m"
| "record_event (Depth_is d) m = update_queue_depth d m"

fun log_times :: "metric_event list \<Rightarrow> u64 list" where
  "log_times (Log_took us # es) = us # log_times es"
| "log_times (_ # es) = log_times es"
| "log_times [] = []"

fun flush_times :: "metric_event list \<Rightarrow> u64 list" where
  "flush_times (Flush_took us # es) = us # flush_times es"
| "flush_times (_ # es) = flush_times es"
| "flush_times [] = []"

fun depths :: "metric_event list \<Rightarrow> u64 list" where
  "depths (Depth_is d # es) = d # depths es"
| "depths (_ # es) = depths es"
| "depths [] = []"

lemmas metric_defs = record_message_logged_def record_message_dropped_def
  record_message_filtered_def record_flush_def record_error_def record_log_duration_def
  record_flush_duration_def update_queue_depth_def

lemma raise_max_Nil [simp]: "raise_max [] x c = max c x"
  by (subst raise_max.simps) (auto simp: max_def order.order_iff_strict)

text \<open>Whatever other threads store in between, the loop leaves at least its own value.\<close>

lemma raise_max_interference:
  "x \<le> raise_max failures x c \<and> raise_max failures x c \<in> {x, c} \<union> set failures"
proof (induction failures arbitrary: c)
  case (Cons seen rest)
  from Cons.IH[of seen] show ?case by (subst (1 2) raise_max.simps) auto
qed (auto simp: max_def not_le intro: less_imp_le)

lemma record_events_snoc:
  "foldl (\<lambda>m e. record_event e m) m (es @ [e]) = record_event e (foldl (\<lambda>m e. record_event e m) m es)"
  by simp

lemma log_times_snoc [simp]:
  "log_times (es @ [e]) = log_times es @ (case e of Log_took us \<Rightarrow> [us] | _ \<Rightarrow> [])"
  by (induction es rule: log_times.induct) (auto split: metric_event.split)

lemma flush_times_snoc [simp]:
  "flush_times (es @ [e]) = flush_times es @ (case e of Flush_took us \<Rightarrow> [us] | _ \<Rightarrow> [])"
  by (induction es rule: flush_times.induct) (auto split: metric_event.split)

lemma depths_snoc [simp]:
  "depths (es @ [e]) = depths es @ (case e of Depth_is d \<Rightarrow> [d] | _ \<Rightarrow> [])"
  by (induction es rule: depths.induct) (auto split: metric_event.split)

text \<open>
  C28. After any sequence of recordings on fresh metrics every counter is the number of its events
  modulo \<open>2^64\<close>, the totals are the sums of the log and of the flush durations modulo \<open>2^64\<close>, the
  maxima are the greatest log duration, flush duration and depth recorded, and the current depth is
  the last one.
\<close>

theorem metrics_account:
  "let m = foldl (\<lambda>m e. record_event e m) (log_metrics_new now) es in
   mt_messages_logged m = of_nat (length (filter ((=) Logged) es))
   \<and> mt_messages_dropped m = of_nat (length (filter ((=) Dropped) es))
   \<and> mt_messages_filtered m = of_nat (length (filter ((=) Filtered) es))
   \<and> mt_flushes m = of_nat (length (filter ((=) Flushed) es))
   \<and> mt_errors m = of_nat (length (filter ((=) Errored) es))
   \<and> mt_total_log_time_us m = sum_list (log_times es)
   \<and> mt_max_log_latency_us m = foldl max 0 (log_times es)
   \<and> mt_total_flush_time_us m = sum_list (flush_times es)
   \<and> mt_max_flush_latency_us m = foldl max 0 (flush_times es)
   \<and> mt_max_depth m = foldl max 0 (depths es)
   \<and> mt_current_depth m = (if depths es = [] then 0 else last (depths es))"
proof (induction es rule: rev_induct)
  case Nil
  then show ?case by (simp add: log_metrics_new_def)
next
  case (snoc e es)
  then show ?case
    unfolding record_events_snoc Let_def
    by (cases e) (simp_all add: metric_defs)
qed

section \<open>What the registry shows\<close>

definition registry_ok :: "metrics_registry \<Rightarrow> bool" where
  "registry_ok r \<longleftrightarrow>
     omap_valid (rg_loggers r) \<and> omap_valid (rg_sinks r)
     \<and> ran (omap_get (rg_loggers r)) \<subseteq> {..< length (rg_logger_heap r)}
     \<and> ran (omap_get (rg_sinks r)) \<subseteq> {..< length (rg_sink_heap r)}
     \<and> inj_on (omap_get (rg_loggers r)) (dom (omap_get (rg_loggers r)))"

lemma registry_ok_new: "registry_ok registry_new"
  by (auto simp: registry_ok_def registry_new_def omap_laws)

lemma registry_ok_get_logger [inv_intros]:
  assumes "registry_ok r"
  shows "registry_ok (snd (get_logger_metrics now n r))"
proof (cases "omap_get (rg_loggers r) n")
  case None
  let ?g = "omap_get (rg_loggers r)" and ?p = "length (rg_logger_heap r)"
  from assms have ran: "ran ?g \<subseteq> {..< ?p}" and inj: "inj_on ?g (dom ?g)"
    by (auto simp: registry_ok_def)
  from ran have "?g x \<noteq> Some ?p" for x by (auto simp: ran_def)
  then have "inj_on (?g(n \<mapsto> ?p)) (insert n (dom ?g))"
    using inj None by (auto simp: inj_on_def dom_def)
  moreover have "ran (?g(n \<mapsto> ?p)) \<subseteq> {..< Suc ?p}" using ran None by auto
  ultimately show ?thesis using assms None
    by (auto simp: registry_ok_def get_logger_metrics_def Let_def omap_laws)
qed (use assms in \<open>simp add: get_logger_metrics_def\<close>)

lemma registry_ok_get_sink [inv_intros]:
  "registry_ok r \<Longrightarrow> registry_ok (snd (get_sink_metrics n r))"
proof -
  assume ok: "registry_ok r"
  then have ran: "ran (omap_get (rg_sinks r)) \<subseteq> {..< length (rg_sink_heap r)}"
    by (simp add: registry_ok_def)
  show ?thesis
  proof (cases "omap_get (rg_sinks r) n")
    case None
    then have "ran ((omap_get (rg_sinks r))(n \<mapsto> length (rg_sink_heap r)))
        \<subseteq> {..< Suc (length (rg_sink_heap r))}"
      using ran by auto
    with ok None show ?thesis
      by (auto simp: registry_ok_def get_sink_metrics_def Let_def omap_laws)
  qed (use ok in \<open>simp add: get_sink_metrics_def\<close>)
qed

lemma get_logger_keeps:
  assumes "registry_ok r" and "omap_get (rg_loggers r) k = Some p"
  shows "omap_get (rg_loggers (snd (get_logger_metrics now n r))) k = Some p"
  using assms by (auto simp: get_logger_metrics_def Let_def registry_ok_def omap_laws
      split: option.split)

lemma get_loggers_keep:
  "registry_ok r \<Longrightarrow> omap_get (rg_loggers r) k = Some p \<Longrightarrow>
     registry_ok (foldl (\<lambda>r n. snd (get_logger_metrics now n r)) r ns)
     \<and> omap_get (rg_loggers (foldl (\<lambda>r n. snd (get_logger_metrics now n r)) r ns)) k = Some p"
proof (induction ns arbitrary: r)
  case (Cons n ns)
  from Cons.IH[OF registry_ok_get_logger[OF Cons.prems(1)] get_logger_keeps[OF Cons.prems]]
  show ?case by simp
qed simp

lemma get_logger_registers:
  assumes "registry_ok r"
  shows "omap_get (rg_loggers (snd (get_logger_metrics now n r))) n
    = Some (fst (get_logger_metrics now n r))"
  using assms
  by (auto simp: get_logger_metrics_def Let_def registry_ok_def omap_laws split: option.split)

lemma get_all_snapshots_lookup:
  assumes "registry_ok r"
  shows "omap_get (get_all_logger_snapshots clk r) k
    = map_option (\<lambda>p. get_snapshot (clk k) (rg_logger_heap r ! p)) (omap_get (rg_loggers r) k)"
proof -
  have v: "omap_valid (rg_loggers r)" using assms by (simp add: registry_ok_def)
  let ?kvs = "map (\<lambda>(k, p). (k, get_snapshot (clk k) (rg_logger_heap r ! p))) (rg_loggers r)"
  have fst: "map fst ?kvs = map fst (rg_loggers r)" by auto
  have "get_all_logger_snapshots clk r = foldl (\<lambda>acc kv. omap_put (fst kv) (snd kv) acc) [] ?kvs"
    by (simp add: get_all_logger_snapshots_def foldl_map case_prod_unfold)
  then have "omap_get (get_all_logger_snapshots clk r) = omap_get [] ++ map_of ?kvs"
    using omap.entries_distinct[OF v] omap.valid_empty
    by (simp only:) (rule omap.get_fold_put, simp_all only: fst)
  moreover have "map_of (map (\<lambda>(k, p). (k, get_snapshot (clk k) (rg_logger_heap r ! p))) xs) k
      = map_option (\<lambda>p. get_snapshot (clk k) (rg_logger_heap r ! p)) (map_of xs k)" for xs
    by (induction xs) auto
  ultimately show ?thesis by (simp add: omap_laws omap_get_def)
qed

text \<open>
  C30. A name has one metrics object: asking again, after any other names were asked for, gives the
  same pointer and leaves the registry as it is; what is recorded through the pointer is what the
  snapshots show under this name, and the snapshots of the other names do not change.
\<close>

theorem registry_shares:
  assumes "registry_ok r" and "get_logger_metrics now a r = (p, r1)"
    and "r2 = foldl (\<lambda>r n. snd (get_logger_metrics now n r)) r1 ns"
    and "omap_get (rg_loggers r2) b = Some q"
  shows "get_logger_metrics now2 a r2 = (p, r2)
    \<and> omap_get (get_all_logger_snapshots clk (on_logger_metrics f p r2)) b
      = Some (get_snapshot (clk b)
          (if b = a then f (rg_logger_heap r2 ! p) else rg_logger_heap r2 ! q))"
proof
  have r1: "registry_ok r1" "omap_get (rg_loggers r1) a = Some p"
    using registry_ok_get_logger[OF assms(1), of now a] get_logger_registers[OF assms(1), of now a]
      assms(2) by simp_all
  from get_loggers_keep[OF r1] assms(3)
  have r2: "registry_ok r2" "omap_get (rg_loggers r2) a = Some p" by simp_all
  then show "get_logger_metrics now2 a r2 = (p, r2)" by (simp add: get_logger_metrics_def)
  have ok: "registry_ok (on_logger_metrics f p r2)"
    using r2(1) by (simp add: registry_ok_def on_logger_metrics_def)
  have lt: "p < length (rg_logger_heap r2)"
    using r2 by (auto simp: registry_ok_def ran_def)
  have "b = a \<longleftrightarrow> q = p"
    using r2 assms(4) by (auto simp: registry_ok_def inj_on_def dom_def)
  then show "omap_get (get_all_logger_snapshots clk (on_logger_metrics f p r2)) b
      = Some (get_snapshot (clk b)
          (if b = a then f (rg_logger_heap r2 ! p) else rg_logger_heap r2 ! q))"
    unfolding get_all_snapshots_lookup[OF ok] using assms(4) lt by (simp add: on_logger_metrics_def)
qed

theorem registry_shares_witness:
  "let (p, r1) = get_logger_metrics 0 ''a'' registry_new;
       r2 = snd (get_logger_metrics 0 ''b'' r1) in
   get_logger_metrics 5 ''a'' r2 = (p, r2)
   \<and> omap_get (get_all_logger_snapshots (\<lambda>_ _. 9) (on_logger_metrics record_error p r2)) ''b''
     = Some (get_snapshot (\<lambda>_. 9) (log_metrics_new 0))"
proof -
  let ?r1 = "snd (get_logger_metrics 0 ''a'' registry_new)"
  let ?r2 = "foldl (\<lambda>r n. snd (get_logger_metrics 0 n r)) ?r1 [''b'']"
  have a: "get_logger_metrics 0 ''a'' registry_new = (0, ?r1)"
    by (simp add: get_logger_metrics_def registry_new_def omap_get_def)
  have b: "omap_get (rg_loggers ?r2) ''b'' = Some 1" "rg_logger_heap ?r2 ! 1 = log_metrics_new 0"
    by (simp_all add: get_logger_metrics_def registry_new_def omap_get_def Let_def)
  have "fst (get_logger_metrics 0 ''a'' registry_new) = 0" by (subst a) simp
  with registry_shares[OF registry_ok_new a refl b(1), of 5 "\<lambda>_ _. 9" record_error] b(2)
  show ?thesis by (simp add: split_beta Let_def)
qed

end
