(* ===== verification/Loki_Sink.thy ===== *)
theory Loki_Sink
  imports Log_Metrics Log_Level
begin

text \<open>
  The Loki sink: \<open>include/Zyrnix/sinks/loki_sink.hpp\<close> and \<open>src/sinks/loki_sink.cpp\<close>.  libcurl is a
  parameter, \<open>curl_lib\<close>: whether a handle is obtained, the result code of performing a request
  (0 is \<open>CURLE_OK\<close>) and the text of a code, over a network state \<open>'n\<close>.  The sink's metrics are
  those registered under \<open>LokiSink\<close>; the sleeps between attempts and the lines on the error
  stream are outputs.
\<close>

section \<open>State\<close>

record loki_options =
  lo_batch_size :: u64
  lo_flush_interval_ms :: u64
  lo_timeout_ms :: int
  lo_insecure_skip_verify :: bool
  lo_ca_cert_path :: string

definition loki_options_default :: loki_options where
  "loki_options_default =
     \<lparr>lo_batch_size = 10, lo_flush_interval_ms = 0, lo_timeout_ms = 5000,
      lo_insecure_skip_verify = False, lo_ca_cert_path = []\<rparr>"

record loki_sink =
  lk_url :: string
  lk_labels :: string
  lk_options :: loki_options
  lk_buffer :: "string list"
  lk_last_flush_time :: time

definition loki_new :: "time \<Rightarrow> string \<Rightarrow> string \<Rightarrow> loki_options \<Rightarrow> loki_sink" where
  "loki_new now url labels opts =
     \<lparr>lk_url = url, lk_labels = labels, lk_options = opts, lk_buffer = [],
      lk_last_flush_time = now\<rparr>"

definition loki_set_options :: "loki_options \<Rightarrow> loki_sink \<Rightarrow> loki_sink" where
  "loki_set_options opts s = s\<lparr>lk_options := opts\<rparr>"

text \<open>What is set on a curl handle before it is performed.\<close>

record curl_request =
  rq_url :: string
  rq_postfields :: string
  rq_header :: string
  rq_timeout_ms :: "int option"
  rq_cainfo :: "string option"
  rq_verify :: bool

record 'n curl_lib =
  cu_init :: "'n \<Rightarrow> bool \<times> 'n"
  cu_perform :: "curl_request \<Rightarrow> 'n \<Rightarrow> nat \<times> 'n"
  cu_strerror :: "nat \<Rightarrow> string"

record 'n loki_world =
  lw_net :: 'n
  lw_registry :: metrics_registry
  lw_sleeps :: "nat list"
  lw_stderr :: "string list"

section \<open>Sending a batch\<close>

fun loki_payload_entries :: "string list \<Rightarrow> string" where
  "loki_payload_entries es = comma_separated es"

definition loki_payload :: "loki_sink \<Rightarrow> string" where
  "loki_payload s =
     ''{'' @ quoted ''streams'' @ '':[{'' @ quoted ''labels'' @ '':'' @ quoted (lk_labels s)
     @ '','' @ quoted ''entries'' @ '':['' @ loki_payload_entries (lk_buffer s) @ '']}]}''"

definition loki_request :: "loki_sink \<Rightarrow> curl_request" where
  "loki_request s =
     (let opts = lk_options s in
      \<lparr>rq_url = lk_url s, rq_postfields = loki_payload s,
       rq_header = ''Content-Type: application/json'',
       rq_timeout_ms = (if lo_timeout_ms opts > 0 then Some (lo_timeout_ms opts) else None),
       rq_cainfo = (if lo_ca_cert_path opts \<noteq> [] then Some (lo_ca_cert_path opts) else None),
       rq_verify = (\<not> lo_insecure_skip_verify opts)\<rparr>)"

definition loki_failure_line :: "'n curl_lib \<Rightarrow> nat \<Rightarrow> nat \<Rightarrow> string" where
  "loki_failure_line cu attempt err =
     ''LokiSink: send_batch attempt '' @ show_nat (attempt + 1) @ '' failed: ''
     @ cu_strerror cu err @ newline"

text \<open>The retry loop; \<open>m\<close> points to the sink's metrics.\<close>

function loki_attempts ::
    "'n curl_lib \<Rightarrow> curl_request \<Rightarrow> nat \<Rightarrow> nat \<Rightarrow> 'n loki_world \<Rightarrow> 'n loki_world" where
  "loki_attempts cu req m attempt w =
     (if attempt < 3 then
        (let (handle, net1) = cu_init cu (lw_net w) in
         if \<not> handle then w\<lparr>lw_net := net1\<rparr>
         else
           (let (err, net2) = cu_perform cu req net1 in
            if err = 0
            then w\<lparr>lw_net := net2, lw_registry := on_sink_metrics sm_record_flush m (lw_registry w)\<rparr>
            else
              (let w1 = w\<lparr>lw_net := net2,
                          lw_registry := on_sink_metrics sm_record_error m (lw_registry w),
                          lw_stderr := lw_stderr w @ [loki_failure_line cu attempt err]\<rparr>;
                   w2 = (if attempt + 1 < 3
                         then w1\<lparr>lw_sleeps := lw_sleeps w1 @ [100 * 2 ^ attempt]\<rparr> else w1)
               in loki_attempts cu req m (attempt + 1) w2)))
      else w)"
  by pat_completeness auto
termination by (relation "measure (\<lambda>(cu, req, m, attempt, w). 3 - attempt)") auto

declare loki_attempts.simps [simp del]

definition loki_send_batch ::
    "'n curl_lib \<Rightarrow> loki_sink \<times> 'n loki_world \<Rightarrow> loki_sink \<times> 'n loki_world" where
  "loki_send_batch cu st =
     (let (s, w) = st in
      if lk_buffer s = [] then (s, w)
      else
        (let (m, reg) = get_sink_metrics ''LokiSink'' (lw_registry w) in
         (s\<lparr>lk_buffer := []\<rparr>, loki_attempts cu (loki_request s) m 0 (w\<lparr>lw_registry := reg\<rparr>))))"

section \<open>Logging and flushing\<close>

definition loki_entry :: "time \<Rightarrow> string \<Rightarrow> level \<Rightarrow> string \<Rightarrow> string" where
  "loki_entry ts logger_name l message =
     ''{'' @ quoted ''ts'' @ '':'' @ quoted (show_int ts) @ '',''
     @ quoted ''logger'' @ '':'' @ quoted logger_name @ '',''
     @ quoted ''level'' @ '':'' @ quoted (to_string l) @ '',''
     @ quoted ''line'' @ '':'' @ quoted message @ ''}''"

definition loki_due :: "time \<Rightarrow> loki_sink \<Rightarrow> bool" where
  "loki_due now s \<longleftrightarrow>
     unat (lo_batch_size (lk_options s)) \<le> length (lk_buffer s)
     \<or> lo_flush_interval_ms (lk_options s) > 0
       \<and> trunc_div (now - lk_last_flush_time s) 1000000 \<ge> sint (lo_flush_interval_ms (lk_options s))"

definition loki_log ::
    "'n curl_lib \<Rightarrow> clock \<Rightarrow> string \<Rightarrow> level \<Rightarrow> string \<Rightarrow> loki_sink \<times> 'n loki_world
      \<Rightarrow> loki_sink \<times> 'n loki_world" where
  "loki_log cu clk logger_name l message st =
     (let (s, w) = st;
          s1 = s\<lparr>lk_buffer := lk_buffer s @ [loki_entry (clk 0) logger_name l message]\<rparr>
      in if loki_due (clk 0) s1
         then (let (s2, w2) = loki_send_batch cu (s1, w) in (s2\<lparr>lk_last_flush_time := clk 1\<rparr>, w2))
         else (s1, w))"

definition loki_flush ::
    "'n curl_lib \<Rightarrow> clock \<Rightarrow> loki_sink \<times> 'n loki_world \<Rightarrow> loki_sink \<times> 'n loki_world" where
  "loki_flush cu clk st =
     (let (s, w) = st in
      if lk_buffer s \<noteq> []
      then (let (s2, w2) = loki_send_batch cu (s, w) in (s2\<lparr>lk_last_flush_time := clk 0\<rparr>, w2))
      else (s, w))"

section \<open>Retries\<close>

text \<open>
  A network that records what happens: a handle is not obtained, or a request is performed and
  answered by a code.  Whether the \<open>i\<close>-th attempt gets a handle is \<open>handle i\<close>, its answer \<open>code i\<close>.
\<close>

datatype loki_event = No_handle | Posted curl_request nat

definition recording_curl :: "(nat \<Rightarrow> bool) \<Rightarrow> (nat \<Rightarrow> nat) \<Rightarrow> loki_event list curl_lib" where
  "recording_curl handle code =
     \<lparr>cu_init = (\<lambda>n. if handle (length n) then (True, n) else (False, n @ [No_handle])),
      cu_perform = (\<lambda>req n. (code (length n), n @ [Posted req (code (length n))])),
      cu_strerror = (\<lambda>_. ''error'')\<rparr>"

text \<open>
  The events of a batch with \<open>k\<close> attempts left: the request is posted, and again only after an
  answer that is not \<open>CURLE_OK\<close>; without a handle no attempt follows.
\<close>

fun batch_events :: "curl_request \<Rightarrow> nat \<Rightarrow> loki_event list \<Rightarrow> bool" where
  "batch_events req 0 evs \<longleftrightarrow> evs = []"
| "batch_events req (Suc k) [] \<longleftrightarrow> False"
| "batch_events req (Suc k) (No_handle # evs) \<longleftrightarrow> evs = []"
| "batch_events req (Suc k) (Posted r c # evs) \<longleftrightarrow>
     r = req \<and> (if c = 0 then evs = [] else batch_events req k evs)"

lemma loki_attempts_recording:
  "attempt \<le> 3 \<Longrightarrow>
     \<exists>evs. lw_net (loki_attempts (recording_curl handle code) req m attempt w) = lw_net w @ evs
       \<and> batch_events req (3 - attempt) evs"
proof (induction "3 - attempt" arbitrary: attempt w)
  case 0
  then show ?case by (simp add: loki_attempts.simps)
next
  case (Suc k)
  let ?cu = "recording_curl handle code" and ?n = "length (lw_net w)"
  have lt: "attempt < 3" "3 - attempt = Suc k" "k = 3 - (attempt + 1)" "attempt + 1 \<le> 3"
    using Suc.hyps(2) by auto
  show ?case
  proof (cases "handle ?n \<and> code ?n \<noteq> 0")
    case False
    then show ?thesis using lt
      by (subst loki_attempts.simps) (auto simp: recording_curl_def Let_def)
  next
    case True
    let ?e = "Posted req (code ?n)"
    define w1 where "w1 = w\<lparr>lw_net := lw_net w @ [?e],
      lw_registry := on_sink_metrics sm_record_error m (lw_registry w),
      lw_stderr := lw_stderr w @ [loki_failure_line ?cu attempt (code ?n)]\<rparr>"
    define w2 where "w2 = (if attempt + 1 < 3
      then w1\<lparr>lw_sleeps := lw_sleeps w1 @ [100 * 2 ^ attempt]\<rparr> else w1)"
    have w2: "lw_net w2 = lw_net w @ [?e]"
      "loki_attempts ?cu req m attempt w = loki_attempts ?cu req m (attempt + 1) w2"
      unfolding w2_def w1_def using True lt(1)
      by (simp, subst loki_attempts.simps) (simp add: recording_curl_def Let_def)
    from Suc.hyps(1)[OF lt(3,4), of w2] obtain evs where
      "lw_net (loki_attempts ?cu req m (attempt + 1) w2) = (lw_net w @ [?e]) @ evs"
      "batch_events req k evs" unfolding w2(1) lt(3) by blast
    with w2(2) True lt(2) show ?thesis by (intro exI[of _ "?e # evs"]) simp
  qed
qed

lemma loki_send_batch_recording:
  assumes "lk_buffer s \<noteq> []"
  shows "lk_buffer (fst (loki_send_batch (recording_curl handle code) (s, w))) = []"
    and "lk_options (fst (loki_send_batch (recording_curl handle code) (s, w))) = lk_options s"
    and "lk_url (fst (loki_send_batch (recording_curl handle code) (s, w))) = lk_url s"
    and "lk_labels (fst (loki_send_batch (recording_curl handle code) (s, w))) = lk_labels s"
    and "\<exists>evs. lw_net (snd (loki_send_batch (recording_curl handle code) (s, w))) = lw_net w @ evs
      \<and> batch_events (loki_request s) 3 evs"
proof -
  obtain m reg where g: "get_sink_metrics ''LokiSink'' (lw_registry w) = (m, reg)" by fastforce
  have e: "loki_send_batch (recording_curl handle code) (s, w)
      = (s\<lparr>lk_buffer := []\<rparr>, loki_attempts (recording_curl handle code) (loki_request s) m 0
           (w\<lparr>lw_registry := reg\<rparr>))"
    using assms g by (simp add: loki_send_batch_def)
  show "lk_buffer (fst (loki_send_batch (recording_curl handle code) (s, w))) = []"
    and "lk_options (fst (loki_send_batch (recording_curl handle code) (s, w))) = lk_options s"
    and "lk_url (fst (loki_send_batch (recording_curl handle code) (s, w))) = lk_url s"
    and "lk_labels (fst (loki_send_batch (recording_curl handle code) (s, w))) = lk_labels s"
    by (simp_all add: e)
  show "\<exists>evs. lw_net (snd (loki_send_batch (recording_curl handle code) (s, w))) = lw_net w @ evs
      \<and> batch_events (loki_request s) 3 evs"
    using loki_attempts_recording[of 0 handle code "loki_request s" m "w\<lparr>lw_registry := reg\<rparr>"]
    by (simp add: e)
qed

text \<open>A sequence of messages: the clock, the logger's name, the level and the text of each.\<close>

fun loki_logs ::
    "'n curl_lib \<Rightarrow> (clock \<times> string \<times> level \<times> string) list \<Rightarrow> loki_sink \<times> 'n loki_world
      \<Rightarrow> loki_sink \<times> 'n loki_world" where
  "loki_logs cu [] st = st"
| "loki_logs cu ((clk, n, l, msg) # ms) st = loki_logs cu ms (loki_log cu clk n l msg st)"

definition entries_of :: "(clock \<times> string \<times> level \<times> string) list \<Rightarrow> string list" where
  "entries_of ms = map (\<lambda>(clk, n, l, msg). loki_entry (clk 0) n l msg) ms"

text \<open>A batch of a sink: its entries, and what happened when it was sent.\<close>

definition loki_batch :: "loki_sink \<Rightarrow> string list \<times> loki_event list \<Rightarrow> bool" where
  "loki_batch s b \<longleftrightarrow> fst b \<noteq> [] \<and> batch_events (loki_request (s\<lparr>lk_buffer := fst b\<rparr>)) 3 (snd b)"

definition same_target :: "loki_sink \<Rightarrow> loki_sink \<Rightarrow> bool" where
  "same_target s s' \<longleftrightarrow>
     lk_url s' = lk_url s \<and> lk_labels s' = lk_labels s \<and> lk_options s' = lk_options s"

lemma same_target_request:
  "same_target s s' \<Longrightarrow> loki_request (s'\<lparr>lk_buffer := es\<rparr>) = loki_request (s\<lparr>lk_buffer := es\<rparr>)"
  by (simp add: same_target_def loki_request_def loki_payload_def Let_def)

lemma same_target_batch: "same_target s s' \<Longrightarrow> loki_batch s' b = loki_batch s b"
  by (simp add: loki_batch_def same_target_request)

lemma loki_log_recording:
  assumes "loki_log (recording_curl handle code) clk n l msg (s, w) = (s', w')"
  shows "\<exists>bs. lw_net w' = lw_net w @ concat (map snd bs)
    \<and> concat (map fst bs) @ lk_buffer s' = lk_buffer s @ [loki_entry (clk 0) n l msg]
    \<and> (\<forall>b \<in> set bs. loki_batch s b)
    \<and> same_target s s'
    \<and> (length (lk_buffer s') < max 1 (unat (lo_batch_size (lk_options s))))"
proof -
  define s1 where "s1 = s\<lparr>lk_buffer := lk_buffer s @ [loki_entry (clk 0) n l msg]\<rparr>"
  show ?thesis
  proof (cases "loki_due (clk 0) s1")
    case True
    have ne: "lk_buffer s1 \<noteq> []" by (simp add: s1_def)
    have eqs: "lk_url s1 = lk_url s" "lk_labels s1 = lk_labels s" "lk_options s1 = lk_options s"
      by (simp_all add: s1_def)
    note sb = loki_send_batch_recording[OF ne, of handle code w]
    from sb(5) obtain evs where evs:
      "lw_net (snd (loki_send_batch (recording_curl handle code) (s1, w))) = lw_net w @ evs"
      "batch_events (loki_request s1) 3 evs" by blast
    have s1: "s\<lparr>lk_buffer := lk_buffer s1\<rparr> = s1" by (simp add: s1_def)
    have "lw_net w' = lw_net w @ evs"
      using assms True evs(1) by (auto simp: loki_log_def split_beta simp flip: s1_def)
    moreover have "lk_buffer s' = []" "same_target s s'"
      using assms True sb(1-4) eqs
      by (auto simp: loki_log_def same_target_def split_beta simp flip: s1_def)
    moreover have "loki_batch s (lk_buffer s1, evs)" using ne evs(2) s1 by (simp add: loki_batch_def)
    ultimately show ?thesis by (intro exI[of _ "[(lk_buffer s1, evs)]"]) (simp add: s1_def)
  next
    case False
    then have "s' = s1" "w' = w" using assms by (auto simp: loki_log_def simp flip: s1_def)
    with False show ?thesis
      by (intro exI[of _ "[]"])
        (auto simp: s1_def same_target_def loki_due_def not_le)
  qed
qed

lemma loki_logs_recording:
  "loki_logs (recording_curl handle code) ms (s, w) = (s', w') \<Longrightarrow>
   \<exists>bs. lw_net w' = lw_net w @ concat (map snd bs)
    \<and> concat (map fst bs) @ lk_buffer s' = lk_buffer s @ entries_of ms
    \<and> (\<forall>b \<in> set bs. loki_batch s b)
    \<and> same_target s s'
    \<and> (ms = [] \<or> length (lk_buffer s') < max 1 (unat (lo_batch_size (lk_options s))))"
proof (induction ms arbitrary: s w)
  case Nil
  then show ?case by (intro exI[of _ "[]"]) (simp add: entries_of_def same_target_def)
next
  case (Cons e ms)
  obtain clk n l msg where e: "e = (clk, n, l, msg)" by (cases e)
  obtain s1 w1 where s1: "loki_log (recording_curl handle code) clk n l msg (s, w) = (s1, w1)"
    by (cases "loki_log (recording_curl handle code) clk n l msg (s, w)")
  obtain b1 where b1: "lw_net w1 = lw_net w @ concat (map snd b1)"
      "concat (map fst b1) @ lk_buffer s1 = lk_buffer s @ [loki_entry (clk 0) n l msg]"
      "\<forall>b \<in> set b1. loki_batch s b" "same_target s s1"
      "length (lk_buffer s1) < max 1 (unat (lo_batch_size (lk_options s)))"
    using loki_log_recording[OF s1] by blast
  have "loki_logs (recording_curl handle code) ms (s1, w1) = (s', w')" using Cons.prems e s1 by simp
  from Cons.IH[OF this] obtain b2 where b2: "lw_net w' = lw_net w1 @ concat (map snd b2)"
      "concat (map fst b2) @ lk_buffer s' = lk_buffer s1 @ entries_of ms"
      "\<forall>b \<in> set b2. loki_batch s1 b" "same_target s1 s'"
      "ms = [] \<or> length (lk_buffer s') < max 1 (unat (lo_batch_size (lk_options s1)))"
    by blast
  have "\<forall>b \<in> set b2. loki_batch s b" using b2(3) same_target_batch[OF b1(4)] by simp
  moreover have "concat (map fst (b1 @ b2)) @ lk_buffer s' = lk_buffer s @ entries_of (e # ms)"
    using b1(2) b2(2) e by (simp add: entries_of_def)
  moreover have "same_target s s'" using b1(4) b2(4) by (simp add: same_target_def)
  moreover have "length (lk_buffer s') < max 1 (unat (lo_batch_size (lk_options s)))"
    using b1(4,5) b2(1,2,5) Cons.prems e s1 by (cases "ms = []") (auto simp: same_target_def)
  ultimately show ?case using b1(1,3) b2(1)
    by (intro exI[of _ "b1 @ b2"]) auto
qed

text \<open>
  C26. Whatever the network answers, the messages logged to a fresh Loki sink are divided, in the
  order they were logged, into batches, each message in exactly one, followed by a buffer shorter
  than the batch size.  The requests are those of the batches in order: a batch is posted until
  the first success, again only after an answer that is a failure, three times at most, and when
  no curl handle is obtained its attempts end.  (A batch without a success is lost.)
\<close>

theorem loki_batches:
  assumes "loki_logs (recording_curl handle code) ms (loki_new now url labels opts, w) = (s', w')"
  shows "\<exists>bs. lw_net w' = lw_net w @ concat (map snd bs)
    \<and> concat (map fst bs) @ lk_buffer s' = entries_of ms
    \<and> (\<forall>b \<in> set bs. fst b \<noteq> []
          \<and> batch_events (loki_request ((loki_new now url labels opts)\<lparr>lk_buffer := fst b\<rparr>)) 3 (snd b))
    \<and> length (lk_buffer s') < max 1 (unat (lo_batch_size opts))"
proof -
  obtain bs where bs: "lw_net w' = lw_net w @ concat (map snd bs)"
      "concat (map fst bs) @ lk_buffer s' = lk_buffer (loki_new now url labels opts) @ entries_of ms"
      "\<forall>b \<in> set bs. loki_batch (loki_new now url labels opts) b"
      "ms = [] \<or> length (lk_buffer s')
         < max 1 (unat (lo_batch_size (lk_options (loki_new now url labels opts))))"
    using loki_logs_recording[OF assms] by blast
  have "length (lk_buffer s') < max 1 (unat (lo_batch_size opts))"
    using bs(2,4) by (cases "ms = []") (auto simp: loki_new_def entries_of_def)
  moreover have "lk_buffer (loki_new now url labels opts) = []" by (simp add: loki_new_def)
  ultimately show ?thesis using bs(1-3)
    by (intro exI[of _ bs]) (simp add: loki_batch_def)
qed

theorem loki_batches_witness:
  "\<exists>bs. lw_net (snd (loki_logs (recording_curl (\<lambda>_. True) (\<lambda>_. 7)) [(\<lambda>_. 1, ''app'', Info, ''hi'')]
           (loki_new 0 ''u'' [] loki_options_default,
            \<lparr>lw_net = [], lw_registry = registry_new, lw_sleeps = [], lw_stderr = []\<rparr>)))
     = concat (map snd (bs :: (string list \<times> loki_event list) list))"
proof -
  let ?st = "(loki_new 0 ''u'' [] loki_options_default,
            \<lparr>lw_net = [], lw_registry = registry_new, lw_sleeps = [], lw_stderr = []\<rparr>)"
  obtain s' w' where "loki_logs (recording_curl (\<lambda>_. True) (\<lambda>_. 7)) [(\<lambda>_. 1, ''app'', Info, ''hi'')] ?st = (s', w')"
    by fastforce
  with loki_batches[OF this] show ?thesis by fastforce
qed

end
