(* ===== verification/Config.thy ===== *)
theory Config
  imports Logger Loki_Sink
begin

text \<open>
  The configuration loader: \<open>include/Zyrnix/config.hpp\<close> and \<open>src/config.cpp\<close>.  The two static
  variables \<open>configs_\<close> and \<open>g_last_error\<close> are the fields of \<open>loader\<close>.  Every \<open>find\<close> of the
  hand-written scanner is a \<^const>\<open>find_from\<close> or \<^const>\<open>find_at\<close> at the same position.
\<close>

section \<open>State\<close>

record logger_config =
  cf_name :: string
  cf_level :: level
  cf_async :: bool
  cf_sinks :: "string list"
  cf_sink_params :: "(string, string) omap"
  cf_redact_substrings :: string
  cf_redact_regexes :: string
  cf_redact_presets :: string
  cf_redact_cloud_only :: bool

definition default_config :: logger_config where
  "default_config =
     \<lparr>cf_name = [], cf_level = Info, cf_async = False, cf_sinks = [], cf_sink_params = [],
      cf_redact_substrings = [], cf_redact_regexes = [], cf_redact_presets = [],
      cf_redact_cloud_only = False\<rparr>"

record loader =
  ld_configs :: "logger_config list"
  ld_last_error :: string

section \<open>Scanning a field\<close>

text \<open>\<open>npos + 1\<close> wraps to 0.\<close>

definition after_pos :: "nat option \<Rightarrow> nat" where
  "after_pos p = (case p of None \<Rightarrow> 0 | Some q \<Rightarrow> q + 1)"

definition key :: "string \<Rightarrow> string" where
  "key k = quoted k"

text \<open>A quoted value after a key: the same six statements for every string field.\<close>

definition find_string :: "string \<Rightarrow> string \<Rightarrow> string option" where
  "find_string k obj =
     (case find_from (key k) obj 0 of
        None \<Rightarrow> None
      | Some name_pos \<Rightarrow>
          (let colon = find_from '':'' obj name_pos;
               quote1 = find_at dquote obj colon;
               quote2 = find_from dquote obj (after_pos quote1)
           in (case (quote1, quote2) of
                 (Some q1, Some q2) \<Rightarrow> Some (substr obj (q1 + 1) (q2 - q1 - 1))
               | _ \<Rightarrow> None)))"

text \<open>A boolean after a key; \<^const>\<open>None\<close> when the key does not occur.\<close>

definition find_flag :: "string \<Rightarrow> string \<Rightarrow> nat \<Rightarrow> bool option" where
  "find_flag k obj obj_end =
     (case find_from (key k) obj 0 of
        None \<Rightarrow> None
      | Some p \<Rightarrow>
          (case find_at ''true'' obj (find_from '':'' obj p) of
             None \<Rightarrow> Some False
           | Some true_pos \<Rightarrow> Some (true_pos < obj_end)))"

text \<open>The digits after a key: the two scanning loops on \<open>num_start\<close> and \<open>num_end\<close>.\<close>

definition find_number :: "string \<Rightarrow> string \<Rightarrow> string option" where
  "find_number k obj =
     (case find_from (key k) obj 0 of
        None \<Rightarrow> None
      | Some p \<Rightarrow>
          (let digits = takeWhile is_digit
                          (dropWhile (\<lambda>c. \<not> is_digit c)
                            (drop (after_pos (find_from '':'' obj p)) obj))
           in if digits = [] then None else Some digits))"

definition set_param :: "string \<Rightarrow> string option \<Rightarrow> logger_config \<Rightarrow> logger_config" where
  "set_param k v c =
     (case v of None \<Rightarrow> c
      | Some x \<Rightarrow> c\<lparr>cf_sink_params := omap_put k x (cf_sink_params c)\<rparr>)"

section \<open>Sinks of a logger\<close>

definition parse_sink :: "string \<Rightarrow> logger_config \<Rightarrow> logger_config" where
  "parse_sink sink_obj c =
     (case find_string ''type'' sink_obj of
        None \<Rightarrow> c
      | Some sink_type \<Rightarrow>
          (let c1 = c\<lparr>cf_sinks := cf_sinks c @ [sink_type]\<rparr>;
               c2 = (if sink_type = ''file'' \<or> sink_type = ''rotating''
                     then set_param (if sink_type = ''file'' then ''file_path''
                                     else ''rotating_path'')
                            (find_string ''path'' sink_obj) c1
                     else c1)
           in if sink_type = ''rotating''
              then set_param ''rotating_max_files'' (find_number ''max_files'' sink_obj)
                     (set_param ''rotating_max_size'' (find_number ''max_size'' sink_obj) c2)
              else c2))"

function sinks_parse_loop :: "string \<Rightarrow> nat \<Rightarrow> logger_config \<Rightarrow> logger_config" where
  "sinks_parse_loop sinks_content sink_pos c =
     (if sink_pos < length sinks_content then
        (case find_from ''{'' sinks_content sink_pos of
           None \<Rightarrow> c
         | Some sink_obj_start \<Rightarrow>
             (case find_from ''}'' sinks_content sink_obj_start of
                None \<Rightarrow> c
              | Some sink_obj_end \<Rightarrow>
                  sinks_parse_loop sinks_content (sink_obj_end + 1)
                    (parse_sink
                       (substr sinks_content sink_obj_start (sink_obj_end - sink_obj_start + 1)) c)))
      else c)"
  by pat_completeness auto
termination
  by (relation "measure (\<lambda>(s, p, c). length s - p)")
    (auto dest!: find_from_SomeD(1) intro!: diff_less_mono2)

declare sinks_parse_loop.simps [simp del]

definition parse_sinks :: "string \<Rightarrow> logger_config \<Rightarrow> logger_config" where
  "parse_sinks obj c =
     (case find_from (key ''sinks'') obj 0 of
        None \<Rightarrow> c
      | Some sinks_pos \<Rightarrow>
          (let sinks_array_start = find_from ''['' obj sinks_pos;
               sinks_array_end = find_at '']'' obj sinks_array_start
           in (case (sinks_array_start, sinks_array_end) of
                 (Some a, Some b) \<Rightarrow> sinks_parse_loop (substr obj (a + 1) (b - a - 1)) 0 c
               | _ \<Rightarrow> c)))"

section \<open>A logger object\<close>

definition with_string :: "string option \<Rightarrow> (string \<Rightarrow> logger_config \<Rightarrow> logger_config) \<Rightarrow>
    logger_config \<Rightarrow> logger_config" where
  "with_string v f c = (case v of None \<Rightarrow> c | Some x \<Rightarrow> f x c)"

definition parse_logger :: "string \<Rightarrow> nat \<Rightarrow> logger_config" where
  "parse_logger obj obj_end =
     (let c1 = with_string (find_string ''name'' obj) (\<lambda>v c. c\<lparr>cf_name := v\<rparr>) default_config;
          c2 = with_string (find_string ''level'' obj)
                 (\<lambda>v c. c\<lparr>cf_level := config_parse_log_level v\<rparr>) c1;
          c3 = (case find_flag ''async'' obj obj_end of None \<Rightarrow> c2 | Some b \<Rightarrow> c2\<lparr>cf_async := b\<rparr>);
          c4 = parse_sinks obj c3;
          c5 = with_string (find_string ''redact_substrings'' obj)
                 (\<lambda>v c. c\<lparr>cf_redact_substrings := v\<rparr>) c4;
          c6 = with_string (find_string ''redact_regexes'' obj)
                 (\<lambda>v c. c\<lparr>cf_redact_regexes := v\<rparr>) c5;
          c7 = with_string (find_string ''redact_presets'' obj)
                 (\<lambda>v c. c\<lparr>cf_redact_presets := v\<rparr>) c6
      in (case find_flag ''redact_cloud_only'' obj obj_end of
            None \<Rightarrow> c7 | Some b \<Rightarrow> c7\<lparr>cf_redact_cloud_only := b\<rparr>))"

section \<open>The whole text\<close>

definition is_ws :: "char \<Rightarrow> bool" where
  "is_ws c \<longleftrightarrow> c \<in> {CHR '' '', CHR 0x0A, CHR 0x0D, CHR 0x09}"

function skip_ws :: "string \<Rightarrow> nat \<Rightarrow> nat" where
  "skip_ws content pos =
     (if pos < length content \<and> is_ws (content ! pos) then skip_ws content (pos + 1) else pos)"
  by pat_completeness auto
termination by (relation "measure (\<lambda>(s, p). length s - p)") auto

declare skip_ws.simps [simp del]

lemma skip_ws_ge: "pos \<le> skip_ws content pos"
  by (induction content pos rule: skip_ws.induct) (subst skip_ws.simps, auto)

function parse_loop :: "string \<Rightarrow> nat \<Rightarrow> loader \<Rightarrow> loader" where
  "parse_loop content pos0 st =
     (if pos0 < length content then
        (let pos = skip_ws content pos0 in
         if pos \<ge> length content \<or> content ! pos = CHR '']'' then st
         else if content ! pos \<noteq> CHR ''{'' then parse_loop content (pos + 1) st
         else
           (case find_from ''}'' content pos of
              None \<Rightarrow> st\<lparr>ld_last_error := ''Malformed logger object in configuration''\<rparr>
            | Some obj_end \<Rightarrow>
                (let c = parse_logger (substr content pos (obj_end - pos + 1)) obj_end in
                 parse_loop content (obj_end + 1)
                   (if cf_name c \<noteq> [] then st\<lparr>ld_configs := ld_configs st @ [c]\<rparr> else st))))
      else st)"
  by pat_completeness auto
termination
proof (relation "measure (\<lambda>(s, p, st). length s - p)", goal_cases)
  case (2 content pos0 st pos)
  then show ?case using skip_ws_ge[of pos0 content] by (simp add: diff_less_mono2)
next
  case (3 content pos0 st pos obj_end c)
  then show ?case using skip_ws_ge[of pos0 content] find_from_SomeD(1)[OF 3(5)]
    by (simp add: diff_less_mono2)
qed simp

declare parse_loop.simps [simp del]

definition parse_json_internal :: "string \<Rightarrow> bool \<times> loader" where
  "parse_json_internal content =
     (case find_from (key ''loggers'') content 0 of
        None \<Rightarrow> (False, \<lparr>ld_configs = [],
                   ld_last_error = ''Missing '' @ quoted ''loggers'' @ '' array in configuration''\<rparr>)
      | Some loggers_pos \<Rightarrow>
          (case find_from ''['' content loggers_pos of
             None \<Rightarrow> (False, \<lparr>ld_configs = [],
                        ld_last_error = ''Malformed configuration: expected '' @
                          [CHR 0x27, CHR ''['', CHR 0x27] @ '' after '' @ quoted ''loggers''\<rparr>)
           | Some array_start \<Rightarrow>
               (let st = parse_loop content (array_start + 1)
                           \<lparr>ld_configs = [], ld_last_error = []\<rparr>
                in if ld_configs st = []
                   then (False, if ld_last_error st = []
                                then st\<lparr>ld_last_error := ''No valid logger configurations found''\<rparr>
                                else st)
                   else (True, st))))"

definition load_from_json_string :: "string \<Rightarrow> loader \<Rightarrow> bool \<times> loader" where
  "load_from_json_string json_str st = parse_json_internal json_str"

text \<open>The file's text is \<^const>\<open>None\<close> when it cannot be opened.\<close>

definition load_from_json :: "(string \<Rightarrow> string option) \<Rightarrow> string \<Rightarrow> loader \<Rightarrow> bool \<times> loader" where
  "load_from_json files path st =
     (case files path of
        None \<Rightarrow> (False, st\<lparr>ld_last_error := ''Could not open config file: '' @ path\<rparr>)
      | Some text \<Rightarrow> load_from_json_string text st)"

definition clear :: "loader \<Rightarrow> loader" where
  "clear st = st\<lparr>ld_configs := []\<rparr>"

section \<open>Creating the loggers\<close>

text \<open>\<open>std::stoull\<close> and \<open>std::stol\<close>: leading white space, a sign, decimal digits.\<close>

datatype config_error = Invalid_argument | Out_of_range

definition is_space :: "char \<Rightarrow> bool" where
  "is_space c \<longleftrightarrow> c = CHR '' '' \<or> 9 \<le> char_code c \<and> char_code c \<le> 13"

definition strto :: "string \<Rightarrow> (bool \<times> nat) option" where
  "strto s =
     (let t = dropWhile is_space s;
          neg = (t \<noteq> [] \<and> hd t = CHR ''-'');
          u = (if t \<noteq> [] \<and> hd t \<in> {CHR ''-'', CHR ''+''} then tl t else t);
          ds = takeWhile is_digit u
      in if ds = [] then None else Some (neg, digits_val ds))"

definition stoull :: "string \<Rightarrow> config_error + u64" where
  "stoull s =
     (case strto s of
        None \<Rightarrow> Inl Invalid_argument
      | Some (neg, n) \<Rightarrow>
          if 2 ^ 64 \<le> n then Inl Out_of_range
          else Inr (if neg then - of_nat n else of_nat n))"

definition stol :: "string \<Rightarrow> config_error + int" where
  "stol s =
     (case strto s of
        None \<Rightarrow> Inl Invalid_argument
      | Some (neg, n) \<Rightarrow>
          (let i = (if neg then - int n else int n) in
           if - (2 ^ 63) \<le> i \<and> i < 2 ^ 63 then Inr i else Inl Out_of_range))"

text \<open>A sink parameter converted when it is present.\<close>

definition param :: "string \<Rightarrow> logger_config \<Rightarrow> string option" where
  "param k c = omap_get (cf_sink_params c) k"

definition convert_param ::
    "(string \<Rightarrow> config_error + 'a) \<Rightarrow> string option \<Rightarrow> 'a \<Rightarrow> config_error + 'a" where
  "convert_param f v d = (case v of None \<Rightarrow> Inr d | Some x \<Rightarrow> f x)"

definition bind_result :: "config_error + 'a \<Rightarrow> ('a \<Rightarrow> config_error + 'b) \<Rightarrow> config_error + 'b" where
  "bind_result r f = (case r of Inl e \<Rightarrow> Inl e | Inr x \<Rightarrow> f x)"

datatype sink_spec =
  Stdout_spec
| File_spec string
| Rotating_spec string u64 u64
| Loki_spec string string loki_options

definition loki_options_of :: "logger_config \<Rightarrow> config_error + loki_options" where
  "loki_options_of c =
     bind_result (convert_param stoull (param ''loki_batch_size'' c)
                    (lo_batch_size loki_options_default)) (\<lambda>batch.
     bind_result (convert_param stoull (param ''loki_flush_interval_ms'' c)
                    (lo_flush_interval_ms loki_options_default)) (\<lambda>flush.
     bind_result (convert_param stol (param ''loki_timeout_ms'' c)
                    (lo_timeout_ms loki_options_default)) (\<lambda>timeout.
     Inr \<lparr>lo_batch_size = batch, lo_flush_interval_ms = flush, lo_timeout_ms = timeout,
          lo_insecure_skip_verify =
            (case param ''loki_insecure_skip_verify'' c of None \<Rightarrow> False
             | Some v \<Rightarrow> map to_lower v \<in> {''true'', ''1''}),
          lo_ca_cert_path = (case param ''loki_ca_cert_path'' c of None \<Rightarrow> [] | Some v \<Rightarrow> v)\<rparr>)))"

text \<open>The sink of a configured type; \<^const>\<open>None\<close> for an unknown type and for Loki without a URL.\<close>

definition spec_of :: "string \<Rightarrow> logger_config \<Rightarrow> config_error + sink_spec option" where
  "spec_of sink_type c =
     (if sink_type = ''stdout'' then Inr (Some Stdout_spec)
      else if sink_type = ''file''
      then Inr (Some (File_spec (case param ''file_path'' c of None \<Rightarrow> ''app.log'' | Some v \<Rightarrow> v)))
      else if sink_type = ''rotating''
      then
        bind_result (convert_param stoull (param ''rotating_max_size'' c) 10485760) (\<lambda>max_size.
        bind_result (convert_param stoull (param ''rotating_max_files'' c) 5) (\<lambda>max_files.
        Inr (Some (Rotating_spec
          (case param ''rotating_path'' c of None \<Rightarrow> ''app.log'' | Some v \<Rightarrow> v)
          max_size max_files))))
      else if sink_type = ''loki''
      then
        bind_result (loki_options_of c) (\<lambda>opts.
        let url = (case param ''loki_url'' c of None \<Rightarrow> [] | Some v \<Rightarrow> v);
            labels = (case param ''loki_labels'' c of None \<Rightarrow> [] | Some v \<Rightarrow> v)
        in Inr (if url \<noteq> [] then Some (Loki_spec url labels opts) else None))
      else Inr None)"

text \<open>
  What the loader calls to build the objects: the constructors of the sinks and the registration
  of an asynchronous logger with the health registry.  \<open>mk_temp\<close> is what the constructor of a
  logger finds in the members it does not initialise.
\<close>

record 'w make_ops =
  mk_sink :: "sink_spec \<Rightarrow> 'w \<Rightarrow> sink_ptr \<times> 'w"
  mk_register :: "string \<Rightarrow> 'w \<Rightarrow> 'w"
  mk_temp :: temporary_level_change

fun add_configured_sinks ::
    "'w make_ops \<Rightarrow> logger_config \<Rightarrow> string list \<Rightarrow> 'w logger \<Rightarrow> 'w \<Rightarrow>
       (config_error + 'w logger) \<times> 'w" where
  "add_configured_sinks mk c [] lg w = (Inr lg, w)"
| "add_configured_sinks mk c (ty # tys) lg w =
     (case spec_of ty c of
        Inl e \<Rightarrow> (Inl e, w)
      | Inr None \<Rightarrow> add_configured_sinks mk c tys lg w
      | Inr (Some spec) \<Rightarrow>
          (let (p, w1) = mk_sink mk spec w in
           add_configured_sinks mk c tys (add_sink_unnamed (Some p) lg) w1))"

definition apply_redaction_config :: "logger_config \<Rightarrow> 'w logger \<Rightarrow> 'w logger" where
  "apply_redaction_config c lg =
     (let lg1 = (if cf_redact_substrings c \<noteq> []
                 then set_redact_patterns (split_and_trim (cf_redact_substrings c)) lg else lg);
          lg2 = (if cf_redact_regexes c \<noteq> []
                 then set_redact_regex_patterns (split_and_trim (cf_redact_regexes c)) lg1 else lg1);
          lg3 = (if cf_redact_presets c \<noteq> []
                 then set_redact_pii_presets (split_and_trim (cf_redact_presets c)) lg2 else lg2)
      in set_redact_apply_to_cloud_only (cf_redact_cloud_only c) lg3)"

text \<open>\<open>Logger::create_async\<close>.\<close>

definition create_async :: "'w make_ops \<Rightarrow> string \<Rightarrow> 'w \<Rightarrow> 'w logger \<times> 'w" where
  "create_async mk nm w = (logger_new (mk_temp mk) nm, mk_register mk nm w)"

text \<open>\<open>Logger::create_stdout_logger\<close>.\<close>

definition create_stdout_logger :: "'w make_ops \<Rightarrow> string \<Rightarrow> 'w \<Rightarrow> 'w logger \<times> 'w" where
  "create_stdout_logger mk nm w =
     (let lg = logger_new (mk_temp mk) nm;
          (p, w1) = mk_sink mk Stdout_spec w
      in (add_sink_unnamed (Some p) lg, mk_register mk nm w1))"

definition create_logger_of ::
    "'w make_ops \<Rightarrow> logger_config \<Rightarrow> 'w \<Rightarrow> (config_error + 'w logger) \<times> 'w" where
  "create_logger_of mk c w =
     (let (lg, w1) = (if cf_async c then create_async mk (cf_name c) w
                      else (logger_new (mk_temp mk) (cf_name c), w))
      in add_configured_sinks mk c (cf_sinks c)
           (apply_redaction_config c (set_level (cf_level c) lg)) w1)"

fun create_loggers_loop ::
    "'w make_ops \<Rightarrow> logger_config list \<Rightarrow> (string, 'w logger) omap \<Rightarrow> 'w \<Rightarrow>
       (config_error + (string, 'w logger) omap) \<times> 'w" where
  "create_loggers_loop mk [] acc w = (Inr acc, w)"
| "create_loggers_loop mk (c # cs) acc w =
     (case create_logger_of mk c w of
        (Inl e, w1) \<Rightarrow> (Inl e, w1)
      | (Inr lg, w1) \<Rightarrow> create_loggers_loop mk cs (omap_put (cf_name c) lg acc) w1)"

definition create_loggers ::
    "'w make_ops \<Rightarrow> loader \<Rightarrow> 'w \<Rightarrow> (config_error + (string, 'w logger) omap) \<times> 'w" where
  "create_loggers mk st w = create_loggers_loop mk (ld_configs st) [] w"

section \<open>What the parser returns\<close>

lemma parse_loop_invariant:
  assumes "\<And>obj obj_end. cf_name (parse_logger obj obj_end) \<noteq> [] \<Longrightarrow>
      \<exists>pos. obj = substr content pos (obj_end - pos + 1) \<and> find_from ''}'' content pos = Some obj_end \<Longrightarrow>
      P (parse_logger obj obj_end)"
    and "\<forall>c \<in> set (ld_configs st). P c"
  shows "\<forall>c \<in> set (ld_configs (parse_loop content pos st)). P c"
  using assms
proof (induction content pos st rule: parse_loop.induct)
  case (1 content pos0 st)
  show ?case
  proof (cases "pos0 < length content")
    case False
    with "1.prems" show ?thesis by (subst parse_loop.simps) simp
  next
    case True
    define pos where "pos = skip_ws content pos0"
    consider "pos \<ge> length content \<or> content ! pos = CHR '']''"
      | "\<not> (pos \<ge> length content \<or> content ! pos = CHR '']'')" "content ! pos \<noteq> CHR ''{''"
      | "\<not> (pos \<ge> length content \<or> content ! pos = CHR '']'')" "content ! pos = CHR ''{''" by blast
    then show ?thesis
    proof cases
      case 1
      with "1.prems" True show ?thesis
        by (subst parse_loop.simps) (simp add: pos_def Let_def)
    next
      case 2
      have "\<forall>c \<in> set (ld_configs (parse_loop content (pos + 1) st)). P c"
        using "1.IH"(1)[OF True pos_def 2(1,2)] "1.prems" by blast
      with 2 True show ?thesis by (subst parse_loop.simps) (simp add: pos_def Let_def)
    next
      case 3
      show ?thesis
      proof (cases "find_from ''}'' content pos")
        case None
        with 3 True "1.prems"(2) show ?thesis
          by (subst parse_loop.simps) (simp add: pos_def Let_def)
      next
        case (Some obj_end)
        define c where "c = parse_logger (substr content pos (obj_end - pos + 1)) obj_end"
        define st' where "st' = (if cf_name c \<noteq> [] then st\<lparr>ld_configs := ld_configs st @ [c]\<rparr> else st)"
        have "\<forall>c \<in> set (ld_configs st'). P c"
          using "1.prems" Some by (auto simp: st'_def c_def)
        then have "\<forall>c \<in> set (ld_configs (parse_loop content (obj_end + 1) st')). P c"
          using "1.IH"(2)[OF True pos_def 3(1) _ Some c_def] 3(2) "1.prems"(1)
          unfolding st'_def by blast
        with 3 True Some show ?thesis
          by (subst parse_loop.simps) (simp add: pos_def Let_def st'_def c_def)
      qed
    qed
  qed
qed

lemma find_from_char_least:
  assumes "find_from [x] s pos = Some p"
  shows "x \<notin> set (take (p - pos) (drop pos s))" and "s ! p = x" and "p < length s"
proof -
  from assms obtain i where i: "find_in [x] (drop pos s) = Some i" "p = pos + i"
    by (auto simp: find_from_def split: if_splits)
  from sublist_take_find_in[OF i(1)] i(2) show "x \<notin> set (take (p - pos) (drop pos s))"
    by (auto simp: sublist_def in_set_conv_decomp)
  show "p < length s" using find_from_SomeD(2)[OF assms] by simp
  then show "s ! p = x" using find_from_SomeD(3)[OF assms] by (simp add: Cons_nth_drop_Suc[symmetric])
qed

text \<open>An object ends at the first closing brace, so it holds no other.\<close>

lemma object_one_brace:
  assumes "find_from ''}'' content pos = Some obj_end"
  shows "CHR ''}'' \<notin> set (butlast (substr content pos (obj_end - pos + 1)))"
proof -
  have "obj_end < length content" "pos \<le> obj_end"
    using find_from_char_least(3)[OF assms] find_from_SomeD(1)[OF assms] by auto
  then have "butlast (substr content pos (obj_end - pos + 1)) = take (obj_end - pos) (drop pos content)"
    by (simp add: substr_def butlast_take)
  with find_from_char_least(1)[OF assms] show ?thesis by simp
qed

lemma sinks_parse_loop_no_brace:
  "CHR ''}'' \<notin> set s \<Longrightarrow> sinks_parse_loop s p c = c"
proof -
  assume n: "CHR ''}'' \<notin> set s"
  then have "find_from ''}'' s q = None" for q
    by (simp add: find_from_char_None) (meson in_set_dropD)
  then show ?thesis by (subst sinks_parse_loop.simps) (simp split: option.split)
qed

lemma parse_sinks_one_brace:
  assumes "CHR ''}'' \<notin> set (butlast obj)"
  shows "parse_sinks obj c = c"
proof -
  have "sinks_parse_loop (substr obj (a + 1) (b - a - 1)) 0 c = c"
    if "find_from '']'' obj a = Some b" for a b
  proof (rule sinks_parse_loop_no_brace)
    have "b < length obj" using find_from_char_least(3)[OF that] .
    then have "substr obj (a + 1) (b - a - 1) = substr (butlast obj) (a + 1) (b - a - 1)"
      by (simp add: substr_def butlast_conv_take drop_take min_def)
    then show "CHR ''}'' \<notin> set (substr obj (a + 1) (b - a - 1))"
      using assms set_substr_subset by fastforce
  qed
  then show ?thesis
    by (auto simp: parse_sinks_def Let_def find_at_def split: option.split)
qed

definition sinkless :: "logger_config \<Rightarrow> bool" where
  "sinkless c \<longleftrightarrow> cf_sinks c = [] \<and> cf_sink_params c = []"

lemma sinkless_with_string:
  "sinkless c \<Longrightarrow> (\<And>x c. sinkless c \<Longrightarrow> sinkless (f x c)) \<Longrightarrow> sinkless (with_string v f c)"
  by (cases v) (simp_all add: with_string_def)

lemma sinkless_flag:
  "sinkless c \<Longrightarrow> (\<And>x. sinkless (f x)) \<Longrightarrow> sinkless (case v of None \<Rightarrow> c | Some b \<Rightarrow> f b)"
  by (cases v) simp_all

lemma parse_logger_sinkless:
  assumes "CHR ''}'' \<notin> set (butlast obj)"
  shows "sinkless (parse_logger obj e)"
  unfolding parse_logger_def Let_def parse_sinks_one_brace[OF assms]
  by (auto intro!: sinkless_with_string sinkless_flag split: option.split)
    (auto simp: sinkless_def default_config_def with_string_def split: option.splits)

lemma parse_json_configs:
  assumes "parse_json_internal content = (ok, st)"
  shows "ld_configs st = [] \<or>
    (\<exists>pos. ld_configs st = ld_configs (parse_loop content pos \<lparr>ld_configs = [], ld_last_error = []\<rparr>))"
  using assms by (auto simp: parse_json_internal_def Let_def split: option.splits if_splits)

lemma parse_json_result:
  assumes "parse_json_internal content = (ok, st)"
  shows "ok \<longleftrightarrow> ld_configs st \<noteq> []" and "\<not> ok \<Longrightarrow> ld_last_error st \<noteq> []"
  using assms by (auto simp: parse_json_internal_def Let_def split: option.splits if_splits)

lemma parse_json_each:
  assumes "parse_json_internal content = (ok, st)" and "c \<in> set (ld_configs st)"
  shows "cf_name c \<noteq> []" and "cf_sinks c = []" and "cf_sink_params c = []"
proof -
  let ?P = "\<lambda>c. cf_name c \<noteq> [] \<and> sinkless c"
  from parse_json_configs[OF assms(1)] assms(2) obtain pos where
    "c \<in> set (ld_configs (parse_loop content pos \<lparr>ld_configs = [], ld_last_error = []\<rparr>))"
    by auto
  moreover have "\<forall>c \<in> set (ld_configs (parse_loop content pos \<lparr>ld_configs = [], ld_last_error = []\<rparr>)). ?P c"
    by (rule parse_loop_invariant)
      (auto intro!: parse_logger_sinkless object_one_brace simp del: One_nat_def add_Suc_right)
  ultimately show "cf_name c \<noteq> []" "cf_sinks c = []" "cf_sink_params c = []"
    by (auto simp: sinkless_def)
qed

lemma create_loggers_loop_no_sinks:
  "\<forall>c \<in> set cs. cf_sinks c = [] \<Longrightarrow> omap_valid acc \<Longrightarrow>
   \<exists>m w'. create_loggers_loop mk cs acc w = (Inr m, w') \<and> omap_valid m
     \<and> dom (omap_get m) = dom (omap_get acc) \<union> cf_name ` set cs
     \<and> (\<forall>n lg. omap_get m n = Some lg \<longrightarrow> omap_get acc n = Some lg
          \<or> (\<exists>c \<in> set cs. cf_name c = n \<and> lg = apply_redaction_config c
                (set_level (cf_level c) (logger_new (mk_temp mk) n))))"
proof (induction cs arbitrary: acc w)
  case (Cons c cs)
  let ?lg = "apply_redaction_config c (set_level (cf_level c) (logger_new (mk_temp mk) (cf_name c)))"
  obtain w1 where step: "create_logger_of mk c w = (Inr ?lg, w1)"
    using Cons.prems(1) by (cases "cf_async c") (simp_all add: create_logger_of_def create_async_def)
  obtain m w' where m: "create_loggers_loop mk cs (omap_put (cf_name c) ?lg acc) w1 = (Inr m, w')"
    "omap_valid m" "dom (omap_get m) = dom (omap_get (omap_put (cf_name c) ?lg acc)) \<union> cf_name ` set cs"
    "\<forall>n lg. omap_get m n = Some lg \<longrightarrow> omap_get (omap_put (cf_name c) ?lg acc) n = Some lg
       \<or> (\<exists>c \<in> set cs. cf_name c = n \<and> lg = apply_redaction_config c
            (set_level (cf_level c) (logger_new (mk_temp mk) n)))"
    using Cons.IH[of "omap_put (cf_name c) ?lg acc" w1] Cons.prems omap.valid_put by fastforce
  have "dom (omap_get m) = dom (omap_get acc) \<union> cf_name ` set (c # cs)"
    using m(3) Cons.prems(2) by (auto simp: omap_laws)
  moreover have "\<forall>n lg. omap_get m n = Some lg \<longrightarrow> omap_get acc n = Some lg
       \<or> (\<exists>c \<in> set (c # cs). cf_name c = n \<and> lg = apply_redaction_config c
            (set_level (cf_level c) (logger_new (mk_temp mk) n)))"
    using m(4) Cons.prems(2) by (auto simp: omap_laws split: if_splits)
  ultimately show ?case using step m(1,2) by simp
qed simp

text \<open>
  Loading a text succeeds exactly when a logger with a name was found; when it fails there is
  an error message; every configuration has a name; and no configuration ever has a sink or a sink
  parameter, whatever the text says: a logger object ends at the first closing brace, which is
  that of its first sink.
\<close>

theorem parsed_configs:
  "case load_from_json_string content st0 of (ok, st) \<Rightarrow>
     (if ok then ld_configs st \<noteq> [] else ld_configs st = [] \<and> ld_last_error st \<noteq> [])
     \<and> list_all (\<lambda>c. cf_name c \<noteq> [] \<and> cf_sinks c = [] \<and> cf_sink_params c = []) (ld_configs st)"
  unfolding load_from_json_string_def
  by (cases "parse_json_internal content")
    (auto simp: list_all_iff parse_json_each dest: parse_json_result)

lemma create_loggers_parsed:
  fixes mk :: "'w make_ops"
  assumes "load_from_json_string content st0 = (ok, st)"
  shows "\<exists>m w'. create_loggers mk st w = (Inr m, w')
    \<and> dom (omap_get m) = cf_name ` set (ld_configs st)
    \<and> (\<forall>n lg. omap_get m n = Some lg \<longrightarrow> lg_sink_entries lg = []
         \<and> (\<exists>c. c \<in> set (ld_configs st) \<and> cf_name c = n \<and> lg = apply_redaction_config c
              (set_level (cf_level c) (logger_new (mk_temp mk) n))))"
proof -
  have "\<forall>c \<in> set (ld_configs st). cf_sinks c = []"
    using assms by (auto simp: load_from_json_string_def parse_json_each)
  from create_loggers_loop_no_sinks[OF this omap.valid_empty, of mk w]
  obtain m w' where m: "create_loggers mk st w = (Inr m, w')"
    "dom (omap_get m) = cf_name ` set (ld_configs st)"
    "\<forall>n lg. omap_get m n = Some lg \<longrightarrow> (\<exists>c \<in> set (ld_configs st). cf_name c = n
       \<and> lg = apply_redaction_config c (set_level (cf_level c) (logger_new (mk_temp mk) n)))"
    by (auto simp: create_loggers_def omap_laws)
  have "lg_sink_entries (apply_redaction_config c (set_level l (logger_new t n) :: 'w logger)) = []"
    for c l t n
    by (simp add: apply_redaction_config_def set_redact_patterns_def set_redact_regex_patterns_def
        set_redact_pii_presets_def set_redact_apply_to_cloud_only_def set_level_def logger_new_def
        Let_def)
  then have "lg_sink_entries lg = [] \<and> (\<exists>c. c \<in> set (ld_configs st) \<and> cf_name c = n
      \<and> lg = apply_redaction_config c (set_level (cf_level c) (logger_new (mk_temp mk) n)))"
    if "omap_get m n = Some lg" for n lg
    using m(3)[rule_format, OF that] by blast
  with m show ?thesis by blast
qed

text \<open>A message to a logger without sinks and without a temporary level changes nothing outside.\<close>

lemma log_without_sinks:
  assumes "lg_sink_entries lg = []" and "\<not> tmp_active (lg_temp lg)"
  shows "case Logger.log rx so clk ctx l msg (lg, h, w) of
      None \<Rightarrow> True | Some (lg', h', w') \<Rightarrow> lg' = lg \<and> w' = w"
  using assms
  by (auto simp: Logger.log_def check_temporary_level_expiry_def Let_def split: option.splits bool.splits)

lemma configured_inactive:
  "\<not> tmp_active (lg_temp (apply_redaction_config c (set_level l (logger_new t n))))"
  by (simp add: apply_redaction_config_def set_redact_patterns_def set_redact_regex_patterns_def
      set_redact_pii_presets_def set_redact_apply_to_cloud_only_def set_level_def logger_new_def Let_def)

text \<open>
  C37. Creating the loggers of a loaded text never throws and gives exactly one logger for each
  configured name, which has the level and the redaction settings of a configuration of that
  name, and no sinks at all: what is logged to it has no effect on any sink.
\<close>

theorem configured_loggers_silent:
  fixes mk :: "'w make_ops" and rx :: "'rx regex_lib"
  shows "case create_loggers mk (snd (load_from_json_string content st0)) w of
     (Inl e, w') \<Rightarrow> False
   | (Inr m, w') \<Rightarrow>
       dom (omap_get m) = cf_name ` set (ld_configs (snd (load_from_json_string content st0)))
       \<and> (\<forall>n. case omap_get m n of None \<Rightarrow> True
            | Some lg \<Rightarrow> lg_sink_entries lg = []
                \<and> (\<forall>so clk ctx l msg h w1. case Logger.log rx so clk ctx l msg (lg, h, w1) of
                     None \<Rightarrow> True | Some (lg', h', w2) \<Rightarrow> lg' = lg \<and> w2 = w1)
                \<and> (\<exists>c. c \<in> set (ld_configs (snd (load_from_json_string content st0)))
                     \<and> cf_name c = n \<and> lg = apply_redaction_config c
                          (set_level (cf_level c) (logger_new (mk_temp mk) n))))"
proof -
  obtain m w' where m: "create_loggers mk (snd (load_from_json_string content st0)) w = (Inr m, w')"
      "dom (omap_get m) = cf_name ` set (ld_configs (snd (load_from_json_string content st0)))"
      "\<And>n lg. omap_get m n = Some lg \<Longrightarrow> lg_sink_entries lg = []
        \<and> (\<exists>c. c \<in> set (ld_configs (snd (load_from_json_string content st0))) \<and> cf_name c = n
             \<and> lg = apply_redaction_config c (set_level (cf_level c) (logger_new (mk_temp mk) n)))"
    using create_loggers_parsed[OF prod.collapse[symmetric], where content = content and ?st0.0 = st0
        and mk = mk and w = w] by metis
  have "case Logger.log rx so clk ctx l msg (lg, h, w1) of
      None \<Rightarrow> True | Some (lg', h', w2) \<Rightarrow> lg' = lg \<and> w2 = w1"
    if "omap_get m n = Some lg" for n lg so clk ctx l msg h w1
    using m(3)[OF that] configured_inactive log_without_sinks by metis
  with m show ?thesis by (auto split: option.split)
qed

end
