(* ===== verification/Config_Roundtrip.thy ===== *)
theory Config_Roundtrip
  imports Config
begin

text \<open>
  The configuration loader on well-formed texts: a list of loggers written in the documented JSON
  form, and what \<^const>\<open>load_from_json_string\<close> makes of it.
\<close>

section \<open>The written form\<close>

definition render_field :: "string \<Rightarrow> string \<Rightarrow> string" where
  "render_field k v = key k @ '': '' @ v"

definition render_config :: "logger_config \<Rightarrow> string" where
  "render_config c =
     ''{'' @ render_field ''name'' (quoted (cf_name c)) @ '', ''
     @ render_field ''level'' (quoted (to_string (cf_level c))) @ '', ''
     @ render_field ''redact_substrings'' (quoted (cf_redact_substrings c)) @ '', ''
     @ render_field ''async'' (show_bool (cf_async c)) @ '', ''
     @ render_field ''redact_cloud_only'' (show_bool (cf_redact_cloud_only c)) @ ''}''"

fun render_list :: "logger_config list \<Rightarrow> string" where
  "render_list [] = []"
| "render_list [c] = render_config c"
| "render_list (c # cs) = render_config c @ '', '' @ render_list cs"

definition render_configs :: "logger_config list \<Rightarrow> string" where
  "render_configs cs = ''{'' @ key ''loggers'' @ '': ['' @ render_list cs @ '']}''"

definition config_keys :: "string list" where
  "config_keys = [''name'', ''level'', ''async'', ''sinks'', ''redact_substrings'',
     ''redact_regexes'', ''redact_presets'', ''redact_cloud_only'']"

text \<open>A value that can be written without escapes and is not itself one of the keys.\<close>

definition plain_value :: "string \<Rightarrow> bool" where
  "plain_value s \<longleftrightarrow> CHR 0x22 \<notin> set s \<and> CHR ''}'' \<notin> set s \<and> s \<notin> set config_keys"

definition renderable :: "logger_config \<Rightarrow> bool" where
  "renderable c \<longleftrightarrow>
     plain_value (cf_name c) \<and> cf_name c \<noteq> [] \<and> plain_value (cf_redact_substrings c)
     \<and> cf_sinks c = [] \<and> cf_sink_params c = [] \<and> cf_redact_regexes c = []
     \<and> cf_redact_presets c = []"

section \<open>Searching past quoted values\<close>

lemma find_in_skip:
  "x \<notin> set u \<Longrightarrow> find_in (x # p) (u @ v) = map_option ((+) (length u)) (find_in (x # p) v)"
proof (induction u)
  case Nil
  show ?case by (cases "find_in (x # p) v") auto
next
  case (Cons c u)
  then show ?case by (cases "find_in (x # p) v") (auto simp: find_in_Cons)
qed

lemma prefix_quoted:
  "CHR 0x22 \<notin> set k \<Longrightarrow> CHR 0x22 \<notin> set v \<Longrightarrow>
     prefix (k @ [CHR 0x22]) (v @ CHR 0x22 # w) \<longleftrightarrow> k = v"
proof (induction k arbitrary: v)
  case Nil
  then show ?case by (cases v) auto
next
  case (Cons c k)
  then show ?case by (cases v) auto
qed

lemma find_key_skip:
  assumes "CHR 0x22 \<notin> set k" and "CHR 0x22 \<notin> set v" and "v \<noteq> k"
  shows "find_in (key k) (CHR 0x22 # v @ CHR 0x22 # w)
    = map_option (\<lambda>i. i + length v + 1) (find_in (key k) (CHR 0x22 # w))"
proof -
  have "\<not> prefix (key k) (CHR 0x22 # v @ CHR 0x22 # w)"
    using prefix_quoted[OF assms(1,2)] assms(3) by (auto simp: key_def quoted_def dquote_def)
  then have "find_in (key k) (CHR 0x22 # v @ CHR 0x22 # w)
      = map_option Suc (find_in (key k) (v @ CHR 0x22 # w))"
    by (subst find_in_Cons) simp
  also have "find_in (key k) (v @ CHR 0x22 # w)
      = map_option ((+) (length v)) (find_in (key k) (CHR 0x22 # w))"
    using assms(2) unfolding key_def quoted_def dquote_def append_Cons by (rule find_in_skip)
  finally show ?thesis
    by (cases "find_in (key k) (CHR 0x22 # w)") simp_all
qed

lemma find_from_0 [simp]: "find_from p s 0 = find_in p s"
  by (cases "find_in p s") (simp_all add: find_from_def)

lemma find_from_char_at:
  assumes "x \<notin> set m"
  shows "find_from [x] (a @ m @ x # r) (length a) = Some (length a + length m)"
proof -
  have "find_in [x] (m @ x # r) = Some (length m)"
    using assms by (simp add: find_in_skip find_in_Cons)
  then show ?thesis by (simp add: find_from_def)
qed

text \<open>A string field is found at its key.\<close>

lemma find_string_at:
  assumes "find_in (key k) obj = Some (length pre)"
    and "obj = pre @ key k @ '': '' @ quoted v @ rest"
    and "CHR '':'' \<notin> set k" and "CHR 0x22 \<notin> set v"
  shows "find_string k obj = Some v"
proof -
  let ?D = "CHR 0x22" and ?C = "CHR '':''"
  define n where "n = length pre + length k + 2"
  have colon: "find_from '':'' obj (length pre) = Some n"
  proof -
    have "obj = pre @ (?D # k @ [?D]) @ ?C # ('' '' @ ?D # v @ ?D # rest)"
      using assms(2) by (simp add: key_def quoted_def dquote_def)
    then have "find_from [?C] obj (length pre) = Some (length pre + length (?D # k @ [?D]))"
      using assms(3) by (simp only:) (rule find_from_char_at, simp)
    then show ?thesis by (simp add: n_def)
  qed
  have q1: "find_from dquote obj n = Some (n + 2)"
  proof -
    have "obj = (pre @ ?D # k @ [?D]) @ [?C, CHR '' ''] @ ?D # (v @ ?D # rest)"
      using assms(2) by (simp add: key_def quoted_def dquote_def)
    moreover have "n = length (pre @ ?D # k @ [?D])" by (simp add: n_def)
    moreover have "find_from [?D] ((pre @ ?D # k @ [?D]) @ [?C, CHR '' ''] @ ?D # (v @ ?D # rest))
        (length (pre @ ?D # k @ [?D])) = Some (length (pre @ ?D # k @ [?D]) + length [?C, CHR '' ''])"
      by (rule find_from_char_at) simp
    ultimately show ?thesis by (simp add: dquote_def)
  qed
  define a where "a = pre @ ?D # k @ [?D, ?C, CHR '' '', ?D]"
  have la: "length a = n + 3" by (simp add: a_def n_def)
  have obj: "obj = a @ v @ ?D # rest"
    using assms(2) by (simp add: key_def quoted_def dquote_def a_def)
  have q2: "find_from dquote obj (n + 3) = Some (n + 3 + length v)"
    using find_from_char_at[OF assms(4), of a rest] obj la by (simp add: dquote_def)
  have "substr obj (n + 3) (length v) = v" using obj la by (simp add: substr_def)
  with assms(1) colon q1 q2 show ?thesis
    by (simp add: find_string_def after_pos_def eval_nat_numeral)
qed

section \<open>The fields of a written logger\<close>

text \<open>\<open>A\<close>, followed by a quote, holds no start of an occurrence.\<close>

definition passes :: "string \<Rightarrow> string \<Rightarrow> bool" where
  "passes p A \<longleftrightarrow> (\<forall>v. find_in p (A @ CHR 0x22 # v)
     = map_option ((+) (length A)) (find_in p (CHR 0x22 # v)))"

fun starts :: "string \<Rightarrow> string \<Rightarrow> bool" where
  "starts p [] = False"
| "starts p (c # A) = (prefix p (c # A @ [CHR 0x22]) \<or> prefix (c # A @ [CHR 0x22]) p \<or> starts p A)"

lemma prefix_either: "prefix p (a @ b) \<Longrightarrow> prefix p a \<or> prefix a p"
  by (metis prefix_append prefix_order.order_refl prefixI prefix_same_cases)

lemma starts_find: "\<not> starts p A \<Longrightarrow> passes p A"
  unfolding passes_def
proof (induction A)
  case Nil
  show ?case by (simp add: option.map_ident)
next
  case (Cons c A)
  have "\<not> prefix p (c # A @ CHR 0x22 # v)" for v
    using Cons.prems prefix_either[of p "c # A @ [CHR 0x22]" v] by auto
  with Cons show ?case by (auto simp: find_in_Cons option.map_comp comp_def)
qed

lemma passes_append:
  "passes p A \<Longrightarrow> passes p (CHR 0x22 # B) \<Longrightarrow> passes p (A @ CHR 0x22 # B)"
  by (auto simp: passes_def option.map_comp intro!: option.map_cong)

lemma passes_value:
  "CHR 0x22 \<notin> set k \<Longrightarrow> CHR 0x22 \<notin> set v \<Longrightarrow> v \<noteq> k \<Longrightarrow> passes (key k) (CHR 0x22 # v)"
  by (auto simp: passes_def find_key_skip intro!: arg_cong[where f = "\<lambda>f. map_option f _"])

lemma passes_found:
  assumes "passes (key k) A"
  shows "find_in (key k) (A @ key k @ v) = Some (length A)"
proof -
  have "find_in (key k) (A @ CHR 0x22 # (k @ [CHR 0x22] @ v))
      = map_option ((+) (length A)) (find_in (key k) (CHR 0x22 # (k @ [CHR 0x22] @ v)))"
    using assms unfolding passes_def by blast
  then show ?thesis
    by (simp add: key_def quoted_def dquote_def find_in_Cons)
qed

text \<open>The written logger in pieces, each of which starts with a quote.\<close>

lemma render_config_pieces:
  "render_config c =
     ''{'' @ key ''name'' @ '': '' @ quoted (cf_name c) @ '', ''
     @ key ''level'' @ '': '' @ quoted (to_string (cf_level c)) @ '', ''
     @ key ''redact_substrings'' @ '': '' @ quoted (cf_redact_substrings c) @ '', ''
     @ key ''async'' @ '': '' @ show_bool (cf_async c) @ '', ''
     @ key ''redact_cloud_only'' @ '': '' @ show_bool (cf_redact_cloud_only c) @ ''}''"
  by (simp add: render_config_def render_field_def)

abbreviation "piece_name n \<equiv> ''{'' @ key ''name'' @ '': '' @ CHR 0x22 # n"
abbreviation "piece_level n l \<equiv>
  piece_name n @ CHR 0x22 # '', '' @ key ''level'' @ '': '' @ CHR 0x22 # l"
abbreviation "piece_subs n l s \<equiv>
  piece_level n l @ CHR 0x22 # '', '' @ key ''redact_substrings'' @ '': '' @ CHR 0x22 # s"

lemma passes_pieces:
  assumes "k \<in> set config_keys" and "plain_value n" and "plain_value l" and "plain_value s"
  shows "k \<noteq> ''name'' \<Longrightarrow> passes (key k) (piece_name n)"
    and "k \<notin> {''name'', ''level''} \<Longrightarrow> passes (key k) (piece_level n l)"
    and "k \<notin> {''name'', ''level'', ''redact_substrings''} \<Longrightarrow> passes (key k) (piece_subs n l s)"
proof -
  have val: "passes (key k) (CHR 0x22 # x)" if "plain_value x" for x
    using assms(1) that by (intro passes_value) (auto simp: plain_value_def config_keys_def)
  have p1: "passes (key k) (''{'' @ key ''name'' @ '': '')" if "k \<noteq> ''name''"
    using assms(1) that
    by (intro starts_find) (auto simp: config_keys_def key_def quoted_def dquote_def)
  show n: "passes (key k) (piece_name n)" if "k \<noteq> ''name''"
    using passes_append[OF p1[OF that] val[OF assms(2)]] by simp
  have p2: "passes (key k) (CHR 0x22 # '', '' @ key ''level'' @ '': '')" if "k \<noteq> ''level''"
    using assms(1) that
    by (intro starts_find) (auto simp: config_keys_def key_def quoted_def dquote_def)
  show l: "passes (key k) (piece_level n l)" if "k \<notin> {''name'', ''level''}"
    using passes_append[OF passes_append[OF n p2] val[OF assms(3)]] that by simp
  have p3: "passes (key k) (CHR 0x22 # '', '' @ key ''redact_substrings'' @ '': '')"
    if "k \<noteq> ''redact_substrings''"
    using assms(1) that
    by (intro starts_find) (auto simp: config_keys_def key_def quoted_def dquote_def)
  show "passes (key k) (piece_subs n l s)" if "k \<notin> {''name'', ''level'', ''redact_substrings''}"
    using passes_append[OF passes_append[OF l p3] val[OF assms(4)]] that by simp
qed

lemma plain_level: "plain_value (to_string l)"
  by (cases l; hypsubst; code_simp)

lemma passes_comma: "k \<in> set config_keys \<Longrightarrow> passes (key k) (CHR 0x22 # '', '')"
  by (intro starts_find) (auto simp: config_keys_def key_def quoted_def dquote_def)

lemma find_string_level:
  assumes "plain_value n"
  shows "find_string ''level'' (piece_name n @ CHR 0x22 # '', '' @ key ''level'' @ '': '' @ quoted (to_string l) @ r)
    = Some (to_string l)"
proof (rule find_string_at[where pre = "piece_name n @ CHR 0x22 # '', ''"])
  have "passes (key ''level'') (piece_name n @ CHR 0x22 # '', '')"
    using assms by (intro passes_append[OF passes_pieces(1)[where l = "[]" and s = "[]"] passes_comma])
      (simp_all add: config_keys_def plain_value_def)
  from passes_found[OF this] show "find_in (key ''level'') (piece_name n @ CHR 0x22 # '', ''
      @ key ''level'' @ '': '' @ quoted (to_string l) @ r) = Some (length (piece_name n @ CHR 0x22 # '', ''))"
    by simp
  show "CHR 0x22 \<notin> set (to_string l)" using plain_level[of l] by (simp add: plain_value_def)
qed simp_all

lemma render_config_strings:
  assumes "renderable c"
  shows "find_string ''name'' (render_config c) = Some (cf_name c)"
    and "find_string ''level'' (render_config c) = Some (to_string (cf_level c))"
    and "find_string ''redact_substrings'' (render_config c) = Some (cf_redact_substrings c)"
proof -
  let ?n = "cf_name c" and ?l = "to_string (cf_level c)" and ?s = "cf_redact_substrings c"
  have pv: "plain_value ?n" "plain_value ?l" "plain_value ?s"
    using assms plain_level by (auto simp: renderable_def)
  have dq: "CHR 0x22 \<notin> set ?n" "CHR 0x22 \<notin> set ?s" using pv by (auto simp: plain_value_def)
  have "passes (key ''name'') ''{''"
    by (intro starts_find) (simp add: key_def quoted_def dquote_def)
  from passes_found[OF this] show "find_string ''name'' (render_config c) = Some ?n"
    unfolding render_config_pieces using dq(1)
    by (intro find_string_at[where pre = "''{''"]) auto
  show "find_string ''level'' (render_config c) = Some ?l"
    using find_string_level[OF pv(1)] by (simp add: render_config_pieces quoted_def dquote_def)
  let ?pre = "piece_level ?n ?l @ CHR 0x22 # '', ''"
  have "passes (key ''redact_substrings'') ?pre"
    using passes_append[OF passes_pieces(2)[OF _ pv, of "''redact_substrings''"] passes_comma]
    by (simp add: config_keys_def)
  from passes_found[OF this] show "find_string ''redact_substrings'' (render_config c) = Some ?s"
    unfolding render_config_pieces using dq(2)
    by (intro find_string_at[where pre = ?pre]) (simp_all add: quoted_def dquote_def)
qed

lemma find_in_config_absent:
  assumes "renderable c" and "k \<in> {''sinks'', ''redact_regexes'', ''redact_presets''}"
  shows "find_in (key k) (render_config c) = None"
proof -
  let ?pre = "piece_subs (cf_name c) (to_string (cf_level c)) (cf_redact_substrings c)"
  let ?post = "'', '' @ key ''async'' @ '': '' @ show_bool (cf_async c) @ '', ''
     @ key ''redact_cloud_only'' @ '': '' @ show_bool (cf_redact_cloud_only c) @ ''}''"
  have "passes (key k) ?pre"
    using assms plain_level
    by (intro passes_pieces(3)) (auto simp: config_keys_def renderable_def)
  then have "find_in (key k) (?pre @ CHR 0x22 # ?post)
      = map_option ((+) (length ?pre)) (find_in (key k) (CHR 0x22 # ?post))"
    unfolding passes_def by blast
  moreover have "find_in (key k) (CHR 0x22 # ?post) = None"
    using assms(2)
    by (cases "cf_async c"; cases "cf_redact_cloud_only c")
      (auto simp: key_def quoted_def dquote_def show_bool_def find_in_Cons find_in_Nil)
  ultimately show ?thesis by (simp add: render_config_pieces quoted_def dquote_def)
qed

text \<open>The flags stand after all the values.\<close>

lemma find_flag_at:
  assumes "find_in (key k) obj = Some (length pre)" and "obj = pre @ key k @ '': '' @ rest"
    and "CHR '':'' \<notin> set k" and "length obj \<le> obj_end + 1"
  shows "find_flag k obj obj_end = Some (sublist ''true'' ('': '' @ rest))"
proof -
  have "find_from '':'' obj (length pre) = Some (length pre + length (key k))"
    using find_from_char_at[of "CHR '':''" "key k" pre "'' '' @ rest"] assms(2,3)
    by (simp add: key_def quoted_def dquote_def)
  moreover define R where "R = '': '' @ rest"
  then have obj: "obj = (pre @ key k) @ R" using assms(2) by simp
  then have "find_from ''true'' obj (length pre + length (key k))
      = map_option ((+) (length pre + length (key k))) (find_in ''true'' R)"
    by (simp add: find_from_def)
  moreover have "length pre + length (key k) + i < obj_end" if "find_in ''true'' R = Some i" for i
    using find_in_SomeD[OF that] assms(4) by (simp add: obj)
  moreover have "sublist ''true'' R \<longleftrightarrow> find_in ''true'' R \<noteq> None"
    by (simp add: find_in_None_iff)
  ultimately have "find_flag k obj obj_end = Some (sublist ''true'' R)"
    using assms(1) by (cases "find_in ''true'' R") (simp_all add: find_flag_def)
  then show ?thesis by (simp only: R_def)
qed

lemma render_config_flags:
  assumes "renderable c" and "length (render_config c) \<le> e + 1"
  shows "find_flag ''async'' (render_config c) e = Some (cf_async c \<or> cf_redact_cloud_only c)"
    and "find_flag ''redact_cloud_only'' (render_config c) e = Some (cf_redact_cloud_only c)"
proof -
  let ?pre = "piece_subs (cf_name c) (to_string (cf_level c)) (cf_redact_substrings c)
     @ CHR 0x22 # '', ''"
  let ?pre2 = "?pre @ key ''async'' @ '': '' @ show_bool (cf_async c) @ '', ''"
  have pv: "plain_value (cf_name c)" "plain_value (to_string (cf_level c))"
    "plain_value (cf_redact_substrings c)"
    using assms plain_level by (auto simp: renderable_def)
  have p: "passes (key ''async'') ?pre" "passes (key ''redact_cloud_only'') ?pre"
    using passes_append[OF passes_pieces(3)[OF _ pv] passes_comma] by (simp_all add: config_keys_def)
  have "passes (key ''redact_cloud_only'')
      (CHR 0x22 # tl (key ''async'') @ '': '' @ show_bool (cf_async c) @ '', '')"
    by (cases "cf_async c"; intro starts_find)
      (simp_all add: key_def quoted_def dquote_def show_bool_def)
  from passes_append[OF p(2) this] have p2: "passes (key ''redact_cloud_only'') ?pre2"
    by (simp add: key_def quoted_def dquote_def)
  have "find_flag ''async'' (render_config c) e
      = Some (sublist ''true'' ('': '' @ show_bool (cf_async c) @ '', ''
          @ key ''redact_cloud_only'' @ '': '' @ show_bool (cf_redact_cloud_only c) @ ''}''))"
    using passes_found[OF p(1)] assms(2)
    by (intro find_flag_at[where pre = ?pre])
      (simp_all add: render_config_pieces quoted_def dquote_def)
  then show "find_flag ''async'' (render_config c) e = Some (cf_async c \<or> cf_redact_cloud_only c)"
    by (cases "cf_async c"; cases "cf_redact_cloud_only c")
      (simp_all add: key_def quoted_def dquote_def show_bool_def sublist_Cons_right)
  have "find_flag ''redact_cloud_only'' (render_config c) e
      = Some (sublist ''true'' ('': '' @ show_bool (cf_redact_cloud_only c) @ ''}''))"
    using passes_found[OF p2] assms(2)
    by (intro find_flag_at[where pre = ?pre2])
      (simp_all add: render_config_pieces quoted_def dquote_def)
  then show "find_flag ''redact_cloud_only'' (render_config c) e = Some (cf_redact_cloud_only c)"
    by (cases "cf_redact_cloud_only c") (simp_all add: show_bool_def sublist_Cons_right)
qed

text \<open>What is read back: the asynchronous flag is also set by the redaction flag after it.\<close>

definition read_back :: "logger_config \<Rightarrow> logger_config" where
  "read_back c = c\<lparr>cf_async := (cf_async c \<or> cf_redact_cloud_only c)\<rparr>"

lemma parse_rendered_logger:
  assumes "renderable c" and "length (render_config c) \<le> e + 1"
  shows "parse_logger (render_config c) e = read_back c"
proof -
  have n: "find_string k (render_config c) = None" if "k \<in> {''redact_regexes'', ''redact_presets''}" for k
    using find_in_config_absent[OF assms(1), of k] that by (auto simp: find_string_def)
  have s: "parse_sinks (render_config c) c' = c'" for c'
    using find_in_config_absent[OF assms(1), of "''sinks''"] by (simp add: parse_sinks_def)
  have "parse_logger (render_config c) e = default_config\<lparr>cf_name := cf_name c,
      cf_level := cf_level c, cf_async := (cf_async c \<or> cf_redact_cloud_only c),
      cf_redact_substrings := cf_redact_substrings c,
      cf_redact_cloud_only := cf_redact_cloud_only c\<rparr>"
    by (simp add: parse_logger_def render_config_strings[OF assms(1)] n s
        render_config_flags[OF assms] with_string_def default_config_def config_parse_to_string)
  with assms(1) show ?thesis
    by (cases c) (simp add: default_config_def read_back_def renderable_def)
qed

section \<open>The whole text\<close>

lemma render_config_shape:
  obtains body where "render_config c = CHR ''{'' # body @ ''}''"
    and "renderable c \<Longrightarrow> CHR ''}'' \<notin> set body"
proof -
  define body where "body = render_field ''name'' (quoted (cf_name c)) @ '', ''
     @ render_field ''level'' (quoted (to_string (cf_level c))) @ '', ''
     @ render_field ''redact_substrings'' (quoted (cf_redact_substrings c)) @ '', ''
     @ render_field ''async'' (show_bool (cf_async c)) @ '', ''
     @ render_field ''redact_cloud_only'' (show_bool (cf_redact_cloud_only c))"
  have "render_config c = CHR ''{'' # body @ ''}''"
    by (simp add: render_config_def body_def)
  moreover have "CHR ''}'' \<notin> set body" if "renderable c"
    using that plain_level[of "cf_level c"]
    by (auto simp: body_def render_field_def key_def quoted_def dquote_def show_bool_def
        renderable_def plain_value_def)
  ultimately show thesis by (rule that)
qed

lemma parse_loop_skip:
  assumes "length a < length content" and "content ! length a \<notin> {CHR '']'', CHR ''{''}"
  shows "parse_loop content (length a) st = parse_loop content (length a + 1) st"
proof (cases "is_ws (content ! length a)")
  case True
  then have "skip_ws content (length a) = skip_ws content (length a + 1)"
    using assms(1) by (subst skip_ws.simps) simp
  then show ?thesis using assms(1) True
    by (cases "length a + 1 < length content")
      (subst (1 2) parse_loop.simps, simp add: Let_def, subst (1 2) parse_loop.simps,
        simp add: Let_def skip_ws.simps[of content "Suc (length a)"])
next
  case False
  then have "skip_ws content (length a) = length a" by (subst skip_ws.simps) simp
  with assms show ?thesis by (subst parse_loop.simps) (simp add: Let_def)
qed

lemma parse_loop_close:
  "parse_loop (a @ CHR '']'' # b) (length a) st = st"
  by (subst parse_loop.simps) (simp add: Let_def skip_ws.simps is_ws_def nth_append)

lemma parse_loop_object:
  assumes "renderable c"
  shows "parse_loop (a @ render_config c @ b) (length a) st
    = parse_loop (a @ render_config c @ b) (length (a @ render_config c))
        (st\<lparr>ld_configs := ld_configs st @ [read_back c]\<rparr>)"
proof -
  obtain body where body: "render_config c = CHR ''{'' # body @ ''}''" "CHR ''}'' \<notin> set body"
    using render_config_shape[of c] assms by metis
  let ?t = "a @ render_config c @ b"
  have "?t = a @ (CHR ''{'' # body) @ CHR ''}'' # b" using body(1) by simp
  then have close: "find_from ''}'' ?t (length a) = Some (length a + length (CHR ''{'' # body))"
    using body(2) by (simp only:) (rule find_from_char_at, simp)
  have ws: "skip_ws ?t (length a) = length a"
    using body(1) by (subst skip_ws.simps) (simp add: is_ws_def nth_append)
  let ?e = "length a + length (CHR ''{'' # body)"
  have sub: "substr ?t (length a) (?e - length a + 1) = render_config c"
    using body(1) by (simp add: substr_def)
  have pl: "parse_logger (render_config c) ?e = read_back c"
    using body(1) by (intro parse_rendered_logger[OF assms]) simp
  have "cf_name (read_back c) \<noteq> []" using assms by (simp add: read_back_def renderable_def)
  moreover have "length a < length ?t" "?t ! length a = CHR ''{''"
    using body(1) by (simp_all add: nth_append)
  moreover have "?e + 1 = length (a @ render_config c)" using body(1) by simp
  ultimately show ?thesis
    by (subst parse_loop.simps) (simp only: ws close sub pl Let_def if_True if_False option.case,
        simp add: body(1))
qed

lemma parse_loop_list:
  "\<forall>c \<in> set cs. renderable c \<Longrightarrow> cs \<noteq> [] \<Longrightarrow>
     parse_loop (a @ render_list cs @ CHR '']'' # b) (length a) st
     = st\<lparr>ld_configs := ld_configs st @ map read_back cs\<rparr>"
proof (induction cs arbitrary: a st rule: render_list.induct)
  case (2 c)
  then show ?case
    using parse_loop_object[of c a "CHR '']'' # b" st] parse_loop_close[of "a @ render_config c" b]
    by simp
next
  case (3 c d cs)
  let ?st = "st\<lparr>ld_configs := ld_configs st @ [read_back c]\<rparr>"
  let ?rest = "render_list (d # cs) @ CHR '']'' # b"
  let ?t = "a @ render_config c @ '', '' @ ?rest"
  let ?a1 = "a @ render_config c" and ?a2 = "a @ render_config c @ '',''"
  have "parse_loop ?t (length a) st = parse_loop ?t (length ?a1) ?st"
    using 3(2) parse_loop_object[of c a "'', '' @ ?rest" st] by simp
  also have "\<dots> = parse_loop ?t (length ?a2) ?st"
    using parse_loop_skip[of ?a1 ?t ?st] by (simp add: nth_append)
  also have "\<dots> = parse_loop ?t (length (?a2 @ '' '')) ?st"
    using parse_loop_skip[of ?a2 ?t ?st] by (simp add: nth_append)
  also have "\<dots> = ?st\<lparr>ld_configs := ld_configs ?st @ map read_back (d # cs)\<rparr>"
    using 3(1)[of "?a2 @ '' ''" ?st] 3(2) by simp
  finally show ?case by simp
qed simp

text \<open>
  C9. A non-empty list of loggers written in one JSON form (the fields name, level,
  redact_substrings, async, redact_cloud_only, in this order) is read back in order, with every
  name, level, substring setting and \<open>redact_cloud_only\<close> flag, if the values can be written without
  escapes (no quote and no closing brace, and not equal to one of the eight keys; a name that is
  not empty) and nothing else is configured (no sinks, regular expressions or presets); except that
  \<open>redact_cloud_only: true\<close> also makes the logger asynchronous, because the search for the value of
  \<open>async\<close> does not stop at the end of its field.
\<close>

theorem config_roundtrip:
  assumes "\<forall>c \<in> set cs. renderable c" and "cs \<noteq> []"
  shows "load_from_json_string (render_configs cs) st0
    = (True, \<lparr>ld_configs =
        map (\<lambda>c. c\<lparr>cf_async := (cf_async c \<or> cf_redact_cloud_only c)\<rparr>) cs, ld_last_error = []\<rparr>)"
proof -
  let ?a = "''{'' @ key ''loggers'' @ '': [''"
  let ?t = "?a @ render_list cs @ CHR '']'' # ''}''"
  have t: "render_configs cs = ?t" by (simp add: render_configs_def)
  have "passes (key ''loggers'') ''{''"
    by (intro starts_find) (simp add: key_def quoted_def dquote_def)
  from passes_found[OF this] have f: "find_in (key ''loggers'') ?t = Some 1" by simp
  have "find_from [CHR ''[''] (''{'' @ (key ''loggers'' @ '': '') @ CHR ''['' # (render_list cs @ CHR '']'' # ''}''))
      (length ''{'') = Some (length ''{'' + length (key ''loggers'' @ '': ''))"
    by (rule find_from_char_at) (simp add: key_def quoted_def dquote_def)
  then have g: "find_from ''['' ?t 1 = Some (length (''{'' @ key ''loggers'' @ '': ''))"
    by simp
  have "parse_loop ?t (length (''{'' @ key ''loggers'' @ '': '') + 1) \<lparr>ld_configs = [], ld_last_error = []\<rparr>
      = \<lparr>ld_configs = map read_back cs, ld_last_error = []\<rparr>"
    using parse_loop_list[OF assms, of ?a "''}''" "\<lparr>ld_configs = [], ld_last_error = []\<rparr>"] by simp
  then have "parse_json_internal ?t = (True, \<lparr>ld_configs = map read_back cs, ld_last_error = []\<rparr>)"
    unfolding parse_json_internal_def find_from_0 f option.case g Let_def using assms(2) by simp
  then show ?thesis by (simp add: load_from_json_string_def t read_back_def[abs_def])
qed

theorem config_roundtrip_witness:
  "load_from_json_string (render_configs [default_config\<lparr>cf_name := ''app'', cf_redact_cloud_only := True\<rparr>])
     \<lparr>ld_configs = [], ld_last_error = []\<rparr>
   = (True, \<lparr>ld_configs = [default_config\<lparr>cf_name := ''app'', cf_async := True,
        cf_redact_cloud_only := True\<rparr>], ld_last_error = []\<rparr>)"
  using config_roundtrip[of "[default_config\<lparr>cf_name := ''app'', cf_redact_cloud_only := True\<rparr>]"
      "\<lparr>ld_configs = [], ld_last_error = []\<rparr>"]
  by (simp add: renderable_def default_config_def plain_value_def config_keys_def)

end
