(* ===== verification/Hot_Reload.thy ===== *)
theory Hot_Reload
  imports Config
begin

text \<open>
  Hot reload: \<open>src/hot_reload_manager.cpp\<close>, \<open>src/config_watcher.cpp\<close> and their headers.  The watcher's
  thread is the function \<open>watch_step\<close> of one iteration of its loop, given what \<open>stat\<close> returned; a
  reload is given what the configuration file then holds.
\<close>

section \<open>The manager\<close>

record 'w manager =
  hm_path :: string
  hm_loggers :: "(string, 'w logger) omap"
  hm_successes :: u64
  hm_failures :: u64
  hm_last_reload :: time
  hm_loader :: loader
  hm_stdout :: string
  hm_stderr :: string

definition manager_new :: "string \<Rightarrow> loader \<Rightarrow> 'w manager" where
  "manager_new config_path ld =
     \<lparr>hm_path = config_path, hm_loggers = [], hm_successes = 0, hm_failures = 0,
      hm_last_reload = 0, hm_loader = ld, hm_stdout = [], hm_stderr = []\<rparr>"

text \<open>\<^const>\<open>Inl\<close> is an exception that leaves \<open>reload\<close>.\<close>

definition reload ::
    "'w make_ops \<Rightarrow> (string \<Rightarrow> string option) \<Rightarrow> time \<Rightarrow> 'w manager \<times> 'w \<Rightarrow>
       (config_error + unit) \<times> 'w manager \<times> 'w" where
  "reload mk files now st =
     (let (m, w) = st;
          (ok, ld) = load_from_json files (hm_path m) (hm_loader m);
          m1 = m\<lparr>hm_loader := ld\<rparr>
      in if \<not> ok
         then
           (let reason = ld_last_error ld;
                line = ''Failed to reload config: '' @ hm_path m
                  @ (if reason \<noteq> [] then '' (reason: '' @ reason @ '')'' else []) @ newline
            in (Inr (), m1\<lparr>hm_failures := hm_failures m1 + 1, hm_stderr := hm_stderr m1 @ line\<rparr>, w))
         else
           (case create_loggers mk ld w of
              (Inl e, w1) \<Rightarrow> (Inl e, m1, w1)
            | (Inr loggers, w1) \<Rightarrow>
                (Inr (), m1\<lparr>hm_loggers := loggers, hm_last_reload := now,
                   hm_successes := hm_successes m1 + 1,
                   hm_stdout := hm_stdout m1 @ ''Reloaded logger configuration from: ''
                     @ hm_path m @ newline\<rparr>, w1)))"

definition manager_get_logger :: "string \<Rightarrow> 'w manager \<Rightarrow> 'w logger option" where
  "manager_get_logger nm m = omap_get (hm_loggers m) nm"

section \<open>The watcher\<close>

record watcher =
  cw_running :: bool
  cw_last_mtime :: int

definition watcher_new :: watcher where
  "watcher_new = \<lparr>cw_running = False, cw_last_mtime = 0\<rparr>"

definition watcher_start :: "watcher \<Rightarrow> watcher" where
  "watcher_start w = (if cw_running w then w else w\<lparr>cw_running := True\<rparr>)"

definition watcher_stop :: "watcher \<Rightarrow> watcher" where
  "watcher_stop w = w\<lparr>cw_running := False\<rparr>"

text \<open>One iteration of \<open>watch_loop\<close>: \<open>st\<close> is the modification time, \<^const>\<open>None\<close> if \<open>stat\<close> failed.\<close>

definition watch_step :: "(('a \<Rightarrow> 'a)) option \<Rightarrow> int option \<Rightarrow> watcher \<times> 'a \<Rightarrow> watcher \<times> 'a" where
  "watch_step on_change st s =
     (case st of
        None \<Rightarrow> s
      | Some mtime \<Rightarrow>
          (let (w, x) = s;
               w1 = (if cw_last_mtime w = 0 then w\<lparr>cw_last_mtime := mtime\<rparr> else w)
           in if mtime \<noteq> cw_last_mtime w1
              then (w1\<lparr>cw_last_mtime := mtime\<rparr>, case on_change of None \<Rightarrow> x | Some f \<Rightarrow> f x)
              else (w1, x)))"

text \<open>The iterations while the watcher runs.\<close>

fun watch_loop :: "(('a \<Rightarrow> 'a)) option \<Rightarrow> int option list \<Rightarrow> watcher \<times> 'a \<Rightarrow> watcher \<times> 'a" where
  "watch_loop on_change [] s = s"
| "watch_loop on_change (st # sts) s =
     (if cw_running (fst s) then watch_loop on_change sts (watch_step on_change st s) else s)"

text \<open>The manager's \<open>start\<close>: a fresh watcher, a first reload, then the watcher runs.\<close>

definition manager_start ::
    "'w make_ops \<Rightarrow> (string \<Rightarrow> string option) \<Rightarrow> time \<Rightarrow> 'w manager \<times> 'w \<Rightarrow>
       watcher \<times> (config_error + unit) \<times> 'w manager \<times> 'w" where
  "manager_start mk files now st =
     (case reload mk files now st of
        (Inl e, st1) \<Rightarrow> (watcher_new, Inl e, st1)
      | (Inr u, st1) \<Rightarrow> (watcher_start watcher_new, Inr u, st1))"

text \<open>There is no watcher before the first \<open>start\<close>; the destructor stops it as well.\<close>

definition manager_stop :: "watcher option \<Rightarrow> watcher option" where
  "manager_stop w = map_option watcher_stop w"

definition manager_get_all_loggers :: "'w manager \<Rightarrow> (string, 'w logger) omap" where
  "manager_get_all_loggers m = hm_loggers m"

section \<open>What a reload guarantees\<close>

lemma create_loggers_loaded:
  fixes mk :: "'w make_ops"
  assumes "load_from_json files p ld = (True, ld')"
  obtains m w' where "create_loggers mk ld' w = (Inr m, w')"
    and "dom (omap_get m) = cf_name ` set (ld_configs ld')"
    and "\<And>n lg. omap_get m n = Some lg \<Longrightarrow> lg_sink_entries lg = []"
proof -
  obtain cont where "load_from_json_string cont ld = (True, ld')"
    using assms by (auto simp: load_from_json_def split: option.splits)
  from create_loggers_parsed[OF this, of mk w] obtain m w' where
    "create_loggers mk ld' w = (Inr m, w')" "dom (omap_get m) = cf_name ` set (ld_configs ld')"
    and "\<forall>n lg. omap_get m n = Some lg \<longrightarrow> lg_sink_entries lg = [] \<and> (\<exists>c. c \<in> set (ld_configs ld')
      \<and> cf_name c = n \<and> lg = apply_redaction_config c (set_level (cf_level c) (logger_new (mk_temp mk) n)))"
    by (elim exE conjE)
  then show thesis by (intro that; blast)
qed

text \<open>
  C23. A reload never throws.  When the file cannot be opened, or its text yields no logger, the
  loggers in use, the success count and the time of the last reload stay, nothing is created, the
  failure count goes up by one, and the line on the standard error names the file and the reason
  (that the file could not be opened, or the parser's, which is never empty).  Otherwise the
  success count goes up by one, the loggers are those named in the file, none of which has a sink,
  and the standard output says so; nothing else is reported in either case.
\<close>

theorem reload_correct:
  "let ld = (case files (hm_path m) of
               None \<Rightarrow> (hm_loader m)\<lparr>ld_last_error := ''Could not open config file: '' @ hm_path m\<rparr>
             | Some text \<Rightarrow> snd (parse_json_internal text));
       ok = (files (hm_path m) \<noteq> None \<and> ld_configs ld \<noteq> [])
   in case reload mk files now (m, w) of (r, m', w') \<Rightarrow>
     r = Inr () \<and> hm_loader m' = ld
     \<and> (if ok
        then hm_successes m' = hm_successes m + 1 \<and> hm_failures m' = hm_failures m
          \<and> hm_last_reload m' = now
          \<and> (\<forall>n. case manager_get_logger n m' of
                None \<Rightarrow> n \<notin> cf_name ` set (ld_configs ld)
              | Some lg \<Rightarrow> n \<in> cf_name ` set (ld_configs ld) \<and> lg_sink_entries lg = [])
          \<and> hm_stderr m' = hm_stderr m
          \<and> hm_stdout m' = hm_stdout m @ ''Reloaded logger configuration from: '' @ hm_path m @ newline
        else hm_loggers m' = hm_loggers m \<and> hm_successes m' = hm_successes m
          \<and> hm_last_reload m' = hm_last_reload m \<and> hm_failures m' = hm_failures m + 1 \<and> w' = w
          \<and> hm_stdout m' = hm_stdout m \<and> ld_last_error ld \<noteq> []
          \<and> hm_stderr m' = hm_stderr m @ ''Failed to reload config: '' @ hm_path m
              @ '' (reason: '' @ ld_last_error ld @ '')'' @ newline)"
proof -
  define ok where "ok = fst (load_from_json files (hm_path m) (hm_loader m))"
  define ld where "ld = snd (load_from_json files (hm_path m) (hm_loader m))"
  have l: "load_from_json files (hm_path m) (hm_loader m) = (ok, ld)"
    by (simp add: ok_def ld_def)
  have ld: "ld = (case files (hm_path m) of
               None \<Rightarrow> (hm_loader m)\<lparr>ld_last_error := ''Could not open config file: '' @ hm_path m\<rparr>
             | Some text \<Rightarrow> snd (parse_json_internal text))"
    by (simp add: ld_def load_from_json_def load_from_json_string_def split: option.split)
  have ok: "ok = (files (hm_path m) \<noteq> None \<and> ld_configs ld \<noteq> [])" "\<not> ok \<Longrightarrow> ld_last_error ld \<noteq> []"
    using l parse_json_result[of _ ok ld]
    by (auto simp: load_from_json_def load_from_json_string_def split: option.splits)
  show ?thesis
  proof (cases ok)
    case False
    with ok l show ?thesis by (simp add: reload_def Let_def flip: ld)
  next
    case True
    with l have "load_from_json files (hm_path m) (hm_loader m) = (True, ld)" by simp
    from create_loggers_loaded[OF this, of mk w] obtain ls w' where
      c: "create_loggers mk ld w = (Inr ls, w')" "dom (omap_get ls) = cf_name ` set (ld_configs ld)"
        "\<And>n lg. omap_get ls n = Some lg \<Longrightarrow> lg_sink_entries lg = []"
      by blast
    have "case omap_get ls n of None \<Rightarrow> n \<notin> cf_name ` set (ld_configs ld)
        | Some lg \<Rightarrow> n \<in> cf_name ` set (ld_configs ld) \<and> lg_sink_entries lg = []" for n
      using c(2,3) by (auto split: option.split simp flip: c(2))
    with True ok(1) l c(1) show ?thesis
      by (simp add: reload_def Let_def manager_get_logger_def flip: ld)
  qed
qed

text \<open>The readings of a watched file: the modification times, where \<open>stat\<close> succeeds.\<close>

fun changes :: "int \<Rightarrow> int option list \<Rightarrow> nat" where
  "changes prev [] = 0"
| "changes prev (None # sts) = changes prev sts"
| "changes prev (Some t # sts) = (if t \<noteq> prev then 1 else 0) + changes t sts"

lemma watch_loop_changes:
  "cw_running w \<Longrightarrow> cw_last_mtime w \<noteq> 0 \<Longrightarrow> Some 0 \<notin> set sts \<Longrightarrow>
     snd (watch_loop (Some f) sts (w, x)) = (f ^^ changes (cw_last_mtime w) sts) x"
proof (induction sts arbitrary: w x)
  case (Cons st sts)
  show ?case
  proof (cases st)
    case None
    with Cons show ?thesis by (simp add: watch_step_def)
  next
    case (Some t)
    let ?w = "w\<lparr>cw_last_mtime := t\<rparr>"
    have "t \<noteq> 0" using Some Cons.prems(3) by auto
    with Cons.prems have IH: "snd (watch_loop (Some f) sts (?w, y)) = (f ^^ changes t sts) y" for y
      using Cons.IH[of ?w y] by simp
    show ?thesis
    proof (cases "t = cw_last_mtime w")
      case True
      then have "?w = w" by simp
      with Some True Cons.prems IH show ?thesis by (simp add: watch_step_def Let_def)
    next
      case False
      with Some Cons.prems IH show ?thesis
        by (simp add: watch_step_def Let_def funpow_swap1)
    qed
  qed
qed simp

text \<open>
  C24. If no reading is 0 (the time that stands for not read yet), the watcher takes the first
  successful reading as the baseline and calls the callback once for each later reading that
  differs from the one before, ignoring failed readings.
\<close>

theorem watcher_correct:
  assumes "t \<noteq> 0" and "Some 0 \<notin> set sts"
  shows "snd (watch_loop (Some f) (replicate k None @ Some t # sts) (watcher_start watcher_new, x))
    = (f ^^ changes t sts) x"
proof -
  let ?w = "watcher_start watcher_new"
  have w: "cw_running ?w" "cw_last_mtime ?w = 0" by (simp_all add: watcher_start_def watcher_new_def)
  have "watch_loop (Some f) (replicate k None @ Some t # sts) (?w, x)
      = watch_loop (Some f) (Some t # sts) (?w, x)"
    by (induction k) (simp_all add: w(1) watch_step_def)
  also have "\<dots> = watch_loop (Some f) sts (?w\<lparr>cw_last_mtime := t\<rparr>, x)"
    by (simp add: w watch_step_def Let_def)
  finally show ?thesis
    using watch_loop_changes[of "?w\<lparr>cw_last_mtime := t\<rparr>" sts f x] assms w(1) by simp
qed

theorem watcher_correct_witness:
  "snd (watch_loop (Some Suc) [None, Some 5, Some 5, None, Some 6, Some 7]
     (watcher_start watcher_new, 0)) = 2"
  using watcher_correct[of 5 "[Some 5, None, Some 6, Some 7]" Suc 1 0] by simp

text \<open>
  A reading of 0 (a file dated 1970, as reproducible archives have them) is taken for no reading:
  the next one becomes the baseline and its change goes unnoticed.
\<close>

lemma epoch_change_missed:
  "snd (watch_loop (Some Suc) [Some 5, Some 0, Some 9] (watcher_start watcher_new, 0)) = 1
   \<and> changes 5 [Some 0, Some 9] = 2"
  by (simp add: watch_step_def watcher_start_def watcher_new_def)

end
