(* ===== verification/Log_Health.thy ===== *)
theory Log_Health
  imports Log_Metrics Formatter
begin

text \<open>
  Health checks: \<open>include/Zyrnix/log_health.hpp\<close> and \<open>src/log_health.cpp\<close>.  A health checker is its
  configuration.  The registry holds weak pointers; which of them are alive at a call is the
  argument \<open>alive\<close>.  A result whose numbers the code leaves uninitialised takes them from the
  argument \<open>garbage\<close>.
\<close>

section \<open>Status, configuration, result\<close>

datatype health_status = Healthy | Degraded | Unhealthy

instantiation health_status :: linorder
begin

primrec severity :: "health_status \<Rightarrow> nat" where
  "severity Healthy = 0" | "severity Degraded = 1" | "severity Unhealthy = 2"

definition less_eq_health_status :: "health_status \<Rightarrow> health_status \<Rightarrow> bool" where
  "less_eq_health_status a b \<longleftrightarrow> severity a \<le> severity b"

definition less_health_status :: "health_status \<Rightarrow> health_status \<Rightarrow> bool" where
  "less_health_status a b \<longleftrightarrow> severity a < severity b"

instance
proof
  fix a b c :: health_status
  show "a < b \<longleftrightarrow> a \<le> b \<and> \<not> b \<le> a"
    by (auto simp: less_eq_health_status_def less_health_status_def)
  show "a \<le> a" by (simp add: less_eq_health_status_def)
  show "a \<le> b \<Longrightarrow> b \<le> c \<Longrightarrow> a \<le> c" by (simp add: less_eq_health_status_def)
  show "a \<le> b \<Longrightarrow> b \<le> a \<Longrightarrow> a = b"
    by (cases a; cases b) (simp_all add: less_eq_health_status_def)
  show "a \<le> b \<or> b \<le> a" by (auto simp: less_eq_health_status_def)
qed

end

record health_config =
  hc_max_drop_rate_healthy :: double
  hc_max_drop_rate_degraded :: double
  hc_max_error_rate_healthy :: double
  hc_max_error_rate_degraded :: double
  hc_max_latency_us_healthy :: u64
  hc_max_latency_us_degraded :: u64
  hc_max_queue_usage_healthy :: double
  hc_max_queue_usage_degraded :: double

definition health_config_default :: health_config where
  "health_config_default =
     \<lparr>hc_max_drop_rate_healthy = fl (1 / 100), hc_max_drop_rate_degraded = fl (5 / 100),
      hc_max_error_rate_healthy = fl (1 / 1000), hc_max_error_rate_degraded = fl (1 / 100),
      hc_max_latency_us_healthy = 10000, hc_max_latency_us_degraded = 50000,
      hc_max_queue_usage_healthy = fl (7 / 10), hc_max_queue_usage_degraded = fl (9 / 10)\<rparr>"

record health_result =
  hr_status :: health_status
  hr_message :: string
  hr_timestamp :: time
  hr_messages_logged :: u64
  hr_messages_dropped :: u64
  hr_messages_filtered :: u64
  hr_errors :: u64
  hr_messages_per_second :: double
  hr_avg_latency_us :: double
  hr_max_latency_us :: u64
  hr_queue_depth :: u64
  hr_max_queue_depth :: u64
  hr_drop_rate :: double
  hr_error_rate :: double
  hr_queue_full_warning :: bool
  hr_high_latency_warning :: bool
  hr_last_error_message :: string
  hr_last_error_time :: time

section \<open>The checker\<close>

definition determine_status ::
    "health_config \<Rightarrow> double \<Rightarrow> double \<Rightarrow> u64 \<Rightarrow> double \<Rightarrow> health_status" where
  "determine_status c drop_rate error_rate max_latency queue_usage =
     (if drop_rate > hc_max_drop_rate_degraded c \<or> error_rate > hc_max_error_rate_degraded c
         \<or> max_latency > hc_max_latency_us_degraded c
         \<or> queue_usage > hc_max_queue_usage_degraded c
      then Unhealthy
      else if drop_rate > hc_max_drop_rate_healthy c \<or> error_rate > hc_max_error_rate_healthy c
         \<or> max_latency > hc_max_latency_us_healthy c
         \<or> queue_usage > hc_max_queue_usage_healthy c
      then Degraded
      else Healthy)"

definition percent :: "double \<Rightarrow> string" where
  "percent x = show_general (fl (x * 100))"

text \<open>The Greek letter of the microsecond in UTF-8.\<close>

definition mu_s :: string where "mu_s = [CHR 0xCE, CHR 0xBC, CHR ''s'']"

definition health_message ::
    "health_config \<Rightarrow> health_status \<Rightarrow> double \<Rightarrow> double \<Rightarrow> u64 \<Rightarrow> double \<Rightarrow> string" where
  "health_message c status drop_rate error_rate max_latency queue_usage =
     (case status of
        Healthy \<Rightarrow> ''All systems operational''
      | Degraded \<Rightarrow>
          ''Performance degraded: ''
          @ (if drop_rate > hc_max_drop_rate_healthy c
             then ''high drop rate ('' @ percent drop_rate @ ''%) '' else [])
          @ (if error_rate > hc_max_error_rate_healthy c
             then ''high error rate ('' @ percent error_rate @ ''%) '' else [])
          @ (if max_latency > hc_max_latency_us_healthy c
             then ''high latency ('' @ show_u64 max_latency @ mu_s @ '') '' else [])
          @ (if queue_usage > hc_max_queue_usage_healthy c
             then ''queue usage ('' @ percent queue_usage @ ''%) '' else [])
      | Unhealthy \<Rightarrow>
          ''Critical issues detected: ''
          @ (if drop_rate > hc_max_drop_rate_degraded c
             then ''critical drop rate ('' @ percent drop_rate @ ''%) '' else [])
          @ (if error_rate > hc_max_error_rate_degraded c
             then ''critical error rate ('' @ percent error_rate @ ''%) '' else [])
          @ (if max_latency > hc_max_latency_us_degraded c
             then ''critical latency ('' @ show_u64 max_latency @ mu_s @ '') '' else [])
          @ (if queue_usage > hc_max_queue_usage_degraded c
             then ''queue near capacity ('' @ percent queue_usage @ ''%) '' else []))"

text \<open>The clock is read for the timestamp and then by the snapshot.\<close>

definition check_metrics :: "health_config \<Rightarrow> clock \<Rightarrow> log_metrics \<Rightarrow> u64 \<Rightarrow> health_result" where
  "check_metrics c clk metrics queue_capacity =
     (let sn = get_snapshot (\<lambda>n. clk (n + 1)) metrics;
          total_attempts = sn_messages_logged sn + sn_messages_dropped sn;
          drop_rate = (if total_attempts > 0
            then fl (u64_double (sn_messages_dropped sn) / u64_double total_attempts) else 0);
          error_rate = (if sn_messages_logged sn > 0
            then fl (u64_double (sn_errors sn) / u64_double (sn_messages_logged sn)) else 0);
          queue_usage = (if queue_capacity > 0
            then fl (u64_double (sn_current_queue_depth sn) / u64_double queue_capacity) else 0);
          max_latency = sn_max_log_latency_us sn;
          status = determine_status c drop_rate error_rate max_latency queue_usage
      in \<lparr>hr_status = status,
          hr_message = health_message c status drop_rate error_rate max_latency queue_usage,
          hr_timestamp = clk 0, hr_messages_logged = sn_messages_logged sn,
          hr_messages_dropped = sn_messages_dropped sn,
          hr_messages_filtered = sn_messages_filtered sn, hr_errors = sn_errors sn,
          hr_messages_per_second = sn_messages_per_second sn,
          hr_avg_latency_us = sn_avg_log_latency_us sn, hr_max_latency_us = max_latency,
          hr_queue_depth = sn_current_queue_depth sn, hr_max_queue_depth = sn_max_queue_depth sn,
          hr_drop_rate = drop_rate, hr_error_rate = error_rate,
          hr_queue_full_warning = (queue_usage \<ge> hc_max_queue_usage_degraded c),
          hr_high_latency_warning = (max_latency \<ge> hc_max_latency_us_degraded c),
          hr_last_error_message = [], hr_last_error_time = 0\<rparr>)"

definition checker_set_config :: "health_config \<Rightarrow> health_config \<Rightarrow> health_config" where
  "checker_set_config config c = config"

definition checker_check_logger :: "health_config \<Rightarrow> clock \<Rightarrow> log_metrics \<Rightarrow> health_result" where
  "checker_check_logger c clk metrics = check_metrics c clk metrics 10000"

section \<open>A result as text\<close>

definition status_lower :: "health_status \<Rightarrow> string" where
  "status_lower s = (case s of Healthy \<Rightarrow> ''healthy'' | Degraded \<Rightarrow> ''degraded''
     | Unhealthy \<Rightarrow> ''unhealthy'')"

definition status_upper :: "health_status \<Rightarrow> string" where
  "status_upper s = (case s of Healthy \<Rightarrow> ''HEALTHY'' | Degraded \<Rightarrow> ''DEGRADED''
     | Unhealthy \<Rightarrow> ''UNHEALTHY'')"

definition iso_time :: "time \<Rightarrow> string" where
  "iso_time t = (let s = to_time_t t in put_date s @ ''T'' @ put_clock s @ ''Z'')"

definition json_line :: "nat \<Rightarrow> string \<Rightarrow> string \<Rightarrow> string" where
  "json_line indent k v = replicate indent CHR '' '' @ quoted k @ '': '' @ v @ newline"

definition result_to_json :: "health_result \<Rightarrow> string" where
  "result_to_json r =
     ''{'' @ newline
     @ json_line 2 ''status'' (quoted (status_lower (hr_status r)) @ '','')
     @ json_line 2 ''message'' (quoted (hr_message r) @ '','')
     @ json_line 2 ''timestamp'' (quoted (iso_time (hr_timestamp r)) @ '','')
     @ json_line 2 ''metrics'' ''{''
     @ json_line 4 ''messages_logged'' (show_u64 (hr_messages_logged r) @ '','')
     @ json_line 4 ''messages_dropped'' (show_u64 (hr_messages_dropped r) @ '','')
     @ json_line 4 ''messages_filtered'' (show_u64 (hr_messages_filtered r) @ '','')
     @ json_line 4 ''errors'' (show_u64 (hr_errors r) @ '','')
     @ json_line 4 ''messages_per_second'' (show_fixed2 (hr_messages_per_second r) @ '','')
     @ json_line 4 ''avg_latency_us'' (show_fixed2 (hr_avg_latency_us r) @ '','')
     @ json_line 4 ''max_latency_us'' (show_u64 (hr_max_latency_us r) @ '','')
     @ json_line 4 ''queue_depth'' (show_u64 (hr_queue_depth r) @ '','')
     @ json_line 4 ''max_queue_depth'' (show_u64 (hr_max_queue_depth r))
     @ ''  },'' @ newline
     @ json_line 2 ''indicators'' ''{''
     @ json_line 4 ''drop_rate'' (show_fixed2 (fl (hr_drop_rate r * 100)) @ '','')
     @ json_line 4 ''error_rate'' (show_fixed2 (fl (hr_error_rate r * 100)) @ '','')
     @ json_line 4 ''queue_full_warning'' (show_bool (hr_queue_full_warning r) @ '','')
     @ json_line 4 ''high_latency_warning'' (show_bool (hr_high_latency_warning r) @ '','')
     @ (if hr_last_error_message r \<noteq> []
        then json_line 4 ''last_error_message'' (quoted (hr_last_error_message r) @ '','')
          @ json_line 4 ''last_error_time'' (quoted (iso_time (hr_last_error_time r)))
        else json_line 4 ''last_error_message'' ''null'')
     @ ''  }'' @ newline @ ''}''"

text \<open>The warning sign and the variation selector in UTF-8, two blanks, the word.\<close>

definition warning_sign :: string where
  "warning_sign = [CHR 0xE2, CHR 0x9A, CHR 0xA0, CHR 0xEF, CHR 0xB8, CHR 0x8F] @ ''  Warning: ''"

definition result_to_string :: "health_result \<Rightarrow> string" where
  "result_to_string r =
     ''Health Status: '' @ status_upper (hr_status r) @ newline
     @ ''Message: '' @ hr_message r @ newline
     @ ''Messages Logged: '' @ show_u64 (hr_messages_logged r) @ newline
     @ ''Messages Dropped: '' @ show_u64 (hr_messages_dropped r)
       @ '' ('' @ percent (hr_drop_rate r) @ ''%)'' @ newline
     @ ''Messages Filtered: '' @ show_u64 (hr_messages_filtered r) @ newline
     @ ''Errors: '' @ show_u64 (hr_errors r) @ '' ('' @ percent (hr_error_rate r) @ ''%)'' @ newline
     @ ''Throughput: '' @ show_general (hr_messages_per_second r) @ '' msg/sec'' @ newline
     @ ''Avg Latency: '' @ show_general (hr_avg_latency_us r) @ '' '' @ mu_s @ newline
     @ ''Max Latency: '' @ show_u64 (hr_max_latency_us r) @ '' '' @ mu_s @ newline
     @ ''Queue Depth: '' @ show_u64 (hr_queue_depth r) @ ''/'' @ show_u64 (hr_max_queue_depth r)
       @ newline
     @ (if hr_queue_full_warning r then warning_sign @ ''Queue near capacity'' @ newline else [])
     @ (if hr_high_latency_warning r then warning_sign @ ''High latency detected'' @ newline else [])"

section \<open>The registry\<close>

record health_entry =
  he_logger :: nat
  he_custom :: "health_config option"
  he_last_status :: health_status
  he_last_error_message :: string
  he_last_error_time :: time

type_synonym 'w state_change_callback =
  "string \<Rightarrow> health_status \<Rightarrow> health_status \<Rightarrow> health_result \<Rightarrow> 'w \<Rightarrow> 'w"

record 'w health_registry =
  hg_loggers :: "(string, health_entry) omap"
  hg_checker :: health_config
  hg_callbacks :: "'w state_change_callback list"
  hg_auto :: bool

definition health_registry_new :: "'w health_registry" where
  "health_registry_new =
     \<lparr>hg_loggers = [], hg_checker = health_config_default, hg_callbacks = [], hg_auto = False\<rparr>"

definition entry_new :: "nat \<Rightarrow> health_config option \<Rightarrow> health_entry" where
  "entry_new logger custom =
     \<lparr>he_logger = logger, he_custom = custom, he_last_status = Healthy,
      he_last_error_message = [], he_last_error_time = 0\<rparr>"

definition register_logger :: "string \<Rightarrow> nat \<Rightarrow> 'w health_registry \<Rightarrow> 'w health_registry" where
  "register_logger nm logger g =
     g\<lparr>hg_loggers := omap_put nm (entry_new logger None) (hg_loggers g)\<rparr>"

definition register_logger_with ::
    "string \<Rightarrow> nat \<Rightarrow> health_config \<Rightarrow> 'w health_registry \<Rightarrow> 'w health_registry" where
  "register_logger_with nm logger c g =
     g\<lparr>hg_loggers := omap_put nm (entry_new logger (Some c)) (hg_loggers g)\<rparr>"

definition unregister_logger :: "string \<Rightarrow> 'w health_registry \<Rightarrow> 'w health_registry" where
  "unregister_logger nm g = g\<lparr>hg_loggers := omap_erase nm (hg_loggers g)\<rparr>"

definition set_health_checker :: "health_config \<Rightarrow> 'w health_registry \<Rightarrow> 'w health_registry" where
  "set_health_checker c g = g\<lparr>hg_checker := c\<rparr>"

definition set_logger_config :: "string \<Rightarrow> health_config \<Rightarrow> 'w health_registry \<Rightarrow> 'w health_registry" where
  "set_logger_config nm c g =
     (case omap_get (hg_loggers g) nm of
        None \<Rightarrow> g
      | Some e \<Rightarrow> g\<lparr>hg_loggers := omap_put nm (e\<lparr>he_custom := Some c\<rparr>) (hg_loggers g)\<rparr>)"

definition health_record_error ::
    "time \<Rightarrow> string \<Rightarrow> string \<Rightarrow> 'w health_registry \<Rightarrow> 'w health_registry" where
  "health_record_error now nm error_message g =
     (case omap_get (hg_loggers g) nm of
        None \<Rightarrow> g
      | Some e \<Rightarrow> g\<lparr>hg_loggers := omap_put nm
          (e\<lparr>he_last_error_message := error_message, he_last_error_time := now\<rparr>) (hg_loggers g)\<rparr>)"

definition register_state_change_callback ::
    "'w state_change_callback \<Rightarrow> 'w health_registry \<Rightarrow> 'w health_registry" where
  "register_state_change_callback f g = g\<lparr>hg_callbacks := hg_callbacks g @ [f]\<rparr>"

definition clear_state_change_callbacks :: "'w health_registry \<Rightarrow> 'w health_registry" where
  "clear_state_change_callbacks g = g\<lparr>hg_callbacks := []\<rparr>"

text \<open>Private, and called by no function of the sources.\<close>

definition notify_state_change ::
    "string \<Rightarrow> health_status \<Rightarrow> health_status \<Rightarrow> health_result \<Rightarrow> 'w health_registry \<Rightarrow> 'w \<Rightarrow> 'w" where
  "notify_state_change nm old_status new_status r g w =
     foldl (\<lambda>w f. f nm old_status new_status r w) w (hg_callbacks g)"

definition enable_auto_registration :: "bool \<Rightarrow> 'w health_registry \<Rightarrow> 'w health_registry" where
  "enable_auto_registration b g = g\<lparr>hg_auto := b\<rparr>"

definition auto_register :: "string \<Rightarrow> nat \<Rightarrow> 'w health_registry \<Rightarrow> 'w health_registry" where
  "auto_register nm logger g = (if hg_auto g then register_logger nm logger g else g)"

text \<open>A check of a live entry: the metrics are a local object, made on the spot.\<close>

definition check_entry :: "clock \<Rightarrow> health_config \<Rightarrow> health_entry \<Rightarrow> health_result" where
  "check_entry clk default_checker e =
     (let checker = (case he_custom e of Some c \<Rightarrow> c | None \<Rightarrow> default_checker);
          metrics = log_metrics_new (clk 0);
          r = checker_check_logger checker (\<lambda>n. clk (n + 1)) metrics
      in r\<lparr>hr_last_error_message := he_last_error_message e,
           hr_last_error_time := he_last_error_time e\<rparr>)"

definition registry_check_logger ::
    "clock \<Rightarrow> (nat \<Rightarrow> bool) \<Rightarrow> health_result \<Rightarrow> string \<Rightarrow> 'w health_registry \<Rightarrow> health_result" where
  "registry_check_logger clk alive garbage nm g =
     (case omap_get (hg_loggers g) nm of
        None \<Rightarrow> garbage\<lparr>hr_status := Unhealthy, hr_message := ''Logger not found: '' @ nm,
                        hr_timestamp := clk 0, hr_last_error_message := [], hr_last_error_time := 0\<rparr>
      | Some e \<Rightarrow>
          if \<not> alive (he_logger e)
          then garbage\<lparr>hr_status := Unhealthy, hr_message := ''Logger expired: '' @ nm,
                       hr_timestamp := clk 0, hr_last_error_message := [], hr_last_error_time := 0\<rparr>
          else check_entry clk (hg_checker g) e)"

definition check_all ::
    "(string \<Rightarrow> clock) \<Rightarrow> (nat \<Rightarrow> bool) \<Rightarrow> 'w health_registry \<Rightarrow> (string, health_result) omap" where
  "check_all clks alive g =
     foldl (\<lambda>results (nm, e).
        if alive (he_logger e) then omap_put nm (check_entry (clks nm) (hg_checker g) e) results
        else results) [] (hg_loggers g)"

definition overall_of :: "(string, health_result) omap \<Rightarrow> health_status" where
  "overall_of results =
     (let has_unhealthy = list_ex (\<lambda>(nm, r). hr_status r = Unhealthy) results;
          has_degraded = list_ex (\<lambda>(nm, r). hr_status r = Degraded) results
      in if results = [] then Healthy
         else if has_unhealthy then Unhealthy
         else if has_degraded then Degraded
         else Healthy)"

definition get_overall_status ::
    "(string \<Rightarrow> clock) \<Rightarrow> (nat \<Rightarrow> bool) \<Rightarrow> 'w health_registry \<Rightarrow> health_status" where
  "get_overall_status clks alive g = overall_of (check_all clks alive g)"

text \<open>\<open>std::getline\<close> on a text that does not end with a newline.\<close>

fun text_lines :: "string \<Rightarrow> string list" where
  "text_lines [] = []"
| "text_lines (c # s) =
     (if c = CHR 0x0A then [] # text_lines s
      else (case text_lines s of [] \<Rightarrow> [[c]] | l # ls \<Rightarrow> (c # l) # ls))"

fun joined_lines :: "string list \<Rightarrow> string" where
  "joined_lines [] = []"
| "joined_lines [l] = l"
| "joined_lines (l # ls) = l @ newline @ joined_lines ls"

definition indented :: "string \<Rightarrow> string" where
  "indented s =
     joined_lines (map (\<lambda>l. if l = [] then [] else replicate 6 CHR '' '' @ l) (text_lines s))"

fun separated_by :: "string \<Rightarrow> string list \<Rightarrow> string" where
  "separated_by sep [] = []"
| "separated_by sep [x] = x"
| "separated_by sep (x # xs) = x @ sep @ separated_by sep xs"

text \<open>\<open>export_json\<close> checks everything twice: for the list, and for the overall status.\<close>

definition health_export_json ::
    "(string \<Rightarrow> clock) \<Rightarrow> (string \<Rightarrow> clock) \<Rightarrow> (nat \<Rightarrow> bool) \<Rightarrow> 'w health_registry \<Rightarrow> string" where
  "health_export_json clks clks2 alive g =
     (let results = check_all clks alive g in
      ''{'' @ newline
      @ json_line 2 ''overall_status'' (quoted (status_lower (get_overall_status clks2 alive g)) @ '','')
      @ json_line 2 ''loggers'' ''[''
      @ separated_by ('','' @ newline)
          (map (\<lambda>(nm, r). ''    {'' @ newline @ json_line 6 ''name'' (quoted nm @ '','')
                  @ indented (result_to_json r) @ newline @ ''    }'') results)
      @ newline @ ''  ]'' @ newline @ ''}'')"

section \<open>Aggregate results\<close>

record aggregate =
  ag_overall :: health_status
  ag_timestamp :: time
  ag_total :: nat
  ag_healthy :: nat
  ag_degraded :: nat
  ag_unhealthy :: nat
  ag_messages_logged :: u64
  ag_messages_dropped :: u64
  ag_errors :: u64
  ag_messages_per_second :: double
  ag_worst_name :: string
  ag_worst_status :: health_status
  ag_results :: "(string, health_result) omap"

definition aggregate_start :: "time \<Rightarrow> (string, health_result) omap \<Rightarrow> aggregate" where
  "aggregate_start now results =
     \<lparr>ag_overall = Healthy, ag_timestamp = now, ag_total = length results, ag_healthy = 0,
      ag_degraded = 0, ag_unhealthy = 0, ag_messages_logged = 0, ag_messages_dropped = 0,
      ag_errors = 0, ag_messages_per_second = 0, ag_worst_name = [], ag_worst_status = Healthy,
      ag_results = results\<rparr>"

definition aggregate_add :: "string \<times> health_result \<Rightarrow> aggregate \<Rightarrow> aggregate" where
  "aggregate_add nr a =
     (let (nm, r) = nr;
          b = a\<lparr>ag_messages_logged := ag_messages_logged a + hr_messages_logged r,
                ag_messages_dropped := ag_messages_dropped a + hr_messages_dropped r,
                ag_errors := ag_errors a + hr_errors r,
                ag_messages_per_second := fl (ag_messages_per_second a + hr_messages_per_second r)\<rparr>
      in (case hr_status r of
            Healthy \<Rightarrow> b\<lparr>ag_healthy := ag_healthy b + 1\<rparr>
          | Degraded \<Rightarrow>
              (let c = b\<lparr>ag_degraded := ag_degraded b + 1\<rparr> in
               if ag_worst_status c = Healthy
               then c\<lparr>ag_worst_name := nm, ag_worst_status := Degraded\<rparr> else c)
          | Unhealthy \<Rightarrow>
              (let c = b\<lparr>ag_unhealthy := ag_unhealthy b + 1\<rparr> in
               if ag_worst_status c \<noteq> Unhealthy
               then c\<lparr>ag_worst_name := nm, ag_worst_status := Unhealthy\<rparr> else c)))"

definition aggregate_results :: "time \<Rightarrow> (string, health_result) omap \<Rightarrow> aggregate" where
  "aggregate_results now results =
     (let a = foldl (\<lambda>a nr. aggregate_add nr a) (aggregate_start now results) results in
      a\<lparr>ag_overall := (if ag_unhealthy a > 0 then Unhealthy
                       else if ag_degraded a > 0 then Degraded else Healthy)\<rparr>)"

definition check_all_aggregate ::
    "(string \<Rightarrow> clock) \<Rightarrow> time \<Rightarrow> (nat \<Rightarrow> bool) \<Rightarrow> 'w health_registry \<Rightarrow> aggregate" where
  "check_all_aggregate clks now alive g = aggregate_results now (check_all clks alive g)"

definition aggregate_to_json :: "aggregate \<Rightarrow> string" where
  "aggregate_to_json a =
     ''{'' @ newline
     @ json_line 2 ''overall_status'' (quoted (status_lower (ag_overall a)) @ '','')
     @ json_line 2 ''timestamp'' (quoted (iso_time (ag_timestamp a)) @ '','')
     @ json_line 2 ''summary'' ''{''
     @ json_line 4 ''total_loggers'' (show_nat (ag_total a) @ '','')
     @ json_line 4 ''healthy'' (show_nat (ag_healthy a) @ '','')
     @ json_line 4 ''degraded'' (show_nat (ag_degraded a) @ '','')
     @ json_line 4 ''unhealthy'' (show_nat (ag_unhealthy a))
     @ ''  },'' @ newline
     @ json_line 2 ''aggregate_metrics'' ''{''
     @ json_line 4 ''total_messages_logged'' (show_u64 (ag_messages_logged a) @ '','')
     @ json_line 4 ''total_messages_dropped'' (show_u64 (ag_messages_dropped a) @ '','')
     @ json_line 4 ''total_errors'' (show_u64 (ag_errors a) @ '','')
     @ json_line 4 ''avg_messages_per_second'' (show_fixed2 (ag_messages_per_second a))
     @ ''  },'' @ newline
     @ (if ag_worst_name a \<noteq> [] \<and> ag_worst_status a \<noteq> Healthy
        then json_line 2 ''worst_logger'' ''{''
          @ json_line 4 ''name'' (quoted (ag_worst_name a) @ '','')
          @ json_line 4 ''status'' (quoted (status_lower (ag_worst_status a)))
          @ ''  },'' @ newline
        else [])
     @ json_line 2 ''loggers'' (show_nat (length (ag_results a))) @ ''}''"

definition aggregate_to_string :: "aggregate \<Rightarrow> string" where
  "aggregate_to_string a =
     ''=== Aggregate Health Check ==='' @ newline
     @ ''Overall Status: '' @ status_upper (ag_overall a) @ nl2
     @ ''Loggers: '' @ show_nat (ag_total a) @ '' total'' @ newline
     @ ''  - Healthy: '' @ show_nat (ag_healthy a) @ newline
     @ ''  - Degraded: '' @ show_nat (ag_degraded a) @ newline
     @ ''  - Unhealthy: '' @ show_nat (ag_unhealthy a) @ nl2
     @ ''Aggregate Metrics:'' @ newline
     @ ''  - Total Messages: '' @ show_u64 (ag_messages_logged a) @ newline
     @ ''  - Total Dropped: '' @ show_u64 (ag_messages_dropped a) @ newline
     @ ''  - Total Errors: '' @ show_u64 (ag_errors a) @ newline
     @ ''  - Throughput: '' @ show_general (ag_messages_per_second a) @ '' msg/sec'' @ newline
     @ (if ag_worst_name a \<noteq> [] \<and> ag_worst_status a \<noteq> Healthy
        then newline @ ''Worst Performing Logger: '' @ ag_worst_name a @ '' (''
          @ status_upper (ag_worst_status a) @ '')'' @ newline
        else [])"

definition handle_health_check_request ::
    "(string \<Rightarrow> clock) \<Rightarrow> (string \<Rightarrow> clock) \<Rightarrow> (nat \<Rightarrow> bool) \<Rightarrow> health_result \<Rightarrow> string
      \<Rightarrow> 'w health_registry \<Rightarrow> string" where
  "handle_health_check_request clks clks2 alive garbage logger_name g =
     (if logger_name = [] then health_export_json clks clks2 alive g
      else result_to_json (registry_check_logger (clks logger_name) alive garbage logger_name g))"

section \<open>What the checker shows\<close>

lemma determine_status_mono:
  assumes "d \<le> d'" and "e \<le> e'" and "l \<le> l'" and "q \<le> q'"
  shows "determine_status c d e l q \<le> determine_status c d' e' l' q'"
  using assms
  by (auto simp: determine_status_def less_eq_health_status_def dest: less_le_trans)

lemma ratio_mono:
  fixes a b b' :: nat
  assumes "b \<le> b'"
  shows "of_nat b / of_nat (a + b) \<le> (of_nat b' / of_nat (a + b') :: rat)"
proof (cases "b = 0")
  case False
  with assms have "(0::rat) < of_nat (a + b)" "(0::rat) < of_nat (a + b')"
    by (simp_all only: of_nat_0_less_iff)
  moreover have "b * (a + b') \<le> b' * (a + b)" using assms by (simp add: algebra_simps)
  then have "(of_nat (b * (a + b')) :: rat) \<le> of_nat (b' * (a + b))" by (simp only: of_nat_le_iff)
  ultimately show ?thesis by (simp add: divide_simps)
qed simp

lemma drop_rate_exact:
  assumes "unat l + unat d \<le> 2 ^ 53"
  shows "(if l + d > 0 then fl (u64_double d / u64_double (l + d)) else 0)
    = fl (of_nat (unat d) / of_nat (unat l + unat d))"
proof -
  have s: "unat (l + d) = unat l + unat d"
    using assms by (simp add: unat_word_ariths)
  have "u64_double d = of_nat (unat d)"
    unfolding u64_double_def using assms by (intro fl_nat) linarith
  moreover have "u64_double (l + d) = of_nat (unat l + unat d)"
    unfolding u64_double_def s using assms by (rule fl_nat)
  moreover have "fl (of_nat (unat d) / of_nat (unat l + unat d)) = 0" if "\<not> l + d > 0"
  proof -
    have "unat (l + d) = 0" using that by (simp add: word_less_nat_alt)
    with s show ?thesis by simp
  qed
  ultimately show ?thesis by auto
qed

text \<open>
  Dropping more messages never improves a logger's health: with everything else equal, and
  counts a \<open>double\<close> represents, the drop rate lies between 0 and 1 and a greater number of
  dropped messages gives a drop rate that is no lower and a status that is no better.
\<close>

theorem dropping_never_heals:
  assumes "unat (mt_messages_logged m) + unat d' \<le> 2 ^ 53" and "d \<le> d'"
    and "r = check_metrics c clk (m\<lparr>mt_messages_dropped := d\<rparr>) cap"
    and "r' = check_metrics c clk (m\<lparr>mt_messages_dropped := d'\<rparr>) cap"
  shows "0 \<le> hr_drop_rate r \<and> hr_drop_rate r \<le> hr_drop_rate r' \<and> hr_drop_rate r' \<le> 1
    \<and> hr_status r \<le> hr_status r'"
proof -
  let ?l = "mt_messages_logged m"
  have le: "unat d \<le> unat d'" using assms(2) by (simp add: word_le_nat_alt)
  with assms(1) have b: "unat ?l + unat d \<le> 2 ^ 53" by simp
  have "hr_drop_rate r = (if ?l + d > 0 then fl (u64_double d / u64_double (?l + d)) else 0)"
    "hr_drop_rate r' = (if ?l + d' > 0 then fl (u64_double d' / u64_double (?l + d')) else 0)"
    unfolding assms(3,4) by (simp_all add: check_metrics_def Let_def get_snapshot_def)
  then have rate: "hr_drop_rate r = fl (of_nat (unat d) / of_nat (unat ?l + unat d))"
    "hr_drop_rate r' = fl (of_nat (unat d') / of_nat (unat ?l + unat d'))"
    by (simp_all only: drop_rate_exact[OF b] drop_rate_exact[OF assms(1)])
  have mono: "hr_drop_rate r \<le> hr_drop_rate r'"
    unfolding rate using ratio_mono[OF le] by (rule fl_mono)
  have "of_nat (unat d') \<le> (of_nat (unat ?l + unat d') :: rat)" by (simp only: of_nat_le_iff)
  then have "of_nat (unat d') / of_nat (unat ?l + unat d') \<le> (1::rat)"
    by (simp only: divide_le_eq_1) (metis le_less of_nat_0_le_iff)
  then have "hr_drop_rate r' \<le> fl (of_nat 1)" unfolding rate by (intro fl_mono) simp
  then have one: "hr_drop_rate r' \<le> 1" using fl_nat[of 1] by simp
  have "0 \<le> hr_drop_rate r" unfolding rate
    by (intro fl_nonneg divide_nonneg_nonneg of_nat_0_le_iff)
  moreover have "hr_status r \<le> hr_status r'"
    using mono assms(3,4)
    by (auto simp: check_metrics_def Let_def get_snapshot_def get_average_log_latency_us_def
        get_messages_per_second_def intro!: determine_status_mono)
  ultimately show ?thesis using mono one by blast
qed

theorem dropping_never_heals_witness:
  "hr_status (check_metrics health_config_default (\<lambda>_. 0) ((log_metrics_new 0)\<lparr>mt_messages_dropped := 1\<rparr>) 0)
   \<le> hr_status (check_metrics health_config_default (\<lambda>_. 0) ((log_metrics_new 0)\<lparr>mt_messages_dropped := 2\<rparr>) 0)"
proof -
  have "unat (mt_messages_logged (log_metrics_new 0)) + unat (2::u64) \<le> 2 ^ 53"
    by (simp add: log_metrics_new_def)
  from dropping_never_heals[OF this _ refl refl, of 1] show ?thesis by simp
qed

section \<open>What the registry shows\<close>

definition tolerant :: "health_config \<Rightarrow> bool" where
  "tolerant c \<longleftrightarrow> 0 \<le> hc_max_drop_rate_healthy c \<and> 0 \<le> hc_max_drop_rate_degraded c
     \<and> 0 \<le> hc_max_error_rate_healthy c \<and> 0 \<le> hc_max_error_rate_degraded c
     \<and> 0 \<le> hc_max_queue_usage_healthy c \<and> 0 \<le> hc_max_queue_usage_degraded c"

lemma tolerant_default: "tolerant health_config_default"
  by (simp add: tolerant_def health_config_default_def fl_nonneg)

lemma word_not_less_0: "\<not> (a::u64) < 0"
  by simp

lemma fresh_metrics_healthy:
  "tolerant c \<Longrightarrow> hr_status (checker_check_logger c clk (log_metrics_new t)) = Healthy"
  by (simp add: checker_check_logger_def check_metrics_def Let_def get_snapshot_def
      log_metrics_new_def determine_status_def tolerant_def u64_double_def not_less)

lemma health_message_Healthy [simp]: "health_message c Healthy d e l q = ''All systems operational''"
  by (simp add: health_message_def)

lemma message_healthy:
  "hr_status (checker_check_logger c clk m) = Healthy \<Longrightarrow>
     hr_message (checker_check_logger c clk m) = ''All systems operational''"
  by (simp add: checker_check_logger_def check_metrics_def Let_def)

text \<open>
  The registry's check of a live logger is blind: whatever the logger logged, dropped or failed
  to write, with any configuration whose limits are not negative it is reported as healthy with
  all counts zero, because the check is made on a metrics object created for it.
\<close>

theorem live_check_blind:
  assumes "omap_get (hg_loggers g) nm = Some e" and "alive (he_logger e)"
    and "tolerant (case he_custom e of Some c \<Rightarrow> c | None \<Rightarrow> hg_checker g)"
  shows "let r = registry_check_logger clk alive garbage nm g in
    hr_status r = Healthy \<and> hr_message r = ''All systems operational''
    \<and> hr_messages_logged r = 0 \<and> hr_messages_dropped r = 0 \<and> hr_errors r = 0
    \<and> hr_last_error_message r = he_last_error_message e"
proof -
  let ?c = "case he_custom e of Some c \<Rightarrow> c | None \<Rightarrow> hg_checker g"
  define m where "m = log_metrics_new (clk 0)"
  have st: "hr_status (checker_check_logger ?c (\<lambda>n. clk (n + 1)) m) = Healthy"
    unfolding m_def using assms(3) by (rule fresh_metrics_healthy)
  from message_healthy[OF st] have
    "hr_message (checker_check_logger ?c (\<lambda>n. clk (n + 1)) m) = ''All systems operational''" .
  moreover have "hr_messages_logged (checker_check_logger ?c (\<lambda>n. clk (n + 1)) m) = 0"
    "hr_messages_dropped (checker_check_logger ?c (\<lambda>n. clk (n + 1)) m) = 0"
    "hr_errors (checker_check_logger ?c (\<lambda>n. clk (n + 1)) m) = 0"
    by (simp_all add: checker_check_logger_def check_metrics_def Let_def get_snapshot_def m_def
        log_metrics_new_def)
  ultimately show ?thesis using assms(1,2) st
    by (simp add: registry_check_logger_def check_entry_def Let_def flip: m_def)
qed

theorem live_check_blind_witness:
  "hr_status (registry_check_logger (\<lambda>_. 0) (\<lambda>p. p = 3) garbage ''app''
     (register_logger ''app'' 3 (health_registry_new :: unit health_registry))) = Healthy"
proof -
  let ?g = "register_logger ''app'' 3 (health_registry_new :: unit health_registry)"
  have "omap_get (hg_loggers ?g) ''app'' = Some (entry_new 3 None)"
    by (simp add: register_logger_def health_registry_new_def omap_get_def)
  moreover have "tolerant (case he_custom (entry_new 3 None) of Some c \<Rightarrow> c | None \<Rightarrow> hg_checker ?g)"
    using tolerant_default by (simp add: entry_new_def register_logger_def health_registry_new_def)
  moreover have "he_logger (entry_new 3 None) = 3" by (simp add: entry_new_def)
  ultimately show ?thesis
    using live_check_blind[of ?g "''app''" "entry_new 3 None" "\<lambda>p. p = 3" "\<lambda>_. 0" garbage]
    unfolding Let_def by blast
qed

section \<open>What the aggregate shows\<close>

definition with_status :: "health_status \<Rightarrow> (string, health_result) omap \<Rightarrow> (string, health_result) omap" where
  "with_status s results = filter (\<lambda>(nm, r). hr_status r = s) results"

text \<open>The first entry of the worst status that occurs.\<close>

definition worst_of :: "(string, health_result) omap \<Rightarrow> string \<times> health_status" where
  "worst_of results =
     (case with_status Unhealthy results of
        e # _ \<Rightarrow> (fst e, Unhealthy)
      | [] \<Rightarrow> (case with_status Degraded results of
                 e # _ \<Rightarrow> (fst e, Degraded)
               | [] \<Rightarrow> ([], Healthy)))"

lemma aggregate_fold:
  "let a = foldl (\<lambda>a nr. aggregate_add nr a) (aggregate_start now rs0) results in
   ag_total a = length rs0
   \<and> ag_healthy a = length (with_status Healthy results)
   \<and> ag_degraded a = length (with_status Degraded results)
   \<and> ag_unhealthy a = length (with_status Unhealthy results)
   \<and> ag_messages_dropped a = sum_list (map (\<lambda>(nm, r). hr_messages_dropped r) results)
   \<and> (ag_worst_name a, ag_worst_status a) = worst_of results"
proof (induction results rule: rev_induct)
  case Nil
  show ?case by (simp add: aggregate_start_def with_status_def worst_of_def)
next
  case (snoc nr results)
  obtain nm r where nr: "nr = (nm, r)" by (cases nr)
  show ?case using snoc nr
    by (cases "hr_status r")
      (auto simp: aggregate_add_def Let_def with_status_def worst_of_def split: list.splits)
qed

lemma length_by_status:
  "length results = length (with_status Healthy results) + length (with_status Degraded results)
     + length (with_status Unhealthy results)"
proof (induction results)
  case (Cons nr results)
  obtain nm r where "nr = (nm, r)" by (cases nr)
  with Cons show ?case by (cases "hr_status r") (simp_all add: with_status_def)
qed (simp add: with_status_def)

lemma overall_of_status:
  "overall_of results =
     (if with_status Unhealthy results \<noteq> [] then Unhealthy
      else if with_status Degraded results \<noteq> [] then Degraded else Healthy)"
  by (auto simp: overall_of_def with_status_def list_ex_iff filter_empty_conv Let_def)

text \<open>
  C31. The aggregate of any list of results: the three counts add up to the number of loggers, the
  overall status is the worst status that occurs and agrees with \<open>get_overall_status\<close>, and the
  worst logger is the first, in the order of names, that has this status, unless all loggers are
  healthy, when its name is empty.
\<close>

theorem aggregate_correct:
  "let a = aggregate_results now results in
   ag_total a = length results
   \<and> ag_total a = ag_healthy a + ag_degraded a + ag_unhealthy a
   \<and> ag_healthy a = length (filter (\<lambda>(nm, r). hr_status r = Healthy) results)
   \<and> ag_degraded a = length (filter (\<lambda>(nm, r). hr_status r = Degraded) results)
   \<and> ag_unhealthy a = length (filter (\<lambda>(nm, r). hr_status r = Unhealthy) results)
   \<and> ag_messages_dropped a = sum_list (map (\<lambda>(nm, r). hr_messages_dropped r) results)
   \<and> ag_overall a = overall_of results
   \<and> ag_worst_status a = ag_overall a
   \<and> (if ag_overall a = Healthy then ag_worst_name a = []
      else map_option fst (find (\<lambda>(nm, r). hr_status r = ag_overall a) results) = Some (ag_worst_name a))"
proof -
  define a where "a = foldl (\<lambda>a nr. aggregate_add nr a) (aggregate_start now results) results"
  define b where "b = aggregate_results now results"
  from aggregate_fold[of now results results] have f:
    "ag_total a = length results" "ag_healthy a = length (with_status Healthy results)"
    "ag_degraded a = length (with_status Degraded results)"
    "ag_unhealthy a = length (with_status Unhealthy results)"
    "ag_messages_dropped a = sum_list (map (\<lambda>(nm, r). hr_messages_dropped r) results)"
    "(ag_worst_name a, ag_worst_status a) = worst_of results"
    by (simp_all add: a_def Let_def)
  have b: "b = a\<lparr>ag_overall := overall_of results\<rparr>"
    by (simp add: b_def aggregate_results_def Let_def f(3,4) overall_of_status flip: a_def)
  have counts: "ag_total b = ag_healthy b + ag_degraded b + ag_unhealthy b"
    using length_by_status[of results] by (simp add: b f)
  have find_hd: "find P xs = (case filter P xs of [] \<Rightarrow> None | x # _ \<Rightarrow> Some x)"
    for P and xs :: "(string \<times> health_result) list"
    by (induction xs) auto
  have worst: "ag_worst_status b = ag_overall b"
    "if ag_overall b = Healthy then ag_worst_name b = []
     else map_option fst (find (\<lambda>(nm, r). hr_status r = ag_overall b) results) = Some (ag_worst_name b)"
    using f(6) by (auto simp: b overall_of_status worst_of_def find_hd with_status_def split: list.splits)
  have "ag_overall b = overall_of results" by (simp add: b)
  with counts worst f show ?thesis
    unfolding b_def[symmetric] Let_def by (simp add: b with_status_def)
qed

text \<open>
  An expired logger is reported by \<open>check_logger\<close> as unhealthy, but \<open>check_all\<close> leaves it out, so
  that with no other logger registered the overall status is healthy.
\<close>

theorem expired_logger_hidden:
  assumes "\<not> alive p"
  shows "let g = register_logger nm p health_registry_new in
    hr_status (registry_check_logger clk alive garbage nm g) = Unhealthy
    \<and> hr_message (registry_check_logger clk alive garbage nm g) = ''Logger expired: '' @ nm
    \<and> check_all clks alive g = [] \<and> get_overall_status clks alive g = Healthy"
  using assms
  by (simp add: registry_check_logger_def register_logger_def health_registry_new_def omap_get_def
      entry_new_def check_all_def get_overall_status_def overall_of_def Let_def)

theorem expired_logger_hidden_witness:
  "get_overall_status clks (\<lambda>p. p = 4) (register_logger ''app'' 3 (health_registry_new :: unit health_registry))
   = Healthy"
  by (rule expired_logger_hidden[of "\<lambda>p. p = 4" 3 "''app''", unfolded Let_def, THEN conjunct2,
        THEN conjunct2, THEN conjunct2]) simp

end
