(* ===== verification/Rate_Limiter.thy ===== *)
theory Rate_Limiter
  imports Doubles
begin

text \<open>
  The limiters: \<open>include/Zyrnix/rate_limiter.hpp\<close> and \<open>src/rate_limiter.cpp\<close>.  The token bucket
  holds a \<open>double\<close>; its refill multiplies in 64-bit unsigned arithmetic and then divides in
  floating point.  A call that reads the steady clock takes the reading as an argument.
\<close>

section \<open>The token bucket\<close>

record rate_limiter =
  rl_max_tokens :: u64
  rl_refill_rate :: u64
  rl_tokens :: double
  rl_last_refill :: time
  rl_dropped :: u64

definition rate_limiter_new :: "time \<Rightarrow> u64 \<Rightarrow> u64 \<Rightarrow> rate_limiter" where
  "rate_limiter_new now messages_per_second burst_capacity =
     (let m = (if burst_capacity > 0 then burst_capacity else messages_per_second) in
      \<lparr>rl_max_tokens = m, rl_refill_rate = messages_per_second, rl_tokens = u64_double m,
       rl_last_refill = now, rl_dropped = 0\<rparr>)"

definition rate_enabled :: "rate_limiter \<Rightarrow> bool" where
  "rate_enabled rl \<longleftrightarrow> rl_max_tokens rl > 0"

definition refill_tokens :: "time \<Rightarrow> rate_limiter \<Rightarrow> rate_limiter" where
  "refill_tokens now rl =
     (let elapsed = trunc_div (now - rl_last_refill rl) 1000000 in
      if elapsed > 0
      then (let tokens_to_add = fl (u64_double (rl_refill_rate rl * word_of_int elapsed) / 1000) in
            rl\<lparr>rl_tokens := min (fl (rl_tokens rl + tokens_to_add)) (u64_double (rl_max_tokens rl)),
               rl_last_refill := now\<rparr>)
      else rl)"

definition try_log :: "time \<Rightarrow> rate_limiter \<Rightarrow> bool \<times> rate_limiter" where
  "try_log now rl =
     (if \<not> rate_enabled rl then (True, rl)
      else
        (let rl1 = refill_tokens now rl in
         if rl_tokens rl1 \<ge> 1 then (True, rl1\<lparr>rl_tokens := fl (rl_tokens rl1 - 1)\<rparr>)
         else (False, rl1\<lparr>rl_dropped := rl_dropped rl1 + 1\<rparr>)))"

definition rate_reset :: "time \<Rightarrow> rate_limiter \<Rightarrow> rate_limiter" where
  "rate_reset now rl =
     rl\<lparr>rl_tokens := u64_double (rl_max_tokens rl), rl_dropped := 0, rl_last_refill := now\<rparr>"

definition available_tokens :: "rate_limiter \<Rightarrow> u64" where
  "available_tokens rl = word_of_int \<lfloor>rl_tokens rl\<rfloor>"

section \<open>Sampling\<close>

record sampling_limiter =
  sl_sample_rate :: u64
  sl_counter :: u64

definition sampling_limiter_new :: "u64 \<Rightarrow> sampling_limiter" where
  "sampling_limiter_new sample_rate =
     \<lparr>sl_sample_rate = (if sample_rate > 0 then sample_rate else 1), sl_counter = 0\<rparr>"

definition sampling_enabled :: "sampling_limiter \<Rightarrow> bool" where
  "sampling_enabled sl \<longleftrightarrow> sl_sample_rate sl > 1"

definition sampling_should_log :: "sampling_limiter \<Rightarrow> bool \<times> sampling_limiter" where
  "sampling_should_log sl =
     (if \<not> sampling_enabled sl then (True, sl)
      else (sl_counter sl mod sl_sample_rate sl = 0, sl\<lparr>sl_counter := sl_counter sl + 1\<rparr>))"

definition sampling_reset :: "sampling_limiter \<Rightarrow> sampling_limiter" where
  "sampling_reset sl = sl\<lparr>sl_counter := 0\<rparr>"

definition sampling_dropped_count :: "sampling_limiter \<Rightarrow> u64" where
  "sampling_dropped_count sl =
     (let total = sl_counter sl in
      if \<not> sampling_enabled sl \<or> total = 0 then 0 else total - total div sl_sample_rate sl)"

section \<open>Both\<close>

record combined_limiter =
  cl_rate :: rate_limiter
  cl_sampling :: sampling_limiter
  cl_logged :: u64

definition combined_limiter_new :: "time \<Rightarrow> u64 \<Rightarrow> u64 \<Rightarrow> u64 \<Rightarrow> combined_limiter" where
  "combined_limiter_new now messages_per_second burst_capacity sample_rate =
     \<lparr>cl_rate = rate_limiter_new now messages_per_second burst_capacity,
      cl_sampling = sampling_limiter_new sample_rate, cl_logged = 0\<rparr>"

definition combined_should_log :: "time \<Rightarrow> combined_limiter \<Rightarrow> bool \<times> combined_limiter" where
  "combined_should_log now cl =
     (let (s, sl) = sampling_should_log (cl_sampling cl) in
      if \<not> s then (False, cl\<lparr>cl_sampling := sl\<rparr>)
      else
        (let (r, rl) = try_log now (cl_rate cl) in
         if \<not> r then (False, cl\<lparr>cl_sampling := sl, cl_rate := rl\<rparr>)
         else (True, cl\<lparr>cl_sampling := sl, cl_rate := rl, cl_logged := cl_logged cl + 1\<rparr>)))"

record limiter_stats =
  st_total_messages :: u64
  st_rate_limited_drops :: u64
  st_sampling_drops :: u64
  st_logged_messages :: u64

definition combined_stats :: "combined_limiter \<Rightarrow> limiter_stats" where
  "combined_stats cl =
     \<lparr>st_total_messages = sl_counter (cl_sampling cl),
      st_rate_limited_drops = rl_dropped (cl_rate cl),
      st_sampling_drops = sampling_dropped_count (cl_sampling cl),
      st_logged_messages = cl_logged cl\<rparr>"

definition combined_reset :: "time \<Rightarrow> combined_limiter \<Rightarrow> combined_limiter" where
  "combined_reset now cl =
     cl\<lparr>cl_rate := rate_reset now (cl_rate cl), cl_sampling := sampling_reset (cl_sampling cl),
        cl_logged := 0\<rparr>"

section \<open>What the bucket admits\<close>

text \<open>A sequence of calls at the given times: the answers and the limiter after it.\<close>

fun try_logs :: "time list \<Rightarrow> rate_limiter \<Rightarrow> bool list \<times> rate_limiter" where
  "try_logs [] rl = ([], rl)"
| "try_logs (t # ts) rl =
     (let (b, rl1) = try_log t rl; (bs, rl2) = try_logs ts rl1 in (b # bs, rl2))"

definition admitted :: "bool list \<Rightarrow> nat" where
  "admitted bs = length (filter (\<lambda>b. b) bs)"

lemma admitted_simps [simp]: "admitted [] = 0" "admitted (b # bs) = (if b then 1 else 0) + admitted bs"
  by (simp_all add: admitted_def)

lemma unsigned_rat_nonneg [simp]: "(0 :: rat) \<le> unsigned (w :: u64)"
  by (metis of_nat_0_le_iff of_nat_unat)

lemma u64_double_exact: "unat m \<le> 2 ^ 53 \<Longrightarrow> u64_double m = of_nat (unat m)"
  unfolding u64_double_def by (rule fl_nat)

text \<open>The tokens of a refill, up to a relative error of \<open>3 / 2^53\<close>.\<close>

lemma tokens_added:
  assumes "0 \<le> ms"
  shows "fl (u64_double (rate * word_of_int ms) / 1000)
    \<le> of_int (int (unat rate) * ms) / 1000 * (1 + 3 / 2 ^ 53)"
proof -
  let ?A = "of_int (int (unat rate) * ms) / 1000 :: rat"
  have "rate * word_of_int ms = of_nat (unat rate * nat ms)" using assms by simp
  then have "unat (rate * word_of_int ms) \<le> unat rate * nat ms"
    by (metis unat_of_nat mod_less_eq_dividend)
  then have "(of_nat (unat (rate * word_of_int ms)) :: rat) \<le> of_nat (unat rate * nat ms)"
    by (simp only: of_nat_le_iff)
  also have "\<dots> = 1000 * ?A" using assms by simp
  finally have n: "(of_nat (unat (rate * word_of_int ms)) :: rat) \<le> 1000 * ?A" .
  have A: "0 \<le> ?A" using assms by simp
  have d: "u64_double (rate * word_of_int ms) \<le> 1000 * ?A * (1 + 1 / 2 ^ 53)"
    using fl_error(2)[of "of_nat (unat (rate * word_of_int ms))"] n
    unfolding u64_double_def by (simp add: field_simps)
  have "fl (u64_double (rate * word_of_int ms) / 1000)
      \<le> u64_double (rate * word_of_int ms) / 1000 * (1 + 1 / 2 ^ 53)"
    using fl_error(2)[of "u64_double (rate * word_of_int ms) / 1000"] u64_double_nonneg
    by (simp add: field_simps)
  also have "\<dots> \<le> ?A * (1 + 1 / 2 ^ 53) * (1 + 1 / 2 ^ 53)"
    using d by (intro mult_right_mono) (simp_all add: field_simps)
  also have "\<dots> \<le> ?A * (1 + 3 / 2 ^ 53)"
    using A by (simp only: mult.assoc) (intro mult_left_mono; simp add: field_simps)
  finally show ?thesis .
qed

text \<open>What a refill adds, given a capacity \<open>m\<close>: the worth of the time and an error of \<open>7 m / 2^53\<close>.\<close>

lemma refill_le:
  assumes "0 \<le> ms" and tok: "0 \<le> tokens" "tokens \<le> m"
  shows "min (fl (tokens + fl (u64_double (rate * word_of_int ms) / 1000))) m
    \<le> tokens + of_int (int (unat rate) * ms) / 1000 + 7 * m / 2 ^ 53"
proof -
  define A where "A = (of_int (int (unat rate) * ms) / 1000 :: rat)"
  define a where "a = fl (u64_double (rate * word_of_int ms) / 1000)"
  have A: "0 \<le> A" using assms(1) by (simp add: A_def)
  have a: "0 \<le> a" "a \<le> A * (1 + 3 / 2 ^ 53)"
    using tokens_added[OF assms(1), of rate] u64_double_nonneg
    by (simp_all add: a_def A_def fl_nonneg)
  have "min (fl (tokens + a)) m \<le> tokens + A + 7 * m / 2 ^ 53"
  proof (cases "m \<le> A")
    case True
    then show ?thesis using tok by (intro min.coboundedI2) (simp add: add_increasing2 add_increasing)
  next
    case False
    have "fl (tokens + a) \<le> (tokens + a) * (1 + 1 / 2 ^ 53)"
      using fl_error(2)[of "tokens + a"] tok a(1) by (simp add: field_simps)
    also have "\<dots> \<le> tokens + A + 7 * m / 2 ^ 53"
      using tok a(2) A False by (simp add: field_simps)
    finally show ?thesis by (rule min.coboundedI1)
  qed
  then show ?thesis by (simp add: a_def A_def)
qed

lemma trunc_div_nonneg: "0 \<le> a \<Longrightarrow> 0 < b \<Longrightarrow> trunc_div a b = a div b"
  by (auto simp: trunc_div_def sgn_if)

lemma refill_bound:
  assumes "unat (rl_max_tokens rl) \<le> 2 ^ 53" and "0 \<le> rl_tokens rl"
    and "rl_tokens rl \<le> of_nat (unat (rl_max_tokens rl))" and "rl_last_refill rl \<le> t"
  shows "rl_tokens (refill_tokens t rl) \<le> rl_tokens rl
    + of_nat (unat (rl_refill_rate rl)) * of_int (rl_last_refill (refill_tokens t rl) - rl_last_refill rl) / 10 ^ 9
    + 7 * of_nat (unat (rl_max_tokens rl)) / 2 ^ 53"
proof (cases "trunc_div (t - rl_last_refill rl) 1000000 > 0")
  case True
  let ?ms = "trunc_div (t - rl_last_refill rl) 1000000"
  have ms: "?ms = (t - rl_last_refill rl) div 1000000"
    using assms(4) by (simp add: trunc_div_nonneg)
  have "?ms * 1000000 \<le> t - rl_last_refill rl" unfolding ms by simp
  then have "(of_int ?ms * 1000000 :: rat) \<le> of_int (t - rl_last_refill rl)"
    by (metis of_int_le_iff of_int_mult of_int_numeral)
  then have "of_nat (unat (rl_refill_rate rl)) * (of_int ?ms * 1000000 :: rat)
      \<le> of_nat (unat (rl_refill_rate rl)) * of_int (t - rl_last_refill rl)"
    by (intro mult_left_mono) simp_all
  then have "of_int (int (unat (rl_refill_rate rl)) * ?ms) / (1000 :: rat)
      \<le> of_nat (unat (rl_refill_rate rl)) * of_int (t - rl_last_refill rl) / 10 ^ 9"
    by (simp add: field_simps)
  with True refill_le[of ?ms "rl_tokens rl" "of_nat (unat (rl_max_tokens rl))" "rl_refill_rate rl"]
    assms show ?thesis by (simp add: refill_tokens_def Let_def u64_double_exact)
qed (use assms in \<open>simp add: refill_tokens_def Let_def\<close>)

lemma refill_frame [simp]:
  "rl_max_tokens (refill_tokens t rl) = rl_max_tokens rl"
  "rl_refill_rate (refill_tokens t rl) = rl_refill_rate rl"
  "rl_dropped (refill_tokens t rl) = rl_dropped rl"
  "rl_last_refill (refill_tokens t rl)
    = (if trunc_div (t - rl_last_refill rl) 1000000 > 0 then t else rl_last_refill rl)"
  by (simp_all add: refill_tokens_def Let_def)

lemma try_log_frame [simp]:
  "rl_max_tokens (snd (try_log t rl)) = rl_max_tokens rl"
  "rl_refill_rate (snd (try_log t rl)) = rl_refill_rate rl"
  by (simp_all add: try_log_def Let_def)

lemma tokens_range:
  assumes "unat (rl_max_tokens rl) \<le> 2 ^ 53" and "0 \<le> rl_tokens rl"
    and "rl_tokens rl \<le> of_nat (unat (rl_max_tokens rl))"
  shows "0 \<le> rl_tokens (refill_tokens t rl)"
    and "rl_tokens (refill_tokens t rl) \<le> of_nat (unat (rl_max_tokens rl))"
  using assms by (simp_all add: refill_tokens_def Let_def u64_double_exact fl_nonneg u64_double_nonneg
      min.coboundedI2)

lemma take_token:
  assumes "1 \<le> x" and "x \<le> m"
  shows "0 \<le> fl (x - 1)" and "fl (x - 1) \<le> x - 1 + m / 2 ^ 53"
  using assms fl_error(2)[of "x - 1"] by (simp_all add: fl_nonneg field_simps)

lemma take_token_le:
  assumes "x \<le> of_nat (unat w)" and "unat w \<le> 2 ^ 53"
  shows "fl (x - 1) \<le> unsigned (w :: u64)"
  using fl_mono[of "x - 1" "of_nat (unat w)"] fl_nat[OF assms(2)] assms(1) by simp

text \<open>A limiter in range: the tokens lie between zero and the capacity, which a double holds.\<close>

definition in_range :: "rate_limiter \<Rightarrow> bool" where
  "in_range rl \<longleftrightarrow>
     0 < unat (rl_max_tokens rl) \<and> unat (rl_max_tokens rl) \<le> 2 ^ 53
     \<and> 0 \<le> rl_tokens rl \<and> rl_tokens rl \<le> of_nat (unat (rl_max_tokens rl))"

lemma in_range_enabled: "in_range rl \<Longrightarrow> rate_enabled rl"
  by (simp add: in_range_def rate_enabled_def word_less_nat_alt)

lemma try_log_in_range: "in_range rl \<Longrightarrow> in_range (snd (try_log t rl))"
  using in_range_enabled[of rl] tokens_range[of rl t]
  by (auto simp: in_range_def try_log_def Let_def fl_nonneg intro!: take_token_le)

text \<open>One call: what it takes from the bucket, and what time and rounding put into it.\<close>

lemma try_log_account:
  assumes r: "in_range rl" and t: "rl_last_refill rl \<le> t" and step: "try_log t rl = (b, rl1)"
  shows "(if b then 1 else 0) + rl_tokens rl1
    \<le> rl_tokens rl
      + of_nat (unat (rl_refill_rate rl)) * of_int (rl_last_refill rl1 - rl_last_refill rl) / 10 ^ 9
      + of_nat (unat (rl_max_tokens rl)) / 2 ^ 50"
    and "rl_last_refill rl1 = rl_last_refill rl \<or> rl_last_refill rl1 = t"
proof -
  let ?rl = "refill_tokens t rl" and ?m = "of_nat (unat (rl_max_tokens rl)) :: rat"
  note en = in_range_enabled[OF r]
  have rr: "unat (rl_max_tokens rl) \<le> 2 ^ 53" "0 \<le> rl_tokens rl" "rl_tokens rl \<le> ?m"
    using r by (simp_all add: in_range_def)
  have last: "rl_last_refill rl1 = rl_last_refill ?rl"
    using step en by (auto simp: try_log_def Let_def split: if_splits)
  then show "rl_last_refill rl1 = rl_last_refill rl \<or> rl_last_refill rl1 = t" by simp
  have "(if b then 1 else 0) + rl_tokens rl1 \<le> rl_tokens ?rl + ?m / 2 ^ 53"
    using step en take_token(2)[OF _ tokens_range(2)[OF rr, of t]]
    by (auto simp: try_log_def Let_def split: if_splits)
  with refill_bound[OF rr t] show "(if b then 1 else 0) + rl_tokens rl1
    \<le> rl_tokens rl
      + of_nat (unat (rl_refill_rate rl)) * of_int (rl_last_refill rl1 - rl_last_refill rl) / 10 ^ 9
      + ?m / 2 ^ 50"
    unfolding last by (simp add: field_simps)
qed

lemma admitted_bound:
  assumes "in_range rl" and "sorted (rl_last_refill rl # ts)"
  shows "of_nat (admitted (fst (try_logs ts rl)))
    \<le> rl_tokens rl
      + of_nat (unat (rl_refill_rate rl)) * of_int (last (rl_last_refill rl # ts) - rl_last_refill rl) / 10 ^ 9
      + of_nat (length ts) * (of_nat (unat (rl_max_tokens rl)) / 2 ^ 50)"
  using assms
proof (induction ts arbitrary: rl)
  case Nil
  then show ?case by (simp add: in_range_def)
next
  case (Cons t ts)
  obtain b rl1 where step: "try_log t rl = (b, rl1)" by fastforce
  obtain bs rl2 where run: "try_logs ts rl1 = (bs, rl2)" by fastforce
  have t: "rl_last_refill rl \<le> t" using Cons.prems(2) by simp
  note acc = try_log_account[OF Cons.prems(1) t step]
  have frame: "rl_max_tokens rl1 = rl_max_tokens rl" "rl_refill_rate rl1 = rl_refill_rate rl"
    using try_log_frame[of t rl] step by simp_all
  have s: "sorted (rl_last_refill rl1 # ts)" using acc(2) Cons.prems(2) by auto
  have last: "last (rl_last_refill rl1 # ts) \<le> last (t # ts)" using acc(2) t by auto
  have r: "of_nat (unat (rl_refill_rate rl)) * of_int (last (rl_last_refill rl1 # ts) - rl_last_refill rl1) / (10 ^ 9 :: rat)
      \<le> of_nat (unat (rl_refill_rate rl)) * of_int (last (t # ts) - rl_last_refill rl1) / 10 ^ 9"
    using last by (intro divide_right_mono mult_left_mono) simp_all
  have "of_nat (admitted bs)
    \<le> rl_tokens rl1
      + of_nat (unat (rl_refill_rate rl)) * of_int (last (rl_last_refill rl1 # ts) - rl_last_refill rl1) / 10 ^ 9
      + of_nat (length ts) * (of_nat (unat (rl_max_tokens rl)) / 2 ^ 50)"
    using Cons.IH[OF _ s] try_log_in_range[OF Cons.prems(1), of t] step run frame by simp
  with acc(1) r show ?case
    using step run by (simp add: algebra_simps add_divide_distrib diff_divide_distrib split: if_splits)
qed

lemma try_logs_in_range: "in_range rl \<Longrightarrow> in_range (snd (try_logs ts rl))"
proof (induction ts arbitrary: rl)
  case (Cons t ts)
  from Cons.IH[OF try_log_in_range[OF Cons.prems, of t]] show ?case by (simp add: split_beta)
qed simp

text \<open>A call after a time worth a message is admitted.\<close>

lemma late_call_admitted:
  assumes r: "in_range rl" and t: "rl_last_refill rl \<le> t"
    and worth: "1000 \<le> unat (rl_refill_rate rl) * nat ((t - rl_last_refill rl) div 1000000)"
    and small: "unat (rl_refill_rate rl) * nat ((t - rl_last_refill rl) div 1000000) < 2 ^ 64"
  shows "fst (try_log t rl)"
proof -
  define ms where "ms = (t - rl_last_refill rl) div 1000000"
  have ms: "trunc_div (t - rl_last_refill rl) 1000000 = ms" "0 < ms"
    using t worth by (simp_all add: ms_def trunc_div_nonneg) (cases "0 < ms"; simp add: ms_def)
  have "rl_refill_rate rl * word_of_int ms = of_nat (unat (rl_refill_rate rl) * nat ms)"
    using ms(2) by simp
  then have "unat (rl_refill_rate rl * word_of_int ms) = unat (rl_refill_rate rl) * nat ms"
    using small unfolding ms_def by (simp only: unat_of_nat) (simp add: take_bit_nat_eq_self)
  then have "(1000 :: rat) \<le> of_nat (unat (rl_refill_rate rl * word_of_int ms))"
    using worth unfolding ms_def by (metis of_nat_le_iff of_nat_numeral)
  then have "fl (of_nat 1000) \<le> u64_double (rl_refill_rate rl * word_of_int ms)"
    unfolding u64_double_def by (intro fl_mono) simp
  then have "1 \<le> u64_double (rl_refill_rate rl * word_of_int ms) / 1000"
    using fl_nat[of 1000] by simp
  from fl_mono[OF this] have "1 \<le> fl (u64_double (rl_refill_rate rl * word_of_int ms) / 1000)"
    using fl_nat[of 1] by simp
  then have "1 \<le> rl_tokens rl + fl (u64_double (rl_refill_rate rl * word_of_int ms) / 1000)"
    using r by (simp add: in_range_def)
  from fl_mono[OF this] have
    "1 \<le> fl (rl_tokens rl + fl (u64_double (rl_refill_rate rl * word_of_int ms) / 1000))"
    using fl_nat[of 1] by simp
  moreover have "(of_nat 1 :: rat) \<le> of_nat (unat (rl_max_tokens rl))"
    using r unfolding in_range_def of_nat_le_iff by simp
  then have "1 \<le> u64_double (rl_max_tokens rl)"
    using r by (simp add: in_range_def u64_double_exact)
  ultimately show ?thesis
    using ms in_range_enabled[OF r] by (simp add: try_log_def refill_tokens_def Let_def)
qed

lemma try_logs_frame: "rl_refill_rate (snd (try_logs ts rl)) = rl_refill_rate rl"
proof (induction ts arbitrary: rl)
  case (Cons t ts)
  from Cons.IH[of "snd (try_log t rl)"] show ?case by (simp add: split_beta)
qed simp

text \<open>Every call is admitted or counted as dropped.\<close>

lemma try_logs_count:
  "rate_enabled rl \<Longrightarrow>
     length (fst (try_logs ts rl)) = length ts
     \<and> rl_dropped (snd (try_logs ts rl))
       = rl_dropped rl + of_nat (length ts - admitted (fst (try_logs ts rl)))
     \<and> admitted (fst (try_logs ts rl)) \<le> length ts"
proof (induction ts arbitrary: rl)
  case (Cons t ts)
  obtain b rl1 where step: "try_log t rl = (b, rl1)" by fastforce
  obtain bs rl2 where run: "try_logs ts rl1 = (bs, rl2)" by fastforce
  have "rl_max_tokens rl1 = rl_max_tokens rl" using try_log_frame(1)[of t rl] step by simp
  with Cons have IH: "length bs = length ts" "rl_dropped rl2 = rl_dropped rl1 + of_nat (length ts - admitted bs)"
    "admitted bs \<le> length ts"
    using Cons.IH[of rl1] run by (auto simp: rate_enabled_def)
  have "rl_dropped rl1 = rl_dropped rl + (if b then 0 else 1)"
    using step Cons.prems by (auto simp: try_log_def Let_def split: if_splits)
  with IH show ?case using step run by (simp add: Suc_diff_le)
qed simp

text \<open>The burst: as long as no millisecond has passed, each of the first tokens admits a message.\<close>

lemma burst:
  assumes "rate_enabled rl" and "n \<le> 2 ^ 53" and "rl_tokens rl = of_nat n"
    and "\<forall>t \<in> set ts. trunc_div (t - rl_last_refill rl) 1000000 \<le> 0"
  shows "admitted (fst (try_logs ts rl)) = min n (length ts)"
  using assms
proof (induction ts arbitrary: rl n)
  case (Cons t ts)
  from Cons.prems(4) have refill: "refill_tokens t rl = rl" by (simp add: refill_tokens_def Let_def)
  show ?case
  proof (cases n)
    case 0
    let ?rl1 = "rl\<lparr>rl_dropped := rl_dropped rl + 1\<rparr>"
    have step: "try_log t rl = (False, ?rl1)"
      using 0 Cons.prems(1,3) refill by (simp add: try_log_def Let_def)
    have "admitted (fst (try_logs ts ?rl1)) = min 0 (length ts)"
      using Cons.prems 0 by (intro Cons.IH) (auto simp: rate_enabled_def)
    with step 0 show ?thesis by (simp add: split_beta)
  next
    case (Suc k)
    let ?rl1 = "rl\<lparr>rl_tokens := fl (rl_tokens rl - 1)\<rparr>"
    have step: "try_log t rl = (True, ?rl1)"
      using Suc Cons.prems(1,3) refill by (simp add: try_log_def Let_def)
    have "fl (rl_tokens rl - 1) = of_nat k" using Suc Cons.prems(2,3) fl_nat[of k] by simp
    then have "admitted (fst (try_logs ts ?rl1)) = min k (length ts)"
      using Cons.prems Suc by (intro Cons.IH) (auto simp: rate_enabled_def)
    with step Suc show ?thesis by (simp add: split_beta)
  qed
qed simp

text \<open>
  C19. A fresh enabled token bucket of capacity at most \<open>2^53\<close>, called at clock readings that do not
  decrease (the clock is steady): it admits at most the capacity plus the rate times the time that
  passed until the last call, up to a rounding error of one part in \<open>2^50\<close> of the capacity for
  each call; calls within the first millisecond are admitted exactly up to the capacity; every
  call that is not admitted is counted in \<open>dropped_count\<close>; and after the calls one that comes a
  number of whole milliseconds after the last refill that are worth a message (without overflow in
  64 bits) is admitted.
\<close>

theorem token_bucket_correct:
  assumes "rl = rate_limiter_new now messages_per_second burst_capacity"
    and "0 < unat (rl_max_tokens rl)" and "unat (rl_max_tokens rl) \<le> 2 ^ 53"
    and "sorted (now # ts)" and "try_logs ts rl = (bs, rl')"
  shows "(of_nat (admitted bs) :: rat)
      \<le> of_nat (unat (rl_max_tokens rl))
        + of_nat (unat messages_per_second) * of_int (last (now # ts) - now) / 10 ^ 9
        + of_nat (length ts) * (of_nat (unat (rl_max_tokens rl)) / 2 ^ 50)
    \<and> ((\<forall>t \<in> set ts. t < now + 1000000) \<longrightarrow>
         admitted bs = min (unat (rl_max_tokens rl)) (length ts))
    \<and> length bs = length ts
    \<and> rl_dropped rl' = of_nat (length ts - admitted bs)
    \<and> (\<forall>t ms. rl_last_refill rl' \<le> t \<and> ms = nat ((t - rl_last_refill rl') div 1000000)
        \<and> 1000 \<le> unat messages_per_second * ms \<and> unat messages_per_second * ms < 2 ^ 64 \<longrightarrow>
          fst (try_log t rl'))"
proof -
  let ?m = "unat (rl_max_tokens rl)"
  have fields: "rl_tokens rl = u64_double (rl_max_tokens rl)" "rl_last_refill rl = now"
    "rl_refill_rate rl = messages_per_second" "rl_dropped rl = 0"
    by (simp_all add: assms(1) rate_limiter_new_def Let_def)
  have tok: "rl_tokens rl = of_nat ?m"
    unfolding fields(1) using assms(3) by (rule u64_double_exact)
  have r: "in_range rl" using assms(2,3) tok by (simp add: in_range_def)
  note en = in_range_enabled[OF r]
  have "(of_nat (admitted bs) :: rat) \<le> of_nat ?m
        + of_nat (unat messages_per_second) * of_int (last (now # ts) - now) / 10 ^ 9
        + of_nat (length ts) * (of_nat ?m / 2 ^ 50)"
    using admitted_bound[OF r, of ts] assms(4,5) tok fields by simp
  moreover have "admitted bs = min ?m (length ts)" if "\<forall>t \<in> set ts. t < now + 1000000"
  proof -
    have "trunc_div (t - now) 1000000 \<le> 0" if "now \<le> t" "t < now + 1000000" for t
      using that by (simp add: trunc_div_nonneg)
    with that burst[OF en _ tok, of ts] assms(3-5) fields(2) show ?thesis by simp
  qed
  moreover have "fst (try_log t rl')" if "rl_last_refill rl' \<le> t"
    "1000 \<le> unat messages_per_second * nat ((t - rl_last_refill rl') div 1000000)"
    "unat messages_per_second * nat ((t - rl_last_refill rl') div 1000000) < 2 ^ 64" for t
    using late_call_admitted[of rl' t] that try_logs_in_range[OF r, of ts] try_logs_frame[of ts rl]
      assms(5) fields(3) by simp
  ultimately show ?thesis using try_logs_count[OF en, of ts] assms(5) fields(4) by simp
qed

theorem token_bucket_correct_witness:
  "admitted (fst (try_logs [5, 6, 7] (rate_limiter_new 0 10 2))) = 2
   \<and> rl_dropped (snd (try_logs [5, 6, 7] (rate_limiter_new 0 10 2))) = 1"
proof -
  let ?rl = "rate_limiter_new 0 10 2"
  have m: "unat (rl_max_tokens ?rl) = 2" by (simp add: rate_limiter_new_def)
  obtain bs rl' where run: "try_logs [5, 6, 7] ?rl = (bs, rl')" by fastforce
  from token_bucket_correct[OF refl _ _ _ run] m
  have "admitted bs = 2" "rl_dropped rl' = of_nat (3 - admitted bs)" by simp_all
  with run show ?thesis by simp
qed

section \<open>What sampling admits\<close>

fun samplings :: "nat \<Rightarrow> sampling_limiter \<Rightarrow> bool list \<times> sampling_limiter" where
  "samplings 0 sl = ([], sl)"
| "samplings (Suc k) sl =
     (let (b, sl1) = sampling_should_log sl; (bs, sl2) = samplings k sl1 in (b # bs, sl2))"

text \<open>The multiples of \<open>n\<close> among the \<open>k\<close> numbers from \<open>c\<close> on.\<close>

lemma ceil_div_Suc:
  fixes n c :: nat
  assumes "0 < n"
  shows "(Suc c + (n - 1)) div n = (c + (n - 1)) div n + (if c mod n = 0 then 1 else 0)"
proof -
  have "c + (n - 1) + 1 = c + n" using assms by simp
  then have "(Suc c + (n - 1)) div n = c div n + 1" using assms by (simp add: div_add_self2)
  moreover have "(c + (n - 1)) div n = c div n + (if c mod n = 0 then 0 else 1)"
  proof (cases "c mod n = 0")
    case True
    then obtain q where "c = n * q" by (metis dvd_def mod_0_imp_dvd)
    then have "(c + (n - 1)) div n = q" using assms by (intro div_nat_eqI) (simp_all add: mult.commute)
    with \<open>c = n * q\<close> assms show ?thesis by simp
  next
    case False
    define q r where "q = c div n" and "r = c mod n"
    have qr: "c = n * q + r" "r < n" "0 < r" using False assms by (simp_all add: q_def r_def)
    then have "(c + (n - 1)) div n = Suc q" by (intro div_nat_eqI) (simp_all add: algebra_simps)
    then have "(c + (n - 1)) div n = c div n + 1" by (simp add: q_def)
    with False show ?thesis by simp
  qed
  ultimately show ?thesis by simp
qed

lemma samplings_run:
  assumes "sampling_enabled sl" and "unat (sl_counter sl) + k < 2 ^ 64"
    and "n = unat (sl_sample_rate sl)"
  shows "unat (sl_counter (snd (samplings k sl))) = unat (sl_counter sl) + k
    \<and> sl_sample_rate (snd (samplings k sl)) = sl_sample_rate sl
    \<and> length (filter (\<lambda>b. b) (fst (samplings k sl))) + (unat (sl_counter sl) + (n - 1)) div n
      = (unat (sl_counter sl) + k + (n - 1)) div n"
  using assms
proof (induction k arbitrary: sl)
  case (Suc k)
  let ?c = "unat (sl_counter sl)"
  let ?sl1 = "sl\<lparr>sl_counter := sl_counter sl + 1\<rparr>"
  have n: "0 < n" using Suc.prems(1,3) by (simp add: sampling_enabled_def word_less_nat_alt)
  have c1: "unat (sl_counter sl + 1) = Suc ?c"
    using Suc.prems(2) by (simp add: unat_word_ariths)
  obtain bs sl2 where run: "samplings k ?sl1 = (bs, sl2)" by fastforce
  have step: "sampling_should_log sl = (?c mod n = 0, ?sl1)"
    using Suc.prems(1,3) by (simp add: sampling_should_log_def word_eq_iff_unsigned unat_mod
        flip: unat_eq_zero)
  have "unat (sl_counter sl2) = Suc ?c + k \<and> sl_sample_rate sl2 = sl_sample_rate sl
      \<and> length (filter (\<lambda>b. b) bs) + (Suc ?c + (n - 1)) div n = (Suc ?c + k + (n - 1)) div n"
    using Suc.IH[of ?sl1] Suc.prems run c1 by (simp add: sampling_enabled_def)
  with run step ceil_div_Suc[OF n, of ?c] show ?case by (cases "?c mod n = 0") simp_all
qed simp

text \<open>
  A sampler of rate \<open>n > 1\<close> admits, of \<open>k\<close> calls on a fresh counter, the \<open>\<lceil>k / n\<rceil>\<close> calls number
  \<open>0, n, 2 n, ...\<close>; but \<open>dropped_count\<close> reports \<open>k - \<lfloor>k / n\<rfloor>\<close>, one more than it dropped
  whenever \<open>n\<close> does not divide \<open>k\<close>.
\<close>

theorem sampling_counts:
  assumes "1 < n" and "k < 2 ^ 64" and "n < 2 ^ 64"
    and "samplings k (sampling_limiter_new (of_nat n)) = (bs, sl)"
  shows "admitted bs = (k + (n - 1)) div n
    \<and> unat (sampling_dropped_count sl) = (k - admitted bs) + (if n dvd k then 0 else 1)"
proof -
  let ?sl0 = "sampling_limiter_new (of_nat n)"
  have u: "unat (of_nat n :: u64) = n" using assms(3) by (simp add: unat_of_nat)
  have "(0 :: u64) < of_nat n" "(1 :: u64) < of_nat n"
    using assms(1) u by (simp_all add: word_less_nat_alt)
  then have s0: "sampling_enabled ?sl0" "sl_counter ?sl0 = 0" "unat (sl_sample_rate ?sl0) = n"
    using u by (simp_all add: sampling_limiter_new_def sampling_enabled_def)
  from samplings_run[OF s0(1), of k n] assms(2,4) s0
  have r: "unat (sl_counter sl) = k" "sl_sample_rate sl = sl_sample_rate ?sl0"
    "length (filter (\<lambda>b. b) bs) + (n - 1) div n = (k + (n - 1)) div n"
    by simp_all
  have n1: "(n - 1) div n = 0" using assms(1) by simp
  have adm: "admitted bs = (k + (n - 1)) div n" using r(3) n1 by (simp add: admitted_def)
  have ceil: "(k + (n - 1)) div n = k div n + (if n dvd k then 0 else 1)"
    using ceil_div_Suc[of n k] assms(1) by (cases "n dvd k") (simp_all add: dvd_eq_mod_eq_0 div_add_self2)
  have "k div n \<le> k" by simp
  have "unat (sl_counter sl div sl_sample_rate sl) = k div n"
    using r s0(3) by (simp add: unat_div)
  then have "unat (sampling_dropped_count sl) = k - k div n"
    using r s0(1) by (auto simp: sampling_dropped_count_def sampling_enabled_def Let_def
        unat_sub word_le_nat_alt)
  moreover have "(if n dvd k then 0 else 1) + k div n \<le> k"
    using ceil assms(1) by (cases "n dvd k") (auto simp: Suc_le_eq intro!: div_less_dividend Nat.gr0I)
  ultimately show ?thesis using adm ceil by auto
qed

theorem sampling_counts_witness:
  "admitted (fst (samplings 4 (sampling_limiter_new 3))) = 2
   \<and> sampling_dropped_count (snd (samplings 4 (sampling_limiter_new 3))) = 3"
proof -
  obtain bs sl where run: "samplings 4 (sampling_limiter_new (of_nat 3)) = (bs, sl)" by fastforce
  from sampling_counts[OF _ _ _ run] have "admitted bs = 2" "unat (sampling_dropped_count sl) = 3"
    by (simp_all add: dvd_eq_mod_eq_0)
  then have "sampling_dropped_count sl = 3" by (simp add: word_unat_eq_iff)
  with run \<open>admitted bs = 2\<close> show ?thesis by simp
qed

end
