(* ===== verification/Async_Queue.thy ===== *)
theory Async_Queue
  imports Transitions "HOL-Library.Multiset"
begin

text \<open>
  The asynchronous queue: \<open>include/Zyrnix/async/async_queue.hpp\<close> and \<open>src/async/async_queue.cpp\<close>.  The
  operations are functions of the queue's fields; the step relation \<open>aq_step\<close> interleaves them
  at the granularity of the code: \<open>push\<close> tests the flag before it takes the mutex, \<open>shutdown\<close> sets
  the flag, waits on the condition variable and then decides.  A push that has enqueued its record
  returns in a later step, so two pushes may return in another order than they enqueued.  The
  sleep of \<open>pop\<close> is not a state of its own: a step of \<open>pop\<close> is possible whenever its predicate
  holds, which includes every behaviour of the condition variable (what is stated is safety, not
  that a sleeper wakes).  The state carries the history (records that entered and left the queue,
  and those whose push has returned), which no operation reads.
\<close>

section \<open>The fields and the operations\<close>

record 'r aqueue =
  aq_queue :: "'r list"
  aq_shutdown :: bool
  aq_dropped :: nat
  aq_timeout_ms :: nat

definition aq_new :: "nat \<Rightarrow> 'r aqueue" where
  "aq_new shutdown_timeout_ms =
     \<lparr>aq_queue = [], aq_shutdown = False, aq_dropped = 0, aq_timeout_ms = shutdown_timeout_ms\<rparr>"

text \<open>The part of \<open>push\<close> under the mutex.\<close>

definition aq_enqueue :: "'r \<Rightarrow> 'r aqueue \<Rightarrow> 'r aqueue" where
  "aq_enqueue r q = q\<lparr>aq_queue := aq_queue q @ [r]\<rparr>"

definition aq_push :: "'r \<Rightarrow> 'r aqueue \<Rightarrow> bool \<times> 'r aqueue" where
  "aq_push r q = (if aq_shutdown q then (False, q) else (True, aq_enqueue r q))"

text \<open>
  \<open>pop\<close>: \<^const>\<open>None\<close> while it waits, otherwise the record (\<^const>\<open>None\<close> for the result
  \<open>false\<close>) and the queue.
\<close>

definition aq_pop :: "'r aqueue \<Rightarrow> ('r option \<times> 'r aqueue) option" where
  "aq_pop q =
     (case aq_queue q of
        [] \<Rightarrow> if aq_shutdown q then Some (None, q) else None
      | r # rs \<Rightarrow> Some (Some r, q\<lparr>aq_queue := rs\<rparr>))"

definition aq_empty :: "'r aqueue \<Rightarrow> bool" where
  "aq_empty q \<longleftrightarrow> aq_queue q = []"

definition aq_size :: "'r aqueue \<Rightarrow> nat" where
  "aq_size q = length (aq_queue q)"

definition aq_begin_shutdown :: "'r aqueue \<Rightarrow> 'r aqueue" where
  "aq_begin_shutdown q = q\<lparr>aq_shutdown := True\<rparr>"

text \<open>
  The end of the wait in \<open>shutdown\<close>, under the mutex: \<open>wait_for\<close> returns what its predicate says,
  and what is left after a timeout is counted and discarded.
\<close>

definition aq_finish_shutdown :: "'r aqueue \<Rightarrow> bool \<times> 'r aqueue" where
  "aq_finish_shutdown q =
     (let drained = aq_empty q in
      if drained then (True, q)
      else (False, q\<lparr>aq_dropped := length (aq_queue q), aq_queue := []\<rparr>))"

definition aq_set_timeout :: "nat \<Rightarrow> 'r aqueue \<Rightarrow> 'r aqueue" where
  "aq_set_timeout timeout_ms q = q\<lparr>aq_timeout_ms := timeout_ms\<rparr>"

section \<open>Threads\<close>

datatype 'r departure = Popped 'r | Discarded 'r

primrec departed_record :: "'r departure \<Rightarrow> 'r" where
  "departed_record (Popped r) = r"
| "departed_record (Discarded r) = r"

datatype 'r aq_label =
  Push_refused 'r          \<comment> \<open>the flag is set: \<open>push\<close> returns false\<close>
| Push_tested 'r           \<comment> \<open>the flag is not set\<close>
| Push_enqueued 'r         \<comment> \<open>the record is in the queue, the mutex released\<close>
| Push_returned 'r         \<comment> \<open>a consumer is notified and \<open>push\<close> returns true\<close>
| Pop_record 'r
| Pop_ended
| Shutdown_begun bool      \<comment> \<open>with the argument \<open>wait_for_drain\<close>\<close>
| Shutdown_ended bool      \<comment> \<open>with the result\<close>

record 'r aq_system =
  as_q :: "'r aqueue"
  as_tested :: "'r list"
  as_waiting :: nat
  as_pending :: "'r list"          \<comment> \<open>enqueued by a push that has not returned yet\<close>
  as_entered :: "'r list"
  as_returned :: "'r list"
  as_departed :: "'r departure list"

inductive aq_step :: "'r aq_system \<Rightarrow> 'r aq_label \<Rightarrow> 'r aq_system \<Rightarrow> bool" where
  step_refuse: "aq_shutdown (as_q s) \<Longrightarrow> aq_step s (Push_refused r) s"
| step_test: "\<not> aq_shutdown (as_q s) \<Longrightarrow>
    aq_step s (Push_tested r) (s\<lparr>as_tested := r # as_tested s\<rparr>)"
| step_push: "r \<in> set (as_tested s) \<Longrightarrow>
    aq_step s (Push_enqueued r) (s\<lparr>as_tested := remove1 r (as_tested s),
      as_q := aq_enqueue r (as_q s), as_pending := r # as_pending s,
      as_entered := as_entered s @ [r]\<rparr>)"
| step_return: "r \<in> set (as_pending s) \<Longrightarrow>
    aq_step s (Push_returned r) (s\<lparr>as_pending := remove1 r (as_pending s),
      as_returned := as_returned s @ [r]\<rparr>)"
| step_pop: "aq_pop (as_q s) = Some (Some r, q) \<Longrightarrow>
    aq_step s (Pop_record r) (s\<lparr>as_q := q, as_departed := as_departed s @ [Popped r]\<rparr>)"
| step_pop_end: "aq_pop (as_q s) = Some (None, q) \<Longrightarrow> aq_step s Pop_ended (s\<lparr>as_q := q\<rparr>)"
| step_begin: "aq_step s (Shutdown_begun wait)
    (s\<lparr>as_q := aq_begin_shutdown (as_q s), as_waiting := as_waiting s + (if wait then 1 else 0)\<rparr>)"
| step_end: "0 < as_waiting s \<Longrightarrow> aq_finish_shutdown (as_q s) = (drained, q) \<Longrightarrow>
    aq_step s (Shutdown_ended drained) (s\<lparr>as_q := q, as_waiting := as_waiting s - 1,
      as_departed := as_departed s @ (if drained then [] else map Discarded (aq_queue (as_q s)))\<rparr>)"

inductive_cases aq_stepE: "aq_step s l s'"

inductive_simps aq_step_iff:
  "aq_step s (Push_tested r) s'" "aq_step s (Push_enqueued r) s'" "aq_step s (Push_returned r) s'"
  "aq_step s (Shutdown_begun wait) s'" "aq_step s (Shutdown_ended drained) s'"

definition aq_init :: "nat \<Rightarrow> 'r aq_system \<Rightarrow> bool" where
  "aq_init timeout s \<longleftrightarrow>
     s = \<lparr>as_q = aq_new timeout, as_tested = [], as_waiting = 0, as_pending = [], as_entered = [],
       as_returned = [], as_departed = []\<rparr>"

section \<open>Conservation and order\<close>

definition aq_conserved :: "'r aq_system \<Rightarrow> bool" where
  "aq_conserved s \<longleftrightarrow>
     map departed_record (as_departed s) @ aq_queue (as_q s) = as_entered s
     \<and> mset (as_returned s) + mset (as_pending s) = mset (as_entered s)
     \<and> (0 < as_waiting s \<or> set (as_departed s) \<inter> range Discarded \<noteq> {} \<longrightarrow> aq_shutdown (as_q s))"

lemma map_departed_discarded [simp]: "map (departed_record \<circ> Discarded) rs = rs"
  by (simp add: comp_def)

lemma mset_return:
  "r \<in> set ps \<Longrightarrow> mset rs + mset ps = M \<Longrightarrow> add_mset r (mset rs + (mset ps - {#r#})) = M"
  by (metis add_mset_add_single insert_DiffM set_mset_mset union_mset_add_mset_right)

interpretation aq: invariant_of "aq_init timeout" aq_step aq_conserved
proof
  show "aq_init timeout s \<Longrightarrow> aq_conserved s" for s :: "'r aq_system"
    by (auto simp: aq_init_def aq_conserved_def aq_new_def)
next
  fix s :: "'r aq_system" and l s'
  assume inv: "aq_conserved s" and "aq_step s l s'"
  from this(2) show "aq_conserved s'"
  proof (cases rule: aq_step.cases)
    case (step_return r)
    with inv mset_return[of r "as_pending s" "as_returned s"] show ?thesis
      by (simp add: aq_conserved_def)
  next
    case (step_end drained q)
    with inv show ?thesis
      by (auto simp: aq_conserved_def aq_finish_shutdown_def aq_empty_def Let_def split: if_splits)
  qed (use inv in \<open>auto simp: aq_conserved_def aq_enqueue_def aq_pop_def aq_begin_shutdown_def
        split: list.splits if_splits\<close>)
qed

text \<open>
  C13. In every interleaving of producers, consumers and shutdowns, the records that left the queue
  (popped or discarded), followed by those in it, are the records that entered it, in the order in
  which they entered: none is lost, duplicated or reordered inside the queue; the records whose
  push returned true and those whose push has yet to return are together the entered ones; and
  nothing is discarded before a shutdown has begun.
\<close>

theorem async_queue_conserves:
  assumes "reach (aq_init timeout) aq_step s"
  shows "map departed_record (as_departed s) @ aq_queue (as_q s) = as_entered s
    \<and> mset (as_returned s) + mset (as_pending s) = mset (as_entered s)
    \<and> (set (as_departed s) \<inter> range Discarded \<noteq> {} \<longrightarrow> aq_shutdown (as_q s))"
  using aq.invariant[OF assms] by (simp add: aq_conserved_def)

abbreviation aq_start :: "'r aq_system" where
  "aq_start \<equiv>
     \<lparr>as_q = aq_new 5000, as_tested = [], as_waiting = 0, as_pending = [], as_entered = [],
      as_returned = [], as_departed = []\<rparr>"

lemma aq_reach_start: "reach (aq_init 5000) aq_step aq_start"
  by (rule reach_init) (simp add: aq_init_def)

text \<open>Two pushes may return in another order than they entered.\<close>

lemma pushes_return_out_of_order:
  "\<exists>s. run aq_step aq_start [Push_tested a, Push_tested b, Push_enqueued a, Push_enqueued b,
        Push_returned b, Push_returned a] s
    \<and> as_entered s = [a, b] \<and> as_returned s = [b, a]"
  by (simp add: run_Cons_iff aq_step_iff aq_enqueue_def aq_new_def)

text \<open>The race of a tested \<open>push\<close> with a complete shutdown.\<close>

definition aq_race :: "'r \<Rightarrow> 'r aq_label list" where
  "aq_race r = [Push_tested r, Shutdown_begun True, Shutdown_ended True, Push_enqueued r,
     Push_returned r]"

definition aq_raced :: "'r \<Rightarrow> 'r aq_system" where
  "aq_raced r =
     \<lparr>as_q = \<lparr>aq_queue = [r], aq_shutdown = True, aq_dropped = 0, aq_timeout_ms = 5000\<rparr>,
      as_tested = [], as_waiting = 0, as_pending = [], as_entered = [r], as_returned = [r],
      as_departed = []\<rparr>"

lemma aq_race_run: "run aq_step aq_start (aq_race r) (aq_raced r)"
  by (simp add: aq_race_def aq_raced_def run_Cons_iff aq_step_iff aq_enqueue_def aq_new_def
      aq_begin_shutdown_def aq_finish_shutdown_def aq_empty_def)

theorem async_queue_conserves_witness:
  "as_entered (aq_raced (7::nat)) = [7]
   \<and> map departed_record (as_departed (aq_raced (7::nat))) @ aq_queue (as_q (aq_raced 7)) = [7]"
  using async_queue_conserves[OF run_reach[OF aq_race_run aq_reach_start], of "7::nat"]
  by (simp add: aq_raced_def)

text \<open>
  The drain guarantee of \<open>shutdown\<close> has a hole: a \<open>push\<close> that tested the flag before the
  shutdown may enqueue after \<open>shutdown\<close> has returned true; that \<open>push\<close> returns true as well, and
  the record is neither popped nor counted as dropped.
\<close>

lemma shutdown_loses_late_push:
  "\<exists>s. run aq_step aq_start (aq_race r) s \<and> r \<in> set (as_returned s)
    \<and> as_departed s = [] \<and> aq_dropped (as_q s) = 0 \<and> as_waiting s = 0"
  using aq_race_run[of r] by (intro exI[of _ "aq_raced r"]) (simp add: aq_raced_def)

end
