(* ===== verification/Thread_Pool.thy ===== *)
theory Thread_Pool
  imports Transitions "HOL-Library.Multiset"
begin

text \<open>
  The thread pool: \<open>include/Zyrnix/async/thread_pool.hpp\<close> and \<open>src/async/thread_pool.cpp\<close>.  A step is
  what a thread does between two points at which another thread can be scheduled.  A worker is at
  the head of its loop (\<open>At_loop\<close>); about to take the mutex, on its way into \<open>cv.wait\<close> or woken
  in it (\<open>Entering\<close>); past a test of the wait's predicate that failed, still holding the mutex
  (\<open>Drowsy\<close>); asleep on the condition variable (\<open>Asleep\<close>); past the critical section with a task
  it has not called yet (\<open>Taken\<close>); inside the task (\<open>Running\<close>); or it has returned.  The mutex is
  held across two steps by a \<open>Drowsy\<close> worker only; every other critical section is one step.

  The notifications are steps of their own: \<open>enqueue\<close> owes one after it has released the mutex,
  and the destructor clears \<open>running\<close> and notifies without the mutex.  A notification reaches
  the workers asleep at that moment; a sleeper may also wake spuriously.  The histories of
  enqueued, taken and started tasks are part of the state and read by no step.
\<close>

datatype 't worker = At_loop | Entering | Drowsy | Asleep | Taken 't | Running 't | Returned

datatype destroyer = Alive | Cleared | Notified | Joined

record 't pool =
  tp_tasks :: "'t list"
  tp_running :: bool
  tp_workers :: "'t worker list"
  tp_notifies :: nat               \<comment> \<open>calls of \<open>enqueue\<close> before their \<open>notify_one\<close>\<close>
  tp_destroyer :: destroyer        \<comment> \<open>how far the destructor is\<close>
  tp_enqueued :: "'t list"
  tp_taken :: "'t list"
  tp_started :: "'t list"

definition tp_new :: "nat \<Rightarrow> 't pool" where
  "tp_new threads =
     \<lparr>tp_tasks = [], tp_running = True, tp_workers = replicate threads At_loop, tp_notifies = 0,
      tp_destroyer = Alive, tp_enqueued = [], tp_taken = [], tp_started = []\<rparr>"

text \<open>The critical section of \<open>enqueue\<close>; its notification is still to come.\<close>

definition tp_enqueue :: "'t \<Rightarrow> 't pool \<Rightarrow> 't pool" where
  "tp_enqueue t p =
     p\<lparr>tp_tasks := tp_tasks p @ [t], tp_notifies := Suc (tp_notifies p),
       tp_enqueued := tp_enqueued p @ [t]\<rparr>"

text \<open>The head of the loop: \<open>while (running)\<close>.\<close>

definition tp_head :: "'t pool \<Rightarrow> 't worker" where
  "tp_head p = (if tp_running p then Entering else Returned)"

text \<open>
  With the mutex: the test of the wait's predicate and, where it holds, the rest of the critical
  section.  (\<open>running\<close> is only ever cleared, so a predicate that held still holds at the next
  line.)
\<close>

definition tp_wake :: "'t pool \<Rightarrow> 't worker \<times> 't pool" where
  "tp_wake p =
     (if tp_tasks p = [] \<and> tp_running p then (Drowsy, p)
      else if \<not> tp_running p \<and> tp_tasks p = [] then (Returned, p)
      else (Taken (hd (tp_tasks p)),
            p\<lparr>tp_tasks := tl (tp_tasks p), tp_taken := tp_taken p @ [hd (tp_tasks p)]\<rparr>))"

definition tp_set :: "nat \<Rightarrow> 't worker \<Rightarrow> 't pool \<Rightarrow> 't pool" where
  "tp_set i w p = p\<lparr>tp_workers := (tp_workers p)[i := w]\<rparr>"

definition tp_at :: "'t pool \<Rightarrow> nat \<Rightarrow> 't worker \<Rightarrow> bool" where
  "tp_at p i w \<longleftrightarrow> i < length (tp_workers p) \<and> tp_workers p ! i = w"

definition tp_free :: "'t pool \<Rightarrow> bool" where
  "tp_free p \<longleftrightarrow> Drowsy \<notin> set (tp_workers p)"

definition woken :: "'t worker \<Rightarrow> 't worker" where
  "woken w = (if w = Asleep then Entering else w)"

datatype 't tp_label =
  Enqueue 't | Notify_one nat | Notify_none
| Loop_head nat | Test nat | Sleep nat | Spurious nat | Start nat | Finish nat
| Clear | Notify_all | Join

inductive tp_step :: "'t pool \<Rightarrow> 't tp_label \<Rightarrow> 't pool \<Rightarrow> bool" where
  step_enqueue: "tp_free p \<Longrightarrow> tp_destroyer p \<noteq> Joined \<Longrightarrow> tp_step p (Enqueue t) (tp_enqueue t p)"
| step_notify: "0 < tp_notifies p \<Longrightarrow> tp_at p i Asleep \<Longrightarrow>
    tp_step p (Notify_one i) (tp_set i Entering p\<lparr>tp_notifies := tp_notifies p - 1\<rparr>)"
| step_none: "0 < tp_notifies p \<Longrightarrow> Asleep \<notin> set (tp_workers p) \<Longrightarrow>
    tp_step p Notify_none (p\<lparr>tp_notifies := tp_notifies p - 1\<rparr>)"
| step_head: "tp_at p i At_loop \<Longrightarrow> tp_step p (Loop_head i) (tp_set i (tp_head p) p)"
| step_test: "tp_at p i Entering \<Longrightarrow> tp_free p \<Longrightarrow>
    tp_step p (Test i) (tp_set i (fst (tp_wake p)) (snd (tp_wake p)))"
| step_sleep: "tp_at p i Drowsy \<Longrightarrow> tp_step p (Sleep i) (tp_set i Asleep p)"
| step_spurious: "tp_at p i Asleep \<Longrightarrow> tp_step p (Spurious i) (tp_set i Entering p)"
| step_start: "tp_at p i (Taken t) \<Longrightarrow>
    tp_step p (Start i) (tp_set i (Running t) p\<lparr>tp_started := tp_started p @ [t]\<rparr>)"
| step_finish: "tp_at p i (Running t) \<Longrightarrow> tp_step p (Finish i) (tp_set i At_loop p)"
| step_clear: "tp_destroyer p = Alive \<Longrightarrow>
    tp_step p Clear (p\<lparr>tp_running := False, tp_destroyer := Cleared\<rparr>)"
| step_all: "tp_destroyer p = Cleared \<Longrightarrow>
    tp_step p Notify_all (p\<lparr>tp_workers := map woken (tp_workers p), tp_destroyer := Notified\<rparr>)"
| step_join: "tp_destroyer p = Notified \<Longrightarrow> list_all (\<lambda>w. w = Returned) (tp_workers p) \<Longrightarrow>
    tp_step p Join (p\<lparr>tp_destroyer := Joined\<rparr>)"

inductive_cases tp_stepE: "tp_step p l p'"

inductive_simps tp_step_iff:
  "tp_step p (Enqueue t) p'" "tp_step p (Notify_one i) p'" "tp_step p Notify_none p'"
  "tp_step p (Loop_head i) p'" "tp_step p (Test i) p'" "tp_step p (Sleep i) p'"
  "tp_step p (Spurious i) p'" "tp_step p (Start i) p'" "tp_step p (Finish i) p'"
  "tp_step p Clear p'" "tp_step p Notify_all p'" "tp_step p Join p'"

definition tp_init :: "nat \<Rightarrow> 't pool \<Rightarrow> bool" where
  "tp_init threads p \<longleftrightarrow> p = tp_new threads"

lemmas tp_eval = tp_new_def tp_enqueue_def tp_head_def tp_wake_def tp_set_def tp_at_def tp_free_def
  woken_def

section \<open>Tasks are taken in order and started once\<close>

text \<open>The task a worker has taken from the queue and not called yet.\<close>

primrec in_hand :: "'t worker \<Rightarrow> 't list" where
  "in_hand At_loop = []"
| "in_hand Entering = []"
| "in_hand Drowsy = []"
| "in_hand Asleep = []"
| "in_hand (Taken t) = [t]"
| "in_hand (Running t) = []"
| "in_hand Returned = []"

definition tasks_in_hand :: "'t pool \<Rightarrow> 't list" where
  "tasks_in_hand p = concat (map in_hand (tp_workers p))"

lemma in_hand_woken [simp]: "in_hand (woken w) = in_hand w"
  by (simp add: woken_def)

lemma in_hand_tp_head [simp]: "in_hand (tp_head p) = []"
  by (simp add: tp_head_def)

lemma mset_in_hand_update:
  "i < length ws \<Longrightarrow>
     mset (concat (map in_hand (ws[i := w]))) + mset (in_hand (ws ! i))
     = mset (concat (map in_hand ws)) + mset (in_hand w)"
proof (induction ws arbitrary: i)
  case (Cons v ws)
  then show ?case by (cases i) (auto simp: ac_simps)
qed simp

lemma hands_same:
  assumes "tp_at p i v" and "in_hand w = in_hand v"
  shows "map in_hand ((tp_workers p)[i := w]) = map in_hand (tp_workers p)"
  using assms by (simp add: tp_at_def map_update) (metis list_update_id nth_map)

lemma hands_taken:
  "tp_at p i v \<Longrightarrow> in_hand v = [] \<Longrightarrow>
     mset (concat (map in_hand ((tp_workers p)[i := Taken t])))
     = add_mset t (mset (concat (map in_hand (tp_workers p))))"
  using mset_in_hand_update[of i "tp_workers p" "Taken t"] by (simp add: tp_at_def)

lemma hands_started:
  "tp_at p i (Taken t) \<Longrightarrow>
     mset (concat (map in_hand (tp_workers p)))
     = add_mset t (mset (concat (map in_hand ((tp_workers p)[i := Running t]))))"
  using mset_in_hand_update[of i "tp_workers p" "Running t"] by (simp add: tp_at_def)

definition tp_ordered :: "'t pool \<Rightarrow> bool" where
  "tp_ordered p \<longleftrightarrow>
     tp_taken p @ tp_tasks p = tp_enqueued p
     \<and> mset (tp_started p) + mset (tasks_in_hand p) = mset (tp_taken p)
     \<and> (length (tp_workers p) = 1 \<longrightarrow> tp_started p @ tasks_in_hand p = tp_taken p)"

lemma tp_ordered_frame:
  assumes "tp_ordered p" and "tp_at p i v" and "in_hand w = in_hand v"
  shows "tp_ordered (tp_set i w p)"
  using assms(1) hands_same[OF assms(2,3)] unfolding tp_ordered_def tasks_in_hand_def tp_set_def by simp

lemma tp_ordered_test:
  assumes inv: "tp_ordered p" and at: "tp_at p i Entering"
  shows "tp_ordered (tp_set i (fst (tp_wake p)) (snd (tp_wake p)))"
proof (cases "tp_tasks p")
  case Nil
  with tp_ordered_frame[OF inv at] show ?thesis by (auto simp: tp_wake_def)
next
  case (Cons t ts)
  note eqs = inv[unfolded tp_ordered_def] hands_taken[OF at, of t]
  have one: "concat (map in_hand (tp_workers p)) = []
    \<and> concat (map in_hand ((tp_workers p)[i := Taken t])) = [t]" if "length (tp_workers p) = 1"
    using that at by (cases "tp_workers p") (auto simp: tp_at_def)
  show ?thesis
    using Cons eqs one by (auto simp: tp_ordered_def tp_wake_def tp_set_def tasks_in_hand_def)
qed

lemma tp_ordered_start:
  assumes inv: "tp_ordered p" and at: "tp_at p i (Taken t)"
  shows "tp_ordered (tp_set i (Running t) p\<lparr>tp_started := tp_started p @ [t]\<rparr>)"
proof -
  have one: "concat (map in_hand (tp_workers p)) = [t]
    \<and> concat (map in_hand ((tp_workers p)[i := Running t])) = []" if "length (tp_workers p) = 1"
    using that at by (cases "tp_workers p") (auto simp: tp_at_def)
  show ?thesis
    using inv hands_started[OF at] one by (auto simp: tp_ordered_def tp_set_def tasks_in_hand_def)
qed

interpretation tp: invariant_of "tp_init threads" tp_step tp_ordered
proof
  show "tp_init threads p \<Longrightarrow> tp_ordered p" for p :: "'t pool"
    by (simp add: tp_init_def tp_new_def tp_ordered_def tasks_in_hand_def map_replicate_const)
next
  fix p :: "'t pool" and l p'
  assume inv: "tp_ordered p" and "tp_step p l p'"
  from this(2) show "tp_ordered p'"
  proof (cases rule: tp_step.cases)
    case (step_notify i)
    with tp_ordered_frame[OF inv, of i Asleep Entering] show ?thesis
      by (simp add: tp_ordered_def tasks_in_hand_def tp_set_def)
  next
    case step_all
    with inv show ?thesis by (simp add: tp_ordered_def tasks_in_hand_def comp_def)
  qed (use inv in \<open>auto simp: tp_ordered_test tp_ordered_start intro: tp_ordered_frame;
        simp add: tp_ordered_def tasks_in_hand_def tp_enqueue_def\<close>)+
qed

text \<open>
  C15. Tasks are taken from the queue in the order in which they entered it, and each is started
  at most once: in every interleaving, the tasks taken, followed by those still queued, are the
  enqueued ones in the order of their critical sections; the started tasks and those a worker
  holds without having called them yet are together the taken ones, each as often; and with one
  worker they are also started in that order.
\<close>

theorem pool_starts_in_order:
  assumes "reach (tp_init threads) tp_step p"
  shows "tp_taken p @ tp_tasks p = tp_enqueued p
    \<and> mset (tp_started p) + mset (tasks_in_hand p) = mset (tp_taken p)
    \<and> (length (tp_workers p) = 1 \<longrightarrow> tp_started p @ tasks_in_hand p = tp_taken p)"
  using tp.invariant[OF assms] by (simp add: tp_ordered_def)

text \<open>
  The order of the starts is not guaranteed with two workers: a task is called outside the mutex,
  so a worker that took the later task may call it first.
\<close>

definition overtake :: "'t \<Rightarrow> 't \<Rightarrow> 't tp_label list" where
  "overtake a b =
     [Enqueue a, Enqueue b, Loop_head 0, Loop_head 1, Test 0, Test 1, Start 1, Start 0]"

lemma tasks_overtake:
  "\<exists>p. run tp_step (tp_new 2) (overtake a b) p \<and> tp_enqueued p = [a, b] \<and> tp_started p = [b, a]"
  by (simp add: overtake_def run_Cons_iff tp_step_iff tp_eval numeral_2_eq_2)

section \<open>The destructor\<close>

primrec worker_steps :: "'t worker \<Rightarrow> nat" where
  "worker_steps Returned = 0"
| "worker_steps At_loop = 1"
| "worker_steps (Running t) = 2"
| "worker_steps (Taken t) = 3"
| "worker_steps Entering = 4"
| "worker_steps Asleep = 5"
| "worker_steps Drowsy = 6"

primrec destroyer_steps :: "destroyer \<Rightarrow> nat" where
  "destroyer_steps Alive = 3"
| "destroyer_steps Cleared = 2"
| "destroyer_steps Notified = 1"
| "destroyer_steps Joined = 0"

definition tp_steps_left :: "'t pool \<Rightarrow> nat" where
  "tp_steps_left p =
     sum_list (map worker_steps (tp_workers p)) + destroyer_steps (tp_destroyer p)"

text \<open>The labels of callers of \<open>enqueue\<close> that wake no worker.\<close>

primrec caller_only :: "'t tp_label \<Rightarrow> bool" where
  "caller_only (Enqueue t) = True"
| "caller_only (Notify_one i) = False"
| "caller_only Notify_none = True"
| "caller_only (Loop_head i) = False"
| "caller_only (Test i) = False"
| "caller_only (Sleep i) = False"
| "caller_only (Spurious i) = False"
| "caller_only (Start i) = False"
| "caller_only (Finish i) = False"
| "caller_only Clear = False"
| "caller_only Notify_all = False"
| "caller_only Join = False"

text \<open>What may still happen to a pool at rest: a new task or a spurious wakeup.\<close>

definition at_rest :: "'t pool \<Rightarrow> bool" where
  "at_rest p \<longleftrightarrow>
     (\<forall>l p'. tp_step p l p' \<longrightarrow> (\<exists>t. l = Enqueue t) \<or> (\<exists>i. l = Spurious i))"

lemma sum_worker_update:
  "i < length ws \<Longrightarrow> worker_steps w < worker_steps (ws ! i) \<Longrightarrow>
     sum_list (map worker_steps (ws[i := w])) < sum_list (map worker_steps ws)"
proof (induction ws arbitrary: i)
  case (Cons v ws)
  then show ?case by (cases i) auto
qed simp

lemma tp_at_decreases:
  "tp_at p i v \<Longrightarrow> worker_steps w < worker_steps v \<Longrightarrow>
     sum_list (map worker_steps ((tp_workers p)[i := w])) < sum_list (map worker_steps (tp_workers p))"
  by (auto simp: tp_at_def intro: sum_worker_update)

lemma sum_woken: "sum_list (map worker_steps (map woken ws)) \<le> sum_list (map worker_steps ws)"
proof (induction ws)
  case (Cons w ws)
  then show ?case by (simp add: woken_def)
qed simp

text \<open>The destructor has cleared the flag, and only it does.\<close>

definition tp_stopped :: "'t pool \<Rightarrow> bool" where
  "tp_stopped p \<longleftrightarrow> \<not> tp_running p \<and> tp_destroyer p \<noteq> Alive"

lemma tp_step_stopped:
  assumes "tp_stopped p" and "tp_step p l p'"
  shows "tp_stopped p' \<and> length (tp_workers p') = length (tp_workers p)
    \<and> (if caller_only l then tp_steps_left p' = tp_steps_left p
       else tp_steps_left p' < tp_steps_left p)"
  using assms(2,1)
proof (cases rule: tp_step.cases)
  case (step_test i)
  then have "worker_steps (fst (tp_wake p)) < worker_steps (Entering :: 'a worker)"
    "tp_workers (snd (tp_wake p)) = tp_workers p" "tp_running (snd (tp_wake p)) = tp_running p"
    "tp_destroyer (snd (tp_wake p)) = tp_destroyer p"
    using assms(1) by (auto simp: tp_wake_def tp_stopped_def)
  with step_test assms(1) show ?thesis
    by (simp add: tp_steps_left_def tp_set_def tp_stopped_def tp_at_decreases[of p i Entering])
next
  case step_all
  with assms(1) sum_woken[of "tp_workers p"] show ?thesis
    by (simp add: tp_steps_left_def tp_stopped_def)
qed (auto simp: tp_steps_left_def tp_set_def tp_head_def tp_stopped_def tp_enqueue_def
      intro: tp_at_decreases)

lemma stopped_run:
  "run tp_step p ls p' \<Longrightarrow> tp_stopped p \<Longrightarrow>
     tp_stopped p' \<and> length (filter (\<lambda>l. \<not> caller_only l) ls) + tp_steps_left p' \<le> tp_steps_left p"
proof (induction rule: run.induct)
  case (run_Cons p l p1 ls p2)
  with tp_step_stopped[OF run_Cons.prems run_Cons.hyps(1)] show ?case by (auto split: if_splits)
qed simp

lemma worker_steps_le: "sum_list (map worker_steps ws) \<le> 6 * length ws"
proof (induction ws)
  case (Cons w ws)
  then show ?case by (cases w) auto
qed simp

text \<open>In a state at rest every worker has returned or is asleep.\<close>

lemma at_rest_worker:
  assumes "at_rest p" and "tp_stopped p" and i: "i < length (tp_workers p)"
  shows "tp_workers p ! i = Returned \<or> tp_workers p ! i = Asleep"
proof -
  note no = assms(1)[unfolded at_rest_def, rule_format]
  have nd: "tp_workers p ! j \<noteq> Drowsy" if "j < length (tp_workers p)" for j
    using no[OF step_sleep[of p j]] that by (auto simp: tp_at_def)
  then have free: "tp_free p" by (auto simp: tp_free_def in_set_conv_nth)
  show ?thesis
    using no[OF step_head[of p i]] no[OF step_test[of p i, OF _ free]] no[OF step_start[of p i]]
      no[OF step_finish[of p i]] nd[OF i] i
    by (cases "tp_workers p ! i") (auto simp: tp_at_def)
qed

lemma at_rest_joined:
  assumes rest: "at_rest p" and "tp_stopped p" and ns: "Asleep \<notin> set (tp_workers p)"
    and "tp_destroyer p \<noteq> Cleared"
  shows "tp_destroyer p = Joined \<and> list_all (\<lambda>w. w = Returned) (tp_workers p)"
proof -
  have all: "list_all (\<lambda>w. w = Returned) (tp_workers p)"
    unfolding list_all_length
  proof (intro allI impI)
    fix i
    assume i: "i < length (tp_workers p)"
    with ns have "tp_workers p ! i \<noteq> Asleep" by (metis nth_mem)
    with at_rest_worker[OF rest assms(2) i] show "tp_workers p ! i = Returned" by simp
  qed
  with rest[unfolded at_rest_def, rule_format, OF step_join[OF _ all]] assms(2,4) show ?thesis
    by (cases "tp_destroyer p") (auto simp: tp_stopped_def)
qed

text \<open>Once the flag is cleared a worker falls asleep only if it was on its way to sleep.\<close>

lemma none_falls_asleep:
  assumes "tp_step p l p'" and "tp_stopped p"
    and "Asleep \<notin> set (tp_workers p)" and "Drowsy \<notin> set (tp_workers p)"
  shows "Asleep \<notin> set (tp_workers p') \<and> Drowsy \<notin> set (tp_workers p')"
  using assms
proof (cases rule: tp_step.cases)
  case (step_test i)
  then have "fst (tp_wake p) \<noteq> Asleep \<and> fst (tp_wake p) \<noteq> Drowsy"
    "tp_workers (snd (tp_wake p)) = tp_workers p"
    using assms(2) by (auto simp: tp_wake_def tp_stopped_def)
  with step_test assms(3,4) show ?thesis
    by (auto simp: tp_set_def dest!: set_update_subset_insert[THEN subsetD])
next
  case (step_sleep i)
  with assms(4) show ?thesis by (auto simp: tp_at_def) (metis nth_mem)+
qed (auto simp: tp_set_def tp_enqueue_def tp_head_def woken_def tp_stopped_def
      dest!: set_update_subset_insert[THEN subsetD])

lemma none_falls_asleep_run:
  "run tp_step p ls p' \<Longrightarrow> tp_stopped p \<Longrightarrow> Asleep \<notin> set (tp_workers p) \<Longrightarrow>
     Drowsy \<notin> set (tp_workers p) \<Longrightarrow> Asleep \<notin> set (tp_workers p')"
proof (induction rule: run.induct)
  case (run_Cons p l p1 ls p2)
  with tp_step_stopped[OF run_Cons.prems(1) run_Cons.hyps(1)] none_falls_asleep[OF run_Cons.hyps(1)]
  show ?case by blast
qed

lemma destroyer_stays:
  "run tp_step p ls p' \<Longrightarrow> tp_destroyer p = Notified \<or> tp_destroyer p = Joined \<Longrightarrow>
     tp_destroyer p' = Notified \<or> tp_destroyer p' = Joined"
proof (induction rule: run.induct)
  case (run_Cons p l p1 ls p2)
  have "tp_destroyer p1 = Notified \<or> tp_destroyer p1 = Joined"
    using run_Cons.hyps(1) run_Cons.prems
    by (cases rule: tp_step.cases) (auto simp: tp_set_def tp_enqueue_def tp_wake_def)
  with run_Cons show ?case by blast
qed

text \<open>The flag and the progress of the destructor.\<close>

definition tp_flag :: "nat \<Rightarrow> 't pool \<Rightarrow> bool" where
  "tp_flag threads p \<longleftrightarrow>
     length (tp_workers p) = threads \<and> (tp_running p \<longleftrightarrow> tp_destroyer p = Alive)
     \<and> (tp_destroyer p = Joined \<longrightarrow> list_all (\<lambda>w. w = Returned) (tp_workers p))"

interpretation tpf: invariant_of "tp_init threads" tp_step "tp_flag threads"
proof
  show "tp_init threads p \<Longrightarrow> tp_flag threads p" for p :: "'t pool"
    by (simp add: tp_init_def tp_new_def tp_flag_def)
next
  fix p :: "'t pool" and l p'
  assume inv: "tp_flag threads p" and "tp_step p l p'"
  have joined: "tp_destroyer p \<noteq> Joined" if "tp_at p i w" "w \<noteq> Returned" for i w
    using inv that by (auto simp: tp_flag_def tp_at_def list_all_length)
  have wake: "tp_workers (snd (tp_wake p)) = tp_workers p" "tp_running (snd (tp_wake p)) = tp_running p"
    "tp_destroyer (snd (tp_wake p)) = tp_destroyer p"
    by (simp_all add: tp_wake_def)
  from \<open>tp_step p l p'\<close> show "tp_flag threads p'"
    by (cases rule: tp_step.cases)
      (use inv in \<open>auto simp: tp_flag_def tp_set_def tp_enqueue_def wake dest: joined\<close>)
qed

text \<open>
  C16. Once the destructor has cleared \<open>running\<close> and notified, the workers and the destructor have
  at most \<open>6 * threads + 1\<close> steps left under every schedule, whatever callers of \<open>enqueue\<close> and
  spurious wakeups do, if every task returns; when nothing but a new task or a spurious wakeup can
  happen, the destructor has returned exactly if no worker is asleep; and none is if no worker
  stood, at the notification, between a test of the wait's predicate and its sleep.
\<close>

theorem pool_stop_terminates:
  assumes "reach (tp_init threads) tp_step p0" and "tp_step p0 Notify_all p"
    and "run tp_step p ls p'"
  shows "length (filter (\<lambda>l. \<not> caller_only l) ls) \<le> 6 * threads + 1
    \<and> (at_rest p' \<longrightarrow> (tp_destroyer p' = Joined \<longleftrightarrow> Asleep \<notin> set (tp_workers p')))
    \<and> (Drowsy \<notin> set (tp_workers p0) \<longrightarrow> Asleep \<notin> set (tp_workers p'))"
proof -
  have p: "p = p0\<lparr>tp_workers := map woken (tp_workers p0), tp_destroyer := Notified\<rparr>"
    "tp_destroyer p0 = Cleared" using assms(2) by (simp_all add: tp_step_iff)
  have reach: "reach (tp_init threads) tp_step p"
    using assms(1,2) by (rule reach_step)
  note flag = tpf.invariant[OF assms(1)] tpf.invariant[OF reach]
    tpf.invariant_run[OF assms(3) tpf.invariant[OF reach]]
  have st: "tp_stopped p" using flag(2) p by (simp add: tp_flag_def tp_stopped_def)
  note r = stopped_run[OF assms(3) st]
  have "tp_steps_left p \<le> 6 * threads + 1"
    using worker_steps_le[of "tp_workers p"] flag(2) p by (simp add: tp_steps_left_def tp_flag_def)
  moreover have "tp_destroyer p' \<noteq> Cleared"
    using destroyer_stays[OF assms(3)] p(1) by auto
  moreover have "Asleep \<notin> set (tp_workers p')" if "tp_destroyer p' = Joined"
    using flag(3) that by (auto simp: tp_flag_def list_all_iff)
  moreover have "Asleep \<notin> set (tp_workers p')" if "Drowsy \<notin> set (tp_workers p0)"
    by (rule none_falls_asleep_run[OF assms(3) st]) (use that p in \<open>auto simp: woken_def\<close>)
  ultimately show ?thesis
    using r at_rest_joined[of p'] by auto
qed

text \<open>
  The destructor may hang: it clears \<open>running\<close> and notifies without the mutex, so a worker that
  has just tested the predicate under the mutex, and found nothing to do, misses both and sleeps;
  only a further \<open>enqueue\<close> or a spurious wakeup would end the join.
\<close>

definition miss_wakeup :: "'t tp_label list" where
  "miss_wakeup = [Loop_head 0, Test 0, Clear, Notify_all, Sleep 0]"

definition hung :: "'t pool" where
  "hung = (tp_new 1)\<lparr>tp_workers := [Asleep], tp_running := False, tp_destroyer := Notified\<rparr>"

lemma hung_run: "run tp_step (tp_new 1) miss_wakeup hung"
  by (simp add: miss_wakeup_def hung_def run_Cons_iff tp_step_iff tp_eval)

lemma hung_at_rest: "at_rest hung"
  by (auto simp: at_rest_def hung_def tp_new_def tp_at_def elim!: tp_stepE)

lemma destructor_misses_sleeper:
  "run tp_step (tp_new 1) [Loop_head 0, Test 0, Clear, Notify_all, Sleep 0] (hung :: 't pool)
    \<and> at_rest (hung :: 't pool) \<and> tp_destroyer (hung :: 't pool) \<noteq> Joined"
  using hung_run[unfolded miss_wakeup_def] hung_at_rest by (simp add: hung_def)

section \<open>Queued tasks are abandoned\<close>

text \<open>
  The destructor abandons queued tasks: the wait's test \<open>!running && tasks.empty()\<close> means a
  worker to drain the queue before it returns, but the loop's condition \<open>while (running)\<close> ends it
  after the task it took; a task that was enqueued is then never started.
\<close>

definition abandon :: "'t \<Rightarrow> 't \<Rightarrow> 't tp_label list" where
  "abandon a b =
     [Loop_head 0, Test 0, Sleep 0, Enqueue a, Enqueue b, Notify_one 0, Clear, Notify_all, Test 0,
      Start 0, Finish 0, Loop_head 0, Join]"

definition abandoned :: "'t \<Rightarrow> 't \<Rightarrow> 't pool" where
  "abandoned a b =
     \<lparr>tp_tasks = [b], tp_running = False, tp_workers = [Returned], tp_notifies = 1,
      tp_destroyer = Joined, tp_enqueued = [a, b], tp_taken = [a], tp_started = [a]\<rparr>"

lemma abandon_run: "run tp_step (tp_new 1) (abandon a b) (abandoned a b)"
  by (simp add: abandon_def abandoned_def run_Cons_iff tp_step_iff tp_eval)

lemma abandoned_reachable: "reach (tp_init 1) tp_step (abandoned a b)"
  by (rule run_reach[OF abandon_run reach_init]) (simp add: tp_init_def)

lemma pool_abandons_tasks:
  "\<exists>p. run tp_step (tp_new 1) (abandon a b) p
    \<and> tp_destroyer p = Joined \<and> tp_tasks p = [b] \<and> tp_started p = [a]"
  using abandon_run[of a b] by (intro exI[of _ "abandoned a b"]) (simp add: abandoned_def)

section \<open>The properties at concrete pools\<close>

theorem pool_starts_in_order_witness:
  "tp_taken (abandoned (1::nat) 2) @ tp_tasks (abandoned 1 2) = [1, 2]
   \<and> tp_started (abandoned (1::nat) 2) = [1]"
  using pool_starts_in_order[OF abandoned_reachable, of "1::nat" 2]
  by (simp add: abandoned_def tasks_in_hand_def)

abbreviation sleeping :: "nat pool" where
  "sleeping \<equiv> (tp_new 1)\<lparr>tp_workers := [Asleep]\<rparr>"

abbreviation cleared :: "nat pool" where
  "cleared \<equiv> sleeping\<lparr>tp_running := False, tp_destroyer := Cleared\<rparr>"

theorem pool_stop_terminates_witness:
  "length (filter (\<lambda>l. \<not> caller_only l) [Test 0, Join :: nat tp_label]) \<le> 7
   \<and> Asleep \<notin> set (tp_workers (cleared\<lparr>tp_workers := [Returned], tp_destroyer := Joined\<rparr>))"
proof -
  have "run tp_step (tp_new 1) [Loop_head 0, Test 0, Sleep 0, Clear] cleared"
    by (simp add: run_Cons_iff tp_step_iff tp_eval)
  then have reach: "reach (tp_init 1) tp_step cleared"
    by (rule run_reach) (simp add: reach_init tp_init_def)
  have "tp_step cleared Notify_all (cleared\<lparr>tp_workers := [Entering], tp_destroyer := Notified\<rparr>)"
    by (simp add: tp_step_iff woken_def tp_new_def)
  moreover have "run tp_step (cleared\<lparr>tp_workers := [Entering], tp_destroyer := Notified\<rparr>)
      [Test 0, Join] (cleared\<lparr>tp_workers := [Returned], tp_destroyer := Joined\<rparr>)"
    by (simp add: run_Cons_iff tp_step_iff tp_eval)
  ultimately show ?thesis
    using pool_stop_terminates[OF reach] by fastforce
qed

end
