(* ===== verification/File_System.thy ===== *)
theory File_System
  imports Zyrnix_Prelude
begin

text \<open>
  The file system as the sinks use it, and the path functions they call (\<open>Platform_Paths\<close> has those
  of \<open>src/util.cpp\<close> over system calls).  A file system maps the path of a regular file to its contents; which paths can be
  opened for writing is the argument \<open>can_open\<close> of the operations that open.  An output stream is
  the path it appends to; what was written to it counts as in the file (the sinks close or flush
  their streams before they rename a file).  File sizes and \<open>size_t\<close> sums of them are natural
  numbers.
\<close>

record file_system =
  fs_files :: "string \<Rightarrow> string option"
  fs_dirs :: "string set"

type_synonym stream = "string option"

text \<open>\<open>open(path, std::ios::app)\<close> and \<open>open(path, std::ios::trunc)\<close>.\<close>

definition open_append ::
    "(string \<Rightarrow> bool) \<Rightarrow> string \<Rightarrow> file_system \<Rightarrow> stream \<times> file_system" where
  "open_append can_open p fs =
     (if can_open p
      then (Some p, case fs_files fs p of
                      None \<Rightarrow> fs\<lparr>fs_files := (fs_files fs)(p \<mapsto> [])\<rparr>
                    | Some _ \<Rightarrow> fs)
      else (None, fs))"

definition open_trunc ::
    "(string \<Rightarrow> bool) \<Rightarrow> string \<Rightarrow> file_system \<Rightarrow> stream \<times> file_system" where
  "open_trunc can_open p fs =
     (if can_open p then (Some p, fs\<lparr>fs_files := (fs_files fs)(p \<mapsto> [])\<rparr>) else (None, fs))"

definition stream_write :: "stream \<Rightarrow> string \<Rightarrow> file_system \<Rightarrow> file_system" where
  "stream_write st s fs =
     (case st of
        None \<Rightarrow> fs
      | Some p \<Rightarrow> fs\<lparr>fs_files := (fs_files fs)(p \<mapsto>
          (case fs_files fs p of None \<Rightarrow> [] | Some c \<Rightarrow> c) @ s)\<rparr>)"

text \<open>The size of a file; 0 when it does not exist.\<close>

definition file_size :: "string \<Rightarrow> file_system \<Rightarrow> nat" where
  "file_size p fs = (case fs_files fs p of None \<Rightarrow> 0 | Some c \<Rightarrow> length c)"

text \<open>\<open>rename\<close> replaces an existing target; without a source it fails and changes nothing.\<close>

definition rename_file :: "string \<Rightarrow> string \<Rightarrow> file_system \<Rightarrow> bool \<times> file_system" where
  "rename_file old_path new_path fs =
     (case fs_files fs old_path of
        None \<Rightarrow> (False, fs)
      | Some c \<Rightarrow>
          (True, fs\<lparr>fs_files := (if old_path = new_path then fs_files fs
                               else (fs_files fs)(old_path := None, new_path \<mapsto> c))\<rparr>))"

definition remove_file :: "string \<Rightarrow> file_system \<Rightarrow> bool \<times> file_system" where
  "remove_file p fs = (True, fs\<lparr>fs_files := (fs_files fs)(p := None)\<rparr>)"

definition file_exists :: "string \<Rightarrow> file_system \<Rightarrow> bool" where
  "file_exists p fs \<longleftrightarrow> fs_files fs p \<noteq> None"

lemma fs_files_write [simp]:
  "fs_files (stream_write (Some p) s fs) =
     (fs_files fs)(p \<mapsto> (case fs_files fs p of None \<Rightarrow> [] | Some c \<Rightarrow> c) @ s)"
  by (simp add: stream_write_def)

lemma fs_files_rename:
  "old_path \<noteq> new_path \<Longrightarrow> fs_files (snd (rename_file old_path new_path fs)) =
     (case fs_files fs old_path of
        None \<Rightarrow> fs_files fs
      | Some c \<Rightarrow> (fs_files fs)(old_path := None, new_path \<mapsto> c))"
  by (simp add: rename_file_def split: option.split)

end
