(* ===== verification/Compressed_Sink.thy ===== *)
theory Compressed_Sink
  imports File_System Formatter Doubles
begin

text \<open>
  The compressed rotating sink: \<open>include/Zyrnix/sinks/compressed_file_sink.hpp\<close> and
  \<open>src/sinks/compressed_file_sink.cpp\<close>.  The compression libraries are a parameter: a function of
  the type, the level and the source's contents whose value is what is written to the destination,
  \<^const>\<open>None\<close> when compression fails and the destination is left as it is.  Theory \<open>Compression\<close>
  models the functions that call them and gives such a compressor.
\<close>

section \<open>State\<close>

datatype compression_type = No_compression | Gzip | Zstd

record compression_options =
  co_type :: compression_type
  co_level :: int
  co_compress_on_rotate :: bool
  co_auto_tune :: bool

definition compression_options_default :: compression_options where
  "compression_options_default =
     \<lparr>co_type = Gzip, co_level = 6, co_compress_on_rotate = True, co_auto_tune = False\<rparr>"

type_synonym compressor = "compression_type \<Rightarrow> int \<Rightarrow> string \<Rightarrow> string option"

record compressed_sink =
  zs_base :: string
  zs_max_size :: nat
  zs_max_files :: nat
  zs_options :: compression_options
  zs_file :: stream
  zs_current_size :: nat
  zs_files_compressed :: u64
  zs_original_bytes :: u64
  zs_compressed_bytes :: u64
  zs_current_level :: int
  zs_last_duration_us :: u64
  zs_compression_count :: u64

definition compressed_new ::
    "(string \<Rightarrow> bool) \<Rightarrow> string \<Rightarrow> nat \<Rightarrow> nat \<Rightarrow> compression_options \<Rightarrow> file_system
      \<Rightarrow> compressed_sink \<times> file_system" where
  "compressed_new can_open filename max_size max_files options fs =
     (let (f, fs1) = open_append can_open filename fs in
      (\<lparr>zs_base = filename, zs_max_size = max_size, zs_max_files = max_files, zs_options = options,
        zs_file = f, zs_current_size = (if f = None then 0 else file_size filename fs1),
        zs_files_compressed = 0, zs_original_bytes = 0, zs_compressed_bytes = 0,
        zs_current_level = co_level options, zs_last_duration_us = 0, zs_compression_count = 0\<rparr>, fs1))"

definition get_rotated_filename :: "string \<Rightarrow> nat \<Rightarrow> string" where
  "get_rotated_filename base index = base @ ''.'' @ show_nat index"

definition get_compressed_extension :: "compression_type \<Rightarrow> string" where
  "get_compressed_extension t = (case t of Gzip \<Rightarrow> ''.gz'' | Zstd \<Rightarrow> ''.zst'' | No_compression \<Rightarrow> [])"

section \<open>Tuning the level\<close>

definition calculate_compression_speed :: "compressed_sink \<Rightarrow> double" where
  "calculate_compression_speed s =
     (if zs_last_duration_us s = 0 \<or> zs_original_bytes s = 0 then 0
      else
        (let avg_bytes = fl (u64_double (zs_original_bytes s) / u64_double (zs_compression_count s))
         in fl (fl (avg_bytes * 1000000) / u64_double (zs_last_duration_us s))))"

definition calculate_optimal_level :: "compressed_sink \<Rightarrow> int" where
  "calculate_optimal_level s =
     (let avg_ratio = (if zs_compressed_bytes s > 0
            then fl (u64_double (zs_original_bytes s) / u64_double (zs_compressed_bytes s)) else 1);
          speed = calculate_compression_speed s;
          min_level = 1;
          max_level = (if co_type (zs_options s) = Gzip then 9 else 22)
      in if speed < 10000000 \<and> avg_ratio \<ge> 3 then max min_level (zs_current_level s - 1)
         else if speed > 50000000 \<and> avg_ratio < 3 then min max_level (zs_current_level s + 1)
         else if avg_ratio \<ge> 5 \<and> zs_current_level s > min_level + 1 then zs_current_level s - 1
         else zs_current_level s)"

definition update_compression_level :: "compressed_sink \<Rightarrow> compressed_sink" where
  "update_compression_level s =
     (if zs_compression_count s < 3 then s
      else
        (let new_level = calculate_optimal_level s in
         if new_level \<noteq> zs_current_level s
         then s\<lparr>zs_current_level := new_level, zs_options := (zs_options s)\<lparr>co_level := new_level\<rparr>\<rparr>
         else s))"

definition enable_auto_tune :: "bool \<Rightarrow> compressed_sink \<Rightarrow> compressed_sink" where
  "enable_auto_tune enable s =
     (let s1 = s\<lparr>zs_options := (zs_options s)\<lparr>co_auto_tune := enable\<rparr>\<rparr> in
      if enable then s1\<lparr>zs_current_level := co_level (zs_options s1)\<rparr> else s1)"

section \<open>Rotation\<close>

definition compress_file ::
    "compressor \<Rightarrow> compression_type \<Rightarrow> int \<Rightarrow> string \<Rightarrow> string \<Rightarrow> file_system \<Rightarrow> file_system" where
  "compress_file pack t level source_path dest_path fs =
     (case t of
        No_compression \<Rightarrow> fs
      | _ \<Rightarrow>
          (case fs_files fs source_path of
             None \<Rightarrow> fs
           | Some c \<Rightarrow>
               (case pack t level c of
                  None \<Rightarrow> fs
                | Some z \<Rightarrow> fs\<lparr>fs_files := (fs_files fs)(dest_path \<mapsto> z)\<rparr>)))"

fun shift_rotated :: "string \<Rightarrow> nat \<Rightarrow> file_system \<Rightarrow> file_system" where
  "shift_rotated base 0 fs = fs"
| "shift_rotated base (Suc i) fs =
     shift_rotated base i
       (snd (rename_file (if Suc i = 1 then base else get_rotated_filename base i)
               (get_rotated_filename base (Suc i)) fs))"

text \<open>
  The compression after a rotation: the result \<open>success\<close> of \<open>compress_file\<close> is ignored, what counts
  is the size of the destination.  \<open>duration\<close> is what the steady clock measured.
\<close>

definition compress_rotated ::
    "compressor \<Rightarrow> u64 \<Rightarrow> compressed_sink \<times> file_system \<Rightarrow> compressed_sink \<times> file_system" where
  "compress_rotated pack duration st =
     (let (s, fs) = st;
          t = co_type (zs_options s);
          source = get_rotated_filename (zs_base s) 1;
          dest = source @ get_compressed_extension t;
          original_size = file_size source fs;
          fs1 = compress_file pack t (co_level (zs_options s)) source dest fs;
          s1 = s\<lparr>zs_last_duration_us := duration, zs_compression_count := zs_compression_count s + 1\<rparr>;
          compressed_size = file_size dest fs1
      in if compressed_size > 0
         then
           (let fs2 = snd (remove_file source fs1);
                s2 = s1\<lparr>zs_files_compressed := zs_files_compressed s1 + 1,
                        zs_original_bytes := zs_original_bytes s1 + of_nat original_size,
                        zs_compressed_bytes := zs_compressed_bytes s1 + of_nat compressed_size\<rparr>
            in (if co_auto_tune (zs_options s2) then update_compression_level s2 else s2, fs2))
         else (s1, fs1))"

definition compressed_rotate ::
    "(string \<Rightarrow> bool) \<Rightarrow> compressor \<Rightarrow> u64 \<Rightarrow> compressed_sink \<times> file_system
      \<Rightarrow> compressed_sink \<times> file_system" where
  "compressed_rotate can_open pack duration st =
     (let (s, fs) = st;
          base = zs_base s;
          fs1 = (if zs_max_files s > 0
                 then snd (remove_file (get_rotated_filename base (zs_max_files s)) fs) else fs);
          fs2 = shift_rotated base (zs_max_files s) fs1;
          (s3, fs3) = (if co_compress_on_rotate (zs_options s) \<and> co_type (zs_options s) \<noteq> No_compression
                       then compress_rotated pack duration (s, fs2) else (s, fs2));
          (f, fs4) = open_trunc can_open base fs3
      in (s3\<lparr>zs_file := f, zs_current_size := 0\<rparr>, fs4))"

definition compressed_log ::
    "(string \<Rightarrow> bool) \<Rightarrow> compressor \<Rightarrow> u64 \<Rightarrow> tz_offset \<Rightarrow> time \<Rightarrow> string \<Rightarrow> level \<Rightarrow> string
      \<Rightarrow> compressed_sink \<times> file_system \<Rightarrow> compressed_sink \<times> file_system" where
  "compressed_log can_open pack duration tz now nm l message st =
     (let (s, fs) = st in
      if zs_file s = None then (s, fs)
      else
        (let formatted = format tz now nm l message;
             fs1 = stream_write (zs_file s) (formatted @ newline) fs;
             s1 = s\<lparr>zs_current_size := zs_current_size s + length formatted + 1\<rparr>
         in if zs_current_size s1 \<ge> zs_max_size s1
            then compressed_rotate can_open pack duration (s1, fs1) else (s1, fs1)))"

record compression_stats =
  cs_files_compressed :: u64
  cs_original_bytes :: u64
  cs_compressed_bytes :: u64
  cs_compression_ratio :: double

definition get_compression_stats :: "compressed_sink \<Rightarrow> compression_stats" where
  "get_compression_stats s =
     \<lparr>cs_files_compressed = zs_files_compressed s, cs_original_bytes = zs_original_bytes s,
      cs_compressed_bytes = zs_compressed_bytes s,
      cs_compression_ratio = (if zs_compressed_bytes s > 0
        then fl (u64_double (zs_original_bytes s) / u64_double (zs_compressed_bytes s)) else 0)\<rparr>"

section \<open>What rotation does\<close>

lemma rotated_filename_inj [simp]:
  "get_rotated_filename base i = get_rotated_filename base j \<longleftrightarrow> i = j"
  by (simp add: get_rotated_filename_def)

lemma rotated_not_base [simp]:
  "get_rotated_filename base i \<noteq> base" "base \<noteq> get_rotated_filename base i"
  by (simp_all add: get_rotated_filename_def)

lemma extension_nonempty [simp]: "t \<noteq> No_compression \<Longrightarrow> get_compressed_extension t \<noteq> []"
  by (cases t) (simp_all add: get_compressed_extension_def)

lemma rotated_not_compressed [simp]:
  assumes "t \<noteq> No_compression"
  shows "get_rotated_filename base i \<noteq> get_rotated_filename base j @ get_compressed_extension t"
    and "base \<noteq> get_rotated_filename base j @ get_compressed_extension t"
proof -
  obtain x y where e: "get_compressed_extension t = CHR ''.'' # x # y" "\<not> is_digit CHR ''.''"
    using assms by (cases t) (auto simp: get_compressed_extension_def is_digit_def char_code_def)
  show "get_rotated_filename base i \<noteq> get_rotated_filename base j @ get_compressed_extension t"
  proof
    assume "get_rotated_filename base i = get_rotated_filename base j @ get_compressed_extension t"
    then have "show_nat i = show_nat j @ CHR ''.'' # x # y"
      by (simp add: get_rotated_filename_def e(1))
    then have "CHR ''.'' \<in> set (show_nat i)" by simp
    with show_nat_digits e(2) show False by blast
  qed
  show "base \<noteq> get_rotated_filename base j @ get_compressed_extension t"
    by (simp add: get_rotated_filename_def)
qed

text \<open>No uncompressed archive is left from earlier rotations.\<close>

definition no_plain_archives :: "string \<Rightarrow> file_system \<Rightarrow> bool" where
  "no_plain_archives base fs \<longleftrightarrow> (\<forall>i. fs_files fs (get_rotated_filename base i) = None)"

lemma shift_rotated_fresh:
  "no_plain_archives base fs \<Longrightarrow> fs_files fs base = Some c \<Longrightarrow> 0 < n \<Longrightarrow>
     fs_files (shift_rotated base n fs)
       = (fs_files fs)(base := None, get_rotated_filename base 1 \<mapsto> c)"
proof (induction n arbitrary: fs)
  case (Suc n)
  show ?case
  proof (cases "n = 0")
    case True
    with Suc.prems show ?thesis by (auto simp: fs_files_rename fun_eq_iff)
  next
    case False
    with Suc.prems(1) have "snd (rename_file (if Suc n = 1 then base else get_rotated_filename base n)
        (get_rotated_filename base (Suc n)) fs) = fs"
      by (simp add: rename_file_def no_plain_archives_def)
    with Suc False show ?thesis by simp
  qed
qed simp

lemma compress_rotated_files:
  assumes "fs_files fs source = Some c" and "source = get_rotated_filename (zs_base s) 1"
    and t: "co_type (zs_options s) = t" "t \<noteq> No_compression"
    and "compress_rotated pack duration (s, fs) = (s', fs')"
    and "dest = source @ get_compressed_extension t"
  shows "fs_files fs' =
      (case pack t (co_level (zs_options s)) c of
         Some z \<Rightarrow> if z \<noteq> [] then (fs_files fs)(dest \<mapsto> z, source := None) else (fs_files fs)(dest \<mapsto> [])
       | None \<Rightarrow> if file_size dest fs > 0 then (fs_files fs)(source := None) else fs_files fs)"
    and "zs_base s' = zs_base s" and "zs_max_files s' = zs_max_files s"
    and "co_type (zs_options s') = t"
proof -
  have ne: "source \<noteq> dest" using t(2) by (simp add: assms(2,6))
  have cf: "compress_file pack t lv source dest fs =
      (case pack t lv c of None \<Rightarrow> fs | Some z \<Rightarrow> fs\<lparr>fs_files := (fs_files fs)(dest \<mapsto> z)\<rparr>)" for lv
    using assms(1) t(2) by (cases t) (simp_all add: compress_file_def)
  have up: "zs_base (update_compression_level x) = zs_base x"
    "zs_max_files (update_compression_level x) = zs_max_files x"
    "co_type (zs_options (update_compression_level x)) = co_type (zs_options x)" for x
    by (simp_all add: update_compression_level_def Let_def)
  note res = assms(5)[unfolded compress_rotated_def Let_def prod.case t(1) assms(2)[symmetric]
      assms(6)[symmetric]]
  show "fs_files fs' =
      (case pack t (co_level (zs_options s)) c of
         Some z \<Rightarrow> if z \<noteq> [] then (fs_files fs)(dest \<mapsto> z, source := None) else (fs_files fs)(dest \<mapsto> [])
       | None \<Rightarrow> if file_size dest fs > 0 then (fs_files fs)(source := None) else fs_files fs)"
    using res ne
    by (cases "pack t (co_level (zs_options s)) c")
      (auto simp: cf file_size_def remove_file_def split: if_splits)
  show "zs_base s' = zs_base s" "zs_max_files s' = zs_max_files s" "co_type (zs_options s') = t"
    using res t(1) by (auto simp: up split: if_splits)
qed

lemma compressed_rotate_files:
  assumes "can_open (zs_base s)" and "0 < zs_max_files s" and "no_plain_archives (zs_base s) fs"
    and "fs_files fs (zs_base s) = Some c"
    and "co_compress_on_rotate (zs_options s)" and t: "co_type (zs_options s) = t" "t \<noteq> No_compression"
    and "compressed_rotate can_open pack duration (s, fs) = (s', fs')"
    and "source = get_rotated_filename (zs_base s) 1" and "dest = source @ get_compressed_extension t"
  shows "fs_files fs' =
      (case pack t (co_level (zs_options s)) c of
         Some z \<Rightarrow> if z \<noteq> [] then (fs_files fs)(zs_base s \<mapsto> [], dest \<mapsto> z)
                   else (fs_files fs)(zs_base s \<mapsto> [], source \<mapsto> c, dest \<mapsto> [])
       | None \<Rightarrow> if file_size dest fs > 0 then (fs_files fs)(zs_base s \<mapsto> [])
                 else (fs_files fs)(zs_base s \<mapsto> [], source \<mapsto> c))"
proof -
  let ?b = "zs_base s"
  have ne: "source \<noteq> dest" "?b \<noteq> dest" "source \<noteq> ?b" using t(2) by (simp_all add: assms(9,10))
  have nosrc: "fs_files fs source = None" using assms(3) by (simp add: assms(9) no_plain_archives_def)
  define fs1 where "fs1 = snd (remove_file (get_rotated_filename ?b (zs_max_files s)) fs)"
  have f1: "fs_files fs1 = fs_files fs"
    using assms(3) by (auto simp: fs1_def remove_file_def no_plain_archives_def fun_eq_iff)
  define fs2 where "fs2 = shift_rotated ?b (zs_max_files s) fs1"
  have f2: "fs_files fs2 = (fs_files fs)(?b := None, source \<mapsto> c)"
    using shift_rotated_fresh[of ?b fs1 c "zs_max_files s"] assms(2-4) f1
    by (simp add: fs2_def assms(9) no_plain_archives_def)
  have sz: "file_size dest fs2 = file_size dest fs" using ne by (simp add: file_size_def f2)
  obtain s3 fs3 where c3: "compress_rotated pack duration (s, fs2) = (s3, fs3)" by fastforce
  have "fs_files fs2 source = Some c" by (simp add: f2)
  note f3 = compress_rotated_files[OF this assms(9) t c3 assms(10)]
  have "fs_files fs' = (fs_files fs3)(?b \<mapsto> [])"
    using assms(1,2,5,8) t c3
    by (auto simp: compressed_rotate_def Let_def open_trunc_def simp flip: fs1_def fs2_def)
  with f3(1) ne nosrc show ?thesis
    unfolding sz by (auto simp: f2 fun_eq_iff split: option.splits)
qed

text \<open>
  Compressed rotation keeps a single archive, whatever \<open>max_files\<close> is: with compression on and
  no uncompressed archives around, a rotation that compresses the current file to \<open>z\<close> writes
  \<open>z\<close> over the archive number 1 of the rotation before, changes no other archive, and leaves
  again no uncompressed one, so that the next rotation does the same.
\<close>

theorem compressed_rotation_overwrites:
  assumes "can_open (zs_base s)" and "0 < zs_max_files s" and "no_plain_archives (zs_base s) fs"
    and "fs_files fs (zs_base s) = Some c" and "co_compress_on_rotate (zs_options s)"
    and "co_type (zs_options s) = Gzip"
    and "pack Gzip (co_level (zs_options s)) c = Some z" and "z \<noteq> []"
    and "compressed_rotate can_open pack duration (s, fs) = (s', fs')"
  shows "fs_files fs' = (fs_files fs)(zs_base s \<mapsto> [], zs_base s @ ''.1.gz'' \<mapsto> z)
    \<and> no_plain_archives (zs_base s) fs'"
proof -
  have e: "get_rotated_filename (zs_base s) 1 @ get_compressed_extension Gzip = zs_base s @ ''.1.gz''"
  proof -
    have "show_nat 1 = ''1''" by code_simp
    then show ?thesis by (simp add: get_rotated_filename_def get_compressed_extension_def)
  qed
  have f: "fs_files fs' = (fs_files fs)(zs_base s \<mapsto> [], zs_base s @ ''.1.gz'' \<mapsto> z)"
    using compressed_rotate_files[OF assms(1-6) _ assms(9) refl refl] assms(7,8) e by simp
  have "get_rotated_filename (zs_base s) i \<noteq> zs_base s @ ''.1.gz''" for i
    using rotated_not_compressed(1)[of Gzip "zs_base s" i 1] unfolding e by simp
  with f assms(3) show ?thesis by (simp add: no_plain_archives_def)
qed

text \<open>
  When compression fails and the archive of an earlier rotation is still there, the file just
  rotated is deleted all the same: its contents are in no file any more, and it is counted as
  compressed.
\<close>

theorem failed_compression_loses_data:
  assumes "can_open (zs_base s)" and "0 < zs_max_files s" and "no_plain_archives (zs_base s) fs"
    and "fs_files fs (zs_base s) = Some c" and "co_compress_on_rotate (zs_options s)"
    and "co_type (zs_options s) = Zstd"
    and "pack Zstd (co_level (zs_options s)) c = None"
    and "0 < file_size (zs_base s @ ''.1.zst'') fs"
    and "compressed_rotate can_open pack duration (s, fs) = (s', fs')"
  shows "fs_files fs' = (fs_files fs)(zs_base s \<mapsto> [])"
proof -
  have "show_nat 1 = ''1''" by code_simp
  then have e: "get_rotated_filename (zs_base s) 1 @ get_compressed_extension Zstd = zs_base s @ ''.1.zst''"
    by (simp add: get_rotated_filename_def get_compressed_extension_def)
  show ?thesis
    using compressed_rotate_files[OF assms(1-6) _ assms(9) refl refl] assms(7,8) e by simp
qed

definition sample_compressed :: "compression_type \<Rightarrow> compressed_sink" where
  "sample_compressed t = fst (compressed_new (\<lambda>_. True) ''a.log'' 10 5
     (compression_options_default\<lparr>co_type := t\<rparr>) \<lparr>fs_files = Map.empty, fs_dirs = {}\<rparr>)"

lemma sample_compressed_simps [simp]:
  "zs_base (sample_compressed t) = ''a.log''" "zs_max_files (sample_compressed t) = 5"
  "co_compress_on_rotate (zs_options (sample_compressed t))"
  "co_type (zs_options (sample_compressed t)) = t"
  by (simp_all add: sample_compressed_def compressed_new_def compression_options_default_def Let_def
      split: prod.split)

lemma sample_no_plain:
  assumes "t \<noteq> No_compression"
  shows "no_plain_archives ''a.log'' \<lparr>fs_files = [''a.log'' \<mapsto> x,
     get_rotated_filename ''a.log'' 1 @ get_compressed_extension t \<mapsto> y], fs_dirs = {}\<rparr>"
  using rotated_not_compressed(1)[OF assms, of "''a.log''" _ 1] rotated_not_base(1)[of "''a.log''"]
  by (auto simp: no_plain_archives_def)

theorem compressed_rotation_overwrites_witness:
  "fs_files (snd (compressed_rotate (\<lambda>_. True) (\<lambda>_ _ c. Some (''z'' @ c)) 1 (sample_compressed Gzip,
      \<lparr>fs_files = [''a.log'' \<mapsto> ''new'', ''a.log.1.gz'' \<mapsto> ''zold''], fs_dirs = {}\<rparr>))) ''a.log.1.gz''
   = Some ''znew''"
proof -
  let ?fs = "\<lparr>fs_files = [''a.log'' \<mapsto> ''new'', ''a.log.1.gz'' \<mapsto> ''zold''], fs_dirs = {}\<rparr>"
  obtain s' fs' where r: "compressed_rotate (\<lambda>_. True) (\<lambda>_ _ c. Some (''z'' @ c)) 1
      (sample_compressed Gzip, ?fs) = (s', fs')" by fastforce
  have "show_nat 1 = ''1''" by code_simp
  then have "get_rotated_filename ''a.log'' 1 @ get_compressed_extension Gzip = ''a.log.1.gz''"
    by (simp add: get_rotated_filename_def get_compressed_extension_def)
  with sample_no_plain[of Gzip "''new''" "''zold''"] have "no_plain_archives ''a.log'' ?fs"
    by simp
  with compressed_rotation_overwrites[OF _ _ _ _ _ _ _ _ r, of "''new''" "''znew''"]
  show ?thesis unfolding r snd_conv by simp
qed

theorem failed_compression_loses_data_witness:
  "fs_files (snd (compressed_rotate (\<lambda>_. True) (\<lambda>_ _ c. None) 1 (sample_compressed Zstd,
      \<lparr>fs_files = [''a.log'' \<mapsto> ''new'', ''a.log.1.zst'' \<mapsto> ''zold''], fs_dirs = {}\<rparr>)))
   = [''a.log'' \<mapsto> [], ''a.log.1.zst'' \<mapsto> ''zold'']"
proof -
  let ?fs = "\<lparr>fs_files = [''a.log'' \<mapsto> ''new'', ''a.log.1.zst'' \<mapsto> ''zold''], fs_dirs = {}\<rparr>"
  obtain s' fs' where r: "compressed_rotate (\<lambda>_. True) (\<lambda>_ _ c. None) 1
      (sample_compressed Zstd, ?fs) = (s', fs')" by fastforce
  have "show_nat 1 = ''1''" by code_simp
  then have "get_rotated_filename ''a.log'' 1 @ get_compressed_extension Zstd = ''a.log.1.zst''"
    by (simp add: get_rotated_filename_def get_compressed_extension_def)
  with sample_no_plain[of Zstd "''new''" "''zold''"] have "no_plain_archives ''a.log'' ?fs"
    by simp
  with failed_compression_loses_data[OF _ _ _ _ _ _ _ _ r, of "''new''"]
  show ?thesis unfolding r snd_conv by (simp add: file_size_def fun_upd_twist)
qed

text \<open>Both copies of the level are in the range of the compressor.\<close>

definition level_range :: "compressed_sink \<Rightarrow> bool" where
  "level_range s \<longleftrightarrow> (\<forall>l \<in> {zs_current_level s, co_level (zs_options s)}.
     1 \<le> l \<and> l \<le> (if co_type (zs_options s) = Gzip then 9 else 22))"

lemma optimal_level_range: "level_range s \<Longrightarrow>
    1 \<le> calculate_optimal_level s
    \<and> calculate_optimal_level s \<le> (if co_type (zs_options s) = Gzip then 9 else 22)"
  by (auto simp: level_range_def calculate_optimal_level_def Let_def)

lemma update_level_range: "level_range s \<Longrightarrow> level_range (update_compression_level s)"
  using optimal_level_range[of s]
  by (auto simp: update_compression_level_def Let_def level_range_def)

lemma level_range_cong:
  "zs_current_level s' = zs_current_level s \<Longrightarrow> zs_options s' = zs_options s \<Longrightarrow>
     level_range s' = level_range s"
  by (simp add: level_range_def)

lemma compress_rotated_range: "level_range s \<Longrightarrow> level_range (fst (compress_rotated pack d (s, fs)))"
  by (auto simp: compress_rotated_def Let_def intro!: update_level_range
      intro: level_range_cong[THEN iffD2])

lemma rotate_range:
  "level_range s \<Longrightarrow> level_range (fst (compressed_rotate can_open pack d (s, fs)))"
  using compress_rotated_range[of s pack d]
  by (auto simp: compressed_rotate_def Let_def split_beta intro: level_range_cong[THEN iffD2])

text \<open>
  Tuning keeps the compression level in the range of the compressor: if the level is between 1
  and 9 for gzip (22 for zstd), it is so after any message, with or without a rotation, whatever
  ratio and speed were measured.
\<close>

theorem tuning_in_range:
  assumes "level_range s"
  shows "level_range (fst (compressed_log can_open pack d tz now nm l msg (s, fs)))"
proof -
  have "level_range (s\<lparr>zs_current_size := n\<rparr>)" for n
    using assms by (simp add: level_range_def)
  then show ?thesis using assms by (simp add: compressed_log_def Let_def rotate_range)
qed

theorem tuning_in_range_witness:
  "level_range (fst (compressed_log (\<lambda>_. True) (\<lambda>_ _ c. Some ''z'') 1 (\<lambda>_. 0) 0 ''n'' Info ''msg''
     ((sample_compressed Gzip)\<lparr>zs_compression_count := 7\<rparr>, \<lparr>fs_files = Map.empty, fs_dirs = {}\<rparr>)))"
  by (rule tuning_in_range)
    (simp add: level_range_def sample_compressed_def compressed_new_def
      compression_options_default_def Let_def split: prod.split)

end
