(* ===== verification/Compression.thy ===== *)
theory Compression
  imports Compressed_Sink
begin

text \<open>
  How a file is compressed: \<open>compress_gzip\<close> and \<open>compress_zstd\<close> of
  \<open>src/sinks/compressed_file_sink.cpp\<close> and the same functions of \<open>CompressionUtils\<close>.  Each is built
  either with its library or with a shell command.  zlib is what \<open>gzclose\<close> has left in the file for
  the mode it was opened with and the buffers that were written; zstd is \<open>ZSTD_compress\<close>, with
  \<^const>\<open>None\<close> for an error; a shell runs a command on the file system and returns its status.  The
  functions are the compressor that the rotation of \<open>Compressed_Sink\<close> takes as a parameter.
\<close>

section \<open>The functions\<close>

record zlib =
  zl_can_open :: "string \<Rightarrow> bool"
  zl_output :: "string \<Rightarrow> string list \<Rightarrow> string"

record zstd_lib =
  zd_can_open :: "string \<Rightarrow> bool"
  zd_compress :: "int \<Rightarrow> string \<Rightarrow> string option"

type_synonym shell = "string \<Rightarrow> file_system \<Rightarrow> int \<times> file_system"

datatype gzip_backend = Zlib zlib | Gzip_command shell
datatype zstd_backend = Zstd_library zstd_lib | Zstd_command shell

text \<open>\<open>while (in.read(buffer, sizeof(buffer)) || in.gcount() > 0)\<close>: the buffers of a file.\<close>

function read_chunks :: "string \<Rightarrow> string list" where
  "read_chunks c = (if c = [] then [] else take 8192 c # read_chunks (drop 8192 c))"
  by pat_completeness auto
termination by (relation "measure length") auto

declare read_chunks.simps [simp del]

definition compress_gzip ::
    "gzip_backend \<Rightarrow> int \<Rightarrow> string \<Rightarrow> string \<Rightarrow> file_system \<Rightarrow> bool \<times> file_system" where
  "compress_gzip backend level source dest fs =
     (case backend of
        Zlib z \<Rightarrow>
          (case fs_files fs source of
             None \<Rightarrow> (False, fs)
           | Some c \<Rightarrow>
               (if \<not> zl_can_open z dest then (False, fs)
                else (True, fs\<lparr>fs_files := (fs_files fs)(dest \<mapsto>
                       zl_output z (''wb'' @ show_int level) (read_chunks c))\<rparr>)))
      | Gzip_command sh \<Rightarrow>
          (let (status, fs1) = sh (''gzip -'' @ show_int level @ '' -c '' @ quoted source
                 @ '' > '' @ quoted dest) fs
           in (status = 0, fs1)))"

text \<open>A destination that cannot be opened for the result of zstd is not noticed.\<close>

definition compress_zstd ::
    "zstd_backend \<Rightarrow> int \<Rightarrow> string \<Rightarrow> string \<Rightarrow> file_system \<Rightarrow> bool \<times> file_system" where
  "compress_zstd backend level source dest fs =
     (case backend of
        Zstd_library d \<Rightarrow>
          (case fs_files fs source of
             None \<Rightarrow> (False, fs)
           | Some c \<Rightarrow>
               (case zd_compress d level c of
                  None \<Rightarrow> (False, fs)
                | Some z \<Rightarrow>
                    (let (out, fs1) = open_trunc (zd_can_open d) dest fs in
                     (True, stream_write out z fs1))))
      | Zstd_command sh \<Rightarrow>
          (let (status, fs1) = sh (''zstd -'' @ show_int level @ '' -q -f '' @ quoted source
                 @ '' -o '' @ quoted dest) fs
           in (status = 0, fs1)))"

definition compress_by_type ::
    "gzip_backend \<Rightarrow> zstd_backend \<Rightarrow> compression_type \<Rightarrow> int \<Rightarrow> string \<Rightarrow> string \<Rightarrow> file_system
      \<Rightarrow> file_system" where
  "compress_by_type gz zs t level source_path dest_path fs =
     (case t of
        Gzip \<Rightarrow> snd (compress_gzip gz level source_path dest_path fs)
      | Zstd \<Rightarrow> snd (compress_zstd zs level source_path dest_path fs)
      | No_compression \<Rightarrow> fs)"

text \<open>The functions of \<open>CompressionUtils\<close>.\<close>

definition compress_file_gzip ::
    "gzip_backend \<Rightarrow> string \<Rightarrow> string \<Rightarrow> int \<Rightarrow> file_system \<Rightarrow> bool \<times> file_system" where
  "compress_file_gzip backend source_path dest_path level fs =
     compress_gzip backend level source_path dest_path fs"

definition compress_file_zstd ::
    "zstd_backend \<Rightarrow> string \<Rightarrow> string \<Rightarrow> int \<Rightarrow> file_system \<Rightarrow> bool \<times> file_system" where
  "compress_file_zstd backend source_path dest_path level fs =
     compress_zstd backend level source_path dest_path fs"

definition is_gzip_available :: "gzip_backend \<Rightarrow> file_system \<Rightarrow> bool" where
  "is_gzip_available backend fs \<longleftrightarrow>
     (case backend of
        Zlib _ \<Rightarrow> True
      | Gzip_command sh \<Rightarrow> fst (sh ''which gzip > /dev/null 2>&1'' fs) = 0)"

definition is_zstd_available :: "zstd_backend \<Rightarrow> file_system \<Rightarrow> bool" where
  "is_zstd_available backend fs \<longleftrightarrow>
     (case backend of
        Zstd_library _ \<Rightarrow> True
      | Zstd_command sh \<Rightarrow> fst (sh ''which zstd > /dev/null 2>&1'' fs) = 0)"

section \<open>The libraries as a compressor\<close>

lemma concat_read_chunks [simp]: "concat (read_chunks c) = c"
  by (induction c rule: read_chunks.induct) (subst read_chunks.simps, simp)

lemma read_chunks_sizes: "\<forall>b \<in> set (read_chunks c). b \<noteq> [] \<and> length b \<le> 8192"
proof (induction c rule: read_chunks.induct)
  case (1 c)
  then show ?case by (subst read_chunks.simps) auto
qed

definition library_compressor :: "zlib \<Rightarrow> zstd_lib \<Rightarrow> string \<Rightarrow> compressor" where
  "library_compressor z d dest t level c =
     (case t of
        No_compression \<Rightarrow> None
      | Gzip \<Rightarrow> if zl_can_open z dest then Some (zl_output z (''wb'' @ show_int level) (read_chunks c))
                else None
      | Zstd \<Rightarrow> if zd_can_open d dest then zd_compress d level c else None)"

lemma compress_by_type_file:
  "compress_by_type (Zlib z) (Zstd_library d) t level source dest fs
     = compress_file (library_compressor z d dest) t level source dest fs"
  by (auto simp: compress_by_type_def compress_gzip_def compress_zstd_def compress_file_def
      library_compressor_def open_trunc_def stream_write_def
      split: compression_type.split option.split)

text \<open>
  C35. With zlib, a rotation keeps what the current file held: with compression on rotation by gzip,
  \<open>max_files\<close> positive and no uncompressed archives left, when the current file and the archive can
  be opened, and zlib keeps its promise that a file written in any mode and any number of buffers is
  not empty and inflates to the buffers' contents, a rotation leaves an empty current file, no
  uncompressed copy, and a first archive that inflates to exactly what the current file held, whatever
  its size, over however many buffers it was read.  (An archive that was there before is replaced.)
\<close>

theorem gzip_archive_restores:
  assumes zlib: "\<And>mode bufs. zl_output z mode bufs \<noteq> [] \<and> inflate (zl_output z mode bufs) = Some (concat bufs)"
    and "zl_can_open z (zs_base s @ ''.1.gz'')"
    and "can_open (zs_base s)" and "0 < zs_max_files s" and "no_plain_archives (zs_base s) fs"
    and "fs_files fs (zs_base s) = Some c" and "co_compress_on_rotate (zs_options s)"
    and "co_type (zs_options s) = Gzip"
    and "compressed_rotate can_open (library_compressor z d (zs_base s @ ''.1.gz'')) duration (s, fs)
      = (s', fs')"
  shows "Option.bind (fs_files fs' (zs_base s @ ''.1.gz'')) inflate = Some c
    \<and> fs_files fs' (zs_base s) = Some []
    \<and> fs_files fs' (get_rotated_filename (zs_base s) 1) = None"
proof -
  have "show_nat 1 = ''1''" by code_simp
  then have e: "get_rotated_filename (zs_base s) 1 @ get_compressed_extension Gzip = zs_base s @ ''.1.gz''"
    by (simp add: get_rotated_filename_def get_compressed_extension_def)
  have ne: "zs_base s \<noteq> zs_base s @ ''.1.gz''"
    "get_rotated_filename (zs_base s) 1 \<noteq> zs_base s @ ''.1.gz''"
    "get_rotated_filename (zs_base s) 1 \<noteq> zs_base s"
    using rotated_not_compressed(1)[of Gzip "zs_base s" 1 1] rotated_not_base[of "zs_base s" 1]
    unfolding e by simp_all
  define out where "out = zl_output z (''wb'' @ show_int (co_level (zs_options s))) (read_chunks c)"
  have out: "out \<noteq> []" "inflate out = Some c" using zlib by (simp_all add: out_def)
  have "library_compressor z d (zs_base s @ ''.1.gz'') Gzip (co_level (zs_options s)) c = Some out"
    using assms(2) by (simp add: library_compressor_def out_def)
  with compressed_rotate_files[OF assms(3-8) _ assms(9) refl refl] out(1) e
  have "fs_files fs' = (fs_files fs)(zs_base s \<mapsto> [], zs_base s @ ''.1.gz'' \<mapsto> out)" by simp
  with ne out(2) assms(5) show ?thesis by (simp add: no_plain_archives_def)
qed

text \<open>A library that stores its input behind a first byte.\<close>

definition storing_zlib :: zlib where
  "storing_zlib = \<lparr>zl_can_open = (\<lambda>_. True), zl_output = (\<lambda>mode bufs. CHR ''z'' # concat bufs)\<rparr>"

theorem gzip_archive_restores_witness:
  "fs_files (snd (compressed_rotate (\<lambda>_. True)
       (library_compressor storing_zlib \<lparr>zd_can_open = (\<lambda>_. True), zd_compress = (\<lambda>_ _. None)\<rparr> ''a.log.1.gz'')
       1 (sample_compressed Gzip,
       \<lparr>fs_files = [''a.log'' \<mapsto> ''new'', ''a.log.1.gz'' \<mapsto> ''zold''], fs_dirs = {}\<rparr>))) ''a.log'' = Some []"
proof -
  let ?fs = "\<lparr>fs_files = [''a.log'' \<mapsto> ''new'', ''a.log.1.gz'' \<mapsto> ''zold''], fs_dirs = {}\<rparr>"
  let ?d = "\<lparr>zd_can_open = (\<lambda>_. True), zd_compress = (\<lambda>_ _. None)\<rparr>"
  obtain s' fs' where r: "compressed_rotate (\<lambda>_. True) (library_compressor storing_zlib ?d ''a.log.1.gz'') 1
      (sample_compressed Gzip, ?fs) = (s', fs')" by fastforce
  have "show_nat 1 = ''1''" by code_simp
  then have "get_rotated_filename ''a.log'' 1 @ get_compressed_extension Gzip = ''a.log.1.gz''"
    by (simp add: get_rotated_filename_def get_compressed_extension_def)
  with sample_no_plain[of Gzip "''new''" "''zold''"] have plain: "no_plain_archives ''a.log'' ?fs"
    by simp
  have "Option.bind (fs_files fs' (zs_base (sample_compressed Gzip) @ ''.1.gz'')) (\<lambda>t. Some (tl t)) = Some ''new''
      \<and> fs_files fs' (zs_base (sample_compressed Gzip)) = Some []
      \<and> fs_files fs' (get_rotated_filename (zs_base (sample_compressed Gzip)) 1) = None"
    by (rule gzip_archive_restores[where z = storing_zlib and d = ?d and s' = s'
          and can_open = "\<lambda>_. True" and fs = ?fs and duration = 1])
      (use r plain in \<open>simp_all add: storing_zlib_def\<close>)
  then show ?thesis unfolding r by simp
qed

end
