(* ===== verification/File_Sinks.thy ===== *)
theory File_Sinks
  imports File_System Formatter
begin

text \<open>
  The sinks that write to files: \<open>src/sinks/file_sink.cpp\<close>, \<open>src/sinks/daily_file_sink.cpp\<close>,
  \<open>src/sinks/rotating_file_sink.cpp\<close> and their headers, with the members of \<open>LogSink\<close>
  (\<open>include/Zyrnix/log_sink.hpp\<close>) they inherit.
\<close>

section \<open>The plain file sink\<close>

record file_sink =
  fk_level :: level
  fk_file :: stream

definition file_sink_new ::
    "(string \<Rightarrow> bool) \<Rightarrow> string \<Rightarrow> file_system \<Rightarrow> file_sink \<times> file_system" where
  "file_sink_new can_open filename fs =
     (let (st, fs1) = open_append can_open filename fs in
      (\<lparr>fk_level = Trace, fk_file = st\<rparr>, fs1))"

definition file_sink_log ::
    "tz_offset \<Rightarrow> time \<Rightarrow> string \<Rightarrow> level \<Rightarrow> string \<Rightarrow> file_sink \<Rightarrow> file_system \<Rightarrow> file_system" where
  "file_sink_log tz now logger_name l message s fs =
     (if l < fk_level s then fs
      else stream_write (fk_file s) (format tz now logger_name l message @ newline) fs)"

section \<open>The daily file sink\<close>

record daily_sink =
  dk_level :: level
  dk_base :: string
  dk_file :: stream
  dk_date :: string

definition get_date :: "tz_offset \<Rightarrow> time \<Rightarrow> string" where
  "get_date tz now = put_date (local_time tz now)"

definition daily_path :: "string \<Rightarrow> string \<Rightarrow> string" where
  "daily_path base date = base @ ''_'' @ date @ ''.log''"

definition daily_open_file ::
    "(string \<Rightarrow> bool) \<Rightarrow> daily_sink \<times> file_system \<Rightarrow> daily_sink \<times> file_system" where
  "daily_open_file can_open st =
     (let (s, fs) = st;
          (f, fs1) = open_append can_open (daily_path (dk_base s) (dk_date s)) fs
      in (s\<lparr>dk_file := f\<rparr>, fs1))"

definition daily_new ::
    "(string \<Rightarrow> bool) \<Rightarrow> tz_offset \<Rightarrow> time \<Rightarrow> string \<Rightarrow> file_system \<Rightarrow> daily_sink \<times> file_system" where
  "daily_new can_open tz now base fs =
     daily_open_file can_open
       (\<lparr>dk_level = Trace, dk_base = base, dk_file = None, dk_date = get_date tz now\<rparr>, fs)"

text \<open>The clock is read for the date and again by the formatter.\<close>

definition daily_log ::
    "(string \<Rightarrow> bool) \<Rightarrow> tz_offset \<Rightarrow> clock \<Rightarrow> string \<Rightarrow> level \<Rightarrow> string
      \<Rightarrow> daily_sink \<times> file_system \<Rightarrow> daily_sink \<times> file_system" where
  "daily_log can_open tz clk logger_name l message st =
     (let (s, fs) = st in
      if l < dk_level s then (s, fs)
      else
        (let today = get_date tz (clk 0);
             (s1, fs1) = (if today \<noteq> dk_date s
                then daily_open_file can_open (s\<lparr>dk_date := today, dk_file := None\<rparr>, fs)
                else (s, fs))
         in (s1, stream_write (dk_file s1) (format tz (clk 1) logger_name l message @ newline) fs1)))"

section \<open>The rotating file sink\<close>

record rotating_sink =
  rk_level :: level
  rk_base :: string
  rk_max_size :: nat
  rk_max_files :: nat
  rk_current_size :: nat
  rk_file :: stream

definition current_path :: "string \<Rightarrow> string" where
  "current_path base = base @ ''.log''"

definition archive_path :: "string \<Rightarrow> nat \<Rightarrow> string" where
  "archive_path base i = base @ ''.'' @ show_nat i @ ''.log''"

definition rotating_open_file ::
    "(string \<Rightarrow> bool) \<Rightarrow> rotating_sink \<times> file_system \<Rightarrow> rotating_sink \<times> file_system" where
  "rotating_open_file can_open st =
     (let (s, fs) = st;
          filename = current_path (rk_base s);
          (f, fs1) = open_append can_open filename fs
      in (case f of
            None \<Rightarrow> (s\<lparr>rk_file := None\<rparr>, fs1)
          | Some _ \<Rightarrow> (s\<lparr>rk_file := f, rk_current_size := file_size filename fs1\<rparr>, fs1)))"

definition rotating_new ::
    "(string \<Rightarrow> bool) \<Rightarrow> string \<Rightarrow> nat \<Rightarrow> nat \<Rightarrow> file_system \<Rightarrow> rotating_sink \<times> file_system" where
  "rotating_new can_open base max_s max_f fs =
     rotating_open_file can_open
       (\<lparr>rk_level = Trace, rk_base = base, rk_max_size = max_s, rk_max_files = max_f,
         rk_current_size = 0, rk_file = None\<rparr>, fs)"

text \<open>The loop from \<open>max_files\<close> down to 1.\<close>

fun shift_archives :: "string \<Rightarrow> nat \<Rightarrow> file_system \<Rightarrow> file_system" where
  "shift_archives base 0 fs = fs"
| "shift_archives base (Suc i) fs =
     shift_archives base i
       (if file_exists (archive_path base i) fs
        then snd (rename_file (archive_path base i) (archive_path base (Suc i)) fs) else fs)"

definition rotating_rotate ::
    "(string \<Rightarrow> bool) \<Rightarrow> rotating_sink \<times> file_system \<Rightarrow> rotating_sink \<times> file_system" where
  "rotating_rotate can_open st =
     (let (s, fs) = st;
          base = rk_base s;
          fs1 = shift_archives base (rk_max_files s) fs;
          fs2 = snd (rename_file (current_path base) (archive_path base 0) fs1)
      in rotating_open_file can_open (s\<lparr>rk_file := None\<rparr>, fs2))"

definition rotating_log ::
    "(string \<Rightarrow> bool) \<Rightarrow> tz_offset \<Rightarrow> time \<Rightarrow> string \<Rightarrow> level \<Rightarrow> string
      \<Rightarrow> rotating_sink \<times> file_system \<Rightarrow> rotating_sink \<times> file_system" where
  "rotating_log can_open tz now logger_name l message st =
     (let (s, fs) = st in
      if l < rk_level s then (s, fs)
      else
        (let line = format tz now logger_name l message @ newline;
             fs1 = stream_write (rk_file s) line fs;
             s1 = s\<lparr>rk_current_size := rk_current_size s + length line\<rparr>
         in if rk_current_size s1 \<ge> rk_max_size s1 then rotating_rotate can_open (s1, fs1) else (s1, fs1)))"

section \<open>What rotation does\<close>

lemma archive_path_inj [simp]: "archive_path base i = archive_path base j \<longleftrightarrow> i = j"
  by (simp add: archive_path_def)

lemma archive_not_current [simp]:
  "archive_path base i \<noteq> current_path base" "current_path base \<noteq> archive_path base i"
proof -
  have "length (archive_path base i) \<noteq> length (current_path base)"
    by (simp add: archive_path_def current_path_def)
  then show "archive_path base i \<noteq> current_path base" "current_path base \<noteq> archive_path base i"
    by auto
qed

lemma shift_archives_other:
  "p \<notin> archive_path base ` {..n} \<Longrightarrow> fs_files (shift_archives base n fs) p = fs_files fs p"
proof (induction n arbitrary: fs)
  case (Suc n)
  then have "p \<noteq> archive_path base n" "p \<noteq> archive_path base (Suc n)"
    "p \<notin> archive_path base ` {..n}" by (auto simp: atMost_Suc)
  with Suc.IH show ?case
    by (auto simp: fs_files_rename split: option.split)
qed simp

text \<open>Each archive moves up by one; the last one is overwritten, and the first place is free.\<close>

lemma shift_archives_files:
  "i \<le> n \<Longrightarrow> fs_files (shift_archives base n fs) (archive_path base i)
     = (case (if i = 0 then None else fs_files fs (archive_path base (i - 1))) of
          Some c \<Rightarrow> Some c
        | None \<Rightarrow> if i = n then fs_files fs (archive_path base n) else None)"
proof (induction n arbitrary: fs i)
  case (Suc n)
  let ?A = "archive_path base"
  define fs1 where "fs1 = (if file_exists (?A n) fs then snd (rename_file (?A n) (?A (Suc n)) fs) else fs)"
  have fs1: "fs_files fs1 (?A n) = None"
    "fs_files fs1 (?A (Suc n)) = (case fs_files fs (?A n) of Some c \<Rightarrow> Some c
        | None \<Rightarrow> fs_files fs (?A (Suc n)))"
    "\<And>j. j < n \<Longrightarrow> fs_files fs1 (?A j) = fs_files fs (?A j)"
    by (auto simp: fs1_def file_exists_def fs_files_rename split: option.split)
  show ?case
  proof (cases "i = Suc n")
    case True
    have "?A (Suc n) \<notin> ?A ` {..n}" by auto
    with True fs1(2) show ?thesis
      by (simp add: shift_archives_other flip: fs1_def split: option.split)
  next
    case False
    with Suc.prems have i: "i \<le> n" by simp
    with False Suc.IH[OF i, of fs1] fs1(1,3) show ?thesis
      by (cases i) (auto simp flip: fs1_def split: option.split)
  qed
qed (simp split: option.split)

text \<open>The contents of a file, empty when it does not exist.\<close>

definition contents :: "file_system \<Rightarrow> string \<Rightarrow> string" where
  "contents fs p = (case fs_files fs p of None \<Rightarrow> [] | Some c \<Rightarrow> c)"

text \<open>
  The files of the log, newest first: the current file and the archives.  The abstract state of a
  rotating sink is the list of their contents.
\<close>

definition log_path :: "string \<Rightarrow> nat \<Rightarrow> string" where
  "log_path base i = (case i of 0 \<Rightarrow> current_path base | Suc j \<Rightarrow> archive_path base j)"

definition nth_opt :: "'a list \<Rightarrow> nat \<Rightarrow> 'a option" where
  "nth_opt xs i = (if i < length xs then Some (xs ! i) else None)"

definition log_files :: "string \<Rightarrow> nat \<Rightarrow> string list \<Rightarrow> file_system \<Rightarrow> bool" where
  "log_files base max_f xs fs \<longleftrightarrow>
     (\<forall>i. i \<le> Suc max_f \<longrightarrow> fs_files fs (log_path base i) = nth_opt xs i)"

text \<open>
  A line on the abstract state: it is appended to the current file; a file that reaches the limit
  becomes the newest archive, and of the archives the \<open>max_files + 1\<close> newest stay.
\<close>

fun log_line :: "nat \<Rightarrow> nat \<Rightarrow> string \<Rightarrow> string list \<Rightarrow> string list" where
  "log_line max_s max_f line [] = []"
| "log_line max_s max_f line (x # xs) =
     (if length (x @ line) < max_s then (x @ line) # xs
      else take (max_f + 2) ([] # (x @ line) # xs))"

lemma log_path_simps [simp]: "log_path base 0 = current_path base" "log_path base (Suc j) = archive_path base j"
  by (simp_all add: log_path_def)

lemma nth_opt_simps [simp]:
  "nth_opt [] i = None" "nth_opt (x # xs) 0 = Some x" "nth_opt (x # xs) (Suc i) = nth_opt xs i"
  by (simp_all add: nth_opt_def)

lemma nth_opt_take: "i < n \<Longrightarrow> nth_opt (take n xs) i = nth_opt xs i"
  by (simp add: nth_opt_def)

lemma log_filesD:
  "log_files base n (x # xs) fs \<Longrightarrow> fs_files fs (current_path base) = Some x"
  "log_files base n (x # xs) fs \<Longrightarrow> j \<le> n \<Longrightarrow> fs_files fs (archive_path base j) = nth_opt xs j"
  unfolding log_files_def using log_path_simps nth_opt_simps by (metis le0, metis Suc_le_mono)

lemma log_filesI:
  assumes "fs_files fs (current_path base) = Some x"
    and "\<And>j. j \<le> n \<Longrightarrow> fs_files fs (archive_path base j) = nth_opt xs j"
  shows "log_files base n (x # xs) fs"
  unfolding log_files_def
proof (intro allI impI)
  fix i assume "i \<le> Suc n"
  with assms show "fs_files fs (log_path base i) = nth_opt (x # xs) i" by (cases i) auto
qed

text \<open>The sink has the current file open and knows its size.\<close>

definition rotating_ok :: "rotating_sink \<Rightarrow> string list \<Rightarrow> bool" where
  "rotating_ok s xs \<longleftrightarrow>
     xs \<noteq> [] \<and> rk_file s = Some (current_path (rk_base s)) \<and> rk_current_size s = length (hd xs)"

lemma rotate_files:
  assumes "can_open (current_path (rk_base s))"
    and "log_files (rk_base s) (rk_max_files s) (x # xs) fs"
    and "rotating_rotate can_open (s, fs) = (s', fs')"
  shows "log_files (rk_base s) (rk_max_files s) (take (rk_max_files s + 2) ([] # x # xs)) fs'"
    and "s' = s\<lparr>rk_current_size := 0, rk_file := Some (current_path (rk_base s))\<rparr>"
    and "p \<notin> log_path (rk_base s) ` {..Suc (rk_max_files s)} \<Longrightarrow> fs_files fs' p = fs_files fs p"
proof -
  let ?b = "rk_base s" and ?n = "rk_max_files s"
  let ?cur = "current_path ?b" and ?A = "archive_path ?b"
  define fs1 where "fs1 = shift_archives ?b ?n fs"
  note old = log_filesD[OF assms(2)]
  have "?cur \<notin> ?A ` {..?n}" by auto
  from shift_archives_other[OF this, of fs] have cur1: "fs_files fs1 ?cur = Some x"
    using old(1) by (simp add: fs1_def)
  define fs2 where "fs2 = snd (rename_file ?cur (?A 0) fs1)"
  have f2: "fs_files fs2 = (fs_files fs1)(?cur := None, ?A 0 \<mapsto> x)"
    using cur1 by (simp add: fs2_def fs_files_rename)
  have res: "fs' = fs2\<lparr>fs_files := (fs_files fs2)(?cur \<mapsto> [])\<rparr>"
    "s' = s\<lparr>rk_current_size := 0, rk_file := Some ?cur\<rparr>"
    using assms(1,3) f2
    by (auto simp: rotating_rotate_def Let_def rotating_open_file_def open_append_def file_size_def
        simp flip: fs1_def fs2_def)
  have f': "fs_files fs' = (fs_files fs1)(?cur \<mapsto> [], ?A 0 \<mapsto> x)"
    using f2 by (simp add: res(1) fun_eq_iff)
  show "s' = s\<lparr>rk_current_size := 0, rk_file := Some ?cur\<rparr>" by (rule res(2))
  have up: "fs_files fs1 (?A (Suc j)) = nth_opt xs j" if "Suc j \<le> ?n" for j
    using that shift_archives_files[of "Suc j" ?n ?b fs] old(2)[of j] old(2)[of ?n]
    by (cases "j < length xs") (auto simp: fs1_def nth_opt_def)
  have "fs_files fs' (?A j) = nth_opt (take (Suc ?n) (x # xs)) j" if "j \<le> ?n" for j
    using that up by (cases j) (simp_all add: f' nth_opt_take)
  moreover have "fs_files fs' ?cur = Some []" by (simp add: f')
  ultimately show "log_files ?b ?n (take (?n + 2) ([] # x # xs)) fs'"
    using log_filesI[of fs' ?b "[]" ?n] by simp
  show "fs_files fs' p = fs_files fs p" if p: "p \<notin> log_path ?b ` {..Suc ?n}"
  proof -
    have "p \<noteq> ?cur" "p \<notin> ?A ` {..?n}"
      using p by (auto simp: image_iff) (metis atMost_iff le0 log_path_simps(1), metis Suc_le_mono atMost_iff log_path_simps(2))
    then show ?thesis using shift_archives_other[of p ?b ?n fs] by (auto simp: f' fs1_def)
  qed
qed

text \<open>The refinement: a call of \<open>log\<close> is a line on the abstract state.\<close>

lemma rotating_log_refines:
  assumes "can_open (current_path (rk_base s))" and "rotating_ok s xs"
    and "log_files (rk_base s) (rk_max_files s) xs fs" and "rk_level s \<le> l"
    and "rotating_log can_open tz now nm l msg (s, fs) = (s', fs')"
    and "ys = log_line (rk_max_size s) (rk_max_files s) (format tz now nm l msg @ newline) xs"
  shows "rotating_ok s' ys \<and> log_files (rk_base s) (rk_max_files s) ys fs'"
    and "rk_base s' = rk_base s \<and> rk_max_files s' = rk_max_files s \<and> rk_level s' = rk_level s
      \<and> rk_max_size s' = rk_max_size s"
    and "p \<notin> log_path (rk_base s) ` {..Suc (rk_max_files s)} \<Longrightarrow> fs_files fs' p = fs_files fs p"
proof -
  let ?b = "rk_base s" and ?n = "rk_max_files s"
  define line where "line = format tz now nm l msg @ newline"
  obtain z zs where xs: "xs = z # zs" using assms(2) by (cases xs) (auto simp: rotating_ok_def)
  define fs1 where "fs1 = stream_write (rk_file s) line fs"
  define s1 where "s1 = s\<lparr>rk_current_size := rk_current_size s + length line\<rparr>"
  note old = log_filesD[OF assms(3)[unfolded xs]]
  have f1: "fs_files fs1 = (fs_files fs)(current_path ?b \<mapsto> z @ line)"
    using assms(2) old(1) by (simp add: fs1_def rotating_ok_def)
  have lf1: "log_files ?b ?n ((z @ line) # zs) fs1"
    by (rule log_filesI) (simp_all add: f1 old(2))
  have s1: "rk_base s1 = ?b" "rk_max_files s1 = ?n" "rk_level s1 = rk_level s"
    "rk_max_size s1 = rk_max_size s" "rk_current_size s1 = length (z @ line)"
    "rk_file s1 = Some (current_path ?b)"
    using assms(2) xs by (simp_all add: s1_def rotating_ok_def)
  have other1: "fs_files fs1 p = fs_files fs p" if "p \<notin> log_path ?b ` {..Suc ?n}" for p
    using that f1 log_path_simps(1)[of ?b] by (metis atMost_iff fun_upd_other imageI le0)
  have res: "(if rk_current_size s1 \<ge> rk_max_size s1 then rotating_rotate can_open (s1, fs1) else (s1, fs1)) = (s', fs')"
  proof -
    have "\<not> l < rk_level s" using assms(4) by (rule leD)
    then show ?thesis using assms(5)
      by (simp only: rotating_log_def Let_def s1_def fs1_def line_def prod.case if_False)
  qed
  have all: "(rotating_ok s' ys \<and> log_files ?b ?n ys fs')
    \<and> (rk_base s' = ?b \<and> rk_max_files s' = ?n \<and> rk_level s' = rk_level s \<and> rk_max_size s' = rk_max_size s)
    \<and> (p \<notin> log_path ?b ` {..Suc ?n} \<longrightarrow> fs_files fs' p = fs_files fs p)"
  proof (cases "rk_current_size s1 \<ge> rk_max_size s1")
    case False
    with res have r: "s' = s1" "fs' = fs1" by auto
    have ys: "ys = (z @ line) # zs" using False s1 by (simp add: assms(6) xs line_def)
    show ?thesis using lf1 s1 other1 unfolding r ys by (simp add: rotating_ok_def)
  next
    case True
    with res have "rotating_rotate can_open (s1, fs1) = (s', fs')" by simp
    note r = rotate_files[of can_open s1 "z @ line" zs fs1, unfolded s1(1,2), OF assms(1) lf1 this]
    have ys: "ys = take (?n + 2) ([] # (z @ line) # zs)"
      using True s1 by (simp add: assms(6) xs line_def)
    show ?thesis using r(1,2) r(3)[of p] s1 other1 unfolding ys by (simp add: rotating_ok_def)
  qed
  then show "rotating_ok s' ys \<and> log_files ?b ?n ys fs'"
    and "rk_base s' = ?b \<and> rk_max_files s' = ?n \<and> rk_level s' = rk_level s \<and> rk_max_size s' = rk_max_size s"
    and "p \<notin> log_path ?b ` {..Suc ?n} \<Longrightarrow> fs_files fs' p = fs_files fs p"
    by blast+
qed

text \<open>What the abstract state forgets is the oldest part of the log.\<close>

lemma suffix_concat_take: "suffix (concat (rev (take k xs))) (concat (rev xs))"
proof -
  have "concat (rev xs) = concat (rev (drop k xs)) @ concat (rev (take k xs))"
    by (metis append_take_drop_id concat_append rev_append)
  then show ?thesis by (simp add: suffix_def)
qed

lemma log_line_suffix:
  assumes "xs \<noteq> []"
  shows "suffix (concat (rev (log_line max_s max_f line xs))) (concat (rev xs) @ line)"
    and "log_line max_s max_f line xs \<noteq> []"
    and "hd (log_line max_s max_f line xs) = [] \<or> length (hd (log_line max_s max_f line xs)) < max_s"
proof -
  obtain z zs where xs: "xs = z # zs" using assms by (cases xs) auto
  show "suffix (concat (rev (log_line max_s max_f line xs))) (concat (rev xs) @ line)"
    using suffix_concat_take[of "max_f + 2" "[] # (z @ line) # zs"] by (simp add: xs)
  show "log_line max_s max_f line xs \<noteq> []"
    and "hd (log_line max_s max_f line xs) = [] \<or> length (hd (log_line max_s max_f line xs)) < max_s"
    by (simp_all add: xs)
qed

text \<open>A sequence of messages: clock, logger name, level, text.\<close>

fun rotating_logs ::
    "(string \<Rightarrow> bool) \<Rightarrow> tz_offset \<Rightarrow> (time \<times> string \<times> level \<times> string) list
      \<Rightarrow> rotating_sink \<times> file_system \<Rightarrow> rotating_sink \<times> file_system" where
  "rotating_logs can_open tz [] st = st"
| "rotating_logs can_open tz ((now, nm, l, msg) # ms) st =
     rotating_logs can_open tz ms (rotating_log can_open tz now nm l msg st)"

definition lines_of :: "tz_offset \<Rightarrow> (time \<times> string \<times> level \<times> string) list \<Rightarrow> string" where
  "lines_of tz ms = concat (map (\<lambda>(now, nm, l, msg). format tz now nm l msg @ newline) ms)"

fun log_lines ::
    "nat \<Rightarrow> nat \<Rightarrow> tz_offset \<Rightarrow> (time \<times> string \<times> level \<times> string) list \<Rightarrow> string list \<Rightarrow> string list" where
  "log_lines max_s max_f tz [] xs = xs"
| "log_lines max_s max_f tz ((now, nm, l, msg) # ms) xs =
     log_lines max_s max_f tz ms (log_line max_s max_f (format tz now nm l msg @ newline) xs)"

lemma log_lines_suffix:
  "xs \<noteq> [] \<Longrightarrow> suffix (concat (rev (log_lines max_s max_f tz ms xs))) (concat (rev xs) @ lines_of tz ms)"
proof (induction ms arbitrary: xs)
  case (Cons m ms)
  obtain now nm l msg where m: "m = (now, nm, l, msg)" by (cases m)
  let ?line = "format tz now nm l msg @ newline"
  let ?xs = "log_line max_s max_f ?line xs"
  note st = log_line_suffix[OF Cons.prems, of max_s max_f ?line]
  have "suffix (concat (rev (log_lines max_s max_f tz ms ?xs))) (concat (rev ?xs) @ lines_of tz ms)"
    using Cons.IH[OF st(2)] .
  also have "suffix (concat (rev ?xs) @ lines_of tz ms) ((concat (rev xs) @ ?line) @ lines_of tz ms)"
    using st(1) by (simp only: suffix_def) (metis append.assoc)
  finally show ?case by (simp add: m lines_of_def)
qed (simp add: lines_of_def)

lemma log_lines_limit:
  "xs \<noteq> [] \<Longrightarrow> hd xs = [] \<or> length (hd xs) < max_s \<or> ms \<noteq> [] \<Longrightarrow>
   hd (log_lines max_s max_f tz ms xs) = [] \<or> length (hd (log_lines max_s max_f tz ms xs)) < max_s"
proof (induction ms arbitrary: xs)
  case (Cons m ms)
  obtain now nm l msg where m: "m = (now, nm, l, msg)" by (cases m)
  let ?xs = "log_line max_s max_f (format tz now nm l msg @ newline) xs"
  note st = log_line_suffix(2,3)[OF Cons.prems(1), of max_s max_f "format tz now nm l msg @ newline"]
  from st(2) have "hd ?xs = [] \<or> length (hd ?xs) < max_s \<or> ms \<noteq> []" by blast
  from Cons.IH[OF st(1) this] show ?case by (simp only: m log_lines.simps)
qed simp

lemma rotating_logs_refine:
  "rotating_logs can_open tz ms (s, fs) = (s', fs') \<Longrightarrow> can_open (current_path (rk_base s)) \<Longrightarrow>
   rotating_ok s xs \<Longrightarrow> log_files (rk_base s) (rk_max_files s) xs fs \<Longrightarrow> rk_level s = Trace \<Longrightarrow>
   log_files (rk_base s) (rk_max_files s) (log_lines (rk_max_size s) (rk_max_files s) tz ms xs) fs'
   \<and> (\<forall>p. p \<notin> log_path (rk_base s) ` {..Suc (rk_max_files s)} \<longrightarrow> fs_files fs' p = fs_files fs p)"
proof (induction ms arbitrary: s fs xs)
  case (Cons m ms)
  obtain now nm l msg where m: "m = (now, nm, l, msg)" by (cases m)
  obtain s1 fs1 where step: "rotating_log can_open tz now nm l msg (s, fs) = (s1, fs1)"
    by (cases "rotating_log can_open tz now nm l msg (s, fs)")
  have "rk_level s \<le> l" using Cons.prems(5) by (cases l) (simp_all add: less_eq_level_def)
  note st = rotating_log_refines[OF Cons.prems(2-4) this step refl]
  have "rotating_logs can_open tz ms (s1, fs1) = (s', fs')" using Cons.prems(1) m step by simp
  from Cons.IH[OF this, of "log_line (rk_max_size s) (rk_max_files s) (format tz now nm l msg @ newline) xs"]
    st(1,2) Cons.prems(2,5)
  have "log_files (rk_base s) (rk_max_files s) (log_lines (rk_max_size s) (rk_max_files s) tz (m # ms) xs) fs'"
    and "\<forall>p. p \<notin> log_path (rk_base s) ` {..Suc (rk_max_files s)} \<longrightarrow> fs_files fs' p = fs_files fs1 p"
    by (simp_all add: m)
  with st(3) show ?case by metis
qed simp

text \<open>
  C20. A rotating sink implements its abstract state, the list of the contents of the current file
  and the archives, newest first.  Started on files without a gap in their numbers (none at all
  included), where the current file can be opened, after any sequence of messages the files are
  exactly those of the abstract state: each line is appended to the current file, and a file that
  reaches the limit becomes archive 0, the others moving up by one, of which \<open>max_files + 1\<close> stay;
  so what is missing is the oldest part of the log.  After a message the current file is empty or
  smaller than the limit.  No other file changes.
\<close>

theorem rotating_keeps_suffix:
  assumes "can_open (current_path base)" and "log_files base max_f xs fs"
    and "rotating_logs can_open tz ms (rotating_new can_open base max_s max_f fs) = (s', fs')"
    and "ys = log_lines max_s max_f tz ms (if xs = [] then [[]] else xs)"
  shows "log_files base max_f ys fs'
    \<and> suffix (concat (rev ys)) (concat (rev xs) @ lines_of tz ms)
    \<and> (ms \<noteq> [] \<longrightarrow> hd ys = [] \<or> length (hd ys) < max_s)
    \<and> (\<forall>p. p \<notin> log_path base ` {..Suc max_f} \<longrightarrow> fs_files fs' p = fs_files fs p)"
proof -
  let ?xs = "if xs = [] then [[]] else xs"
  obtain s0 fs0 where n: "rotating_new can_open base max_s max_f fs = (s0, fs0)" by fastforce
  have cur: "fs_files fs (current_path base) = nth_opt xs 0"
    using assms(2) unfolding log_files_def by (metis le0 log_path_simps(1))
  have s0: "s0 = \<lparr>rk_level = Trace, rk_base = base, rk_max_size = max_s, rk_max_files = max_f,
       rk_current_size = length (hd ?xs), rk_file = Some (current_path base)\<rparr>"
    and f0: "fs_files fs0 = (fs_files fs)(current_path base \<mapsto> hd ?xs)"
    using n assms(1) cur
    by (auto simp: rotating_new_def rotating_open_file_def Let_def open_append_def file_size_def
        nth_opt_def hd_conv_nth fun_upd_idem split: if_splits)
  have "log_files base max_f (hd ?xs # tl ?xs) fs0"
  proof (rule log_filesI)
    fix j assume "j \<le> max_f"
    then have "fs_files fs (log_path base (Suc j)) = nth_opt xs (Suc j)"
      using assms(2) unfolding log_files_def by blast
    then show "fs_files fs0 (archive_path base j) = nth_opt (tl ?xs) j"
      by (cases xs) (simp_all add: f0)
  qed (simp add: f0)
  then have lf: "log_files base max_f ?xs fs0" by (cases xs) simp_all
  have ok: "rotating_ok s0 ?xs" by (simp add: rotating_ok_def s0)
  have "rotating_logs can_open tz ms (s0, fs0) = (s', fs')" using assms(3) n by simp
  from rotating_logs_refine[OF this _ ok] lf assms(1)
  have "log_files base max_f ys fs'"
    "\<forall>p. p \<notin> log_path base ` {..Suc max_f} \<longrightarrow> fs_files fs' p = fs_files fs0 p"
    by (simp_all add: s0 assms(4))
  moreover have "fs_files fs0 p = fs_files fs p" if "p \<notin> log_path base ` {..Suc max_f}" for p
    using that f0 log_path_simps(1)[of base] by (metis atMost_iff fun_upd_other imageI le0)
  moreover have "suffix (concat (rev ys)) (concat (rev xs) @ lines_of tz ms)"
    using log_lines_suffix[of ?xs max_s max_f tz ms] by (cases "xs = []") (simp_all add: assms(4))
  moreover have "hd ys = [] \<or> length (hd ys) < max_s" if "ms \<noteq> []"
    using log_lines_limit[of ?xs max_s ms max_f tz] that by (simp add: assms(4))
  ultimately show ?thesis by simp
qed

theorem rotating_keeps_suffix_witness:
  "fs_files (snd (rotating_logs (\<lambda>_. True) (\<lambda>_. 0)
       [(0, ''n'', Info, ''a''), (0, ''n'', Info, ''b'')]
       (rotating_new (\<lambda>_. True) ''app'' 1 1 \<lparr>fs_files = Map.empty, fs_dirs = {}\<rparr>)))
     (archive_path ''app'' 0) = Some (format (\<lambda>_. 0) 0 ''n'' Info ''b'' @ newline)"
proof -
  let ?ms = "[(0, ''n'', Info, ''a''), (0, ''n'', Info, ''b'')]"
  let ?st = "rotating_new (\<lambda>_. True) ''app'' 1 1 \<lparr>fs_files = Map.empty, fs_dirs = {}\<rparr>"
  obtain s' fs' where r: "rotating_logs (\<lambda>_. True) (\<lambda>_. 0) ?ms ?st = (s', fs')" by fastforce
  have "log_files ''app'' 1 [] \<lparr>fs_files = Map.empty, fs_dirs = {}\<rparr>"
    by (simp add: log_files_def)
  from rotating_keeps_suffix[OF _ this r refl] have
    "log_files ''app'' 1 (log_lines 1 1 (\<lambda>_. 0) ?ms [[]]) fs'" by simp
  moreover have "log_lines 1 1 (\<lambda>_. 0) ?ms [[]] = [[], format (\<lambda>_. 0) 0 ''n'' Info ''b'' @ newline,
      format (\<lambda>_. 0) 0 ''n'' Info ''a'' @ newline]"
    by (simp add: newline_def numeral_3_eq_3)
  ultimately have "fs_files fs' (archive_path ''app'' 0) = Some (format (\<lambda>_. 0) 0 ''n'' Info ''b'' @ newline)"
    using log_filesD(2)[of "''app''" 1 _ _ fs' 0] by simp
  then show ?thesis by (simp only: r snd_conv)
qed

section \<open>One file a day\<close>

type_synonym daily_message = "clock \<times> string \<times> level \<times> string"

fun daily_logs ::
    "(string \<Rightarrow> bool) \<Rightarrow> tz_offset \<Rightarrow> daily_message list \<Rightarrow> daily_sink \<times> file_system
      \<Rightarrow> daily_sink \<times> file_system" where
  "daily_logs can_open tz [] st = st"
| "daily_logs can_open tz ((clk, nm, l, msg) # ms) st =
     daily_logs can_open tz ms (daily_log can_open tz clk nm l msg st)"

text \<open>The lines of the messages that are logged on a date.\<close>

definition lines_on :: "tz_offset \<Rightarrow> string \<Rightarrow> daily_message list \<Rightarrow> string" where
  "lines_on tz d ms =
     concat (map (\<lambda>(clk, nm, l, msg). format tz (clk 1) nm l msg @ newline)
       (filter (\<lambda>(clk, nm, l, msg). get_date tz (clk 0) = d) ms))"

lemma daily_path_inj [simp]: "daily_path base d = daily_path base d' \<longleftrightarrow> d = d'"
  by (simp add: daily_path_def)

definition daily_ok :: "daily_sink \<Rightarrow> bool" where
  "daily_ok s \<longleftrightarrow> dk_file s = Some (daily_path (dk_base s) (dk_date s))"

lemma daily_log_step:
  assumes "\<forall>p. can_open p" and "daily_ok s" and "dk_level s \<le> l"
    and "daily_log can_open tz clk nm l msg (s, fs) = (s', fs')"
  shows "daily_ok s' \<and> dk_base s' = dk_base s \<and> dk_level s' = dk_level s
    \<and> (\<forall>d. contents fs' (daily_path (dk_base s) d) = contents fs (daily_path (dk_base s) d)
         @ (if get_date tz (clk 0) = d then format tz (clk 1) nm l msg @ newline else []))"
proof -
  have "\<not> l < dk_level s" using assms(3) by (rule leD)
  with assms(1,2,4) show ?thesis
    by (cases "get_date tz (clk 0) = dk_date s")
      (auto simp: daily_log_def Let_def daily_ok_def daily_open_file_def open_append_def contents_def
        split: option.splits)
qed

lemma daily_logs_lines:
  "daily_logs can_open tz ms (s, fs) = (s', fs') \<Longrightarrow> \<forall>p. can_open p \<Longrightarrow> daily_ok s \<Longrightarrow>
   dk_level s = Trace \<Longrightarrow>
   contents fs' (daily_path (dk_base s) d) = contents fs (daily_path (dk_base s) d) @ lines_on tz d ms"
proof (induction ms arbitrary: s fs)
  case Nil
  then show ?case by (simp add: lines_on_def)
next
  case (Cons m ms)
  obtain clk nm l msg where m: "m = (clk, nm, l, msg)" by (cases m)
  obtain s1 fs1 where step: "daily_log can_open tz clk nm l msg (s, fs) = (s1, fs1)"
    by (cases "daily_log can_open tz clk nm l msg (s, fs)")
  have "dk_level s \<le> l" using Cons.prems(4) by (cases l) (simp_all add: less_eq_level_def)
  note st = daily_log_step[OF Cons.prems(2,3) this step]
  have "daily_logs can_open tz ms (s1, fs1) = (s', fs')" using Cons.prems(1) m step by simp
  from Cons.IH[OF this] Cons.prems(2,4) st have
    "contents fs' (daily_path (dk_base s) d) = contents fs1 (daily_path (dk_base s) d) @ lines_on tz d ms"
    by simp
  with st show ?case by (simp add: m lines_on_def)
qed

text \<open>
  A daily sink on an empty directory files every message under the date at which it is logged:
  after any sequence of messages the file of a date holds exactly the lines of that date, in
  order, also when the clock goes back.
\<close>

theorem daily_files_partition:
  assumes "\<forall>p. can_open p" and "\<forall>p. fs_files fs p = None"
    and "daily_logs can_open tz ms (daily_new can_open tz now base fs) = (s', fs')"
  shows "contents fs' (daily_path base d) = lines_on tz d ms"
proof -
  obtain s0 fs0 where n: "daily_new can_open tz now base fs = (s0, fs0)" by fastforce
  have s0: "daily_ok s0" "dk_level s0 = Trace" "dk_base s0 = base"
    "contents fs0 (daily_path base d) = []"
    using n assms(1,2)
    by (auto simp: daily_new_def daily_open_file_def open_append_def daily_ok_def contents_def Let_def)
  from daily_logs_lines[of can_open tz ms s0 fs0 s' fs' d] assms(1,3) n s0 show ?thesis by simp
qed

theorem daily_files_partition_witness:
  "contents (snd (daily_logs (\<lambda>_. True) (\<lambda>_. 0) [(\<lambda>_. 86400000000000, ''n'', Info, ''a'')]
      (daily_new (\<lambda>_. True) (\<lambda>_. 0) 0 ''app'' \<lparr>fs_files = Map.empty, fs_dirs = {}\<rparr>)))
      (daily_path ''app'' ''1970-01-01'')
   = lines_on (\<lambda>_. 0) ''1970-01-01'' [(\<lambda>_. 86400000000000, ''n'', Info, ''a'')]"
proof -
  let ?ms = "[(\<lambda>_. 86400000000000, ''n'', Info, ''a'')] :: daily_message list"
  let ?st = "daily_new (\<lambda>_. True) (\<lambda>_. 0) 0 ''app'' \<lparr>fs_files = Map.empty, fs_dirs = {}\<rparr>"
  obtain s' fs' where r: "daily_logs (\<lambda>_. True) (\<lambda>_. 0) ?ms ?st = (s', fs')"
    by (cases "daily_logs (\<lambda>_. True) (\<lambda>_. 0) ?ms ?st")
  show ?thesis unfolding r snd_conv by (rule daily_files_partition[OF _ _ r]) simp_all
qed

end
