(* ===== verification/Signal_Safe_Sink.thy ===== *)
theory Signal_Safe_Sink
  imports Log_Level
begin

text \<open>
  The signal-safe sink: \<open>include/Zyrnix/sinks/signal_safe_sink.hpp\<close> and
  \<open>src/sinks/signal_safe_sink.cpp\<close>.  The array is a function from indices to bytes; the two
  positions only grow and are natural numbers (they are 64-bit counters of bytes).  The results of
  the successive calls of \<open>write\<close> are a script; when it is used up, calls write everything.  The
  reservation of space and the copying are separate functions, as they are separate for a signal
  that arrives in between.
\<close>

section \<open>State\<close>

datatype write_result = Wrote nat | Interrupted | Failed

record signal_sink =
  ss_ready :: bool
  ss_buffer :: "nat \<Rightarrow> char"
  ss_write_pos :: nat
  ss_read_pos :: nat
  ss_capacity :: nat
  ss_dropped :: nat
  ss_in_handler :: bool
  ss_flushing :: bool
  ss_file :: string
  ss_script :: "write_result list"

definition max_buffer_size :: nat where "max_buffer_size = 1048576"

definition signal_sink_new ::
    "bool \<Rightarrow> (nat \<Rightarrow> char) \<Rightarrow> string \<Rightarrow> write_result list \<Rightarrow> nat \<Rightarrow> signal_sink" where
  "signal_sink_new opened memory file script buffer_size =
     \<lparr>ss_ready = opened, ss_buffer = memory, ss_write_pos = 0, ss_read_pos = 0,
      ss_capacity = min buffer_size max_buffer_size, ss_dropped = 0, ss_in_handler = False,
      ss_flushing = False, ss_file = file, ss_script = script\<rparr>"

definition enter_signal_handler :: "signal_sink \<Rightarrow> signal_sink" where
  "enter_signal_handler s = s\<lparr>ss_in_handler := True\<rparr>"

definition exit_signal_handler :: "signal_sink \<Rightarrow> signal_sink" where
  "exit_signal_handler s = s\<lparr>ss_in_handler := False\<rparr>"

section \<open>Writing to the file\<close>

text \<open>The bytes that reach the file, and the rest of the script.\<close>

fun safe_write :: "write_result list \<Rightarrow> string \<Rightarrow> string \<times> write_result list" where
  "safe_write rs [] = ([], rs)"
| "safe_write [] data = (data, [])"
| "safe_write (Interrupted # rs) data = safe_write rs data"
| "safe_write (Failed # rs) data = ([], rs)"
| "safe_write (Wrote n # rs) data =
     (if n = 0 then ([], rs)
      else (let (more, rs') = safe_write rs (drop n data) in (take n data @ more, rs')))"

definition ring_slice :: "signal_sink \<Rightarrow> nat \<Rightarrow> nat \<Rightarrow> string" where
  "ring_slice s idx n = map (ss_buffer s) [idx..<idx + n]"

text \<open>
  The loop of \<open>flush_buffer\<close>; with capacity 0 the positions are always equal
  (\<open>ring_ok\<close> below), the test on it only makes the function total.
\<close>

function flush_loop :: "nat \<Rightarrow> nat \<Rightarrow> signal_sink \<Rightarrow> signal_sink" where
  "flush_loop write_pos read_pos s =
     (if read_pos < write_pos \<and> 0 < ss_capacity s
      then
        (let idx = read_pos mod ss_capacity s;
             n = (if write_pos - read_pos \<le> ss_capacity s - idx then write_pos - read_pos
                  else ss_capacity s - idx);
             (out, rs) = safe_write (ss_script s) (ring_slice s idx n)
         in flush_loop write_pos (read_pos + n)
              (s\<lparr>ss_file := ss_file s @ out, ss_script := rs\<rparr>))
      else s\<lparr>ss_read_pos := read_pos\<rparr>)"
  by pat_completeness auto
termination
proof (relation "measure (\<lambda>(w, r, s). w - r)", goal_cases)
  case (2 w r s idx n x out rs)
  then have "idx < ss_capacity s" by simp
  with 2 show ?case by (auto split: if_splits)
qed simp

declare flush_loop.simps [simp del]

definition flush_buffer :: "signal_sink \<Rightarrow> signal_sink" where
  "flush_buffer s =
     (if \<not> ss_ready s then s
      else if ss_write_pos s = ss_read_pos s then s
      else flush_loop (ss_write_pos s) (ss_read_pos s) s)"

section \<open>Writing to the buffer\<close>

definition available :: "signal_sink \<Rightarrow> nat" where
  "available s = ss_capacity s - (ss_write_pos s - ss_read_pos s)"

text \<open>The compare-and-swap on \<open>write_pos_\<close>; the value is the start of the reserved range.\<close>

definition reserve :: "nat \<Rightarrow> signal_sink \<Rightarrow> nat \<times> signal_sink" where
  "reserve len s = (ss_write_pos s, s\<lparr>ss_write_pos := ss_write_pos s + len\<rparr>)"

fun copy_bytes :: "nat \<Rightarrow> string \<Rightarrow> signal_sink \<Rightarrow> signal_sink" where
  "copy_bytes pos [] s = s"
| "copy_bytes pos (c # cs) s =
     copy_bytes (pos + 1) cs (s\<lparr>ss_buffer := (ss_buffer s)(pos mod ss_capacity s := c)\<rparr>)"

definition append_bytes :: "string \<Rightarrow> signal_sink \<Rightarrow> signal_sink" where
  "append_bytes data s = (let (pos, s1) = reserve (length data) s in copy_bytes pos data s1)"

text \<open>The flush when there is no room, unless one is in progress.\<close>

definition make_room :: "signal_sink \<Rightarrow> signal_sink" where
  "make_room s =
     (if ss_flushing s then s
      else (flush_buffer (s\<lparr>ss_flushing := True\<rparr>))\<lparr>ss_flushing := False\<rparr>)"

definition write_to_buffer :: "string \<Rightarrow> signal_sink \<Rightarrow> signal_sink" where
  "write_to_buffer data s =
     (if data = [] then s
      else if length data > available s
      then
        (let s1 = make_room s in
         if length data > available s1 then s1\<lparr>ss_dropped := ss_dropped s1 + 1\<rparr>
         else append_bytes data s1)
      else append_bytes data s)"

definition signal_log :: "string \<Rightarrow> level \<Rightarrow> string \<Rightarrow> signal_sink \<Rightarrow> signal_sink" where
  "signal_log nm l message s =
     (if \<not> ss_ready s then s
      else
        (let s1 = write_to_buffer newline (write_to_buffer message
                    (write_to_buffer (level_to_str l) s))
         in if ss_write_pos s1 - ss_read_pos s1 > ss_capacity s1 div 2 then flush_buffer s1 else s1))"

definition signal_flush :: "signal_sink \<Rightarrow> signal_sink" where
  "signal_flush s = flush_buffer s"

definition signal_close :: "signal_sink \<Rightarrow> signal_sink" where
  "signal_close s = (if ss_ready s then (signal_flush s)\<lparr>ss_ready := False\<rparr> else s)"

section \<open>Numbers\<close>

text \<open>The digits in \<open>temp\<close>, least significant first.\<close>

fun itoa_loop :: "nat \<Rightarrow> nat \<Rightarrow> string" where
  "itoa_loop pos value =
     (if pos \<ge> 32 then []
      else digit_char (value mod 10) # (if value div 10 > 0 then itoa_loop (pos + 1) (value div 10) else []))"

declare itoa_loop.simps [simp del]

definition int_to_str :: "int \<Rightarrow> nat \<Rightarrow> string" where
  "int_to_str value buffer_size =
     (if buffer_size = 0 then []
      else
        (let digits = itoa_loop 0 (nat \<bar>value\<bar>);
             temp = (if value < 0 \<and> length digits < 32 then digits @ ''-'' else digits)
         in take (buffer_size - 1) (rev temp)))"

section \<open>A byte queue\<close>

text \<open>
  What \<open>log\<close> needs of the buffer, as an interface: bytes are put behind the pending ones when
  there is room, and draining moves the pending bytes to the output.
\<close>

locale byte_queue =
  fixes room :: "'s \<Rightarrow> nat" and pending :: "'s \<Rightarrow> string" and out :: "'s \<Rightarrow> string"
    and put :: "string \<Rightarrow> 's \<Rightarrow> 's" and drain :: "'s \<Rightarrow> 's"
    and size_limit :: "'s \<Rightarrow> nat" and ok :: "'s \<Rightarrow> bool"
  assumes put_fits: "ok s \<Longrightarrow> length d \<le> room s \<Longrightarrow>
      ok (put d s) \<and> pending (put d s) = pending s @ d \<and> out (put d s) = out s
      \<and> size_limit (put d s) = size_limit s"
    and drain_moves: "ok s \<Longrightarrow>
      ok (drain s) \<and> pending (drain s) = [] \<and> out (drain s) = out s @ pending s
      \<and> size_limit (drain s) = size_limit s"
    and room_left: "ok s \<Longrightarrow> room s + length (pending s) = size_limit s"
begin

text \<open>Everything that went in, in order: what came out and what is pending.\<close>

definition stream :: "'s \<Rightarrow> string" where
  "stream s = out s @ pending s"

lemma stream_put: "ok s \<Longrightarrow> length d \<le> room s \<Longrightarrow> stream (put d s) = stream s @ d"
  using put_fits[of s d] by (simp add: stream_def)

lemma stream_drain: "ok s \<Longrightarrow> stream (drain s) = stream s"
  using drain_moves[of s] by (simp add: stream_def)

lemma drained_room: "ok s \<Longrightarrow> room (drain s) = size_limit s"
  using drain_moves[of s] room_left[of "drain s"] by simp

text \<open>A write that drains first when it has to: what fits in the empty buffer always gets in.\<close>

definition put_or_drop :: "string \<Rightarrow> 's \<Rightarrow> 's" where
  "put_or_drop d s =
     (let s1 = (if length d > room s then drain s else s) in
      if length d > room s1 then s1 else put d s1)"

lemma put_or_drop_stream:
  assumes "ok s"
  shows "ok (put_or_drop d s) \<and> size_limit (put_or_drop d s) = size_limit s
    \<and> stream (put_or_drop d s) = stream s @ (if length d \<le> size_limit s then d else [])"
proof (cases "length d > room s")
  case False
  then have "length d \<le> size_limit s" using room_left[OF assms] by simp
  with False assms put_fits[of s d] stream_put[of s d] show ?thesis
    by (simp add: put_or_drop_def Let_def not_less)
next
  case True
  note d = drain_moves[OF assms] drained_room[OF assms] stream_drain[OF assms]
  show ?thesis
  proof (cases "length d \<le> size_limit s")
    case fits: True
    with True d put_fits[of "drain s" d] stream_put[of "drain s" d] show ?thesis
      by (simp add: put_or_drop_def Let_def not_less)
  next
    case False
    with True d show ?thesis by (simp add: put_or_drop_def Let_def)
  qed
qed

end

section \<open>The ring buffer is a byte queue\<close>

definition ring_pending :: "signal_sink \<Rightarrow> string" where
  "ring_pending s = map (\<lambda>i. ss_buffer s (i mod ss_capacity s)) [ss_read_pos s..<ss_write_pos s]"

definition ring_ok :: "signal_sink \<Rightarrow> bool" where
  "ring_ok s \<longleftrightarrow> ss_ready s \<and> ss_read_pos s \<le> ss_write_pos s
     \<and> ss_write_pos s - ss_read_pos s \<le> ss_capacity s \<and> ss_script s = [] \<and> \<not> ss_flushing s"

lemma safe_write_Nil_script [simp]: "safe_write [] data = (data, [])"
  by (cases data) simp_all

lemma ring_slice_mod:
  assumes "idx = r mod cap" and "idx + n \<le> cap" and "cap = ss_capacity s" and "0 < cap"
  shows "ring_slice s idx n = map (\<lambda>i. ss_buffer s (i mod ss_capacity s)) [r..<r + n]"
proof (rule nth_equalityI)
  fix k assume "k < length (ring_slice s idx n)"
  then have k: "k < n" by (simp add: ring_slice_def)
  have "(r + k) mod cap = (idx + k) mod cap" by (simp add: assms(1) mod_simps)
  also have "\<dots> = idx + k" using assms(2) k by simp
  finally show "ring_slice s idx n ! k = map (\<lambda>i. ss_buffer s (i mod ss_capacity s)) [r..<r + n] ! k"
    using k assms(3) by (simp add: ring_slice_def)
qed (simp add: ring_slice_def)

lemma flush_loop_result:
  "ss_script s = [] \<Longrightarrow> r \<le> w \<Longrightarrow> 0 < ss_capacity s \<or> r = w \<Longrightarrow>
     flush_loop w r s = s\<lparr>ss_file := ss_file s @ map (\<lambda>i. ss_buffer s (i mod ss_capacity s)) [r..<w],
                         ss_read_pos := w\<rparr>"
proof (induction w r s rule: flush_loop.induct)
  case (1 w r s)
  show ?case
  proof (cases "r < w")
    case False
    with "1.prems" show ?thesis by (subst flush_loop.simps) simp
  next
    case True
    with "1.prems" have cap: "0 < ss_capacity s" by simp
    define idx where "idx = r mod ss_capacity s"
    define n where "n = (if w - r \<le> ss_capacity s - idx then w - r else ss_capacity s - idx)"
    have n: "r + n \<le> w" "idx + n \<le> ss_capacity s" "idx < ss_capacity s"
      using True cap by (auto simp: n_def idx_def less_imp_le)
    let ?out = "ring_slice s idx n"
    let ?s = "s\<lparr>ss_file := ss_file s @ ?out, ss_script := []\<rparr>"
    have sl: "?out = map (\<lambda>i. ss_buffer s (i mod ss_capacity s)) [r..<r + n]"
      using n cap by (intro ring_slice_mod[OF idx_def]) simp_all
    have step: "flush_loop w r s = flush_loop w (r + n) ?s"
      using True cap "1.prems"(1)
      by (subst flush_loop.simps) (simp add: Let_def idx_def[symmetric] n_def[symmetric])
    have "flush_loop w (r + n) ?s = ?s\<lparr>ss_file := ss_file ?s
        @ map (\<lambda>i. ss_buffer ?s (i mod ss_capacity ?s)) [r + n..<w], ss_read_pos := w\<rparr>"
      using "1.IH"[of idx n "(?out, [])" ?out "[]"] True cap "1.prems" n(1)
      by (simp add: idx_def n_def)
    moreover have "[r..<w] = [r..<r + n] @ [r + n..<w]"
      using n(1) by (metis le_add1 le_add_diff_inverse upt_add_eq_append)
    ultimately show ?thesis using step sl "1.prems"(1) by simp
  qed
qed

lemma flush_buffer_ring:
  assumes "ring_ok s"
  shows "flush_buffer s = s\<lparr>ss_file := ss_file s @ ring_pending s, ss_read_pos := ss_write_pos s\<rparr>"
proof (cases "ss_write_pos s = ss_read_pos s")
  case True
  then show ?thesis by (simp add: flush_buffer_def ring_pending_def)
next
  case False
  with assms have "0 < ss_capacity s" by (auto simp: ring_ok_def)
  with False assms show ?thesis
    by (simp add: flush_buffer_def flush_loop_result ring_ok_def ring_pending_def)
qed

lemma mod_apart:
  fixes a b :: nat
  assumes "a < b" and "b - a < m"
  shows "a mod m \<noteq> b mod m"
proof
  assume "a mod m = b mod m"
  then have "m dvd b - a" using assms(1) by (metis mod_eq_dvd_iff_nat less_imp_le)
  with assms show False by (simp add: nat_dvd_not_less)
qed

lemma copy_bytes_frame [simp]:
  "ss_capacity (copy_bytes p d s) = ss_capacity s" "ss_read_pos (copy_bytes p d s) = ss_read_pos s"
  "ss_write_pos (copy_bytes p d s) = ss_write_pos s" "ss_file (copy_bytes p d s) = ss_file s"
  "ss_ready (copy_bytes p d s) = ss_ready s" "ss_script (copy_bytes p d s) = ss_script s"
  "ss_flushing (copy_bytes p d s) = ss_flushing s" "ss_dropped (copy_bytes p d s) = ss_dropped s"
  by (induction p d s rule: copy_bytes.induct) simp_all

lemma copy_bytes_other:
  "(\<And>k. k < length d \<Longrightarrow> m \<noteq> (p + k) mod ss_capacity s) \<Longrightarrow> ss_buffer (copy_bytes p d s) m = ss_buffer s m"
proof (induction p d s rule: copy_bytes.induct)
  case (2 p c cs s)
  have "m \<noteq> p mod ss_capacity s" using "2.prems"[of 0] by simp
  moreover have "m \<noteq> (p + 1 + k) mod ss_capacity s" if "k < length cs" for k
    using "2.prems"[of "Suc k"] that by simp
  ultimately show ?case using "2.IH" by simp
qed simp

lemma copy_bytes_data:
  "length d \<le> ss_capacity s \<Longrightarrow> k < length d \<Longrightarrow>
     ss_buffer (copy_bytes p d s) ((p + k) mod ss_capacity s) = d ! k"
proof (induction p d s arbitrary: k rule: copy_bytes.induct)
  case (2 p c cs s)
  let ?s = "s\<lparr>ss_buffer := (ss_buffer s)(p mod ss_capacity s := c)\<rparr>"
  show ?case
  proof (cases k)
    case 0
    have "p mod ss_capacity s \<noteq> (p + 1 + j) mod ss_capacity s" if "j < length cs" for j
      using that "2.prems"(1) by (intro mod_apart) auto
    then have "ss_buffer (copy_bytes (p + 1) cs ?s) (p mod ss_capacity s) = ss_buffer ?s (p mod ss_capacity s)"
      by (intro copy_bytes_other) simp
    with 0 show ?thesis by simp
  next
    case (Suc j)
    with "2.IH"[of j] "2.prems" show ?thesis by simp
  qed
qed simp

lemma append_bytes_ring:
  assumes "ring_ok s" and "length d \<le> available s"
  shows "ring_ok (append_bytes d s) \<and> ring_pending (append_bytes d s) = ring_pending s @ d
    \<and> ss_file (append_bytes d s) = ss_file s \<and> ss_capacity (append_bytes d s) = ss_capacity s
    \<and> ss_dropped (append_bytes d s) = ss_dropped s"
proof -
  let ?c = "ss_capacity s" and ?r = "ss_read_pos s" and ?w = "ss_write_pos s"
  let ?s = "append_bytes d s"
  have fits: "?w - ?r + length d \<le> ?c" "?r \<le> ?w" "length d \<le> ?c"
    using assms by (auto simp: available_def ring_ok_def)
  define t where "t = s\<lparr>ss_write_pos := ?w + length d\<rparr>"
  have a: "?s = copy_bytes ?w d t" by (simp add: append_bytes_def reserve_def t_def)
  have t: "ss_capacity t = ?c" "ss_buffer t = ss_buffer s" by (simp_all add: t_def)
  have old: "ss_buffer ?s (i mod ?c) = ss_buffer s (i mod ?c)" if "?r \<le> i" "i < ?w" for i
  proof -
    have "i mod ss_capacity t \<noteq> (?w + k) mod ss_capacity t" if "k < length d" for k
      using that \<open>?r \<le> i\<close> \<open>i < ?w\<close> fits unfolding t(1) by (intro mod_apart) auto
    then show ?thesis unfolding a using copy_bytes_other[of d "i mod ss_capacity t" ?w t]
      by (simp add: t)
  qed
  have new: "ss_buffer ?s ((?w + k) mod ?c) = d ! k" if "k < length d" for k
    using copy_bytes_data[of d t k ?w] that fits(3) by (simp add: a t)
  have pos: "ss_read_pos ?s = ?r" "ss_write_pos ?s = ?w + length d" "ss_capacity ?s = ?c"
    by (simp_all add: a t_def)
  have "ring_pending ?s = map (\<lambda>i. ss_buffer ?s (i mod ?c)) [?r..<?w]
      @ map (\<lambda>i. ss_buffer ?s (i mod ?c)) [?w..<?w + length d]"
    by (simp only: ring_pending_def pos upt_add_eq_append[OF fits(2)] map_append)
  also have "map (\<lambda>i. ss_buffer ?s (i mod ?c)) [?r..<?w] = ring_pending s"
    using old by (simp add: ring_pending_def)
  also have "map (\<lambda>i. ss_buffer ?s (i mod ?c)) [?w..<?w + length d] = d"
    by (rule nth_equalityI) (simp_all add: new)
  finally have "ring_pending ?s = ring_pending s @ d" .
  moreover have "ring_ok ?s" using assms(1) fits by (simp add: ring_ok_def a t_def)
  ultimately show ?thesis by (simp add: a t_def)
qed

lemma flush_ring_ok:
  "ring_ok s \<Longrightarrow> ring_ok (flush_buffer s) \<and> ring_pending (flush_buffer s) = []
    \<and> ss_file (flush_buffer s) = ss_file s @ ring_pending s
    \<and> ss_capacity (flush_buffer s) = ss_capacity s \<and> ss_dropped (flush_buffer s) = ss_dropped s"
  by (simp add: flush_buffer_ring) (simp add: ring_ok_def ring_pending_def)

interpretation ring: byte_queue available ring_pending ss_file append_bytes flush_buffer
  ss_capacity ring_ok
proof
  fix s assume "ring_ok s"
  then have "ss_write_pos s - ss_read_pos s \<le> ss_capacity s" by (simp add: ring_ok_def)
  then show "available s + length (ring_pending s) = ss_capacity s"
    by (simp only: available_def ring_pending_def length_map length_upt le_add_diff_inverse2)
qed (simp_all add: append_bytes_ring flush_ring_ok)

section \<open>A log entry\<close>

lemma make_room_ring:
  assumes "ring_ok s"
  shows "make_room s = flush_buffer s"
proof (cases "ss_write_pos s = ss_read_pos s")
  case True
  with assms show ?thesis by (simp add: make_room_def flush_buffer_def ring_ok_def)
next
  case False
  with assms have cap: "0 < ss_capacity s" by (auto simp: ring_ok_def)
  with False assms show ?thesis
    by (simp add: make_room_def flush_buffer_def flush_loop_result ring_ok_def)
qed

lemma write_to_buffer_ring:
  assumes "ring_ok s"
  shows "write_to_buffer d s =
    (if length d \<le> ss_capacity s then ring.put_or_drop d s
     else (ring.put_or_drop d s)\<lparr>ss_dropped := ss_dropped (ring.put_or_drop d s) + 1\<rparr>)"
proof (cases "d = []")
  case True
  then show ?thesis
    by (simp add: write_to_buffer_def ring.put_or_drop_def append_bytes_def reserve_def)
next
  case False
  have "available s \<le> ss_capacity s" by (simp add: available_def)
  then show ?thesis
    using False ring.drained_room[OF assms]
    by (simp add: write_to_buffer_def ring.put_or_drop_def Let_def make_room_ring[OF assms])
qed

lemma put_or_drop_dropped: "ring_ok s \<Longrightarrow> ss_dropped (ring.put_or_drop d s) = ss_dropped s"
  using append_bytes_ring[of s d] append_bytes_ring[of "flush_buffer s" d] flush_ring_ok[of s]
  by (simp add: ring.put_or_drop_def Let_def not_less)

lemma dropped_frame [simp]:
  "ring_ok (s\<lparr>ss_dropped := n\<rparr>) = ring_ok s"
  "ring.stream (s\<lparr>ss_dropped := n\<rparr>) = ring.stream s"
  by (simp_all add: ring_ok_def ring.stream_def ring_pending_def)

lemma write_to_buffer_stream:
  "ring_ok s \<Longrightarrow> ring_ok (write_to_buffer d s) \<and> ss_capacity (write_to_buffer d s) = ss_capacity s
    \<and> ring.stream (write_to_buffer d s) = ring.stream s @ (if length d \<le> ss_capacity s then d else [])
    \<and> ss_dropped (write_to_buffer d s) = ss_dropped s + (if length d \<le> ss_capacity s then 0 else 1)"
  using ring.put_or_drop_stream[of s d] put_or_drop_dropped[of s d]
  by (simp add: write_to_buffer_ring)

text \<open>What an entry adds to the stream: a message longer than the buffer is left out of its line.\<close>

definition entry_line :: "nat \<Rightarrow> level \<Rightarrow> string \<Rightarrow> string" where
  "entry_line cap l message =
     level_to_str l @ (if length message \<le> cap then message else []) @ newline"

lemma level_to_str_length: "length (level_to_str l) \<le> 11"
  by (cases l) (simp_all add: level_to_str_def)

lemma signal_log_stream:
  assumes "ring_ok s" and "11 \<le> ss_capacity s"
  shows "ring_ok (signal_log nm l msg s) \<and> ss_capacity (signal_log nm l msg s) = ss_capacity s
    \<and> ring.stream (signal_log nm l msg s) = ring.stream s @ entry_line (ss_capacity s) l msg
    \<and> ss_dropped (signal_log nm l msg s) = ss_dropped s + (if length msg \<le> ss_capacity s then 0 else 1)
    \<and> 2 * length (ring_pending (signal_log nm l msg s)) \<le> ss_capacity s"
proof -
  let ?a = "write_to_buffer (level_to_str l) s"
  let ?b = "write_to_buffer msg ?a"
  let ?c = "write_to_buffer newline ?b"
  have lev: "length (level_to_str l) \<le> ss_capacity s" using level_to_str_length[of l] assms(2) by simp
  have nl: "length newline \<le> ss_capacity s" using assms(2) by (simp add: newline_def)
  note a = write_to_buffer_stream[OF assms(1), of "level_to_str l"]
  have b: "ring_ok ?b" "ss_capacity ?b = ss_capacity s"
    "ring.stream ?b = ring.stream s @ level_to_str l @ (if length msg \<le> ss_capacity s then msg else [])"
    "ss_dropped ?b = ss_dropped s + (if length msg \<le> ss_capacity s then 0 else 1)"
    using write_to_buffer_stream[of ?a msg] a lev by simp_all
  have c: "ring_ok ?c" "ss_capacity ?c = ss_capacity s"
    "ring.stream ?c = ring.stream s @ entry_line (ss_capacity s) l msg"
    "ss_dropped ?c = ss_dropped s + (if length msg \<le> ss_capacity s then 0 else 1)"
    using write_to_buffer_stream[OF b(1), of newline] b nl by (simp_all add: entry_line_def)
  have ready: "ss_ready s" using assms(1) by (simp add: ring_ok_def)
  have len: "length (ring_pending ?c) = ss_write_pos ?c - ss_read_pos ?c" by (simp add: ring_pending_def)
  show ?thesis
  proof (cases "ss_write_pos ?c - ss_read_pos ?c > ss_capacity ?c div 2")
    case True
    then have "signal_log nm l msg s = flush_buffer ?c" using ready by (simp add: signal_log_def Let_def)
    with c flush_ring_ok[OF c(1)] ring.stream_drain[OF c(1)] show ?thesis by simp
  next
    case False
    then have "signal_log nm l msg s = ?c" using ready by (simp add: signal_log_def Let_def)
    with c len False show ?thesis by simp
  qed
qed

definition signal_log_all :: "(string \<times> level \<times> string) list \<Rightarrow> signal_sink \<Rightarrow> signal_sink" where
  "signal_log_all ms s = foldl (\<lambda>s (nm, l, msg). signal_log nm l msg s) s ms"

lemma signal_log_all_stream:
  "ring_ok s \<Longrightarrow> 11 \<le> ss_capacity s \<Longrightarrow>
     ring_ok (signal_log_all ms s) \<and> ss_capacity (signal_log_all ms s) = ss_capacity s
     \<and> ring.stream (signal_log_all ms s)
       = ring.stream s @ concat (map (\<lambda>(nm, l, msg). entry_line (ss_capacity s) l msg) ms)
     \<and> ss_dropped (signal_log_all ms s)
       = ss_dropped s + length (filter (\<lambda>(nm, l, msg). length msg > ss_capacity s) ms)"
proof (induction ms arbitrary: s)
  case (Cons m ms)
  obtain nm l msg where m: "m = (nm, l, msg)" by (cases m) auto
  note one = signal_log_stream[OF Cons.prems, of nm l msg]
  have "signal_log_all (m # ms) s = signal_log_all ms (signal_log nm l msg s)"
    by (simp add: signal_log_all_def m)
  with one Cons.IH[of "signal_log nm l msg s"] Cons.prems m show ?case by simp
qed (simp add: signal_log_all_def)

lemma signal_sink_new_ring:
  "ring_ok (signal_sink_new True memory file [] n)"
  "ring.stream (signal_sink_new True memory file [] n) = file"
  "ss_capacity (signal_sink_new True memory file [] n) = min n max_buffer_size"
  "ss_dropped (signal_sink_new True memory file [] n) = 0"
  by (simp_all add: signal_sink_new_def ring_ok_def ring.stream_def ring_pending_def)

text \<open>
  C25. A signal-safe sink whose buffer holds at least eleven bytes, on a file that takes every
  write: after any entries and the closing flush the file holds, behind what it held, one line per
  entry in the order they were logged, and nothing is left in the buffer.  A message longer than
  the whole buffer is missing from its line, which is still written, and exactly those messages are
  counted as dropped.
\<close>

theorem signal_log_complete:
  assumes "11 \<le> n" and "cap = min n max_buffer_size"
    and "s = signal_log_all ms (signal_sink_new True memory file [] n)"
  shows "ss_file (signal_close s)
      = file @ concat (map (\<lambda>(nm, l, msg). entry_line cap l msg) ms)
    \<and> ring_pending (signal_close s) = []
    \<and> ss_dropped (signal_close s) = length (filter (\<lambda>(nm, l, msg). length msg > cap) ms)"
proof -
  have "11 \<le> cap" using assms(1,2) by (simp add: max_buffer_size_def)
  with signal_log_all_stream[of "signal_sink_new True memory file [] n" ms] assms(2,3)
  have s: "ring_ok s" "ring.stream s = file @ concat (map (\<lambda>(nm, l, msg). entry_line cap l msg) ms)"
    "ss_dropped s = length (filter (\<lambda>(nm, l, msg). length msg > cap) ms)"
    by (simp_all add: signal_sink_new_ring)
  have "signal_close s = (flush_buffer s)\<lparr>ss_ready := False\<rparr>"
    using s(1) by (simp add: signal_close_def signal_flush_def ring_ok_def)
  with flush_ring_ok[OF s(1)] s show ?thesis by (simp add: ring.stream_def ring_pending_def)
qed

lemma signal_log_complete_witness:
  "ss_file (signal_close (signal_log_all [(''crash'', Critical, ''caught''), (''crash'', Info, ''a very long message'')]
      (signal_sink_new True (\<lambda>_. CHR ''x'') '''' [] 12)))
    = ''[CRITICAL] '' @ ''caught'' @ newline @ ''[INFO] '' @ newline"
  using signal_log_complete[of 12 12 _ "[(''crash'', Critical, ''caught''), (''crash'', Info, ''a very long message'')]"
      "\<lambda>_. CHR ''x''" "''''"]
  by (simp add: max_buffer_size_def entry_line_def level_to_str_def)

text \<open>
  A flush that a nested signal handler runs between the reservation of space and the copying
  of an entry, which the header calls fully reentrant: the file receives the bytes that were left
  in the reserved part of the buffer, and the entry is written nowhere and never counted as dropped.
\<close>

theorem nested_flush_writes_stale_bytes:
  assumes "ring_ok s" and "length d \<le> available s"
    and "reserve (length d) s = (pos, s1)" and "s2 = copy_bytes pos d (flush_buffer s1)"
  shows "ss_file s2 = ss_file s @ ring_pending s
      @ map (\<lambda>i. ss_buffer s (i mod ss_capacity s)) [pos..<pos + length d]
    \<and> ring_pending s2 = [] \<and> ss_dropped s2 = ss_dropped s"
proof -
  have pos: "pos = ss_write_pos s" "s1 = s\<lparr>ss_write_pos := pos + length d\<rparr>"
    using assms(3) by (auto simp: reserve_def)
  have le: "ss_read_pos s \<le> pos" using assms(1) pos by (simp add: ring_ok_def)
  have ok: "ring_ok s1"
    using assms(1,2) by (auto simp: ring_ok_def pos available_def)
  have "ring_pending s1 = ring_pending s
      @ map (\<lambda>i. ss_buffer s (i mod ss_capacity s)) [pos..<pos + length d]"
    using upt_add_eq_append[OF le] pos by (simp add: ring_pending_def)
  with flush_ring_ok[OF ok] flush_buffer_ring[OF ok] assms(4) show ?thesis
    by (simp add: ring_pending_def pos)
qed

lemma nested_flush_writes_stale_bytes_witness:
  "ss_file (copy_bytes 0 ''lost'' (flush_buffer (snd (reserve 4 (signal_sink_new True (\<lambda>_. CHR ''?'') '''' [] 64)))))
    = ''????''"
  using nested_flush_writes_stale_bytes[of "signal_sink_new True (\<lambda>_. CHR ''?'') '''' [] 64" "''lost''" 0
      "snd (reserve 4 (signal_sink_new True (\<lambda>_. CHR ''?'') '''' [] 64))"]
  by (simp add: signal_sink_new_ring) (simp add: signal_sink_new_def ring_pending_def reserve_def available_def
      max_buffer_size_def upt_rec)

lemma itoa_loop_show_nat: "v < 10 ^ (32 - p) \<Longrightarrow> p < 32 \<Longrightarrow> itoa_loop p v = rev (show_nat v)"
proof (induction p v rule: itoa_loop.induct)
  case (1 p v)
  show ?case
  proof (cases "v < 10")
    case True
    with "1.prems" show ?thesis by (subst itoa_loop.simps, subst show_nat.simps) simp
  next
    case False
    have "32 - p = Suc (32 - (p + 1))" using "1.prems" by simp
    then have "v div 10 < 10 ^ (32 - (p + 1))" using "1.prems"(1) by (simp add: less_mult_imp_div_less)
    moreover have "p + 1 < 32"
    proof (rule ccontr)
      assume "\<not> p + 1 < 32"
      then have "32 - p = 1" using "1.prems"(2) by simp
      with "1.prems"(1) False show False by simp
    qed
    ultimately have "itoa_loop (p + 1) (v div 10) = rev (show_nat (v div 10))"
      using "1.IH" "1.prems" False by simp
    with False "1.prems" show ?thesis
      by (subst itoa_loop.simps, subst show_nat.simps) (simp add: div_greater_zero_iff)
  qed
qed

lemma itoa_loop_length: "length (itoa_loop p m) \<le> 32 - p"
proof (induction p m rule: itoa_loop.induct)
  case (1 p m)
  show ?case by (subst itoa_loop.simps) (use 1 in fastforce)
qed

text \<open>
  The number printing of the signal-safe sink, which cannot use the library: for every
  \<open>int\<close> but the least it writes the decimal digits with the sign, cut to the buffer less its
  terminator.
\<close>

theorem int_to_str_decimal:
  assumes "\<bar>v\<bar> < 2 ^ 31"
  shows "int_to_str v n = take (n - 1) (show_int v)"
proof -
  have "nat \<bar>v\<bar> < 10 ^ (32 - 0)" using assms by simp
  then have i: "itoa_loop 0 (nat \<bar>v\<bar>) = rev (show_nat (nat \<bar>v\<bar>))" by (intro itoa_loop_show_nat) simp_all
  have "length (show_nat m) \<le> 31" if "m < 10 ^ 31" for m
  proof -
    have "itoa_loop 1 m = rev (show_nat m)" using that by (intro itoa_loop_show_nat) simp_all
    then show ?thesis using itoa_loop_length[of 1 m] by simp
  qed
  moreover have "nat \<bar>v\<bar> < 10 ^ 31" using assms by simp
  ultimately have "length (show_nat (nat \<bar>v\<bar>)) \<le> 31" by blast
  with i show ?thesis by (cases "v < 0") (simp_all add: int_to_str_def show_int_def)
qed

lemma int_to_str_decimal_witness: "int_to_str (- 273) 16 = ''-273'' \<and> int_to_str 4711 4 = ''471''"
proof -
  have "show_int (- 273) = ''-273''" and "show_int 4711 = ''4711''"
    by (simp_all add: show_int_def show_nat.simps digit_char_def char_of_def bit_simps)
  then show ?thesis using int_to_str_decimal[of "- 273" 16] int_to_str_decimal[of 4711 4] by simp
qed

end
