(* ===== verification/Cloud_Sinks.thy ===== *)
theory Cloud_Sinks
  imports Formatter Log_Metrics Transitions
begin

text \<open>
  The cloud sinks: \<open>include/Zyrnix/sinks/cloud_sinks.hpp\<close> and \<open>src/sinks/cloud_sinks.cpp\<close>, that is
  \<open>CloudWatchSink\<close>, \<open>AzureMonitorSink\<close> and \<open>HttpClient\<close>.  The two sinks repeat the same queue,
  worker, retry loop and statistics over their own event types, so those are modelled once, over the
  type of events and the function that posts a batch; what differs (the event, the request, the
  status codes that count as success) is modelled per sink.  The network is a parameter: libcurl, or
  the shell that runs the \<open>curl\<close> command when the library is built without it.

  The retry loop may not return, so it is a \<open>partial_function\<close>; its value is \<^const>\<open>None\<close>
  when it does not.  In the step relation of the worker a call of \<open>send_batch\<close>, with its retries,
  sleeps and counters, is one step: the worker does it without the queue's mutex, so producers may
  enqueue meanwhile in the code, which the step relation orders before or after it; the states
  between an acknowledgement and the counters are not states of the model.
\<close>

section \<open>HttpClient\<close>

record http_request =
  hq_url :: string
  hq_body :: string
  hq_headers :: "(string \<times> string) list"

record http_response =
  hp_status_code :: int
  hp_body :: string
  hp_success :: bool

text \<open>
  libcurl: whether a handle is obtained, and what performing a request gives: the result code, the
  status and the body.  The shell: the first line that the command prints, if any.
\<close>

datatype 'n transport =
    Curl_library "'n \<Rightarrow> bool \<times> 'n" "string \<Rightarrow> string \<Rightarrow> string list \<Rightarrow> 'n \<Rightarrow> (nat \<times> int \<times> string) \<times> 'n"
  | Curl_command "string \<Rightarrow> 'n \<Rightarrow> string option \<times> 'n"

fun atoi_digits :: "int \<Rightarrow> string \<Rightarrow> int" where
  "atoi_digits acc [] = acc"
| "atoi_digits acc (c # cs) =
     (if is_digit c then atoi_digits (10 * acc + (int (char_code c) - 48)) cs else acc)"

definition atoi :: "string \<Rightarrow> int" where
  "atoi s =
     (case dropWhile (\<lambda>c. c \<in> {CHR '' '', CHR 0x09, CHR 0x0A, CHR 0x0B, CHR 0x0C, CHR 0x0D}) s of
        [] \<Rightarrow> 0
      | c # cs \<Rightarrow>
          if c = CHR ''-'' then - atoi_digits 0 cs
          else if c = CHR ''+'' then atoi_digits 0 cs
          else atoi_digits 0 (c # cs))"

definition squoted :: "string \<Rightarrow> string" where
  "squoted s = [CHR 0x27] @ s @ [CHR 0x27]"

definition curl_command_line :: "string \<Rightarrow> string \<Rightarrow> (string \<times> string) list \<Rightarrow> string" where
  "curl_command_line url body headers =
     ''curl -X POST -d '' @ squoted body @ '' '' @ squoted url
     @ concat (map (\<lambda>(k, v). '' -H '' @ squoted (k @ '': '' @ v)) headers)
     @ '' -w '' @ squoted ''%{http_code}'' @ '' -s -o /tmp/Zyrnix_http_response 2>/dev/null''"

definition http_post :: "'n transport \<Rightarrow> http_request \<Rightarrow> 'n \<Rightarrow> http_response \<times> 'n" where
  "http_post tr rq n =
     (case tr of
        Curl_library init perform \<Rightarrow>
          (let (handle, n1) = init n in
           if \<not> handle then (\<lparr>hp_status_code = 0, hp_body = [], hp_success = False\<rparr>, n1)
           else
             (let ((res, status, reply), n2) =
                perform (hq_url rq) (hq_body rq) (map (\<lambda>(k, v). k @ '': '' @ v) (hq_headers rq)) n1
              in if res = 0
                 then (\<lparr>hp_status_code = status, hp_body = reply, hp_success = True\<rparr>, n2)
                 else (\<lparr>hp_status_code = 0, hp_body = reply, hp_success = False\<rparr>, n2)))
      | Curl_command sh \<Rightarrow>
          (let (output, n1) = sh (curl_command_line (hq_url rq) (hq_body rq) (hq_headers rq)) n in
           case output of
             None \<Rightarrow> (\<lparr>hp_status_code = 0, hp_body = [], hp_success = False\<rparr>, n1)
           | Some line \<Rightarrow>
               (let status = atoi (take 7 line) in
                (\<lparr>hp_status_code = status, hp_body = [], hp_success = (200 \<le> status \<and> status < 300)\<rparr>,
                 n1))))"

section \<open>Queue, worker and statistics\<close>

record cloud_limits =
  ci_batch_size :: nat
  ci_batch_timeout_ms :: u64
  ci_max_retries :: nat
  ci_retry_delay_ms :: u64
  ci_max_queue_size :: nat

definition default_limits :: cloud_limits where
  "default_limits =
     \<lparr>ci_batch_size = 100, ci_batch_timeout_ms = 5000, ci_max_retries = 3,
      ci_retry_delay_ms = 1000, ci_max_queue_size = 10000\<rparr>"

text \<open>
  The position of the worker thread: at the test of the outer loop, waiting on the condition
  variable, past the unlock, or returned.
\<close>

datatype worker_pc = Outer_test | Waiting | Unlocked | Returned

record ('e, 'n) cloud_sink =
  cl_queue :: "'e list"
  cl_running :: bool
  cl_pc :: worker_pc
  cl_batch :: "'e list"
  cl_last_send :: time
  cl_messages_sent :: u64
  cl_messages_failed :: u64
  cl_messages_dropped :: u64
  cl_batches_sent :: u64
  cl_retries :: u64
  cl_net :: 'n
  cl_sleeps :: "u64 list"

definition cloud_new :: "time \<Rightarrow> 'n \<Rightarrow> ('e, 'n) cloud_sink" where
  "cloud_new now net =
     \<lparr>cl_queue = [], cl_running = True, cl_pc = Outer_test, cl_batch = [], cl_last_send = now,
      cl_messages_sent = 0, cl_messages_failed = 0, cl_messages_dropped = 0, cl_batches_sent = 0,
      cl_retries = 0, cl_net = net, cl_sleeps = []\<rparr>"

definition cloud_push :: "cloud_limits \<Rightarrow> 'e \<Rightarrow> ('e, 'n) cloud_sink \<Rightarrow> ('e, 'n) cloud_sink" where
  "cloud_push limits e s =
     (if ci_max_queue_size limits \<le> length (cl_queue s)
      then s\<lparr>cl_messages_dropped := cl_messages_dropped s + 1\<rparr>
      else s\<lparr>cl_queue := cl_queue s @ [e]\<rparr>)"

text \<open>\<open>flush\<close> returns in the states in which this holds.\<close>

definition cloud_flush_returns :: "('e, 'n) cloud_sink \<Rightarrow> bool" where
  "cloud_flush_returns s \<longleftrightarrow> cl_queue s = []"

text \<open>The loop of \<open>send_batch\<close>, over \<open>retry_count\<close> and \<open>delay\<close>; its value is \<open>success\<close>.\<close>

partial_function (option) cloud_send_loop ::
    "('e list \<Rightarrow> 'n \<Rightarrow> bool \<times> 'n) \<Rightarrow> cloud_limits \<Rightarrow> 'e list \<Rightarrow> nat \<Rightarrow> u64 \<Rightarrow> ('e, 'n) cloud_sink
      \<Rightarrow> (bool \<times> ('e, 'n) cloud_sink) option" where
  "cloud_send_loop send limits events retry_count delay s =
     (if retry_count \<le> ci_max_retries limits
      then
        (let (success, net) = send events (cl_net s);
             s1 = s\<lparr>cl_net := net\<rparr>
         in if success then Some (True, s1)
            else if retry_count < ci_max_retries limits
            then cloud_send_loop send limits events (retry_count + 1) (delay * 2)
                   (s1\<lparr>cl_sleeps := cl_sleeps s1 @ [delay], cl_retries := cl_retries s1 + 1\<rparr>)
            else cloud_send_loop send limits events retry_count delay s1)
      else Some (False, s))"

definition cloud_send_batch ::
    "('e list \<Rightarrow> 'n \<Rightarrow> bool \<times> 'n) \<Rightarrow> cloud_limits \<Rightarrow> 'e list \<Rightarrow> ('e, 'n) cloud_sink
      \<Rightarrow> ('e, 'n) cloud_sink option" where
  "cloud_send_batch send limits events s =
     (case cloud_send_loop send limits events 0 (ci_retry_delay_ms limits) s of
        None \<Rightarrow> None
      | Some (success, s1) \<Rightarrow>
          (let s2 = s1\<lparr>cl_batches_sent := cl_batches_sent s1 + 1\<rparr> in
           Some (if success
                 then s2\<lparr>cl_messages_sent := cl_messages_sent s2 + of_nat (length events)\<rparr>
                 else s2\<lparr>cl_messages_failed := cl_messages_failed s2 + of_nat (length events)\<rparr>)))"

text \<open>The inner loop that moves events from the queue to the batch.\<close>

fun take_events :: "nat \<Rightarrow> 'e list \<Rightarrow> 'e list \<Rightarrow> 'e list \<times> 'e list" where
  "take_events n [] batch = ([], batch)"
| "take_events n (e # queue) batch =
     (if length batch < n then take_events n queue (batch @ [e]) else (e # queue, batch))"

text \<open>What follows the outer loop.\<close>

definition cloud_finish ::
    "('e list \<Rightarrow> 'n \<Rightarrow> bool \<times> 'n) \<Rightarrow> cloud_limits \<Rightarrow> ('e, 'n) cloud_sink \<Rightarrow> ('e, 'n) cloud_sink option" where
  "cloud_finish send limits s =
     map_option (\<lambda>s1. s1\<lparr>cl_pc := Returned, cl_batch := []\<rparr>)
       (if cl_batch s \<noteq> [] then cloud_send_batch send limits (cl_batch s) s else Some s)"

definition cloud_outer_test ::
    "('e list \<Rightarrow> 'n \<Rightarrow> bool \<times> 'n) \<Rightarrow> cloud_limits \<Rightarrow> ('e, 'n) cloud_sink \<Rightarrow> ('e, 'n) cloud_sink option" where
  "cloud_outer_test send limits s =
     (if cl_running s then Some (s\<lparr>cl_pc := Waiting\<rparr>) else cloud_finish send limits s)"

text \<open>Up to the unlock; the wait ends with its condition or after 100 ms.\<close>

definition cloud_wake ::
    "('e list \<Rightarrow> 'n \<Rightarrow> bool \<times> 'n) \<Rightarrow> cloud_limits \<Rightarrow> ('e, 'n) cloud_sink \<Rightarrow> ('e, 'n) cloud_sink option" where
  "cloud_wake send limits s =
     (if \<not> cl_running s \<and> cl_queue s = [] then cloud_finish send limits s
      else
        (let (queue, batch) = take_events (ci_batch_size limits) (cl_queue s) (cl_batch s) in
         Some (s\<lparr>cl_queue := queue, cl_batch := batch, cl_pc := Unlocked\<rparr>)))"

definition cloud_dispatch ::
    "('e list \<Rightarrow> 'n \<Rightarrow> bool \<times> 'n) \<Rightarrow> cloud_limits \<Rightarrow> time \<Rightarrow> ('e, 'n) cloud_sink
      \<Rightarrow> ('e, 'n) cloud_sink option" where
  "cloud_dispatch send limits now s =
     (if cl_batch s \<noteq> []
         \<and> (ci_batch_size limits \<le> length (cl_batch s)
            \<or> trunc_div (now - cl_last_send s) 1000000 \<ge> sint (ci_batch_timeout_ms limits))
      then map_option (\<lambda>s1. s1\<lparr>cl_batch := [], cl_last_send := now, cl_pc := Outer_test\<rparr>)
             (cloud_send_batch send limits (cl_batch s) s)
      else Some (s\<lparr>cl_pc := Outer_test\<rparr>))"

record cloud_stats =
  ct_messages_sent :: u64
  ct_messages_failed :: u64
  ct_messages_dropped :: u64
  ct_batches_sent :: u64
  ct_retries :: u64
  ct_queue_size :: nat

definition cloud_get_stats :: "('e, 'n) cloud_sink \<Rightarrow> cloud_stats" where
  "cloud_get_stats s =
     \<lparr>ct_messages_sent = cl_messages_sent s, ct_messages_failed = cl_messages_failed s,
      ct_messages_dropped = cl_messages_dropped s, ct_batches_sent = cl_batches_sent s,
      ct_retries = cl_retries s, ct_queue_size = length (cl_queue s)\<rparr>"

section \<open>CloudWatch\<close>

record cloudwatch_config =
  wc_region :: string
  wc_log_group_name :: string
  wc_log_stream_name :: string
  wc_access_key_id :: string
  wc_secret_access_key :: string
  wc_limits :: cloud_limits

record log_event =
  le_message :: string
  le_timestamp_ms :: int

definition cloudwatch_event :: "tz_offset \<Rightarrow> clock \<Rightarrow> string \<Rightarrow> level \<Rightarrow> string \<Rightarrow> log_event" where
  "cloudwatch_event tz clk nm l message =
     \<lparr>le_message = format tz (clk 0) nm l message, le_timestamp_ms = trunc_div (clk 1) 1000000\<rparr>"

definition cloudwatch_log ::
    "cloudwatch_config \<Rightarrow> tz_offset \<Rightarrow> clock \<Rightarrow> string \<Rightarrow> level \<Rightarrow> string
      \<Rightarrow> (log_event, 'n) cloud_sink \<Rightarrow> (log_event, 'n) cloud_sink" where
  "cloudwatch_log cfg tz clk nm l message s =
     cloud_push (wc_limits cfg) (cloudwatch_event tz clk nm l message) s"

definition cloudwatch_event_json :: "log_event \<Rightarrow> string" where
  "cloudwatch_event_json e =
     ''{'' @ quoted ''timestamp'' @ '':'' @ show_int (le_timestamp_ms e) @ '',''
     @ quoted ''message'' @ '':'' @ quoted (le_message e) @ ''}''"

definition cloudwatch_body :: "cloudwatch_config \<Rightarrow> log_event list \<Rightarrow> string" where
  "cloudwatch_body cfg events =
     ''{'' @ quoted ''logGroupName'' @ '':'' @ quoted (wc_log_group_name cfg) @ '',''
     @ quoted ''logStreamName'' @ '':'' @ quoted (wc_log_stream_name cfg) @ '',''
     @ quoted ''logEvents'' @ '':['' @ comma_separated (map cloudwatch_event_json events) @ '']}''"

definition cloudwatch_request :: "cloudwatch_config \<Rightarrow> log_event list \<Rightarrow> http_request" where
  "cloudwatch_request cfg events =
     \<lparr>hq_url = ''https://logs.'' @ wc_region cfg @ ''.amazonaws.com/'',
      hq_body = cloudwatch_body cfg events,
      hq_headers = [(''Content-Type'', ''application/x-amz-json-1.1''),
                    (''X-Amz-Target'', ''Logs_20140328.PutLogEvents'')]\<rparr>"

definition send_to_cloudwatch ::
    "'n transport \<Rightarrow> cloudwatch_config \<Rightarrow> log_event list \<Rightarrow> 'n \<Rightarrow> bool \<times> 'n" where
  "send_to_cloudwatch tr cfg events n =
     (if events = [] then (True, n)
      else
        (let (response, n1) = http_post tr (cloudwatch_request cfg events) n in
         (hp_success response \<and> hp_status_code response = 200, n1)))"

section \<open>Azure Monitor\<close>

record azure_config =
  ac_instrumentation_key :: string
  ac_ingestion_endpoint :: string
  ac_limits :: cloud_limits
  ac_cloud_role_name :: string
  ac_cloud_role_instance :: string

record telemetry_event =
  te_message :: string
  te_level :: string
  te_timestamp :: string
  te_logger_name :: string

definition azure_event :: "tz_offset \<Rightarrow> clock \<Rightarrow> string \<Rightarrow> level \<Rightarrow> string \<Rightarrow> telemetry_event" where
  "azure_event tz clk nm l message =
     \<lparr>te_message = format tz (clk 0) nm l message, te_level = level_to_severity l,
      te_timestamp = (let t = to_time_t (clk 1) in put_date t @ ''T'' @ put_clock t @ ''Z''),
      te_logger_name = nm\<rparr>"

definition azure_log ::
    "azure_config \<Rightarrow> tz_offset \<Rightarrow> clock \<Rightarrow> string \<Rightarrow> level \<Rightarrow> string
      \<Rightarrow> (telemetry_event, 'n) cloud_sink \<Rightarrow> (telemetry_event, 'n) cloud_sink" where
  "azure_log cfg tz clk nm l message s =
     cloud_push (ac_limits cfg) (azure_event tz clk nm l message) s"

definition azure_event_json :: "azure_config \<Rightarrow> telemetry_event \<Rightarrow> string" where
  "azure_event_json cfg e =
     ''{'' @ quoted ''name'' @ '':'' @ quoted ''Microsoft.ApplicationInsights.Message'' @ '',''
     @ quoted ''time'' @ '':'' @ quoted (te_timestamp e) @ '',''
     @ quoted ''iKey'' @ '':'' @ quoted (ac_instrumentation_key cfg) @ '',''
     @ quoted ''data'' @ '':{''
     @ quoted ''baseType'' @ '':'' @ quoted ''MessageData'' @ '',''
     @ quoted ''baseData'' @ '':{''
     @ quoted ''ver'' @ '':2,''
     @ quoted ''message'' @ '':'' @ quoted (te_message e) @ '',''
     @ quoted ''severityLevel'' @ '':'' @ quoted (te_level e) @ ''}''
     @ (if ac_cloud_role_name cfg \<noteq> []
        then '','' @ quoted ''cloud'' @ '':{'' @ quoted ''roleName'' @ '':''
             @ quoted (ac_cloud_role_name cfg) @ ''}''
        else [])
     @ ''}}'' @ newline"

definition azure_request :: "azure_config \<Rightarrow> telemetry_event list \<Rightarrow> http_request" where
  "azure_request cfg events =
     \<lparr>hq_url = ac_ingestion_endpoint cfg, hq_body = concat (map (azure_event_json cfg) events),
      hq_headers = [(''Content-Type'', ''application/json''), (''charset'', ''utf-8'')]\<rparr>"

definition send_to_azure ::
    "'n transport \<Rightarrow> azure_config \<Rightarrow> telemetry_event list \<Rightarrow> 'n \<Rightarrow> bool \<times> 'n" where
  "send_to_azure tr cfg events n =
     (if events = [] then (True, n)
      else
        (let (response, n1) = http_post tr (azure_request cfg events) n in
         (hp_success response \<and> (hp_status_code response = 200 \<or> hp_status_code response = 206), n1)))"

section \<open>The worker thread\<close>

text \<open>One step of the worker; \<open>now\<close> is what the steady clock says when it reads it.\<close>

definition cloud_worker ::
    "('e list \<Rightarrow> 'n \<Rightarrow> bool \<times> 'n) \<Rightarrow> cloud_limits \<Rightarrow> time \<Rightarrow> ('e, 'n) cloud_sink
      \<Rightarrow> ('e, 'n) cloud_sink option" where
  "cloud_worker send limits now s =
     (case cl_pc s of
        Outer_test \<Rightarrow> cloud_outer_test send limits s
      | Waiting \<Rightarrow> cloud_wake send limits s
      | Unlocked \<Rightarrow> cloud_dispatch send limits now s
      | Returned \<Rightarrow> None)"

text \<open>The two sinks are the same code over their own events, settings and request.\<close>

definition cloudwatch_new :: "time \<Rightarrow> 'n \<Rightarrow> (log_event, 'n) cloud_sink" where
  "cloudwatch_new now net = cloud_new now net"

definition cloudwatch_worker ::
    "'n transport \<Rightarrow> cloudwatch_config \<Rightarrow> time \<Rightarrow> (log_event, 'n) cloud_sink
      \<Rightarrow> (log_event, 'n) cloud_sink option" where
  "cloudwatch_worker tr cfg = cloud_worker (send_to_cloudwatch tr cfg) (wc_limits cfg)"

definition azure_new :: "time \<Rightarrow> 'n \<Rightarrow> (telemetry_event, 'n) cloud_sink" where
  "azure_new now net = cloud_new now net"

definition azure_flush_returns :: "(telemetry_event, 'n) cloud_sink \<Rightarrow> bool" where
  "azure_flush_returns s \<longleftrightarrow> cloud_flush_returns s"

definition azure_send_batch ::
    "'n transport \<Rightarrow> azure_config \<Rightarrow> telemetry_event list \<Rightarrow> (telemetry_event, 'n) cloud_sink
      \<Rightarrow> (telemetry_event, 'n) cloud_sink option" where
  "azure_send_batch tr cfg = cloud_send_batch (send_to_azure tr cfg) (ac_limits cfg)"

definition azure_worker ::
    "'n transport \<Rightarrow> azure_config \<Rightarrow> time \<Rightarrow> (telemetry_event, 'n) cloud_sink
      \<Rightarrow> (telemetry_event, 'n) cloud_sink option" where
  "azure_worker tr cfg = cloud_worker (send_to_azure tr cfg) (ac_limits cfg)"

definition azure_get_stats :: "(telemetry_event, 'n) cloud_sink \<Rightarrow> cloud_stats" where
  "azure_get_stats s = cloud_get_stats s"

text \<open>
  The sink among its threads, with what no operation reads: the events accepted by \<open>log\<close>, the
  number refused, and the batches for which \<open>send_batch\<close> has returned.  The destructor sets the
  flag; a step of the worker that never returns is no step.
\<close>

datatype 'e cloud_label = Logged 'e | Stopped | Worker time

record ('e, 'n) cloud_system =
  cy_sink :: "('e, 'n) cloud_sink"
  cy_accepted :: "'e list"
  cy_refused :: nat
  cy_posted :: "'e list list"

definition newly_posted :: "('e, 'n) cloud_sink \<Rightarrow> ('e, 'n) cloud_sink \<Rightarrow> 'e list list" where
  "newly_posted s s' = (if cl_batch s \<noteq> [] \<and> cl_batch s' = [] then [cl_batch s] else [])"

inductive cloud_step ::
    "('e list \<Rightarrow> 'n \<Rightarrow> bool \<times> 'n) \<Rightarrow> cloud_limits \<Rightarrow> ('e, 'n) cloud_system \<Rightarrow> 'e cloud_label
      \<Rightarrow> ('e, 'n) cloud_system \<Rightarrow> bool"
  for send :: "'e list \<Rightarrow> 'n \<Rightarrow> bool \<times> 'n" and limits :: cloud_limits where
  step_log: "cl_running (cy_sink y) \<Longrightarrow> length (cl_queue (cy_sink y)) < ci_max_queue_size limits \<Longrightarrow>
    cloud_step send limits y (Logged e)
      (y\<lparr>cy_sink := cloud_push limits e (cy_sink y), cy_accepted := cy_accepted y @ [e]\<rparr>)"
| step_refuse: "cl_running (cy_sink y) \<Longrightarrow> ci_max_queue_size limits \<le> length (cl_queue (cy_sink y)) \<Longrightarrow>
    cloud_step send limits y (Logged e)
      (y\<lparr>cy_sink := cloud_push limits e (cy_sink y), cy_refused := cy_refused y + 1\<rparr>)"
| step_stop: "cl_running (cy_sink y) \<Longrightarrow>
    cloud_step send limits y Stopped (y\<lparr>cy_sink := (cy_sink y)\<lparr>cl_running := False\<rparr>\<rparr>)"
| step_worker: "cloud_worker send limits now (cy_sink y) = Some s \<Longrightarrow>
    cloud_step send limits y (Worker now)
      (y\<lparr>cy_sink := s, cy_posted := cy_posted y @ newly_posted (cy_sink y) s\<rparr>)"

inductive_cases cloud_stepE: "cloud_step send limits y l y'"

definition cloud_init :: "time \<Rightarrow> 'n \<Rightarrow> ('e, 'n) cloud_system \<Rightarrow> bool" where
  "cloud_init now net y \<longleftrightarrow>
     y = \<lparr>cy_sink = cloud_new now net, cy_accepted = [], cy_refused = 0, cy_posted = []\<rparr>"

section \<open>The retry loop\<close>

text \<open>The network after \<open>k\<close> attempts at a batch.\<close>

primrec after_attempts :: "('e list \<Rightarrow> 'n \<Rightarrow> bool \<times> 'n) \<Rightarrow> 'e list \<Rightarrow> nat \<Rightarrow> 'n \<Rightarrow> 'n" where
  "after_attempts send es 0 n = n"
| "after_attempts send es (Suc k) n = after_attempts send es k (snd (send es n))"

definition attempt_succeeds :: "('e list \<Rightarrow> 'n \<Rightarrow> bool \<times> 'n) \<Rightarrow> 'e list \<Rightarrow> 'n \<Rightarrow> nat \<Rightarrow> bool" where
  "attempt_succeeds send es n k = fst (send es (after_attempts send es k n))"

lemma attempt_succeeds_Suc [simp]:
  "attempt_succeeds send es n 0 = fst (send es n)"
  "attempt_succeeds send es n (Suc k) = attempt_succeeds send es (snd (send es n)) k"
  by (simp_all add: attempt_succeeds_def)

lemma upt_Suc_shift: "map f [0..<Suc n] = f 0 # map (\<lambda>j. f (Suc j)) [0..<n]"
  by (simp only: map_upt_Suc)

text \<open>The first success ends the loop; the delays double until the retries are used up.\<close>

lemma send_loop_success:
  assumes "r \<le> ci_max_retries limits"
    and "attempt_succeeds send es (cl_net s) k"
    and "\<And>j. j < k \<Longrightarrow> \<not> attempt_succeeds send es (cl_net s) j"
  shows "cloud_send_loop send limits es r d s = Some (True,
    s\<lparr>cl_net := after_attempts send es (Suc k) (cl_net s),
      cl_sleeps := cl_sleeps s @ map (\<lambda>j. d * 2 ^ j) [0..<min k (ci_max_retries limits - r)],
      cl_retries := cl_retries s + of_nat (min k (ci_max_retries limits - r))\<rparr>)"
  using assms
proof (induction k arbitrary: r d s)
  case 0
  then show ?case by (subst cloud_send_loop.simps) (simp add: split_beta)
next
  case (Suc k)
  obtain n where n: "send es (cl_net s) = (False, n)"
    using Suc.prems(3)[of 0] by (cases "send es (cl_net s)") auto
  have rest: "attempt_succeeds send es n k" "\<And>j. j < k \<Longrightarrow> \<not> attempt_succeeds send es n j"
    using Suc.prems(2) Suc.prems(3)[of "Suc j" for j] n by auto
  show ?case
  proof (cases "r < ci_max_retries limits")
    case True
    then obtain m where m: "ci_max_retries limits - r = Suc m" "ci_max_retries limits - Suc r = m"
      by (metis Suc_diff_Suc)
    let ?s = "s\<lparr>cl_net := n, cl_sleeps := cl_sleeps s @ [d], cl_retries := cl_retries s + 1\<rparr>"
    have "cloud_send_loop send limits es r d s = cloud_send_loop send limits es (Suc r) (d * 2) ?s"
      using True n by (subst cloud_send_loop.simps) simp
    also have "\<dots> = Some (True, ?s\<lparr>cl_net := after_attempts send es (Suc k) n,
        cl_sleeps := cl_sleeps ?s @ map (\<lambda>j. d * 2 * 2 ^ j) [0..<min k m],
        cl_retries := cl_retries ?s + of_nat (min k m)\<rparr>)"
      using Suc.IH[of "Suc r" ?s "d * 2"] True rest m by simp
    finally show ?thesis using n m
      by (simp add: upt_Suc_shift mult.assoc algebra_simps del: upt_Suc)
  next
    case False
    then have eq: "r = ci_max_retries limits" using Suc.prems(1) by simp
    have "cloud_send_loop send limits es r d s = cloud_send_loop send limits es r d (s\<lparr>cl_net := n\<rparr>)"
      using eq n by (subst cloud_send_loop.simps) simp
    with Suc.IH[of r "s\<lparr>cl_net := n\<rparr>" d] eq rest n show ?thesis by simp
  qed
qed

lemma send_loop_returned:
  assumes "cloud_send_loop send limits es r d s = Some res" and "r \<le> ci_max_retries limits"
  shows "\<exists>k. attempt_succeeds send es (cl_net s) k"
proof -
  let ?P = "\<lambda>send limits es r d s res. r \<le> ci_max_retries limits \<longrightarrow>
    (\<exists>k. attempt_succeeds send es (cl_net s) k)"
  have "?P send limits es r d s res"
  proof (rule cloud_send_loop.raw_induct[where P = ?P, OF _ assms(1)])
    fix f :: "('e list \<Rightarrow> 'n \<Rightarrow> bool \<times> 'n) \<Rightarrow> cloud_limits \<Rightarrow> 'e list \<Rightarrow> nat \<Rightarrow> u64 \<Rightarrow> ('e, 'n) cloud_sink
      \<Rightarrow> (bool \<times> ('e, 'n) cloud_sink) option"
      and send limits es r d s res
    assume IH: "\<And>send limits es r d s res. f send limits es r d s = Some res \<Longrightarrow> ?P send limits es r d s res"
      and eq: "(if r \<le> ci_max_retries limits
        then let (success, net) = send es (cl_net s); s1 = s\<lparr>cl_net := net\<rparr>
             in if success then Some (True, s1)
                else if r < ci_max_retries limits
                then f send limits es (r + 1) (d * 2)
                   (s1\<lparr>cl_sleeps := cl_sleeps s1 @ [d], cl_retries := cl_retries s1 + 1\<rparr>)
                else f send limits es r d s1
        else Some (False, s)) = Some res"
    show "?P send limits es r d s res"
    proof
      assume r: "r \<le> ci_max_retries limits"
      obtain ok n where n: "send es (cl_net s) = (ok, n)" by (cases "send es (cl_net s)")
      show "\<exists>k. attempt_succeeds send es (cl_net s) k"
      proof (cases ok)
        case True
        with n show ?thesis by (intro exI[of _ 0]) simp
      next
        case False
        obtain r' d' s' where "r' \<le> ci_max_retries limits" "cl_net s' = n"
            "f send limits es r' d' s' = Some res"
        proof (cases "r < ci_max_retries limits")
          case True
          with eq r n \<open>\<not> ok\<close> show thesis
            by (intro that[of "r + 1" "s\<lparr>cl_net := n, cl_sleeps := cl_sleeps s @ [d],
                cl_retries := cl_retries s + 1\<rparr>" "d * 2"]) simp_all
        next
          case False
          with eq r n \<open>\<not> ok\<close> show thesis by (intro that[of r "s\<lparr>cl_net := n\<rparr>" d]) simp_all
        qed
        with IH obtain k where "attempt_succeeds send es n k" by blast
        with n show ?thesis by (intro exI[of _ "Suc k"]) simp
      qed
    qed
  qed
  with assms(2) show ?thesis by simp
qed

lemma send_batch_success:
  assumes "attempt_succeeds send es (cl_net s) k"
    and "\<And>j. j < k \<Longrightarrow> \<not> attempt_succeeds send es (cl_net s) j"
  shows "cloud_send_batch send limits es s = Some
    (s\<lparr>cl_net := after_attempts send es (Suc k) (cl_net s),
       cl_sleeps := cl_sleeps s
         @ map (\<lambda>j. ci_retry_delay_ms limits * 2 ^ j) [0..<min k (ci_max_retries limits)],
       cl_retries := cl_retries s + of_nat (min k (ci_max_retries limits)),
       cl_batches_sent := cl_batches_sent s + 1,
       cl_messages_sent := cl_messages_sent s + of_nat (length es)\<rparr>)"
  using send_loop_success[of 0 limits send es s k "ci_retry_delay_ms limits"] assms
  by (simp add: cloud_send_batch_def)

lemma send_batch_None_iff:
  "cloud_send_batch send limits es s = None \<longleftrightarrow> (\<forall>k. \<not> attempt_succeeds send es (cl_net s) k)"
proof
  assume none: "cloud_send_batch send limits es s = None"
  show "\<forall>k. \<not> attempt_succeeds send es (cl_net s) k"
  proof (rule ccontr)
    assume "\<not> (\<forall>k. \<not> attempt_succeeds send es (cl_net s) k)"
    then obtain k where "attempt_succeeds send es (cl_net s) k"
      and "\<And>j. j < k \<Longrightarrow> \<not> attempt_succeeds send es (cl_net s) j"
      using exists_least_iff[of "attempt_succeeds send es (cl_net s)"] by blast
    from send_batch_success[OF this, of limits] none show False by simp
  qed
next
  assume "\<forall>k. \<not> attempt_succeeds send es (cl_net s) k"
  then have "cloud_send_loop send limits es 0 (ci_retry_delay_ms limits) s = None"
    using send_loop_returned[of send limits es 0 "ci_retry_delay_ms limits" s]
    by (cases "cloud_send_loop send limits es 0 (ci_retry_delay_ms limits) s") auto
  then show "cloud_send_batch send limits es s = None" by (simp add: cloud_send_batch_def)
qed

section \<open>What reaches the service\<close>

lemma take_events_split:
  "take_events n q b = (q', b') \<Longrightarrow>
     b' @ q' = b @ q \<and> (length b \<le> n \<longrightarrow> length b' \<le> n) \<and> length q' \<le> length q \<and> (b \<noteq> [] \<longrightarrow> b' \<noteq> [])"
  by (induction n q b rule: take_events.induct) (fastforce split: if_splits)+

definition cloud_same :: "('e, 'n) cloud_sink \<Rightarrow> ('e, 'n) cloud_sink \<Rightarrow> bool" where
  "cloud_same s s' \<longleftrightarrow>
     cl_messages_sent s' = cl_messages_sent s \<and> cl_messages_failed s' = cl_messages_failed s
     \<and> cl_messages_dropped s' = cl_messages_dropped s \<and> cl_batches_sent s' = cl_batches_sent s
     \<and> cl_net s' = cl_net s"

text \<open>A step of the worker posts its batch, or moves events from the queue to the batch, or neither.\<close>

lemma cloud_finish_cases:
  assumes "cloud_finish send limits s = Some s'"
  obtains (posted) s1 where "cl_batch s \<noteq> []" "cl_batch s' = []"
      "cloud_send_batch send limits (cl_batch s) s = Some s1" "cloud_same s1 s'" "cl_queue s' = cl_queue s1"
  | (kept) "cloud_same s s'" "cl_batch s = []" "cl_batch s' = []" "cl_queue s' = cl_queue s"
proof (cases "cl_batch s = []")
  case True
  with assms kept show thesis by (auto simp: cloud_finish_def cloud_same_def)
next
  case False
  with assms posted show thesis by (auto simp: cloud_finish_def cloud_same_def)
qed

lemma cloud_worker_cases:
  assumes "cloud_worker send limits now s = Some s'"
  obtains (post) s1 where "cl_batch s \<noteq> []" "cl_batch s' = []"
      "cloud_send_batch send limits (cl_batch s) s = Some s1" "cloud_same s1 s'" "cl_queue s' = cl_queue s1"
  | (keep) "cloud_same s s'" "newly_posted s s' = []"
      "cl_batch s' @ cl_queue s' = cl_batch s @ cl_queue s"
      "length (cl_batch s) \<le> ci_batch_size limits \<longrightarrow> length (cl_batch s') \<le> ci_batch_size limits"
      "length (cl_queue s') \<le> length (cl_queue s)"
proof -
  have finish: thesis if "cloud_finish send limits s = Some s'"
    using that
  proof (cases rule: cloud_finish_cases)
    case (posted s1)
    then show thesis by (rule post)
  next
    case kept
    then show thesis by (intro keep) (simp_all add: newly_posted_def)
  qed
  show thesis
  proof (cases "cl_pc s")
    case Outer_test
    with assms finish keep show thesis
      by (cases "cl_running s") (auto simp: cloud_worker_def cloud_outer_test_def cloud_same_def newly_posted_def)
  next
    case Waiting
    show thesis
    proof (cases "\<not> cl_running s \<and> cl_queue s = []")
      case True
      with assms Waiting finish show thesis by (simp add: cloud_worker_def cloud_wake_def)
    next
      case False
      obtain q b where t: "take_events (ci_batch_size limits) (cl_queue s) (cl_batch s) = (q, b)"
        by (cases "take_events (ci_batch_size limits) (cl_queue s) (cl_batch s)")
      with assms Waiting False have "s' = s\<lparr>cl_queue := q, cl_batch := b, cl_pc := Unlocked\<rparr>"
        by (auto simp: cloud_worker_def cloud_wake_def)
      with take_events_split[OF t] keep show thesis by (auto simp: cloud_same_def newly_posted_def)
    qed
  next
    case Unlocked
    with assms post keep show thesis
      by (auto simp: cloud_worker_def cloud_dispatch_def cloud_same_def newly_posted_def split: if_splits)
  next
    case Returned
    with assms show thesis by (simp add: cloud_worker_def)
  qed
qed

text \<open>
  What posting a batch promises, as an interface: \<open>acked\<close> are the requests that the service has
  acknowledged, and a batch that is not empty is acknowledged exactly when the call says so.
\<close>

locale batch_sender =
  fixes send :: "'e list \<Rightarrow> 'n \<Rightarrow> bool \<times> 'n" and acked :: "'n \<Rightarrow> 'r list" and request :: "'e list \<Rightarrow> 'r"
  assumes send_success: "es \<noteq> [] \<Longrightarrow> send es n = (True, n') \<Longrightarrow> acked n' = acked n @ [request es]"
    and send_failure: "es \<noteq> [] \<Longrightarrow> send es n = (False, n') \<Longrightarrow> acked n' = acked n"
begin

lemma attempts_acked:
  assumes "es \<noteq> []" and "attempt_succeeds send es n k"
    and "\<And>j. j < k \<Longrightarrow> \<not> attempt_succeeds send es n j"
  shows "acked (after_attempts send es (Suc k) n) = acked n @ [request es]"
  using assms(2,3)
proof (induction k arbitrary: n)
  case 0
  then have "send es n = (True, snd (send es n))" by (cases "send es n") simp
  with send_success[OF assms(1) this] show ?case by simp
next
  case (Suc k)
  obtain m where m: "send es n = (False, m)"
    using Suc.prems(2)[of 0] by (cases "send es n") auto
  have "acked (after_attempts send es (Suc k) m) = acked m @ [request es]"
    using Suc.prems(1) Suc.prems(2)[of "Suc j" for j] m by (intro Suc.IH) auto
  with send_failure[OF assms(1) m] m show ?case by simp
qed

lemma send_batch_acked:
  assumes "es \<noteq> []" and "cloud_send_batch send limits es s = Some s'"
  shows "acked (cl_net s') = acked (cl_net s) @ [request es]
    \<and> cl_messages_sent s' = cl_messages_sent s + of_nat (length es)
    \<and> cl_messages_failed s' = cl_messages_failed s \<and> cl_messages_dropped s' = cl_messages_dropped s
    \<and> cl_batches_sent s' = cl_batches_sent s + 1 \<and> cl_queue s' = cl_queue s"
proof -
  have "\<not> (\<forall>k. \<not> attempt_succeeds send es (cl_net s) k)"
    using assms(2) send_batch_None_iff[of send limits es s] by simp
  then obtain k where k: "attempt_succeeds send es (cl_net s) k"
      "\<And>j. j < k \<Longrightarrow> \<not> attempt_succeeds send es (cl_net s) j"
    using exists_least_iff[of "attempt_succeeds send es (cl_net s)"] by blast
  from send_batch_success[OF k, of limits] attempts_acked[OF assms(1) k] assms(2)
  show ?thesis by auto
qed

end

text \<open>The invariant; \<open>a0\<close> is what the service had acknowledged before the sink existed.\<close>

definition cloud_ok ::
    "('n \<Rightarrow> 'r list) \<Rightarrow> ('e list \<Rightarrow> 'r) \<Rightarrow> cloud_limits \<Rightarrow> 'r list \<Rightarrow> ('e, 'n) cloud_system \<Rightarrow> bool" where
  "cloud_ok acked request limits a0 y \<longleftrightarrow>
     (let s = cy_sink y; posted = cy_posted y in
      concat posted @ cl_batch s @ cl_queue s = cy_accepted y
      \<and> cl_messages_sent s = of_nat (length (concat posted)) \<and> cl_messages_failed s = 0
      \<and> cl_messages_dropped s = of_nat (cy_refused y) \<and> cl_batches_sent s = of_nat (length posted)
      \<and> list_all (\<lambda>b. b \<noteq> [] \<and> length b \<le> ci_batch_size limits) posted
      \<and> length (cl_batch s) \<le> ci_batch_size limits \<and> length (cl_queue s) \<le> ci_max_queue_size limits
      \<and> acked (cl_net s) = a0 @ map request posted)"

context batch_sender
begin

lemma cloud_init_ok: "cloud_init now net y \<Longrightarrow> cloud_ok acked request limits (acked net) y"
  by (simp add: cloud_init_def cloud_ok_def cloud_new_def)

lemma worker_ok:
  assumes ok: "cloud_ok acked request limits a0 y"
    and w: "cloud_worker send limits now (cy_sink y) = Some s"
  shows "cloud_ok acked request limits a0
    (y\<lparr>cy_sink := s, cy_posted := cy_posted y @ newly_posted (cy_sink y) s\<rparr>)"
  using w
proof (cases rule: cloud_worker_cases)
  case (post s1)
  from send_batch_acked[OF post(1,3)] post ok show ?thesis
    by (simp add: cloud_ok_def Let_def cloud_same_def newly_posted_def)
next
  case keep
  with ok show ?thesis by (simp add: cloud_ok_def Let_def cloud_same_def)
qed

lemma cloud_step_ok:
  assumes "cloud_ok acked request limits a0 y" and "cloud_step send limits y l y'"
  shows "cloud_ok acked request limits a0 y'"
  using assms(2)
proof (cases rule: cloud_step.cases)
  case (step_log e)
  with assms(1) show ?thesis by (simp add: cloud_ok_def Let_def cloud_push_def flip: append_assoc)
next
  case (step_refuse e)
  with assms(1) show ?thesis by (simp add: cloud_ok_def Let_def cloud_push_def)
next
  case step_stop
  with assms(1) show ?thesis by (simp add: cloud_ok_def Let_def)
next
  case (step_worker now s)
  with worker_ok[OF assms(1)] show ?thesis by simp
qed

end

section \<open>A service that keeps a record\<close>

text \<open>
  libcurl over a network that records every request with its answer; the \<open>i\<close>-th request is
  answered by \<open>answer i\<close>: the result code, the status and the body.
\<close>

type_synonym posted_request = "string \<times> string \<times> string list"
type_synonym http_answer = "nat \<times> int \<times> string"

definition recording_transport ::
    "(nat \<Rightarrow> http_answer) \<Rightarrow> (posted_request \<times> http_answer) list transport" where
  "recording_transport answer =
     Curl_library (\<lambda>n. (True, n))
       (\<lambda>url body headers n. (answer (length n), n @ [((url, body, headers), answer (length n))]))"

definition answered_with :: "int list \<Rightarrow> http_answer \<Rightarrow> bool" where
  "answered_with statuses a \<longleftrightarrow> fst a = 0 \<and> fst (snd a) \<in> set statuses"

definition acknowledged :: "int list \<Rightarrow> (posted_request \<times> http_answer) list \<Rightarrow> posted_request list" where
  "acknowledged statuses net = map fst (filter (\<lambda>p. answered_with statuses (snd p)) net)"

definition on_wire :: "http_request \<Rightarrow> posted_request" where
  "on_wire rq = (hq_url rq, hq_body rq, map (\<lambda>(k, v). k @ '': '' @ v) (hq_headers rq))"

lemma http_post_recording:
  "http_post (recording_transport answer) rq n
   = (if fst (answer (length n)) = 0
      then \<lparr>hp_status_code = fst (snd (answer (length n))), hp_body = snd (snd (answer (length n))), hp_success = True\<rparr>
      else \<lparr>hp_status_code = 0, hp_body = snd (snd (answer (length n))), hp_success = False\<rparr>,
      n @ [(on_wire rq, answer (length n))])"
  by (simp add: http_post_def recording_transport_def on_wire_def split_beta)

lemma send_recording:
  "es \<noteq> [] \<Longrightarrow> send_to_cloudwatch (recording_transport answer) cfg es n
     = (answered_with [200] (answer (length n)), n @ [(on_wire (cloudwatch_request cfg es), answer (length n))])"
  by (simp add: send_to_cloudwatch_def http_post_recording answered_with_def)

interpretation cloudwatch: batch_sender "send_to_cloudwatch (recording_transport answer) cfg"
  "acknowledged [200]" "\<lambda>es. on_wire (cloudwatch_request cfg es)" for answer cfg
  by unfold_locales (auto simp: send_to_cloudwatch_def http_post_recording acknowledged_def
      answered_with_def split: if_splits)

interpretation azure: batch_sender "send_to_azure (recording_transport answer) cfg"
  "acknowledged [200, 206]" "\<lambda>es. on_wire (azure_request cfg es)" for answer cfg
  by unfold_locales (auto simp: send_to_azure_def http_post_recording acknowledged_def
      answered_with_def split: if_splits)

interpretation cloudwatch_system: invariant_of "cloud_init now net"
  "cloud_step (send_to_cloudwatch (recording_transport answer) cfg) limits"
  "cloud_ok (acknowledged [200]) (\<lambda>es. on_wire (cloudwatch_request cfg es)) limits (acknowledged [200] net)"
  for now net answer cfg limits
  by unfold_locales (rule cloudwatch.cloud_init_ok cloudwatch.cloud_step_ok, assumption+)+

interpretation azure_system: invariant_of "cloud_init now net"
  "cloud_step (send_to_azure (recording_transport answer) cfg) limits"
  "cloud_ok (acknowledged [200, 206]) (\<lambda>es. on_wire (azure_request cfg es)) limits
     (acknowledged [200, 206] net)"
  for now net answer cfg limits
  by unfold_locales (rule azure.cloud_init_ok azure.cloud_step_ok, assumption+)+

section \<open>Properties\<close>

definition cloudwatch_step where
  "cloudwatch_step answer cfg =
     cloud_step (send_to_cloudwatch (recording_transport answer) cfg) (wc_limits cfg)"

definition azure_step where
  "azure_step answer cfg = cloud_step (send_to_azure (recording_transport answer) cfg) (ac_limits cfg)"

text \<open>
  C17. Whatever the service answers and however the threads interleave, every event that the
  CloudWatch sink accepted is in exactly one place, in the order of acceptance: in one batch that
  the service acknowledged, in the worker's batch, or in the queue.  Batches and queue keep to
  their limits and are never posted empty, the statistics count the acknowledged and the refused
  events (modulo \<open>2^64\<close>), and no event is ever counted as failed.
\<close>

theorem cloudwatch_delivers_once:
  assumes "reach (cloud_init now []) (cloudwatch_step answer cfg) y" and "s = cy_sink y"
  shows "concat (cy_posted y) @ cl_batch s @ cl_queue s = cy_accepted y
    \<and> acknowledged [200] (cl_net s) = map (\<lambda>es. on_wire (cloudwatch_request cfg es)) (cy_posted y)
    \<and> list_all (\<lambda>b. b \<noteq> [] \<and> length b \<le> ci_batch_size (wc_limits cfg)) (cy_posted y)
    \<and> length (cl_batch s) \<le> ci_batch_size (wc_limits cfg)
    \<and> length (cl_queue s) \<le> ci_max_queue_size (wc_limits cfg)
    \<and> ct_messages_sent (cloud_get_stats s) = of_nat (length (concat (cy_posted y)))
    \<and> ct_batches_sent (cloud_get_stats s) = of_nat (length (cy_posted y))
    \<and> ct_messages_dropped (cloud_get_stats s) = of_nat (cy_refused y)
    \<and> ct_messages_failed (cloud_get_stats s) = 0"
  using cloudwatch_system.invariant[OF assms(1)[unfolded cloudwatch_step_def]] assms(2)
  by (simp add: cloud_ok_def Let_def cloud_get_stats_def acknowledged_def)

text \<open>The same for Azure Monitor, with its status codes.\<close>

theorem azure_delivers_once:
  assumes "reach (cloud_init now []) (azure_step answer cfg) y" and "s = cy_sink y"
  shows "concat (cy_posted y) @ cl_batch s @ cl_queue s = cy_accepted y
    \<and> acknowledged [200, 206] (cl_net s) = map (\<lambda>es. on_wire (azure_request cfg es)) (cy_posted y)
    \<and> ct_messages_sent (cloud_get_stats s) = of_nat (length (concat (cy_posted y)))
    \<and> ct_messages_failed (cloud_get_stats s) = 0"
  using azure_system.invariant[OF assms(1)[unfolded azure_step_def]] assms(2)
  by (simp add: cloud_ok_def Let_def cloud_get_stats_def acknowledged_def)

lemma recording_attempts:
  "es \<noteq> [] \<Longrightarrow> attempt_succeeds (send_to_cloudwatch (recording_transport answer) cfg) es n k
     = answered_with [200] (answer (length n + k))"
  by (induction k arbitrary: n) (simp_all add: send_recording)

lemma recording_after:
  "es \<noteq> [] \<Longrightarrow> length (after_attempts (send_to_cloudwatch (recording_transport answer) cfg) es k n) = length n + k"
  by (induction k arbitrary: n) (simp_all add: send_recording)

lemma send_batch_hangs_iff:
  "(cloud_send_batch (send_to_cloudwatch (recording_transport answer) cfg) limits es s = None)
   = (es \<noteq> [] \<and> (\<forall>k. \<not> answered_with [200] (answer (length (cl_net s) + k))))"
proof (cases "es = []")
  case True
  then have "attempt_succeeds (send_to_cloudwatch (recording_transport answer) cfg) es (cl_net s) 0"
    by (simp add: send_to_cloudwatch_def)
  with True show ?thesis unfolding send_batch_None_iff by blast
next
  case False
  then show ?thesis by (simp add: send_batch_None_iff recording_attempts)
qed

lemma retry_schedule:
  assumes "es \<noteq> []" and "answered_with [200] (answer (length (cl_net s) + k))"
    and "\<forall>j < k. \<not> answered_with [200] (answer (length (cl_net s) + j))"
    and "m = min k (ci_max_retries limits)"
  shows "\<exists>s'. cloud_send_batch (send_to_cloudwatch (recording_transport answer) cfg) limits es s = Some s'
    \<and> length (cl_net s') = length (cl_net s) + k + 1
    \<and> cl_sleeps s' = cl_sleeps s @ map (\<lambda>j. ci_retry_delay_ms limits * 2 ^ j) [0..<m]
    \<and> ct_retries (cloud_get_stats s') = cl_retries s + of_nat m
    \<and> ct_batches_sent (cloud_get_stats s') = cl_batches_sent s + 1
    \<and> ct_messages_sent (cloud_get_stats s') = cl_messages_sent s + of_nat (length es)
    \<and> ct_messages_failed (cloud_get_stats s') = cl_messages_failed s"
proof -
  let ?send = "send_to_cloudwatch (recording_transport answer) cfg"
  have "attempt_succeeds ?send es (cl_net s) k" and "\<And>j. j < k \<Longrightarrow> \<not> attempt_succeeds ?send es (cl_net s) j"
    using assms(1-3) by (simp_all add: recording_attempts)
  from send_batch_success[OF this, of limits] assms(4) show ?thesis
    by (simp add: cloud_get_stats_def recording_after[OF assms(1)] del: after_attempts.simps)
qed

text \<open>
  C18. Posting a batch that is not empty returns if and only if the service acknowledges some later
  request; otherwise it never returns.  When the first acknowledgement answers the \<open>k\<close>-th
  repetition, for any \<open>k\<close>, the batch is posted \<open>k + 1\<close> times, with \<open>min k max_retries\<close> delays in
  between that start at \<open>retry_delay_ms\<close> and double (modulo \<open>2^64\<close>), so that the repetitions after
  the retries are used up follow without a delay; as many retries are counted, the batch is counted
  once and its events as sent, none as failed.
\<close>

theorem send_batch_returns_iff:
  "(cloud_send_batch (send_to_cloudwatch (recording_transport answer) cfg) limits es s = None)
      = (es \<noteq> [] \<and> (\<forall>k. \<not> answered_with [200] (answer (length (cl_net s) + k))))
   \<and> (\<forall>k. es \<noteq> [] \<and> answered_with [200] (answer (length (cl_net s) + k))
        \<and> (\<forall>j < k. \<not> answered_with [200] (answer (length (cl_net s) + j))) \<longrightarrow>
      (\<exists>s'. cloud_send_batch (send_to_cloudwatch (recording_transport answer) cfg) limits es s = Some s'
        \<and> length (cl_net s') = length (cl_net s) + k + 1
        \<and> cl_sleeps s' = cl_sleeps s
            @ map (\<lambda>j. ci_retry_delay_ms limits * 2 ^ j) [0..<min k (ci_max_retries limits)]
        \<and> ct_retries (cloud_get_stats s') = cl_retries s + of_nat (min k (ci_max_retries limits))
        \<and> ct_batches_sent (cloud_get_stats s') = cl_batches_sent s + 1
        \<and> ct_messages_sent (cloud_get_stats s') = cl_messages_sent s + of_nat (length es)
        \<and> ct_messages_failed (cloud_get_stats s') = cl_messages_failed s))"
  using send_batch_hangs_iff[of answer cfg limits es s] retry_schedule[of es answer s _ _ limits cfg, OF _ _ _ refl]
  by blast

definition sample_cloudwatch :: cloudwatch_config where
  "sample_cloudwatch =
     \<lparr>wc_region = ''us-east-1'', wc_log_group_name = ''g'', wc_log_stream_name = ''s'',
      wc_access_key_id = [], wc_secret_access_key = [], wc_limits = default_limits\<rparr>"

definition sample_event :: log_event where
  "sample_event = \<lparr>le_message = ''hi'', le_timestamp_ms = 1\<rparr>"

theorem send_batch_returns_iff_witness:
  "\<exists>s'. cloud_send_batch (send_to_cloudwatch (recording_transport
        (\<lambda>i. (0, if i < 2 then 503 else 200, []))) sample_cloudwatch) default_limits [sample_event]
        (cloud_new 0 []) = Some s'
    \<and> cl_sleeps s' = [1000, 2000]"
  using send_batch_returns_iff[of "\<lambda>i. (0, if i < 2 then 503 else 200, [])" sample_cloudwatch default_limits
      "[sample_event]" "cloud_new 0 []", THEN conjunct2, rule_format, of 2]
  by (auto simp: answered_with_def cloud_new_def default_limits_def sample_cloudwatch_def upt_rec)

text \<open>
  A sink destroyed right after a message was accepted: when the worker reads the cleared flag
  at the head of its loop it returns with the message still in the queue; it is never posted and
  not counted as dropped.
\<close>

theorem destructor_loses_queue:
  assumes "0 < ci_max_queue_size (wc_limits cfg)" and "cloud_init now [] y0"
  shows "\<exists>y. run (cloudwatch_step answer cfg) y0 [Logged e, Stopped, Worker t] y
    \<and> cl_pc (cy_sink y) = Returned \<and> cy_accepted y = [e] \<and> cl_queue (cy_sink y) = [e]
    \<and> acknowledged [200] (cl_net (cy_sink y)) = []
    \<and> ct_messages_dropped (cloud_get_stats (cy_sink y)) = 0"
proof -
  let ?s0 = "cloud_new now [] :: (log_event, (posted_request \<times> http_answer) list) cloud_sink"
  let ?y1 = "\<lparr>cy_sink = ?s0\<lparr>cl_queue := [e]\<rparr>, cy_accepted = [e], cy_refused = 0, cy_posted = []\<rparr>"
  let ?y2 = "?y1\<lparr>cy_sink := (cy_sink ?y1)\<lparr>cl_running := False\<rparr>\<rparr>"
  let ?s3 = "(cy_sink ?y2)\<lparr>cl_pc := Returned, cl_batch := []\<rparr>"
  let ?y3 = "?y2\<lparr>cy_sink := ?s3, cy_posted := cy_posted ?y2 @ newly_posted (cy_sink ?y2) ?s3\<rparr>"
  have 1: "cloudwatch_step answer cfg y0 (Logged e) ?y1"
    using step_log[of y0 "wc_limits cfg" _ e] assms
    by (simp add: cloudwatch_step_def cloud_init_def cloud_push_def cloud_new_def)
  have 2: "cloudwatch_step answer cfg ?y1 Stopped ?y2"
    unfolding cloudwatch_step_def by (rule step_stop) (simp add: cloud_new_def)
  have 3: "cloudwatch_step answer cfg ?y2 (Worker t) ?y3"
    unfolding cloudwatch_step_def
    by (rule step_worker) (simp add: cloud_worker_def cloud_outer_test_def cloud_finish_def cloud_new_def)
  have "run (cloudwatch_step answer cfg) y0 [Logged e, Stopped, Worker t] ?y3"
    by (rule run_Cons, rule 1, rule run_Cons, rule 2, rule run_Cons, rule 3, rule run_Nil)
  then show ?thesis
    by (intro exI[of _ ?y3]) (simp add: cloud_new_def acknowledged_def cloud_get_stats_def)
qed

lemma destructor_loses_queue_witness:
  "\<exists>y. run (cloudwatch_step (\<lambda>_. (0, 200, [])) sample_cloudwatch)
      \<lparr>cy_sink = cloud_new 0 [], cy_accepted = [], cy_refused = 0, cy_posted = []\<rparr>
      [Logged sample_event, Stopped, Worker 0] y
    \<and> cl_queue (cy_sink y) = [sample_event]"
  using destructor_loses_queue[of sample_cloudwatch 0
      "\<lparr>cy_sink = cloud_new 0 [], cy_accepted = [], cy_refused = 0, cy_posted = []\<rparr>"
      "\<lambda>_. (0, 200, [])" sample_event 0]
  by (auto simp: sample_cloudwatch_def default_limits_def cloud_init_def)

text \<open>A run of four worker steps in which a full batch is posted.\<close>

definition small_cloudwatch :: cloudwatch_config where
  "small_cloudwatch = sample_cloudwatch\<lparr>wc_limits := default_limits\<lparr>ci_batch_size := 1\<rparr>\<rparr>"

definition posted_sample :: "(log_event, (posted_request \<times> http_answer) list) cloud_system" where
  "posted_sample =
     (let net = [(on_wire (cloudwatch_request small_cloudwatch [sample_event]), (0, 200, []))] in
      \<lparr>cy_sink = (cloud_new 0 net)\<lparr>cl_messages_sent := 1, cl_batches_sent := 1, cl_last_send := 7\<rparr>,
       cy_accepted = [sample_event], cy_refused = 0, cy_posted = [[sample_event]]\<rparr>)"

lemma posted_sample_reachable:
  "reach (cloud_init 0 []) (cloudwatch_step (\<lambda>_. (0, 200, [])) small_cloudwatch) posted_sample"
proof -
  let ?step = "cloudwatch_step (\<lambda>_. (0, 200, [])) small_cloudwatch"
  let ?s0 = "cloud_new 0 [] :: (log_event, (posted_request \<times> http_answer) list) cloud_sink"
  let ?y0 = "\<lparr>cy_sink = ?s0, cy_accepted = [], cy_refused = 0, cy_posted = []\<rparr>"
  let ?y1 = "?y0\<lparr>cy_sink := ?s0\<lparr>cl_queue := [sample_event]\<rparr>, cy_accepted := [sample_event]\<rparr>"
  let ?y2 = "?y1\<lparr>cy_sink := (cy_sink ?y1)\<lparr>cl_pc := Waiting\<rparr>\<rparr>"
  let ?y3 = "?y2\<lparr>cy_sink := (cy_sink ?y2)\<lparr>cl_queue := [], cl_batch := [sample_event], cl_pc := Unlocked\<rparr>\<rparr>"
  note defs = cloudwatch_step_def small_cloudwatch_def sample_cloudwatch_def default_limits_def
  have 1: "?step ?y0 (Logged sample_event) ?y1"
    using step_log[of ?y0 "wc_limits small_cloudwatch" _ sample_event]
    by (simp add: defs cloud_push_def cloud_new_def)
  have 2: "?step ?y1 (Worker 0) ?y2"
    using step_worker[of "send_to_cloudwatch (recording_transport (\<lambda>_. (0, 200, []))) small_cloudwatch"
        "wc_limits small_cloudwatch" 0 ?y1 "cy_sink ?y2"]
    by (simp add: cloudwatch_step_def cloud_worker_def cloud_outer_test_def cloud_new_def newly_posted_def)
  have 3: "?step ?y2 (Worker 0) ?y3"
    using step_worker[of "send_to_cloudwatch (recording_transport (\<lambda>_. (0, 200, []))) small_cloudwatch"
        "wc_limits small_cloudwatch" 0 ?y2 "cy_sink ?y3"]
    by (simp add: defs cloud_worker_def cloud_wake_def cloud_new_def newly_posted_def)
  have "cloud_send_batch (send_to_cloudwatch (recording_transport (\<lambda>_. (0, 200, []))) small_cloudwatch)
      (wc_limits small_cloudwatch) [sample_event] (cy_sink ?y3)
    = Some ((cy_sink ?y3)\<lparr>cl_net := cl_net (cy_sink posted_sample), cl_batches_sent := 1, cl_messages_sent := 1\<rparr>)"
    using send_batch_success[of "send_to_cloudwatch (recording_transport (\<lambda>_. (0, 200, []))) small_cloudwatch"
        "[sample_event]" "cy_sink ?y3" 0 "wc_limits small_cloudwatch"]
    by (simp add: send_recording answered_with_def cloud_new_def posted_sample_def Let_def)
  then have 4: "?step ?y3 (Worker 7) posted_sample"
    using step_worker[of "send_to_cloudwatch (recording_transport (\<lambda>_. (0, 200, []))) small_cloudwatch"
        "wc_limits small_cloudwatch" 7 ?y3 "cy_sink posted_sample"]
    by (simp add: defs cloud_worker_def cloud_dispatch_def cloud_new_def newly_posted_def posted_sample_def Let_def)
  have "run ?step ?y0 [Logged sample_event, Worker 0, Worker 0, Worker 7] posted_sample"
    by (rule run_Cons, rule 1, rule run_Cons, rule 2, rule run_Cons, rule 3, rule run_Cons, rule 4, rule run_Nil)
  then show ?thesis by (rule run_reach) (simp add: reach_init cloud_init_def)
qed

lemma cloudwatch_delivers_once_witness:
  "concat (cy_posted posted_sample) = [sample_event]
    \<and> length (acknowledged [200] (cl_net (cy_sink posted_sample))) = 1"
  using cloudwatch_delivers_once[OF posted_sample_reachable refl]
  by (simp add: posted_sample_def Let_def cloud_new_def)

end
