(* ===== verification/Json_Sink.thy ===== *)
theory Json_Sink
  imports File_System Formatter Log_Context
begin

text \<open>
  Structured logging: \<open>include/Zyrnix/sinks/structured_json_sink.hpp\<close>,
  \<open>src/sinks/structured_json_sink.cpp\<close>, \<open>include/Zyrnix/structured_logger.hpp\<close> and
  \<open>src/structured_logger.cpp\<close>.  The global context and the fields are \<open>std::map\<close>s, entries in
  ascending key order; the context of the thread is an \<open>std::unordered_map\<close>, whose iteration order
  is an argument.  \<open>char\<close> is signed, as it is on the platforms the library is built for, and a
  negative \<open>int\<close> is printed in hexadecimal as its 32-bit pattern.

  The reader at the end is not part of the program: it is the grammar of JSON for objects of
  strings, the reference that a line is compared with.
\<close>

section \<open>Escaping\<close>

definition hex_digit :: "nat \<Rightarrow> char" where
  "hex_digit d = (if d < 10 then digit_char d else char_of (87 + d))"

fun show_hex :: "nat \<Rightarrow> string" where
  "show_hex n = (if n < 16 then [hex_digit n] else show_hex (n div 16) @ [hex_digit (n mod 16)])"

declare show_hex.simps [simp del]

definition signed_char :: "char \<Rightarrow> int" where
  "signed_char c = (if char_code c < 128 then int (char_code c) else int (char_code c) - 256)"

text \<open>\<open>std::hex << std::setw(4) << std::setfill('0') << (int)c\<close>\<close>

definition hex4 :: "int \<Rightarrow> string" where
  "hex4 i = (let h = show_hex (nat (i mod 2 ^ 32)) in replicate (4 - length h) CHR ''0'' @ h)"

definition escape_char :: "char \<Rightarrow> string" where
  "escape_char c =
     (if c = CHR 0x22 then bslash @ dquote
      else if c = CHR 0x5C then bslash @ bslash
      else if c = CHR 0x08 then bslash @ ''b''
      else if c = CHR 0x0C then bslash @ ''f''
      else if c = CHR 0x0A then bslash @ ''n''
      else if c = CHR 0x0D then bslash @ ''r''
      else if c = CHR 0x09 then bslash @ ''t''
      else if signed_char c < 32 then bslash @ ''u'' @ hex4 (signed_char c)
      else [c])"

definition escape_json_string :: "string \<Rightarrow> string" where
  "escape_json_string s = concat (map escape_char s)"

section \<open>A line\<close>

definition get_iso8601_timestamp :: "time \<Rightarrow> string" where
  "get_iso8601_timestamp now =
     (let t = to_time_t now;
          m = trunc_div now 1000000;
          ms = m - 1000 * trunc_div m 1000
      in put_date t @ ''T'' @ put_clock t @ ''.'' @ pad 3 ms @ ''Z'')"

definition json_entry :: "string \<times> string \<Rightarrow> string" where
  "json_entry e = '','' @ quoted (escape_json_string (fst e)) @ '':'' @ quoted (escape_json_string (snd e))"

record json_sink =
  js_context :: "(string, string) omap"
  js_file :: stream

definition build_json ::
    "time \<Rightarrow> (string \<times> string) list \<Rightarrow> string \<Rightarrow> level \<Rightarrow> string \<Rightarrow> (string, string) omap \<Rightarrow> json_sink
      \<Rightarrow> string" where
  "build_json now thread_context logger_name l message flds s =
     ''{''
     @ quoted ''timestamp'' @ '':'' @ quoted (get_iso8601_timestamp now) @ '',''
     @ quoted ''level'' @ '':'' @ quoted (to_string l) @ '',''
     @ quoted ''logger'' @ '':'' @ quoted (escape_json_string logger_name) @ '',''
     @ quoted ''message'' @ '':'' @ quoted (escape_json_string message)
     @ concat (map json_entry (js_context s))
     @ concat (map json_entry thread_context)
     @ concat (map json_entry flds)
     @ ''}''"

section \<open>The sink\<close>

definition json_sink_new :: "(string \<Rightarrow> bool) \<Rightarrow> string \<Rightarrow> file_system \<Rightarrow> json_sink \<times> file_system" where
  "json_sink_new can_open filename fs =
     (let (f, fs1) = open_append can_open filename fs in (\<lparr>js_context = [], js_file = f\<rparr>, fs1))"

definition log_with_fields ::
    "time \<Rightarrow> (string \<times> string) list \<Rightarrow> string \<Rightarrow> level \<Rightarrow> string \<Rightarrow> (string, string) omap \<Rightarrow> json_sink
      \<Rightarrow> file_system \<Rightarrow> file_system" where
  "log_with_fields now thread_context logger_name l message flds s fs =
     (case js_file s of
        None \<Rightarrow> fs
      | Some _ \<Rightarrow>
          stream_write (js_file s)
            (build_json now thread_context logger_name l message flds s @ newline) fs)"

definition json_sink_log ::
    "time \<Rightarrow> (string \<times> string) list \<Rightarrow> string \<Rightarrow> level \<Rightarrow> string \<Rightarrow> json_sink \<Rightarrow> file_system \<Rightarrow> file_system" where
  "json_sink_log now thread_context logger_name l message s fs =
     log_with_fields now thread_context logger_name l message [] s fs"

definition json_set_context :: "string \<Rightarrow> string \<Rightarrow> json_sink \<Rightarrow> json_sink" where
  "json_set_context key value s = s\<lparr>js_context := omap_put key value (js_context s)\<rparr>"

definition json_clear_context :: "json_sink \<Rightarrow> json_sink" where
  "json_clear_context s = s\<lparr>js_context := []\<rparr>"

section \<open>The structured logger\<close>

text \<open>Its six methods call the sink with their level, past the logger's level, filters and redaction.\<close>

record structured_logger =
  sl_name :: string
  sl_sink :: json_sink

definition structured_create ::
    "(string \<Rightarrow> bool) \<Rightarrow> string \<Rightarrow> string \<Rightarrow> file_system \<Rightarrow> structured_logger \<times> file_system" where
  "structured_create can_open nm filename fs =
     (let (s, fs1) = json_sink_new can_open filename fs in (\<lparr>sl_name = nm, sl_sink = s\<rparr>, fs1))"

definition structured_set_context :: "string \<Rightarrow> string \<Rightarrow> structured_logger \<Rightarrow> structured_logger" where
  "structured_set_context key value g = g\<lparr>sl_sink := json_set_context key value (sl_sink g)\<rparr>"

definition structured_clear_context :: "structured_logger \<Rightarrow> structured_logger" where
  "structured_clear_context g = g\<lparr>sl_sink := json_clear_context (sl_sink g)\<rparr>"

definition structured_log ::
    "time \<Rightarrow> (string \<times> string) list \<Rightarrow> level \<Rightarrow> string \<Rightarrow> (string, string) omap \<Rightarrow> structured_logger
      \<Rightarrow> file_system \<Rightarrow> file_system" where
  "structured_log now thread_context l message flds g fs =
     log_with_fields now thread_context (sl_name g) l message flds (sl_sink g) fs"

section \<open>A reader of JSON objects of strings\<close>

definition hex_value :: "char \<Rightarrow> nat option" where
  "hex_value c =
     (let n = char_code c in
      if is_digit c then Some (n - 48)
      else if 97 \<le> n \<and> n \<le> 102 then Some (n - 87)
      else if 65 \<le> n \<and> n \<le> 70 then Some (n - 55)
      else None)"

definition hex_number :: "char \<Rightarrow> char \<Rightarrow> char \<Rightarrow> char \<Rightarrow> nat option" where
  "hex_number a b c d =
     (case (hex_value a, hex_value b, hex_value c, hex_value d) of
        (Some w, Some x, Some y, Some z) \<Rightarrow> Some (((w * 16 + x) * 16 + y) * 16 + z)
      | _ \<Rightarrow> None)"

text \<open>The bytes of a code point below \<open>2^16\<close>.\<close>

definition utf8 :: "nat \<Rightarrow> string" where
  "utf8 n =
     (if n < 128 then [char_of n]
      else if n < 2048 then [char_of (192 + n div 64), char_of (128 + n mod 64)]
      else [char_of (224 + n div 4096), char_of (128 + n div 64 mod 64), char_of (128 + n mod 64)])"

definition unescape :: "char \<Rightarrow> char option" where
  "unescape e =
     map_of [(CHR 0x22, CHR 0x22), (CHR 0x5C, CHR 0x5C), (CHR ''/'', CHR ''/''), (CHR ''b'', CHR 0x08),
             (CHR ''f'', CHR 0x0C), (CHR ''n'', CHR 0x0A), (CHR ''r'', CHR 0x0D), (CHR ''t'', CHR 0x09)] e"

definition prepend :: "string \<Rightarrow> (string \<times> string) option \<Rightarrow> (string \<times> string) option" where
  "prepend p r = map_option (\<lambda>(x, rest). (p @ x, rest)) r"

text \<open>A string behind its opening quote: the value and what follows the closing quote.\<close>

function read_string :: "string \<Rightarrow> (string \<times> string) option" where
  "read_string s =
     (case s of
        [] \<Rightarrow> None
      | c # s1 \<Rightarrow>
          if c = CHR 0x22 then Some ([], s1)
          else if c = CHR 0x5C
          then (case s1 of
                  [] \<Rightarrow> None
                | e # s2 \<Rightarrow>
                    if e = CHR ''u''
                    then (case s2 of
                            h1 # h2 # h3 # h4 # s3 \<Rightarrow>
                              (case hex_number h1 h2 h3 h4 of
                                 None \<Rightarrow> None
                               | Some n \<Rightarrow> prepend (utf8 n) (read_string s3))
                          | _ \<Rightarrow> None)
                    else (case unescape e of None \<Rightarrow> None | Some x \<Rightarrow> prepend [x] (read_string s2)))
          else if char_code c < 32 then None
          else prepend [c] (read_string s1))"
  by pat_completeness auto
termination by (relation "measure length") auto

declare read_string.simps [simp del]

text \<open>Members and objects; \<open>read_string_shorter\<close> is what makes the recursion end.\<close>

lemma prepend_simps [simp]:
  "prepend p None = None" "prepend p (Some (x, r)) = Some (p @ x, r)"
  by (simp_all add: prepend_def)

lemma read_string_shorter: "read_string s = Some (x, r) \<Longrightarrow> length r < length s"
proof (induction "length s" arbitrary: s x r rule: less_induct)
  case less
  have deeper: "length r < length s" if "prepend p (read_string t) = Some (x, r)" and "length t < length s" for p t
    using that less.hyps[of t] by (cases "read_string t") (fastforce simp: prepend_def)+
  from less.prems obtain c s1 where s: "s = c # s1" by (cases s) (simp_all add: read_string.simps[of "[]"])
  show ?case
  proof (cases "c = CHR 0x5C")
    case False
    with less.prems s deeper[of "[c]" s1] show ?thesis
      by (subst (asm) read_string.simps) (auto split: if_splits)
  next
    case True
    with less.prems s obtain e s2 where s1: "s1 = e # s2"
      by (subst (asm) read_string.simps) (cases s1; simp)
    show ?thesis
    proof (cases "e = CHR ''u''")
      case False
      with less.prems s s1 True deeper[of _ s2] show ?thesis
        by (subst (asm) read_string.simps) (auto split: option.splits)
    next
      case u: True
      with less.prems s s1 True obtain a b d f s3 where s2: "s2 = a # b # d # f # s3"
        by (subst (asm) read_string.simps) (simp split: list.splits)
      with less.prems s s1 True u deeper[of _ s3] show ?thesis
        by (subst (asm) read_string.simps) (auto split: option.splits)
    qed
  qed
qed

function read_members :: "string \<Rightarrow> ((string \<times> string) list \<times> string) option" where
  "read_members s =
     (case s of
        [] \<Rightarrow> None
      | q # s1 \<Rightarrow>
          if q \<noteq> CHR 0x22 then None
          else
            (case read_string s1 of
               Some (k, c1 # c2 # s2) \<Rightarrow>
                 if c1 \<noteq> CHR '':'' \<or> c2 \<noteq> CHR 0x22 then None
                 else
                   (case read_string s2 of
                      Some (v, e # s3) \<Rightarrow>
                        if e = CHR ''}'' then Some ([(k, v)], s3)
                        else if e = CHR '',''
                        then map_option (\<lambda>(ms, rest). ((k, v) # ms, rest)) (read_members s3)
                        else None
                    | _ \<Rightarrow> None)
             | _ \<Rightarrow> None))"
  by pat_completeness auto
termination by (relation "measure length") (auto dest!: read_string_shorter)

declare read_members.simps [simp del]

definition read_object :: "string \<Rightarrow> (string \<times> string) list option" where
  "read_object s =
     (case s of
        [] \<Rightarrow> None
      | c # s1 \<Rightarrow>
          if c = CHR ''{''
          then (case read_members s1 of Some (ms, []) \<Rightarrow> Some ms | _ \<Rightarrow> None)
          else None)"

text \<open>The lines of a file that ends with a newline, each read as an object.\<close>

fun text_file_lines :: "string \<Rightarrow> string \<Rightarrow> string list" where
  "text_file_lines current [] = (if current = [] then [] else [current])"
| "text_file_lines current (c # s) =
     (if c = CHR 0x0A then current # text_file_lines [] s else text_file_lines (current @ [c]) s)"

definition read_json_file :: "string \<Rightarrow> (string \<times> string) list option list" where
  "read_json_file s = map read_object (text_file_lines [] s)"

section \<open>Reading back a string\<close>

definition ascii :: "string \<Rightarrow> bool" where
  "ascii s \<longleftrightarrow> list_all (\<lambda>c. char_code c < 128) s"

definition plain_char :: "char \<Rightarrow> bool" where
  "plain_char c \<longleftrightarrow> 32 \<le> char_code c \<and> c \<noteq> CHR 0x22 \<and> c \<noteq> CHR 0x5C"

lemma char_code_of_char [simp]: "n < 256 \<Longrightarrow> char_code (char_of n) = n"
  by (simp add: char_code_def of_char_of)

lemma char_of_char_code [simp]: "char_of (char_code c) = c"
  by (simp add: char_code_def)

lemma char_code_less [simp]: "char_code c < 256"
  by (simp add: char_code_def)

lemma read_string_quote [simp]: "read_string (CHR 0x22 # s) = Some ([], s)"
  by (subst read_string.simps) simp

lemma read_string_plain: "plain_char c \<Longrightarrow> read_string (c # s) = prepend [c] (read_string s)"
  by (subst read_string.simps) (simp add: plain_char_def)

lemma read_string_escape:
  "unescape e = Some x \<Longrightarrow> e \<noteq> CHR ''u'' \<Longrightarrow>
     read_string (CHR 0x5C # e # s) = prepend [x] (read_string s)"
  by (subst read_string.simps) simp

lemma read_string_code:
  "hex_number a b c d = Some n \<Longrightarrow>
     read_string (CHR 0x5C # CHR ''u'' # a # b # c # d # s) = prepend (utf8 n) (read_string s)"
  by (subst read_string.simps) simp

lemma read_plain: "list_all plain_char t \<Longrightarrow> read_string (t @ CHR 0x22 # s) = Some (t, s)"
  by (induction t) (simp_all add: read_string_plain)

lemma hex_value_digit [simp]: "d < 16 \<Longrightarrow> hex_value (hex_digit d) = Some d"
  by (cases "d < 10") (simp_all add: hex_value_def hex_digit_def Let_def is_digit_def)

lemma hex4_small: "n < 256 \<Longrightarrow> hex4 (int n) = ''00'' @ [hex_digit (n div 16), hex_digit (n mod 16)]"
proof -
  assume n: "n < 256"
  have m: "nat (int n mod 2 ^ 32) = n" using n by simp
  have h: "show_hex n = (if n < 16 then [hex_digit n] else [hex_digit (n div 16), hex_digit (n mod 16)])"
    using n by (simp add: show_hex.simps[of n] show_hex.simps[of "n div 16"])
  have z: "hex_digit 0 = CHR ''0''" by code_simp
  have "replicate 3 CHR ''0'' = ''000''" and "replicate 2 CHR ''0'' = ''00''"
    by (simp_all add: numeral_eq_Suc)
  then show ?thesis unfolding hex4_def Let_def m h using z by simp
qed

lemma read_escape_control:
  assumes "char_code c < 32"
  shows "read_string (bslash @ ''u'' @ hex4 (int (char_code c)) @ s) = prepend [c] (read_string s)"
proof -
  let ?n = "char_code c"
  have "hex_value CHR ''0'' = Some 0" by code_simp
  then have "hex_number CHR ''0'' CHR ''0'' (hex_digit (?n div 16)) (hex_digit (?n mod 16)) = Some ?n"
    using assms by (simp add: hex_number_def)
  moreover have "utf8 ?n = [c]" using assms by (simp add: utf8_def)
  ultimately show ?thesis using assms by (simp add: hex4_small bslash_def read_string_code)
qed

lemma read_escape_char:
  assumes "char_code c < 128"
  shows "read_string (escape_char c @ s) = prepend [c] (read_string s)"
proof -
  have sc: "signed_char c = int (char_code c)" using assms by (simp add: signed_char_def)
  show ?thesis
  proof (cases "c \<in> set [CHR 0x22, CHR 0x5C, CHR 0x08, CHR 0x0C, CHR 0x0A, CHR 0x0D, CHR 0x09]")
    case True
    then have "\<exists>e. escape_char c = [CHR 0x5C, e] \<and> unescape e = Some c \<and> e \<noteq> CHR ''u''"
      unfolding set_simps insert_iff empty_iff simp_thms
      by (elim disjE) (simp_all add: escape_char_def bslash_def dquote_def unescape_def)
    then show ?thesis by (auto simp: read_string_escape)
  next
    case False
    show ?thesis
    proof (cases "char_code c < 32")
      case True
      with False sc read_escape_control[OF True, of s] show ?thesis by (simp add: escape_char_def)
    next
      case 2: False
      with False sc show ?thesis by (simp add: escape_char_def read_string_plain plain_char_def)
    qed
  qed
qed

lemma read_escaped: "ascii t \<Longrightarrow> read_string (escape_json_string t @ CHR 0x22 # s) = Some (t, s)"
  by (induction t) (simp_all add: ascii_def escape_json_string_def read_escape_char)

section \<open>Reading back a line\<close>

text \<open>\<open>t\<close> is an encoding of \<open>s\<close> that a closing quote may follow.\<close>

definition encodes :: "string \<Rightarrow> string \<Rightarrow> bool" where
  "encodes t s \<longleftrightarrow> (\<forall>r. read_string (t @ CHR 0x22 # r) = Some (s, r)) \<and> CHR 0x0A \<notin> set t"

definition member_text :: "string \<times> string \<Rightarrow> string" where
  "member_text m = quoted (fst m) @ '':'' @ quoted (snd m)"

definition encodes_member :: "string \<times> string \<Rightarrow> string \<times> string \<Rightarrow> bool" where
  "encodes_member t m \<longleftrightarrow> encodes (fst t) (fst m) \<and> encodes (snd t) (snd m)"

lemma plain_not_newline: "list_all plain_char t \<Longrightarrow> CHR 0x0A \<notin> set t"
proof -
  have "\<not> plain_char CHR 0x0A" by code_simp
  then show "list_all plain_char t \<Longrightarrow> CHR 0x0A \<notin> set t" by (auto simp: list_all_iff)
qed

lemma plain_char_code: "plain_char c \<longleftrightarrow> 32 \<le> char_code c \<and> char_code c \<noteq> 34 \<and> char_code c \<noteq> 92"
proof -
  have "char_code CHR 0x22 = 34" "char_code CHR 0x5C = 92" by code_simp+
  then show ?thesis unfolding plain_char_def by (metis char_of_char_code)
qed

lemma encodes_plain: "list_all plain_char t \<Longrightarrow> encodes t t"
  by (simp add: encodes_def read_plain plain_not_newline)

lemma hex_digit_plain: "d < 16 \<Longrightarrow> plain_char (hex_digit d)"
  by (cases "d < 10") (simp_all add: plain_char_code hex_digit_def)

lemma show_hex_plain: "list_all plain_char (show_hex n)"
  by (induction n rule: show_hex.induct) (subst show_hex.simps, simp add: hex_digit_plain)

lemma escape_char_newline: "CHR 0x0A \<notin> set (escape_char c)"
proof -
  have "CHR 0x0A \<notin> set (hex4 i)" for i
    using plain_not_newline[OF show_hex_plain] by (auto simp: hex4_def Let_def)
  then show ?thesis by (simp add: escape_char_def bslash_def dquote_def)
qed

lemma encodes_escaped: "ascii t \<Longrightarrow> encodes (escape_json_string t) t"
  by (simp add: encodes_def read_escaped) (simp add: escape_json_string_def escape_char_newline)

lemma read_members_list:
  "encodes_member t m \<Longrightarrow> list_all2 encodes_member ts ms \<Longrightarrow>
     read_members (member_text t @ concat (map (\<lambda>t. '','' @ member_text t) ts) @ CHR ''}'' # r)
     = Some (m # ms, r)"
proof (induction ts arbitrary: t m ms)
  case Nil
  then show ?case
    by (subst read_members.simps)
      (simp add: member_text_def quoted_def dquote_def encodes_member_def encodes_def)
next
  case (Cons u ts)
  from Cons.prems(2) obtain n ns where n: "ms = n # ns" "encodes_member u n" "list_all2 encodes_member ts ns"
    by (auto simp: list_all2_Cons1)
  with Cons.IH[OF n(2,3)] Cons.prems(1) show ?case
    by (subst read_members.simps)
      (simp add: member_text_def quoted_def dquote_def encodes_member_def encodes_def)
qed

lemma member_no_newline: "encodes_member t m \<Longrightarrow> CHR 0x0A \<notin> set (member_text t)"
  by (simp add: encodes_member_def encodes_def member_text_def quoted_def dquote_def)

lemma members_no_newline:
  "list_all2 encodes_member ts ms \<Longrightarrow> CHR 0x0A \<notin> set (concat (map (\<lambda>t. '','' @ member_text t) ts))"
  by (induction rule: list_all2_induct) (simp_all add: member_no_newline)

lemma plain_digit: "is_digit c \<Longrightarrow> plain_char c"
  by (simp add: is_digit_def plain_char_code)

lemma plain_show_int: "list_all plain_char (show_int i)"
proof -
  have "list_all plain_char (show_nat n)" for n
    using show_nat_digits[of _ n] plain_digit by (auto simp: list_all_iff)
  moreover have "plain_char CHR ''-''" by code_simp
  ultimately show ?thesis by (simp add: show_int_def)
qed

lemma plain_timestamp: "list_all plain_char (get_iso8601_timestamp now)"
proof -
  have c: "plain_char CHR ''0''" "plain_char CHR ''-''" "plain_char CHR '':''" "plain_char CHR ''T''"
    "plain_char CHR ''.''" "plain_char CHR ''Z''" by code_simp+
  then have "list_all plain_char (pad w n)" for w n
    using plain_show_int[of n] by (auto simp: pad_def Let_def list_all_iff)
  with c show ?thesis
    by (simp add: get_iso8601_timestamp_def put_date_def put_clock_def Let_def plain_show_int split_beta)
qed

lemma plain_level_name: "list_all plain_char (to_string l)"
  by (cases l; hypsubst; code_simp)

text \<open>What a line says.\<close>

definition json_members ::
    "time \<Rightarrow> (string \<times> string) list \<Rightarrow> string \<Rightarrow> level \<Rightarrow> string \<Rightarrow> (string, string) omap \<Rightarrow> json_sink
      \<Rightarrow> (string \<times> string) list" where
  "json_members now thread_context nm l message flds s =
     [(''timestamp'', get_iso8601_timestamp now), (''level'', to_string l), (''logger'', nm),
      (''message'', message)] @ js_context s @ thread_context @ flds"

definition ascii_entries :: "(string \<times> string) list \<Rightarrow> bool" where
  "ascii_entries es \<longleftrightarrow> list_all (\<lambda>e. ascii (fst e) \<and> ascii (snd e)) es"

definition escaped_entry :: "string \<times> string \<Rightarrow> string \<times> string" where
  "escaped_entry e = (escape_json_string (fst e), escape_json_string (snd e))"

lemma escaped_entries: "ascii_entries es \<Longrightarrow> list_all2 encodes_member (map escaped_entry es) es"
  by (induction es) (simp_all add: ascii_entries_def escaped_entry_def encodes_member_def encodes_escaped)

lemma build_json_read:
  assumes "ascii nm" and "ascii message" and "ascii_entries (js_context s)"
    and "ascii_entries thread_context" and "ascii_entries flds"
  shows "read_object (build_json now thread_context nm l message flds s)
      = Some (json_members now thread_context nm l message flds s)
    \<and> CHR 0x0A \<notin> set (build_json now thread_context nm l message flds s)"
proof -
  let ?t = "(''timestamp'', get_iso8601_timestamp now)"
  let ?ts = "[(''level'', to_string l), (''logger'', escape_json_string nm),
      (''message'', escape_json_string message)]
    @ map escaped_entry (js_context s @ thread_context @ flds)"
  let ?ms = "[(''level'', to_string l), (''logger'', nm), (''message'', message)]
    @ js_context s @ thread_context @ flds"
  have key: "encodes ''timestamp'' ''timestamp''" "encodes ''level'' ''level''"
    "encodes ''logger'' ''logger''" "encodes ''message'' ''message''"
    by (rule encodes_plain, code_simp)+
  have t: "encodes_member ?t ?t" using key encodes_plain[OF plain_timestamp] by (simp add: encodes_member_def)
  have "ascii_entries (js_context s @ thread_context @ flds)" using assms by (simp add: ascii_entries_def)
  from escaped_entries[OF this] have ts: "list_all2 encodes_member ?ts ?ms"
    using key encodes_plain[OF plain_level_name] encodes_escaped assms(1,2)
    by (simp add: encodes_member_def list_all2_append list_all2_lengthD)
  have b: "build_json now thread_context nm l message flds s
      = ''{'' @ member_text ?t @ concat (map (\<lambda>t. '','' @ member_text t) ?ts) @ ''}''"
    by (simp add: build_json_def member_text_def json_entry_def[abs_def] escaped_entry_def comp_def)
  have "CHR 0x0A \<notin> set (build_json now thread_context nm l message flds s)"
    unfolding b using member_no_newline[OF t] members_no_newline[OF ts] by (simp del: map_append concat_append set_concat)
  moreover have "read_object (build_json now thread_context nm l message flds s) = Some (?t # ?ms)"
    using read_members_list[OF t ts, of "[]"] b by (simp add: read_object_def)
  ultimately show ?thesis by (simp add: json_members_def)
qed

section \<open>Reading back a file\<close>

type_synonym json_record = "time \<times> (string \<times> string) list \<times> level \<times> string \<times> (string, string) omap"

fun structured_logs :: "json_record list \<Rightarrow> structured_logger \<Rightarrow> file_system \<Rightarrow> file_system" where
  "structured_logs [] g fs = fs"
| "structured_logs ((now, ctx, l, message, flds) # rs) g fs =
     structured_logs rs g (structured_log now ctx l message flds g fs)"

fun ascii_record :: "json_record \<Rightarrow> bool" where
  "ascii_record (now, ctx, l, message, flds) =
     (ascii message \<and> ascii_entries ctx \<and> ascii_entries flds)"

fun record_members :: "structured_logger \<Rightarrow> json_record \<Rightarrow> (string \<times> string) list" where
  "record_members g (now, ctx, l, message, flds) =
     json_members now ctx (sl_name g) l message flds (sl_sink g)"

fun record_line :: "structured_logger \<Rightarrow> json_record \<Rightarrow> string" where
  "record_line g (now, ctx, l, message, flds) =
     build_json now ctx (sl_name g) l message flds (sl_sink g) @ newline"

lemma text_file_lines_line:
  "CHR 0x0A \<notin> set t \<Longrightarrow> text_file_lines cur (t @ newline @ s) = (cur @ t) # text_file_lines [] s"
  by (induction t arbitrary: cur) (auto simp: newline_def)

lemma structured_logs_file:
  "js_file (sl_sink g) = Some p \<Longrightarrow> fs_files fs p = Some c \<Longrightarrow>
     fs_files (structured_logs rs g fs) p = Some (c @ concat (map (record_line g) rs))"
proof (induction rs arbitrary: fs c)
  case (Cons r rs)
  obtain now ctx l message flds where r: "r = (now, ctx, l, message, flds)" by (cases r)
  have "fs_files (structured_log now ctx l message flds g fs) p = Some (c @ record_line g r)"
    using Cons.prems by (simp add: structured_log_def log_with_fields_def r)
  with Cons.IH[of "structured_log now ctx l message flds g fs"] Cons.prems(1) show ?case by (simp add: r)
qed simp

lemma read_record_lines:
  assumes "ascii (sl_name g)" and "ascii_entries (js_context (sl_sink g))" and "list_all ascii_record rs"
  shows "read_json_file (concat (map (record_line g) rs)) = map (\<lambda>r. Some (record_members g r)) rs"
  using assms(3)
proof (induction rs)
  case (Cons r rs)
  obtain now ctx l message flds where r: "r = (now, ctx, l, message, flds)" by (cases r)
  have "read_object (build_json now ctx (sl_name g) l message flds (sl_sink g)) = Some (record_members g r)
      \<and> CHR 0x0A \<notin> set (build_json now ctx (sl_name g) l message flds (sl_sink g))"
    using build_json_read[OF assms(1) _ assms(2)] Cons.prems by (simp add: r)
  with Cons show ?case by (simp add: read_json_file_def r text_file_lines_line)
qed (simp add: read_json_file_def)

text \<open>
  C10. A structured logger on a new file: whatever is logged in ASCII (quotes, backslashes and
  control characters included), in messages, names, contexts and fields, the file holds one line
  per entry in the order they were logged, each line is one JSON object, and reading it gives back
  the timestamp, level, logger and message, then the entries of the sink's context, of the
  thread's context and the fields, unchanged.
\<close>

theorem structured_file_roundtrip:
  assumes "js_file (sl_sink g) = Some p" and "fs_files fs p = Some []"
    and "ascii (sl_name g)" and "ascii_entries (js_context (sl_sink g))" and "list_all ascii_record rs"
  shows "map_option read_json_file (fs_files (structured_logs rs g fs) p)
    = Some (map (\<lambda>r. Some (record_members g r)) rs)"
  using structured_logs_file[OF assms(1,2)] read_record_lines[OF assms(3-5)] by simp

definition sample_structured :: structured_logger where
  "sample_structured = \<lparr>sl_name = ''api'', sl_sink = \<lparr>js_context = [], js_file = Some ''l''\<rparr>\<rparr>"

definition sample_json_record :: json_record where
  "sample_json_record = (0, [], Info, dquote @ bslash @ newline, [(''k'', ''v'')])"

lemma structured_file_roundtrip_witness:
  "map_option (map (map_option (map snd)))
     (map_option read_json_file (fs_files (structured_logs [sample_json_record] sample_structured
        \<lparr>fs_files = [''l'' \<mapsto> []], fs_dirs = {}\<rparr>) ''l''))
   = Some [Some [get_iso8601_timestamp 0, ''INFO'', ''api'', dquote @ bslash @ newline, ''v'']]"
proof -
  have a: "ascii (sl_name sample_structured)" "ascii_entries (js_context (sl_sink sample_structured))"
    "list_all ascii_record [sample_json_record]"
    by code_simp+
  have f: "js_file (sl_sink sample_structured) = Some ''l''"
    "fs_files \<lparr>fs_files = [''l'' \<mapsto> []], fs_dirs = {}\<rparr> ''l'' = Some []"
    by (simp_all add: sample_structured_def)
  show ?thesis unfolding structured_file_roundtrip[OF f a]
    by (simp add: sample_json_record_def json_members_def sample_structured_def)
qed

text \<open>
  A byte above 127, as every letter outside ASCII has them in UTF-8, is sign-extended before it
  is printed in hexadecimal: a reader finds the code point \<open>U+FFFF\<close>, two letters \<open>f\<close> and the digits
  of the byte in its place.
\<close>

theorem non_ascii_garbled:
  assumes "128 \<le> char_code c"
  shows "read_string (escape_json_string [c] @ dquote)
    = Some (utf8 65535 @ ''ff'' @ [hex_digit (char_code c div 16), hex_digit (char_code c mod 16)], [])"
proof -
  let ?n = "char_code c"
  have n: "?n < 16 * 16" by simp
  have "(int ?n - 256) mod 2 ^ 32 = int ?n + 4294967040"
    using n by (subst mod_add_self2[symmetric]) simp
  then have v: "nat (signed_char c mod 2 ^ 32) = ?n + 4294967040"
    using assms by (simp add: signed_char_def nat_add_distrib)
  have f: "show_hex 16777215 = ''ffffff''"
    by (simp add: show_hex.simps hex_digit_def char_of_def bit_simps)
  have "show_hex (?n + 4294967040) = ''ffffff'' @ [hex_digit (?n div 16), hex_digit (?n mod 16)]"
  proof -
    have "(?n + 4294967040) div 16 = ?n div 16 + 268435440" "(?n + 4294967040) mod 16 = ?n mod 16"
      using div_mult_self1[of 16 ?n 268435440] mod_mult_self1[of ?n 268435440 16] by simp_all
    moreover have "(?n div 16 + 268435440) div 16 = 16777215" "(?n div 16 + 268435440) mod 16 = ?n div 16"
      using div_mult_self1[of 16 "?n div 16" 16777215] mod_mult_self1[of "?n div 16" 16777215 16] n
      by simp_all
    ultimately show ?thesis
      by (simp add: show_hex.simps[of "?n + 4294967040"] show_hex.simps[of "?n div 16 + 268435440"] f)
  qed
  then have h: "hex4 (signed_char c) = ''ffff'' @ ''ff'' @ [hex_digit (?n div 16), hex_digit (?n mod 16)]"
    unfolding hex4_def Let_def v by simp
  have neg: "signed_char c < 32" using assms n by (auto simp only: signed_char_def split: if_split)
  have "char_code x < 128" if "x \<in> set [CHR 0x22, CHR 0x5C, CHR 0x08, CHR 0x0C, CHR 0x0A, CHR 0x0D, CHR 0x09]" for x
    using that by (auto simp: char_code_def)
  then have "c \<notin> set [CHR 0x22, CHR 0x5C, CHR 0x08, CHR 0x0C, CHR 0x0A, CHR 0x0D, CHR 0x09]"
    using assms by fastforce
  then have ne: "c \<noteq> CHR 0x22" "c \<noteq> CHR 0x5C" "c \<noteq> CHR 0x08" "c \<noteq> CHR 0x0C" "c \<noteq> CHR 0x0A"
    "c \<noteq> CHR 0x0D" "c \<noteq> CHR 0x09"
    by simp_all
  have e: "escape_json_string [c] = bslash @ ''u'' @ hex4 (signed_char c)"
    by (simp only: escape_json_string_def escape_char_def list.map concat.simps ne neg if_False
        if_True append_Nil2)
  have "hex_value CHR ''f'' = Some 15" by code_simp
  then have "hex_number CHR ''f'' CHR ''f'' CHR ''f'' CHR ''f'' = Some 65535" by (simp add: hex_number_def)
  from read_string_code[OF this] have "read_string (escape_json_string [c] @ dquote)
      = prepend (utf8 65535) (read_string (''ff'' @ [hex_digit (?n div 16), hex_digit (?n mod 16)] @ dquote))"
    unfolding e h by (simp add: bslash_def)
  also have "\<dots> = Some (utf8 65535 @ ''ff'' @ [hex_digit (?n div 16), hex_digit (?n mod 16)], [])"
  proof -
    have "?n div 16 < 16" using n by (simp only: less_mult_imp_div_less)
    moreover have "plain_char CHR ''f''" by code_simp
    ultimately have "list_all plain_char (''ff'' @ [hex_digit (?n div 16), hex_digit (?n mod 16)])"
      by (simp add: hex_digit_plain)
    from read_plain[OF this, of "[]"] show ?thesis by (simp add: dquote_def)
  qed
  finally show ?thesis .
qed

lemma non_ascii_garbled_witness:
  "read_string (escape_json_string [CHR 0xE9] @ dquote) = Some (utf8 65535 @ ''ff'' @ ''e9'', [])"
proof -
  have "char_code CHR 0xE9 = 233" by code_simp
  moreover have "[hex_digit 14, hex_digit 9] = ''e9''" by code_simp
  ultimately show ?thesis using non_ascii_garbled[of "CHR 0xE9"] by simp
qed

end
