(* ===== verification/All_Sinks.thy ===== *)
theory All_Sinks
  imports Logger_Ops File_Sinks Compressed_Sink Signal_Safe_Sink Loki_Sink Cloud_Sinks Json_Sink
begin

text \<open>
  The remaining sinks (\<open>stdout_sink.cpp\<close>, \<open>syslog_sink.cpp\<close>, \<open>udp_sink.cpp\<close>, \<open>multi_sink.hpp\<close>,
  \<open>null_sink.hpp\<close>), the virtual calls \<open>log\<close> and \<open>is_cloud_sink\<close> of \<open>log_sink.hpp\<close> over every sink
  class of the library, the entry points of \<open>Zyrnix.cpp\<close> and \<open>AsyncLogger\<close>.  The sinks are the
  objects of a heap, because loggers and multi sinks share them.  A multi sink may reach itself, and
  then the call does not return: the calls are a partial function.  The last section composes the
  logger with the sinks.
\<close>

section \<open>Console\<close>

definition stdout_text :: "tz_offset \<Rightarrow> time \<Rightarrow> string \<Rightarrow> level \<Rightarrow> string \<Rightarrow> string" where
  "stdout_text tz now nm l msg =
     (let out = format tz now nm l msg;
          coloured = (if l = Error \<or> l = Critical then apply_color out Red
                      else if l = Warn then apply_color out Yellow
                      else out)
      in coloured @ newline)"

section \<open>Syslog\<close>

text \<open>
  The connection of \<open>openlog\<close> belongs to the process, not to the sink: the last sink constructed
  sets it for all, and any destructor closes it.  \<^const>\<open>None\<close> as the identity is the null pointer.
\<close>

record syslog_connection =
  sc_ident :: "string option"
  sc_option :: int
  sc_facility :: int

record syslog_sink =
  sy_ident :: string
  sy_option :: int
  sy_facility :: int

record syslog_daemon =
  sd_connection :: "syslog_connection option"
  sd_entries :: "(syslog_connection option \<times> int \<times> string) list"

definition syslog_new :: "string \<Rightarrow> int \<Rightarrow> int \<Rightarrow> syslog_daemon \<Rightarrow> syslog_sink \<times> syslog_daemon" where
  "syslog_new ident opt facility d =
     (\<lparr>sy_ident = ident, sy_option = opt, sy_facility = facility\<rparr>,
      d\<lparr>sd_connection := Some \<lparr>sc_ident = (if ident = [] then None else Some ident),
                               sc_option = opt, sc_facility = facility\<rparr>\<rparr>)"

definition syslog_destroy :: "syslog_daemon \<Rightarrow> syslog_daemon" where
  "syslog_destroy d = d\<lparr>sd_connection := None\<rparr>"

text \<open>The text both the syslog and the UDP sink send; \<open>c_str\<close> ends at the first null character.\<close>

definition named_message :: "string \<Rightarrow> string \<Rightarrow> string" where
  "named_message nm msg = (if nm = [] then msg else nm @ '': '' @ msg)"

definition c_str :: "string \<Rightarrow> string" where
  "c_str s = takeWhile (\<lambda>c. c \<noteq> CHR 0x00) s"

definition syslog_log :: "string \<Rightarrow> level \<Rightarrow> string \<Rightarrow> syslog_daemon \<Rightarrow> syslog_daemon" where
  "syslog_log nm l msg d =
     d\<lparr>sd_entries := sd_entries d @ [(sd_connection d, map_level l, c_str (named_message nm msg))]\<rparr>"

section \<open>UDP\<close>

text \<open>
  \<open>'a\<close> are socket addresses.  The constructor gets the list \<open>getaddrinfo\<close> returns, or
  \<^const>\<open>None\<close> when it fails, and \<open>open_socket\<close> is the result of \<open>socket\<close> for an address.
\<close>

record 'a udp_sink =
  ud_sockfd :: int
  ud_dest :: "'a option"
  ud_initialized :: bool

fun udp_connect :: "('a \<Rightarrow> int) \<Rightarrow> 'a list \<Rightarrow> 'a udp_sink \<Rightarrow> 'a udp_sink" where
  "udp_connect open_socket [] s = s"
| "udp_connect open_socket (a # as) s =
     (let s1 = s\<lparr>ud_sockfd := open_socket a\<rparr> in
      if ud_sockfd s1 = -1 then udp_connect open_socket as s1
      else s1\<lparr>ud_dest := Some a, ud_initialized := True\<rparr>)"

definition udp_new :: "('a \<Rightarrow> int) \<Rightarrow> 'a list option \<Rightarrow> 'a udp_sink" where
  "udp_new open_socket res =
     (let s = \<lparr>ud_sockfd = -1, ud_dest = None, ud_initialized = False\<rparr> in
      case res of None \<Rightarrow> s | Some as \<Rightarrow> udp_connect open_socket as s)"

text \<open>The descriptor the destructor closes.\<close>

definition udp_destroy :: "'a udp_sink \<Rightarrow> int option" where
  "udp_destroy s = (if ud_sockfd s \<noteq> -1 then Some (ud_sockfd s) else None)"

definition udp_log ::
    "string \<Rightarrow> level \<Rightarrow> string \<Rightarrow> 'a udp_sink \<Rightarrow> (int \<times> 'a option \<times> string) list
      \<Rightarrow> (int \<times> 'a option \<times> string) list" where
  "udp_log nm l msg s sent =
     (if \<not> ud_initialized s then sent
      else sent @ [(ud_sockfd s, ud_dest s, named_message nm msg @ newline)])"

text \<open>The sink sends to the first address for which a socket opens.\<close>

lemma udp_connect_first:
  "udp_connect open_socket as s =
     (case find (\<lambda>a. open_socket a \<noteq> -1) as of
        None \<Rightarrow> (if as = [] then s else s\<lparr>ud_sockfd := -1\<rparr>)
      | Some a \<Rightarrow> s\<lparr>ud_sockfd := open_socket a, ud_dest := Some a, ud_initialized := True\<rparr>)"
  by (induction as arbitrary: s) (auto simp: Let_def split: option.splits)

section \<open>Every sink of the library\<close>

datatype ('a, 'c) sink_object =
  Null_sink
| Stdout_sink
| Syslog_sink syslog_sink
| Udp_sink "'a udp_sink"
| File_sink file_sink
| Daily_sink daily_sink
| Rotating_sink rotating_sink
| Compressed_sink compressed_sink
| Signal_safe_sink signal_sink
| Json_sink json_sink
| Loki_sink loki_sink
| CloudWatch_sink cloudwatch_config "(log_event, 'c) cloud_sink"
| Azure_sink azure_config "(telemetry_event, 'c) cloud_sink"
| Multi_sink "sink_ptr option list"

text \<open>
  What the sinks act on.  \<open>w_calls\<close> numbers the calls, for the clocks of the environment;
  \<open>w_stuck\<close> is set by a call that does not return, after which nothing runs.
\<close>

record ('a, 'n, 'c) sink_world =
  w_objects :: "sink_ptr \<Rightarrow> ('a, 'c) sink_object"
  w_stdout :: string
  w_files :: file_system
  w_syslog :: syslog_daemon
  w_datagrams :: "(int \<times> 'a option \<times> string) list"
  w_loki :: "'n loki_world"
  w_calls :: nat
  w_stuck :: bool

record 'n environment =
  en_can_open :: "string \<Rightarrow> bool"
  en_tz :: tz_offset
  en_clock :: "nat \<Rightarrow> clock"
  en_pack :: compressor
  en_duration :: "nat \<Rightarrow> u64"
  en_curl :: "'n curl_lib"
  en_context :: "(string \<times> string) list"

definition set_object ::
    "sink_ptr \<Rightarrow> ('a, 'c) sink_object \<Rightarrow> ('a, 'n, 'c) sink_world \<Rightarrow> ('a, 'n, 'c) sink_world" where
  "set_object p x w = w\<lparr>w_objects := (w_objects w)(p := x)\<rparr>"

definition store_file ::
    "sink_ptr \<Rightarrow> ('s \<Rightarrow> ('a, 'c) sink_object) \<Rightarrow> 's \<times> file_system \<Rightarrow> ('a, 'n, 'c) sink_world
      \<Rightarrow> ('a, 'n, 'c) sink_world" where
  "store_file p f st w = set_object p (f (fst st)) (w\<lparr>w_files := snd st\<rparr>)"

text \<open>\<open>is_cloud_sink\<close>: overridden by the three sinks that send to a cloud service.\<close>

fun object_is_cloud :: "('a, 'c) sink_object \<Rightarrow> bool" where
  "object_is_cloud (Loki_sink s) \<longleftrightarrow> True"
| "object_is_cloud (CloudWatch_sink cfg s) \<longleftrightarrow> True"
| "object_is_cloud (Azure_sink cfg s) \<longleftrightarrow> True"
| "object_is_cloud _ \<longleftrightarrow> False"

text \<open>\<open>log\<close> of every class but the multi sink.\<close>

definition leaf_effect ::
    "'n environment \<Rightarrow> sink_ptr \<Rightarrow> string \<Rightarrow> level \<Rightarrow> string \<Rightarrow> ('a, 'n, 'c) sink_world
      \<Rightarrow> ('a, 'n, 'c) sink_world" where
  "leaf_effect en p nm l msg w =
     (let k = w_calls w; clk = en_clock en k; tz = en_tz en; can_open = en_can_open en in
      case w_objects w p of
        Null_sink \<Rightarrow> w
      | Stdout_sink \<Rightarrow> w\<lparr>w_stdout := w_stdout w @ stdout_text tz (clk 0) nm l msg\<rparr>
      | Syslog_sink s \<Rightarrow> w\<lparr>w_syslog := syslog_log nm l msg (w_syslog w)\<rparr>
      | Udp_sink s \<Rightarrow> w\<lparr>w_datagrams := udp_log nm l msg s (w_datagrams w)\<rparr>
      | File_sink s \<Rightarrow> w\<lparr>w_files := file_sink_log tz (clk 0) nm l msg s (w_files w)\<rparr>
      | Daily_sink s \<Rightarrow>
          store_file p Daily_sink (daily_log can_open tz clk nm l msg (s, w_files w)) w
      | Rotating_sink s \<Rightarrow>
          store_file p Rotating_sink (rotating_log can_open tz (clk 0) nm l msg (s, w_files w)) w
      | Compressed_sink s \<Rightarrow>
          store_file p Compressed_sink
            (compressed_log can_open (en_pack en) (en_duration en k) tz (clk 0) nm l msg
              (s, w_files w)) w
      | Signal_safe_sink s \<Rightarrow> set_object p (Signal_safe_sink (signal_log nm l msg s)) w
      | Json_sink s \<Rightarrow>
          w\<lparr>w_files := json_sink_log (clk 0) (en_context en) nm l msg s (w_files w)\<rparr>
      | Loki_sink s \<Rightarrow>
          (let (s', lw) = loki_log (en_curl en) clk nm l msg (s, w_loki w)
           in set_object p (Loki_sink s') (w\<lparr>w_loki := lw\<rparr>))
      | CloudWatch_sink cfg s \<Rightarrow>
          set_object p (CloudWatch_sink cfg (cloudwatch_log cfg tz clk nm l msg s)) w
      | Azure_sink cfg s \<Rightarrow> set_object p (Azure_sink cfg (azure_log cfg tz clk nm l msg s)) w
      | Multi_sink ps \<Rightarrow> w)"

definition leaf_log ::
    "'n environment \<Rightarrow> string \<Rightarrow> level \<Rightarrow> sink_ptr \<Rightarrow> string \<Rightarrow> ('a, 'n, 'c) sink_world
      \<Rightarrow> ('a, 'n, 'c) sink_world" where
  "leaf_log en nm l p msg w = (leaf_effect en p nm l msg w)\<lparr>w_calls := Suc (w_calls w)\<rparr>"

text \<open>
  The loop of \<open>MultiSink::log\<close> over its sinks, each call of which may be such a loop again.  A call
  through a null pointer is undefined behaviour in C++ and has no result here.
\<close>

partial_function (option) sink_calls ::
    "'n environment \<Rightarrow> string \<Rightarrow> level \<Rightarrow> string \<Rightarrow> sink_ptr option list
      \<Rightarrow> ('a, 'n, 'c) sink_world \<Rightarrow> ('a, 'n, 'c) sink_world option" where
  "sink_calls en nm l msg ps w =
     (case ps of
        [] \<Rightarrow> Some w
      | None # _ \<Rightarrow> None
      | Some p # qs \<Rightarrow>
          Option.bind
            (case w_objects w p of
               Multi_sink children \<Rightarrow> sink_calls en nm l msg children w
             | _ \<Rightarrow> Some (leaf_log en nm l p msg w))
            (sink_calls en nm l msg qs))"

definition multi_new :: "('a, 'c) sink_object" where
  "multi_new = Multi_sink []"

definition multi_add_sink :: "sink_ptr option \<Rightarrow> ('a, 'c) sink_object \<Rightarrow> ('a, 'c) sink_object" where
  "multi_add_sink q x = (case x of Multi_sink ps \<Rightarrow> Multi_sink (ps @ [q]) | _ \<Rightarrow> x)"

text \<open>The virtual calls as the logger makes them.\<close>

definition all_sinks :: "'n environment \<Rightarrow> ('a, 'n, 'c) sink_world sink_ops" where
  "all_sinks en =
     \<lparr>so_log = (\<lambda>p nm l msg w.
        if w_stuck w then w
        else (case sink_calls en nm l msg [Some p] w of
                None \<Rightarrow> w\<lparr>w_stuck := True\<rparr>
              | Some w' \<Rightarrow> w')),
      so_cloud = (\<lambda>p w. object_is_cloud (w_objects w p))\<rparr>"

section \<open>What the calls keep\<close>

fun object_children :: "('a, 'c) sink_object \<Rightarrow> sink_ptr option list option" where
  "object_children (Multi_sink ps) = Some ps"
| "object_children _ = None"

definition children_of :: "('a, 'n, 'c) sink_world \<Rightarrow> sink_ptr \<Rightarrow> sink_ptr option list option" where
  "children_of w p = object_children (w_objects w p)"

definition same_classes :: "('a, 'n, 'c) sink_world \<Rightarrow> ('a, 'n, 'c) sink_world \<Rightarrow> bool" where
  "same_classes w w' \<longleftrightarrow>
     w_stuck w' = w_stuck w \<and> children_of w' = children_of w
     \<and> (\<forall>p. object_is_cloud (w_objects w' p) = object_is_cloud (w_objects w p))"

lemma same_classes_refl [simp]: "same_classes w w"
  by (simp add: same_classes_def)

lemma same_classes_trans: "same_classes u v \<Longrightarrow> same_classes v w \<Longrightarrow> same_classes u w"
  by (simp add: same_classes_def)

lemma set_object_simps [simp]:
  "w_objects (set_object p x w) = (w_objects w)(p := x)"
  "w_stuck (set_object p x w) = w_stuck w"
  "w_calls (set_object p x w) = w_calls w"
  by (simp_all add: set_object_def)

lemma leaf_same_classes: "same_classes w (leaf_log en nm l p msg w)"
  by (cases "w_objects w p")
    (auto simp: same_classes_def children_of_def leaf_log_def leaf_effect_def store_file_def Let_def
      fun_eq_iff split: prod.splits)

lemmas sink_calls_induct = sink_calls.raw_induct [rotated, consumes 1, case_names step]

lemma sink_calls_same_classes:
  "sink_calls en nm l msg ps w = Some w' \<Longrightarrow> same_classes w w'"
proof (induction en nm l msg ps w w' rule: sink_calls_induct)
  case (step rec en nm l msg ps w w')
  show ?case
  proof (cases ps)
    case (Cons q qs)
    with step.hyps obtain p w1 where
      first: "(case w_objects w p of Multi_sink children \<Rightarrow> rec en nm l msg children w
        | _ \<Rightarrow> Some (leaf_log en nm l p msg w)) = Some w1"
      and rest: "rec en nm l msg qs w1 = Some w'"
      by (cases q) (auto split: Option.bind_splits)
    have "same_classes w w1"
      using first step.IH by (cases "w_objects w p") (auto simp: leaf_same_classes)
    moreover have "same_classes w1 w'" using rest by (rule step.IH)
    ultimately show ?thesis by (rule same_classes_trans)
  qed (use step.hyps in simp)
qed

text \<open>The contract of \<open>log_sinks\<close>, for all the sinks at once.\<close>

interpretation sinks: log_sinks "all_sinks en" for en :: "'n environment"
proof
  fix q p nm l m and w :: "('a, 'n, 'c) sink_world"
  show "so_cloud (all_sinks en) q (so_log (all_sinks en) p nm l m w) = so_cloud (all_sinks en) q w"
    using sink_calls_same_classes[of en nm l m "[Some p]" w]
    by (auto simp: all_sinks_def same_classes_def split: option.split)
qed

section \<open>Which sinks a multi sink reaches\<close>

text \<open>The sinks below a pointer that are not multi sinks, in the order of the calls.\<close>

fun sink_leaves ::
    "nat \<Rightarrow> (sink_ptr \<Rightarrow> sink_ptr option list option) \<Rightarrow> sink_ptr \<Rightarrow> sink_ptr list" where
  "sink_leaves 0 kids p = []"
| "sink_leaves (Suc n) kids p =
     (case kids p of
        None \<Rightarrow> [p]
      | Some ps \<Rightarrow> concat (map (\<lambda>q. case q of None \<Rightarrow> [] | Some r \<Rightarrow> sink_leaves n kids r) ps))"

text \<open>The multi sinks hold no null pointer and form no cycle: each reaches only sinks of lower rank.\<close>

definition layered :: "(sink_ptr \<Rightarrow> nat) \<Rightarrow> (sink_ptr \<Rightarrow> sink_ptr option list option) \<Rightarrow> bool" where
  "layered rank kids \<longleftrightarrow>
     (\<forall>p ps. kids p = Some ps \<longrightarrow> (\<forall>q \<in> set ps. \<exists>r. q = Some r \<and> rank r < rank p))"

definition leaf_logs ::
    "'n environment \<Rightarrow> string \<Rightarrow> level \<Rightarrow> (sink_ptr \<times> string) list \<Rightarrow> ('a, 'n, 'c) sink_world
      \<Rightarrow> ('a, 'n, 'c) sink_world" where
  "leaf_logs en nm l ds w = foldl (\<lambda>w d. leaf_log en nm l (fst d) (snd d) w) w ds"

lemma leaf_logs_simps [simp]:
  "leaf_logs en nm l [] w = w"
  "leaf_logs en nm l (d # ds) w = leaf_logs en nm l ds (leaf_log en nm l (fst d) (snd d) w)"
  "leaf_logs en nm l (ds @ es) w = leaf_logs en nm l es (leaf_logs en nm l ds w)"
  by (simp_all add: leaf_logs_def)

lemma leaf_logs_same_classes: "same_classes w (leaf_logs en nm l ds w)"
  by (induction ds arbitrary: w) (auto intro: same_classes_trans leaf_same_classes)

lemma leaf_logs_keeps [simp]:
  "children_of (leaf_logs en nm l ds w) = children_of w"
  "w_stuck (leaf_logs en nm l ds w) = w_stuck w"
  using leaf_logs_same_classes[of w en nm l ds] by (simp_all add: same_classes_def)

lemma leaf_log_keeps [simp]:
  "children_of (leaf_log en nm l p msg w) = children_of w"
  "w_stuck (leaf_log en nm l p msg w) = w_stuck w"
  using leaf_same_classes[of w en nm l p msg] by (simp_all add: same_classes_def)

definition fan_out ::
    "nat \<Rightarrow> (sink_ptr \<Rightarrow> sink_ptr option list option) \<Rightarrow> (sink_ptr \<times> string) list
      \<Rightarrow> (sink_ptr \<times> string) list" where
  "fan_out n kids ds = concat (map (\<lambda>(p, m). map (\<lambda>q. (q, m)) (sink_leaves n kids p)) ds)"

lemma fan_out_simps [simp]:
  "fan_out n kids [] = []"
  "fan_out n kids ((p, m) # ds) = map (\<lambda>q. (q, m)) (sink_leaves n kids p) @ fan_out n kids ds"
  by (simp_all add: fan_out_def)

lemma fan_out_children:
  "map (\<lambda>q. (q, m)) (concat (map (\<lambda>q. case q of None \<Rightarrow> [] | Some r \<Rightarrow> sink_leaves n kids r)
     (map Some rs))) = fan_out n kids (map (\<lambda>r. (r, m)) rs)"
  by (induction rs) simp_all

lemma layered_children:
  assumes "layered rank kids" and "kids p = Some qs"
  obtains rs where "qs = map Some rs" and "\<forall>r \<in> set rs. rank r < rank p"
proof -
  have all: "\<forall>q \<in> set qs. \<exists>r. q = Some r \<and> rank r < rank p"
    using assms by (auto simp: layered_def)
  then have "qs = map Some (map the qs)" by (force intro: map_idI[symmetric])
  moreover from all have "\<forall>r \<in> set (map the qs). rank r < rank p" by auto
  ultimately show thesis by (rule that)
qed

lemma sink_calls_leaves:
  assumes "layered rank (children_of w)" and "\<forall>p \<in> set ps. rank p < n"
  shows "sink_calls en nm l msg (map Some ps) w
    = Some (leaf_logs en nm l (fan_out n (children_of w) (map (\<lambda>p. (p, msg)) ps)) w)"
  using assms
proof (induction n arbitrary: ps w)
  case 0
  then show ?case by (simp add: sink_calls.simps)
next
  case (Suc n)
  show ?case using Suc.prems
  proof (induction ps arbitrary: w)
    case Nil
    then show ?case by (simp add: sink_calls.simps)
  next
    case (Cons p ps)
    let ?leaves = "map (\<lambda>q. (q, msg)) (sink_leaves (Suc n) (children_of w) p)"
    have first: "(case w_objects w p of
          Multi_sink children \<Rightarrow> sink_calls en nm l msg children w
        | _ \<Rightarrow> Some (leaf_log en nm l p msg w)) = Some (leaf_logs en nm l ?leaves w)"
    proof (cases "children_of w p")
      case None
      then show ?thesis by (cases "w_objects w p") (simp_all add: children_of_def)
    next
      case (Some qs)
      then obtain rs where rs: "qs = map Some rs" "\<forall>r \<in> set rs. rank r < rank p"
        using layered_children[OF Cons.prems(1)] by blast
      with Cons.prems(2) have "\<forall>r \<in> set rs. rank r < n" by fastforce
      note call = Suc.IH[OF Cons.prems(1) this]
      from Some have "w_objects w p = Multi_sink qs"
        by (cases "w_objects w p") (simp_all add: children_of_def)
      with Some rs(1) call fan_out_children[of msg n "children_of w" rs] show ?thesis by simp
    qed
    have "sink_calls en nm l msg (map Some ps) (leaf_logs en nm l ?leaves w)
        = Some (leaf_logs en nm l (fan_out (Suc n) (children_of w) (map (\<lambda>p. (p, msg)) ps))
            (leaf_logs en nm l ?leaves w))"
      using Cons.IH[of "leaf_logs en nm l ?leaves w"] Cons.prems by simp
    then show ?case by (subst sink_calls.simps) (simp add: first)
  qed
qed

text \<open>A multi sink whose first sink is itself never returns.\<close>

lemma sink_calls_cycle:
  assumes "w_objects w p = Multi_sink (Some p # rest)"
  shows "sink_calls en nm l msg (Some p # qs) w = None"
proof -
  have "ps = Some p # qs \<Longrightarrow> w_objects w p = Multi_sink (Some p # rest) \<Longrightarrow> False"
    if "sink_calls en nm l msg ps w = Some w'" for ps w w' qs
    using that
  proof (induction en nm l msg ps w w' arbitrary: qs rule: sink_calls_induct)
    case (step rec en nm l msg ps w w')
    from step.prems step.hyps obtain x where "rec en nm l msg (Some p # rest) w = Some x"
      by (auto split: Option.bind_splits)
    from step.IH[OF this refl step.prems(2)] show ?case .
  qed
  with assms show ?thesis by (cases "sink_calls en nm l msg (Some p # qs) w") blast+
qed

lemma so_cloud_all: "so_cloud (all_sinks en) p w = object_is_cloud (w_objects w p)"
  by (simp add: all_sinks_def)

text \<open>
  C27. A message logged to a multi sink returns when no multi sink holds a null pointer or reaches
  itself, and it reaches every sink below it that is not a multi sink, once for each way that leads
  to it, depth first and in the order in which the sinks were added: the call does to the world
  exactly what logging the message to those sinks one after the other does.
\<close>

theorem multi_sink_fans_out:
  assumes "layered rank (children_of w)" and "rank p < n"
  shows "sink_calls en nm l msg [Some p] w
    = Some (leaf_logs en nm l (map (\<lambda>q. (q, msg)) (sink_leaves n (children_of w) p)) w)"
  using sink_calls_leaves[of rank w "[p]" n] assms by simp

section \<open>The logger over its sinks\<close>

text \<open>The sinks a message of a level is addressed to: not removed, above the override, not null.\<close>

definition addressed :: "level \<Rightarrow> 'w logger \<Rightarrow> sink_ptr list" where
  "addressed l lg =
     List.map_filter (\<lambda>(i, e).
         if se_marked e \<or> (case lg_overrides lg i of Some lv \<Rightarrow> l < lv | None \<Rightarrow> False) then None
         else se_sink e)
       (enumerate 0 (lg_sink_entries lg))"

lemma deliveries_addressed:
  assumes "hr \<longleftrightarrow> redacted \<noteq> message"
  shows "deliveries so l message redacted hr co (lg_overrides lg) 0 (lg_sink_entries lg) w
    = map (\<lambda>p. (p, if co \<and> \<not> so_cloud so p w then message else redacted)) (addressed l lg)"
proof -
  let ?f = "\<lambda>p. (p, if co \<and> \<not> so_cloud so p w then message else redacted)"
  have "delivery so l message redacted hr co (lg_overrides lg) w ie
      = map_option ?f ((\<lambda>(i, e).
         if se_marked e \<or> (case lg_overrides lg i of Some lv \<Rightarrow> l < lv | None \<Rightarrow> False) then None
         else se_sink e) ie)" for ie
    using assms by (cases ie) (auto simp: delivery_def option.map_comp
      intro!: option.map_cong)
  then show ?thesis
    by (induction "enumerate 0 (lg_sink_entries lg)")
      (simp_all add: deliveries_def addressed_def map_filter_def comp_def option.map_sel)
qed

lemma deliver_all_sinks:
  assumes "layered rank (children_of w)" and "\<forall>p. rank p < n" and "\<not> w_stuck w"
  shows "deliver_all (all_sinks en) nm l ds w = leaf_logs en nm l (fan_out n (children_of w) ds) w"
  using assms
proof (induction ds arbitrary: w)
  case (Cons d ds)
  obtain p m where d: "d = (p, m)" by (cases d)
  from Cons.prems have "so_log (all_sinks en) p nm l m w
      = leaf_logs en nm l (map (\<lambda>q. (q, m)) (sink_leaves n (children_of w) p)) w"
    using sink_calls_leaves[of rank w "[p]" n] by (simp add: all_sinks_def)
  with Cons.IH[of "leaf_logs en nm l (map (\<lambda>q. (q, m)) (sink_leaves n (children_of w) p)) w"]
    Cons.prems d show ?case by simp
qed simp

text \<open>What an accepted message does, for the properties below.\<close>

lemma log_to_leaves:
  assumes "check_temporary_level_expiry clk (lg0, w0) = (lg, w)"
    and "should_log rx ctx (probe_record (lg_name lg) l) lg h = Some (True, h')"
    and "\<forall>pat \<in> set (lg_redact_patterns lg). pat \<noteq> []"
    and "layered rank (children_of w)" and "\<forall>p. rank p < n" and "\<not> w_stuck w"
  shows "Logger.log rx (all_sinks en) clk ctx l message (lg0, h, w0)
      = Some (lg, h', leaf_logs en (lg_name lg) l
          (fan_out n (children_of w)
            (map (\<lambda>p. (p, if lg_redact_cloud_only lg \<and> \<not> object_is_cloud (w_objects w p)
                           then message else redacted_text rx lg message)) (addressed l lg))) w)"
  using log_accepted_after[OF assms(1,2) apply_redaction_text[OF assms(3)]]
  by (simp only: sinks.sinks_loop_deliveries deliveries_addressed[OF refl]
      deliver_all_sinks[OF assms(4-6)] so_cloud_all)

text \<open>
  C1. Logging, from the logger to the outside: when the logger accepts a message (with the level it
  has after the check of its temporary level), its substring patterns are not empty, the multi
  sinks hold no null pointer and form no cycle, and no earlier call hangs, \<open>log\<close> returns and every
  sink below the addressed ones (not removed, not null, level not below the override of their
  position) gets the message exactly once per way, in order, and nothing else happens.  The text
  is the redacted one: the substring patterns, then the regular expressions and presets that
  compile, applied one after the other; with substring patterns alone it differs from the message
  by stars, only where an occurrence of a pattern is if no pattern has a star, and no pattern
  without a star occurs in it.  Only under redaction for cloud sinks alone does a sink added to the
  logger that is not a cloud sink get the message as it is.
\<close>

theorem log_reaches_sinks:
  assumes "check_temporary_level_expiry clk (lg0, w0) = (lg, w)"
    and "should_log rx ctx (probe_record (lg_name lg) l) lg h = Some (True, h')"
    and "\<forall>pat \<in> set (lg_redact_patterns lg). pat \<noteq> []"
    and "layered rank (children_of w)" and "\<forall>p. rank p < n" and "\<not> w_stuck w"
  shows "Logger.log rx (all_sinks en) clk ctx l message (lg0, h, w0)
      = Some (lg, h', leaf_logs en (lg_name lg) l
          (fan_out n (children_of w)
            (map (\<lambda>p. (p, if lg_redact_cloud_only lg \<and> \<not> object_is_cloud (w_objects w p)
                           then message else redacted_text rx lg message)) (addressed l lg))) w)
    \<and> (lg_redact_regex_patterns lg = [] \<and> lg_redact_pii_presets lg = [] \<longrightarrow>
         redacts (lg_redact_patterns lg) message (redacted_text rx lg message))"
  using log_to_leaves[OF assms] redacted_text_substr[OF assms(3)] by blast

definition sample_environment :: "loki_event list environment" where
  "sample_environment =
     \<lparr>en_can_open = (\<lambda>_. True), en_tz = (\<lambda>_. 0), en_clock = (\<lambda>k i. 0),
      en_pack = (\<lambda>_ _ _. None), en_duration = (\<lambda>_. 0), en_curl = recording_curl (\<lambda>_. True) (\<lambda>_. 0),
      en_context = []\<rparr>"

definition sample_world ::
    "(sink_ptr \<Rightarrow> (nat, unit) sink_object) \<Rightarrow> (nat, loki_event list, unit) sink_world" where
  "sample_world objs =
     \<lparr>w_objects = objs, w_stdout = [], w_files = \<lparr>fs_files = Map.empty, fs_dirs = {}\<rparr>,
      w_syslog = \<lparr>sd_connection = None, sd_entries = []\<rparr>, w_datagrams = [],
      w_loki = \<lparr>lw_net = [], lw_registry = registry_new, lw_sleeps = [], lw_stderr = []\<rparr>,
      w_calls = 0, w_stuck = False\<rparr>"

definition sample_loki :: loki_sink where
  "sample_loki = loki_new 0 ''http://loki'' ''{}'' loki_options_default"

definition sample_objects :: "sink_ptr \<Rightarrow> (nat, unit) sink_object" where
  "sample_objects =
     (\<lambda>_. Null_sink)(0 := Multi_sink [Some 1, Some 2, Some 1],
        1 := Udp_sink (udp_new (\<lambda>a. 4) (Some [7])), 2 := Loki_sink sample_loki)"

lemma sample_objects_simps:
  "sample_objects 0 = Multi_sink [Some 1, Some 2, Some 1]"
  "sample_objects 2 = Loki_sink sample_loki"
  by (simp_all add: sample_objects_def)

definition sample_rank :: "sink_ptr \<Rightarrow> nat" where
  "sample_rank p = (if p = 0 then 1 else 0)"

lemma sample_layered: "layered sample_rank (children_of (sample_world sample_objects))"
  by (auto simp: layered_def sample_rank_def children_of_def sample_world_def sample_objects_def
    split: if_splits)

lemma sample_world_simps [simp]:
  "w_objects (sample_world objs) = objs" "w_stuck (sample_world objs) = False"
  "w_calls (sample_world objs) = 0"
  by (simp_all add: sample_world_def)

lemma sample_children:
  "children_of (sample_world sample_objects) = (\<lambda>p. if p = 0 then Some [Some 1, Some 2, Some 1] else None)"
  by (auto simp: fun_eq_iff children_of_def sample_world_def sample_objects_def)

theorem multi_sink_fans_out_witness:
  "sink_calls sample_environment ''app'' Info ''up'' [Some 0] (sample_world sample_objects)
   = Some (leaf_logs sample_environment ''app'' Info [(1, ''up''), (2, ''up''), (1, ''up'')]
       (sample_world sample_objects))"
  using multi_sink_fans_out[OF sample_layered, of 0 "Suc (Suc 0)" sample_environment "''app''" Info "''up''"]
  by (simp add: sample_rank_def sample_children)

definition routed_logger :: "sink_ptr \<Rightarrow> bool \<Rightarrow> ('a, 'n, 'c) sink_world logger" where
  "routed_logger p cloud_only =
     set_redact_apply_to_cloud_only cloud_only (set_redact_patterns [''key'']
       (add_sink (Some p) ''out'' (logger_new
          \<lparr>tmp_original_level = Trace, tmp_revert_time = 0, tmp_active = False\<rparr> ''app'')))"

lemma routed_logger_simps [simp]:
  "lg_temp (routed_logger p co) = \<lparr>tmp_original_level = Trace, tmp_revert_time = 0, tmp_active = False\<rparr>"
  "lg_name (routed_logger p co) = ''app''"
  "lg_redact_patterns (routed_logger p co) = [''key'']"
  "lg_redact_regex_patterns (routed_logger p co) = []"
  "lg_redact_pii_presets (routed_logger p co) = []"
  "lg_redact_cloud_only (routed_logger p co) = co"
  "addressed l (routed_logger p co) = [p]"
  "lg_sink_entries (routed_logger p co) = [\<lparr>se_sink = Some p, se_name = ''out'', se_marked = False, se_refs = 0\<rparr>]"
  "lg_min_level (routed_logger p co) = Trace" "lg_filter_func (routed_logger p co) = None"
  "lg_filters (routed_logger p co) = []"
  by (simp_all add: routed_logger_def set_redact_apply_to_cloud_only_def set_redact_patterns_def
    add_sink_def logger_new_def addressed_def map_filter_def)

lemma routed_logger_accepts [simp]:
  "should_log rx ctx r (routed_logger p co) h = Some (True, h)"
  by (cases "rec_level r") (simp_all add: should_log_def)

lemma routed_logger_expiry:
  "check_temporary_level_expiry clk (routed_logger p co, w) = (routed_logger p co, w)"
  by (simp add: check_temporary_level_expiry_def)

lemma sample_rank_bound: "\<forall>p. sample_rank p < Suc (Suc 0)"
  by (simp add: sample_rank_def)

lemma starred_key: "starred ''key'' ''my key'' = ''my ***''"
proof -
  have "redact ''my key'' [''key''] = Some ''my ***''"
    by (simp add: redact_loop.simps find_from_def find_in.simps prefix_def) 
  then show ?thesis using redact_eq_starreds[of "[''key'']" "''my key''"] by simp
qed

theorem log_reaches_sinks_witness:
  "Logger.log literal_rx (all_sinks sample_environment) (\<lambda>_. 0) Map.empty Info ''my key''
        (routed_logger 2 True, sample_filters, sample_world sample_objects)
      = Some (routed_logger 2 True, sample_filters,
          leaf_logs sample_environment ''app'' Info [(2, ''my ***'')] (sample_world sample_objects))
   \<and> redacts [''key''] ''my key'' ''my ***''"
proof -
  have red: "redacted_text literal_rx (routed_logger 2 True) ''my key'' = ''my ***''"
    by (simp add: redacted_text_def starred_key compile_patterns_def map_filter_def)
  show ?thesis
    using log_reaches_sinks[OF routed_logger_expiry[of _ 2 True] _ _ sample_layered sample_rank_bound,
        where rx = literal_rx and ctx = Map.empty and l = Info
        and h = sample_filters and h' = sample_filters and en = sample_environment
        and clk = "\<lambda>_. 0" and message = "''my key''"]
    by (simp add: sample_children sample_objects_simps red)
qed

text \<open>
  C40. A multi sink is no cloud sink, whatever it forwards to.  Under redaction for cloud sinks
  alone, every sink below a multi sink added to the logger, cloud sinks included, gets an accepted
  message as it was written, with nothing redacted (on the conditions under which logging returns:
  no empty pattern, no null pointer and no cycle among the multi sinks).  In particular, when the
  only addressed sink is a multi sink over one Loki sink whose batch is not due, the message is
  stored for sending unredacted.
\<close>

theorem multi_sink_hides_cloud_sink:
  assumes "check_temporary_level_expiry clk (lg0, w0) = (lg, w)"
    and "should_log rx ctx (probe_record (lg_name lg) l) lg h = Some (True, h')"
    and "\<forall>pat \<in> set (lg_redact_patterns lg). pat \<noteq> []"
    and "layered rank (children_of w)" and "\<forall>p. rank p < n" and "\<not> w_stuck w"
    and "lg_redact_cloud_only lg"
  shows "(\<forall>ps. \<not> object_is_cloud (Multi_sink ps :: ('a, 'c) sink_object))
    \<and> (\<exists>ds. Logger.log rx (all_sinks en) clk ctx l message (lg0, h, w0)
          = Some (lg, h', leaf_logs en (lg_name lg) l ds (w :: ('a, 'n, 'c) sink_world))
        \<and> (\<forall>p ps q. p \<in> set (addressed l lg) \<and> w_objects w p = Multi_sink ps
              \<and> q \<in> set (sink_leaves n (children_of w) p) \<longrightarrow> (q, message) \<in> set ds)
        \<and> (\<forall>p q s. addressed l lg = [p] \<and> w_objects w p = Multi_sink [Some q]
              \<and> w_objects w q = Loki_sink s
              \<and> \<not> loki_due (en_clock en (w_calls w) 0)
                  (s\<lparr>lk_buffer := lk_buffer s
                      @ [loki_entry (en_clock en (w_calls w) 0) (lg_name lg) l message]\<rparr>) \<longrightarrow>
            w_objects (leaf_logs en (lg_name lg) l ds w) q = Loki_sink (s\<lparr>lk_buffer := lk_buffer s
              @ [loki_entry (en_clock en (w_calls w) 0) (lg_name lg) l message]\<rparr>)))"
proof -
  define ds where "ds = fan_out n (children_of w)
    (map (\<lambda>p. (p, if lg_redact_cloud_only lg \<and> \<not> object_is_cloud (w_objects w p)
                   then message else redacted_text rx lg message)) (addressed l lg))"
  have "Logger.log rx (all_sinks en) clk ctx l message (lg0, h, w0)
      = Some (lg, h', leaf_logs en (lg_name lg) l ds w)"
    using log_to_leaves[OF assms(1-6)] by (simp only: ds_def)
  moreover have "(q, message) \<in> set ds"
    if "p \<in> set (addressed l lg)" "w_objects w p = Multi_sink ps"
      "q \<in> set (sink_leaves n (children_of w) p)" for p ps q
    using that assms(7) unfolding ds_def fan_out_def by force
  moreover have "w_objects (leaf_logs en (lg_name lg) l ds w) q = Loki_sink (s\<lparr>lk_buffer := lk_buffer s
      @ [loki_entry (en_clock en (w_calls w) 0) (lg_name lg) l message]\<rparr>)"
    if only: "addressed l lg = [p]" and multi: "w_objects w p = Multi_sink [Some q]"
      and loki: "w_objects w q = Loki_sink s"
      and due: "\<not> loki_due (en_clock en (w_calls w) 0) (s\<lparr>lk_buffer := lk_buffer s
        @ [loki_entry (en_clock en (w_calls w) 0) (lg_name lg) l message]\<rparr>)" for p q s
  proof -
    have kids: "children_of w p = Some [Some q]" "children_of w q = None"
      using multi loki by (simp_all add: children_of_def)
    have "\<forall>x \<in> set [Some q]. \<exists>r. x = Some r \<and> rank r < rank p"
      using assms(4) kids(1) unfolding layered_def by blast
    then have "rank q < rank p" by simp
    moreover from assms(5) have "rank p < n" by simp
    ultimately have "2 \<le> n" by simp
    then obtain k where n: "n = Suc (Suc k)" by (metis add_2_eq_Suc le_Suc_ex)
    have "ds = [(q, message)]"
      using only multi assms(7) unfolding ds_def n by (simp add: kids)
    with loki due show ?thesis by (simp add: leaf_log_def leaf_effect_def loki_log_def Let_def)
  qed
  ultimately show ?thesis by (intro conjI allI exI[of _ ds] impI) (simp, assumption, elim conjE, blast+)
qed

theorem multi_sink_hides_cloud_sink_witness:
  "\<exists>w'. Logger.log literal_rx (all_sinks sample_environment) (\<lambda>_. 0) Map.empty Info ''my key''
      (routed_logger 0 True, sample_filters,
        sample_world (sample_objects(0 := Multi_sink [Some 2])))
    = Some (routed_logger 0 True, sample_filters, w')
    \<and> w_objects w' 2 = Loki_sink (sample_loki\<lparr>lk_buffer := [loki_entry 0 ''app'' Info ''my key'']\<rparr>)"
proof -
  let ?w = "sample_world (sample_objects(0 := Multi_sink [Some 2]))"
  have clock: "en_clock sample_environment k i = 0" for k i
    by (simp add: sample_environment_def)
  have layered: "layered sample_rank (children_of ?w)"
    by (auto simp: layered_def sample_rank_def children_of_def sample_objects_def
      split: if_splits)
  have due: "\<not> loki_due 0 (sample_loki\<lparr>lk_buffer := lk_buffer sample_loki
      @ [loki_entry 0 ''app'' Info ''my key'']\<rparr>)"
    by (simp add: loki_due_def sample_loki_def loki_new_def loki_options_default_def)
  have buffer: "lk_buffer sample_loki = []" by (simp add: sample_loki_def loki_new_def)
  have obj: "w_objects ?w 0 = Multi_sink [Some 2]" "w_objects ?w 2 = Loki_sink sample_loki"
    by (simp_all add: sample_objects_simps)
  obtain ds where ds: "Logger.log literal_rx (all_sinks sample_environment) (\<lambda>_. 0) Map.empty Info
        ''my key'' (routed_logger 0 True, sample_filters, ?w)
      = Some (routed_logger 0 True, sample_filters, leaf_logs sample_environment ''app'' Info ds ?w)"
    and stored: "w_objects (leaf_logs sample_environment ''app'' Info ds ?w) 2
      = Loki_sink (sample_loki\<lparr>lk_buffer := lk_buffer sample_loki @ [loki_entry 0 ''app'' Info ''my key'']\<rparr>)"
    using multi_sink_hides_cloud_sink[OF routed_logger_expiry[of _ 0 True] _ _ layered sample_rank_bound,
      where rx = literal_rx and ctx = Map.empty and l = Info
      and h = sample_filters and h' = sample_filters and en = sample_environment
      and clk = "\<lambda>_. 0" and message = "''my key''"] obj due
    by (simp add: clock) blast
  then show ?thesis by (simp add: buffer)
qed

section \<open>Programs over the library's sinks\<close>

text \<open>The world in which every call of a sink returns: no null pointer, no cycle, nothing hangs.\<close>

definition returning :: "(sink_ptr \<Rightarrow> nat) \<Rightarrow> ('a, 'n, 'c) sink_world \<Rightarrow> bool" where
  "returning rank w \<longleftrightarrow> layered rank (children_of w) \<and> \<not> w_stuck w"

lemma all_sinks_keep:
  fixes en :: "'n environment"
  assumes "\<forall>p. rank p < n"
  shows "sinks_keep (returning rank) (all_sinks en :: ('a, 'n, 'c) sink_world sink_ops)"
  unfolding sinks_keep_def
proof (intro allI impI)
  fix p nm l msg and w :: "('a, 'n, 'c) sink_world"
  assume r: "returning rank w"
  have "sink_calls en nm l msg [Some p] w
      = Some (leaf_logs en nm l (map (\<lambda>q. (q, msg)) (sink_leaves n (children_of w) p)) w)"
    using sink_calls_leaves[of rank w "[p]" n] assms r by (simp add: returning_def)
  with r show "returning rank (so_log (all_sinks en) p nm l msg w)"
    by (simp add: all_sinks_def returning_def)
qed

text \<open>
  C4. Type safety of the logger over the sinks of the library: from a well-formed state whose multi
  sinks hold no null pointer and form no cycle, every program of public operations that gives no
  empty redaction pattern and builds composite filters from below returns, in a well-formed state
  again, provided that the level callbacks registered return and keep that condition on the multi
  sinks, and filter functions return; no call of a sink hangs, \<open>sink_count\<close> counts all entries, and
  the history is within its bound.
\<close>

theorem logger_programs_return:
  assumes "logger_ok rank (lg, h, w)" and "list_all (op_ok rank) xs"
    and "layered depth (children_of w)" and "\<forall>p. depth p < n" and "\<not> w_stuck w"
    and "\<forall>f \<in> set (lg_callbacks lg). callback_keeps (returning depth) f"
    and "list_all (op_keeps (returning depth)) xs"
  shows "\<exists>lg' h' w'. op_run rx (all_sinks en) xs (lg, h, w) = Some (lg', h', w')
    \<and> logger_ok rank (lg', h', w') \<and> layered depth (children_of w') \<and> \<not> w_stuck w'
    \<and> sink_count lg' = length (lg_sink_entries lg') \<and> length (lg_history lg') \<le> lg_max_history lg'"
proof -
  obtain lg' h' w' where r: "op_run rx (all_sinks en) xs (lg, h, w) = Some (lg', h', w')"
      "logger_ok rank (lg', h', w')" "sink_count lg' = length (lg_sink_entries lg')"
      "length (lg_history lg') \<le> lg_max_history lg'"
    using programs_return[OF assms(1,2), of rx "all_sinks en"] by blast
  have "state_keeps (returning depth) (lg, w)"
    using assms(3,5,6) by (simp add: state_keeps_def returning_def)
  from programs_keep_world[OF all_sinks_keep[OF assms(4)] this assms(7) r(1)] r show ?thesis
    by (simp add: returning_def)
qed

text \<open>
  A program on a new logger: a composite over a level filter, a multi sink over two sinks added, two
  messages and the removal of the sink.
\<close>

definition sample_program :: "(string, (nat, loki_event list, unit) sink_world) logger_op list" where
  "sample_program =
     [Op_new_filter (LevelFilter Warn), Op_new_filter (CompositeFilter And []), Op_composite_add 1 0,
      Op_add_filter 1, Op_add_sink (Some 0) ''out'', Op_redact [''key''],
      Op_log (\<lambda>_. 0) Map.empty Error ''my key'', Op_log (\<lambda>_. 0) Map.empty Info ''no'',
      Op_remove_sink ''out'']"

theorem logger_programs_return_witness:
  "\<forall>t. \<exists>lg h w. op_run literal_rx (all_sinks sample_environment) sample_program
       (logger_new t ''app'', \<lparr>fh_next = 0, fh_objs = (\<lambda>_. LevelFilter Trace)\<rparr>,
        sample_world sample_objects) = Some (lg, h, w)
     \<and> \<not> w_stuck w \<and> sink_count lg = length (lg_sink_entries lg)"
proof
  fix t
  let ?lg = "logger_new t ''app'' :: (nat, loki_event list, unit) sink_world logger"
  let ?h = "\<lparr>fh_next = 0, fh_objs = (\<lambda>_. LevelFilter Trace)\<rparr> :: string filter_heap"
  have 1: "logger_ok id (?lg, ?h, sample_world sample_objects)"
    by (simp add: logger_ok_def quiet_def history_ok_def ranked_def logger_new_def)
  have 2: "list_all (op_ok id) sample_program" by (simp add: sample_program_def)
  have 3: "list_all (op_keeps (returning sample_rank)) sample_program"
    by (simp add: sample_program_def op_keeps_def)
  have 4: "\<forall>f \<in> set (lg_callbacks ?lg). callback_keeps (returning sample_rank) f"
    by (simp add: logger_new_def)
  show "\<exists>lg h w. op_run literal_rx (all_sinks sample_environment) sample_program
       (?lg, ?h, sample_world sample_objects) = Some (lg, h, w)
     \<and> \<not> w_stuck w \<and> sink_count lg = length (lg_sink_entries lg)"
    using logger_programs_return[OF 1 2 sample_layered sample_rank_bound _ 4 3,
      of literal_rx sample_environment] by auto
qed

section \<open>The entry points\<close>

text \<open>The configuration given to the two functions of \<open>Zyrnix.cpp\<close> is not used.\<close>

definition create_logger :: "'config \<Rightarrow> temporary_level_change \<Rightarrow> string \<Rightarrow> 'w logger" where
  "create_logger config t nm = logger_new t nm"

text \<open>An \<open>AsyncLogger\<close> holds the logger and calls it in the caller's thread.\<close>

record 'w async_logger =
  al_logger :: "'w logger"

definition create_async_logger :: "'config \<Rightarrow> 'w logger \<Rightarrow> 'w async_logger" where
  "create_async_logger config lg = \<lparr>al_logger = lg\<rparr>"

definition async_call ::
    "('w logger \<times> 'rx filter_heap \<times> 'w \<Rightarrow> ('w logger \<times> 'rx filter_heap \<times> 'w) option)
     \<Rightarrow> 'w async_logger \<times> 'rx filter_heap \<times> 'w \<Rightarrow> ('w async_logger \<times> 'rx filter_heap \<times> 'w) option"
  where
  "async_call f s =
     (let (al, h, w) = s in
      map_option (\<lambda>(lg, h', w'). (al\<lparr>al_logger := lg\<rparr>, h', w')) (f (al_logger al, h, w)))"

definition async_info where "async_info rx so clk ctx msg s = async_call (log_info rx so clk ctx msg) s"
definition async_debug where "async_debug rx so clk ctx msg s = async_call (log_debug rx so clk ctx msg) s"
definition async_error where "async_error rx so clk ctx msg s = async_call (log_error rx so clk ctx msg) s"
definition async_warn where "async_warn rx so clk ctx msg s = async_call (log_warn rx so clk ctx msg) s"
definition async_trace where "async_trace rx so clk ctx msg s = async_call (log_trace rx so clk ctx msg) s"
definition async_critical where
  "async_critical rx so clk ctx msg s = async_call (log_critical rx so clk ctx msg) s"

end
