(* ===== verification/Platform_Paths.thy ===== *)
theory Platform_Paths
  imports File_System
begin

text \<open>
  The path functions of \<open>src/util.cpp\<close> on both platforms, over the system calls they make, which
  are parameters: the POSIX calls report an error number, the Windows calls are those of the Win32
  API with its last error.  The world \<open>'w\<close> is what the calls act on.  A call is given a C string:
  what stands before the first zero character.  \<open>File_System\<close> has the functions as the sinks rely on
  them; the last section relates the two.
\<close>

section \<open>POSIX\<close>

datatype errno = ENOENT | EEXIST | Other_errno nat

record 'w posix_calls =
  px_fopen :: "string \<Rightarrow> string \<Rightarrow> 'w \<Rightarrow> nat option \<times> 'w"
  px_stat :: "string \<Rightarrow> 'w \<Rightarrow> bool option"            \<comment> \<open>whether it is a regular file\<close>
  px_mkdir :: "string \<Rightarrow> nat \<Rightarrow> 'w \<Rightarrow> errno option \<times> 'w"
  px_rename :: "string \<Rightarrow> string \<Rightarrow> 'w \<Rightarrow> errno option \<times> 'w"
  px_remove :: "string \<Rightarrow> 'w \<Rightarrow> errno option \<times> 'w"

definition c_str :: "string \<Rightarrow> string" where
  "c_str s = takeWhile (\<lambda>c. c \<noteq> CHR 0x00) s"

definition posix_fopen_utf8 :: "'w posix_calls \<Rightarrow> string \<Rightarrow> string \<Rightarrow> 'w \<Rightarrow> nat option \<times> 'w" where
  "posix_fopen_utf8 px path mode w = px_fopen px (c_str path) (c_str mode) w"

definition posix_file_exists :: "'w posix_calls \<Rightarrow> string \<Rightarrow> 'w \<Rightarrow> bool" where
  "posix_file_exists px path w \<longleftrightarrow> px_stat px (c_str path) w = Some True"

text \<open>The mode is \<open>0755\<close>.\<close>

definition posix_create_directory :: "'w posix_calls \<Rightarrow> string \<Rightarrow> 'w \<Rightarrow> bool \<times> 'w" where
  "posix_create_directory px path w =
     (case px_mkdir px (c_str path) 493 w of
        (None, w') \<Rightarrow> (True, w')
      | (Some e, w') \<Rightarrow> (e = EEXIST, w'))"

definition posix_rename_file :: "'w posix_calls \<Rightarrow> string \<Rightarrow> string \<Rightarrow> 'w \<Rightarrow> bool \<times> 'w" where
  "posix_rename_file px old_path new_path w =
     (let (e, w') = px_rename px (c_str old_path) (c_str new_path) w in (e = None, w'))"

definition posix_remove_file :: "'w posix_calls \<Rightarrow> string \<Rightarrow> 'w \<Rightarrow> bool \<times> 'w" where
  "posix_remove_file px path w =
     (case px_remove px (c_str path) w of
        (None, w') \<Rightarrow> (True, w')
      | (Some e, w') \<Rightarrow> (e = ENOENT, w'))"

section \<open>Windows\<close>

type_synonym wstring = "16 word list"

text \<open>
  The two conversions take the text, its length and the size of the buffer, and return the result
  and what is in the buffer; with size 0 the result is the size that is needed.  Both return 0 on
  failure.
\<close>

record 'w win32_calls =
  wn_to_wide :: "string \<Rightarrow> int \<Rightarrow> int \<Rightarrow> int \<times> wstring"
  wn_to_multi :: "wstring \<Rightarrow> int \<Rightarrow> int \<Rightarrow> int \<times> string"
  wn_wfopen :: "wstring \<Rightarrow> wstring \<Rightarrow> 'w \<Rightarrow> nat option \<times> 'w"
  wn_attributes :: "wstring \<Rightarrow> 'w \<Rightarrow> 32 word"
  wn_create_directory :: "wstring \<Rightarrow> 'w \<Rightarrow> bool \<times> 'w"
  wn_move :: "wstring \<Rightarrow> wstring \<Rightarrow> 32 word \<Rightarrow> 'w \<Rightarrow> bool \<times> 'w"
  wn_delete :: "wstring \<Rightarrow> 'w \<Rightarrow> bool \<times> 'w"
  wn_last_error :: "'w \<Rightarrow> 32 word"

definition ERROR_FILE_NOT_FOUND :: "32 word" where "ERROR_FILE_NOT_FOUND = 2"
definition ERROR_PATH_NOT_FOUND :: "32 word" where "ERROR_PATH_NOT_FOUND = 3"
definition ERROR_ALREADY_EXISTS :: "32 word" where "ERROR_ALREADY_EXISTS = 183"
definition INVALID_FILE_ATTRIBUTES :: "32 word" where "INVALID_FILE_ATTRIBUTES = 0xFFFFFFFF"
definition FILE_ATTRIBUTE_DIRECTORY :: "32 word" where "FILE_ATTRIBUTE_DIRECTORY = 0x10"
definition MOVEFILE_REPLACE_EXISTING :: "32 word" where "MOVEFILE_REPLACE_EXISTING = 1"
definition MOVEFILE_COPY_ALLOWED :: "32 word" where "MOVEFILE_COPY_ALLOWED = 2"

text \<open>\<open>static_cast<int>\<close> of a \<open>size_t\<close>, and the buffer after a conversion into \<open>n\<close> zeros.\<close>

definition to_int32 :: "nat \<Rightarrow> int" where
  "to_int32 n = sint (word_of_nat n :: 32 word)"

definition filled :: "nat \<Rightarrow> 'a \<Rightarrow> 'a list \<Rightarrow> 'a list" where
  "filled n z xs = take n xs @ replicate (n - length xs) z"

definition to_native :: "'w win32_calls \<Rightarrow> string \<Rightarrow> wstring" where
  "to_native wn utf8_path =
     (if utf8_path = [] then []
      else
        (let n = to_int32 (length utf8_path);
             size_needed = fst (wn_to_wide wn utf8_path n 0) in
         if size_needed \<le> 0 then []
         else
           (let (converted, buffer) = wn_to_wide wn utf8_path n size_needed in
            if converted \<le> 0 then [] else filled (nat size_needed) 0 buffer)))"

definition from_native :: "'w win32_calls \<Rightarrow> wstring \<Rightarrow> string" where
  "from_native wn native_path =
     (if native_path = [] then []
      else
        (let n = to_int32 (length native_path);
             size_needed = fst (wn_to_multi wn native_path n 0) in
         if size_needed \<le> 0 then []
         else
           (let (converted, buffer) = wn_to_multi wn native_path n size_needed in
            if converted \<le> 0 then [] else filled (nat size_needed) (CHR 0x00) buffer)))"

definition wc_str :: "wstring \<Rightarrow> wstring" where
  "wc_str s = takeWhile (\<lambda>c. c \<noteq> 0) s"

text \<open>\<open>static_cast<wchar_t>\<close> of a (signed) \<open>char\<close>.\<close>

definition widen :: "char \<Rightarrow> 16 word" where
  "widen c = scast (of_char c :: 8 word)"

definition conversion_failed :: "'w win32_calls \<Rightarrow> string \<Rightarrow> bool" where
  "conversion_failed wn path \<longleftrightarrow> to_native wn path = [] \<and> path \<noteq> []"

definition win_fopen_utf8 :: "'w win32_calls \<Rightarrow> string \<Rightarrow> string \<Rightarrow> 'w \<Rightarrow> nat option \<times> 'w" where
  "win_fopen_utf8 wn path mode w =
     (if conversion_failed wn path then (None, w)
      else wn_wfopen wn (wc_str (to_native wn path)) (wc_str (map widen (c_str mode))) w)"

definition win_file_exists :: "'w win32_calls \<Rightarrow> string \<Rightarrow> 'w \<Rightarrow> bool" where
  "win_file_exists wn path w \<longleftrightarrow>
     \<not> conversion_failed wn path
     \<and> (let attrs = wn_attributes wn (wc_str (to_native wn path)) w in
        attrs \<noteq> INVALID_FILE_ATTRIBUTES \<and> and attrs FILE_ATTRIBUTE_DIRECTORY = 0)"

definition win_create_directory :: "'w win32_calls \<Rightarrow> string \<Rightarrow> 'w \<Rightarrow> bool \<times> 'w" where
  "win_create_directory wn path w =
     (if conversion_failed wn path then (False, w)
      else (case wn_create_directory wn (wc_str (to_native wn path)) w of
              (True, w') \<Rightarrow> (True, w')
            | (False, w') \<Rightarrow> (wn_last_error wn w' = ERROR_ALREADY_EXISTS, w')))"

definition win_rename_file :: "'w win32_calls \<Rightarrow> string \<Rightarrow> string \<Rightarrow> 'w \<Rightarrow> bool \<times> 'w" where
  "win_rename_file wn old_path new_path w =
     (if conversion_failed wn old_path \<or> conversion_failed wn new_path then (False, w)
      else wn_move wn (wc_str (to_native wn old_path)) (wc_str (to_native wn new_path))
             (or MOVEFILE_REPLACE_EXISTING MOVEFILE_COPY_ALLOWED) w)"

definition win_remove_file :: "'w win32_calls \<Rightarrow> string \<Rightarrow> 'w \<Rightarrow> bool \<times> 'w" where
  "win_remove_file wn path w =
     (if conversion_failed wn path then (False, w)
      else (case wn_delete wn (wc_str (to_native wn path)) w of
              (True, w') \<Rightarrow> (True, w')
            | (False, w') \<Rightarrow> (wn_last_error wn w' = ERROR_FILE_NOT_FOUND, w')))"

section \<open>Unicode text\<close>

definition scalar :: "nat \<Rightarrow> bool" where
  "scalar c \<longleftrightarrow> c < 0x110000 \<and> \<not> (0xD800 \<le> c \<and> c < 0xE000)"

definition utf8_bytes :: "nat \<Rightarrow> nat list" where
  "utf8_bytes c =
     (if c < 0x80 then [c]
      else if c < 0x800 then [0xC0 + c div 64, 0x80 + c mod 64]
      else if c < 0x10000 then [0xE0 + c div 64 div 64, 0x80 + c div 64 mod 64, 0x80 + c mod 64]
      else [0xF0 + c div 64 div 64 div 64, 0x80 + c div 64 div 64 mod 64, 0x80 + c div 64 mod 64,
            0x80 + c mod 64])"

definition utf8 :: "nat list \<Rightarrow> string" where
  "utf8 cs = map char_of (concat (map utf8_bytes cs))"

definition utf16_units :: "nat \<Rightarrow> nat list" where
  "utf16_units c =
     (if c < 0x10000 then [c]
      else [0xD800 + (c - 0x10000) div 0x400, 0xDC00 + (c - 0x10000) mod 0x400])"

definition utf16 :: "nat list \<Rightarrow> wstring" where
  "utf16 cs = map word_of_nat (concat (map utf16_units cs))"

text \<open>
  What is documented of the two calls for valid text: the size query and the conversion into a
  buffer that is large enough.
\<close>

locale utf_conversion =
  fixes wn :: "'w win32_calls"
  assumes to_wide: "list_all scalar cs \<Longrightarrow> cs \<noteq> [] \<Longrightarrow> length (utf8 cs) < 2 ^ 31 \<Longrightarrow>
      n = int (length (utf8 cs)) \<Longrightarrow> k = int (length (utf16 cs)) \<Longrightarrow>
      fst (wn_to_wide wn (utf8 cs) n 0) = k \<and> wn_to_wide wn (utf8 cs) n k = (k, utf16 cs)"
    and to_multi: "list_all scalar cs \<Longrightarrow> cs \<noteq> [] \<Longrightarrow> length (utf16 cs) < 2 ^ 31 \<Longrightarrow>
      n = int (length (utf16 cs)) \<Longrightarrow> k = int (length (utf8 cs)) \<Longrightarrow>
      fst (wn_to_multi wn (utf16 cs) n 0) = k \<and> wn_to_multi wn (utf16 cs) n k = (k, utf8 cs)"

lemma to_int32_small: "n < 2 ^ 31 \<Longrightarrow> to_int32 n = int n"
  by (simp add: to_int32_def signed_of_nat signed_take_bit_int_eq_self)

lemma filled_exact: "n = length xs \<Longrightarrow> filled n z xs = xs"
  by (simp add: filled_def)

lemma utf8_Cons: "utf8 (c # cs) = map char_of (utf8_bytes c) @ utf8 cs"
  by (simp add: utf8_def)

lemma utf16_Cons: "utf16 (c # cs) = map word_of_nat (utf16_units c) @ utf16 cs"
  by (simp add: utf16_def)

lemma utf_Nil_iff [simp]: "utf8 cs = [] \<longleftrightarrow> cs = []" "utf16 cs = [] \<longleftrightarrow> cs = []"
  by (cases cs; simp add: utf8_def utf16_def utf8_bytes_def utf16_units_def)+

lemma utf16_shorter: "length (utf16 cs) \<le> length (utf8 cs)"
  by (induction cs) (auto simp: utf8_Cons utf16_Cons utf8_bytes_def utf16_units_def, simp add: utf16_def)

context utf_conversion
begin

lemma to_native_utf8:
  assumes "list_all scalar cs" and "length (utf8 cs) < 2 ^ 31"
  shows "to_native wn (utf8 cs) = utf16 cs"
proof (cases "cs = []")
  case False
  with to_wide[OF assms(1) _ assms(2)] assms(2) show ?thesis
    by (simp add: to_native_def to_int32_small filled_exact Let_def)
qed (simp add: to_native_def utf8_def utf16_def)

lemma from_native_utf16:
  assumes "list_all scalar cs" and "length (utf16 cs) < 2 ^ 31"
  shows "from_native wn (utf16 cs) = utf8 cs"
proof (cases "cs = []")
  case False
  with to_multi[OF assms(1) _ assms(2)] assms(2) show ?thesis
    by (simp add: from_native_def to_int32_small filled_exact Let_def)
qed (simp add: from_native_def utf8_def utf16_def)

lemma native_round_trip:
  assumes "list_all scalar cs" and "length (utf8 cs) < 2 ^ 31"
  shows "from_native wn (to_native wn (utf8 cs)) = utf8 cs"
  using assms utf16_shorter[of cs] by (simp add: to_native_utf8 from_native_utf16)

end

subsection \<open>The conversions, implemented\<close>

text \<open>
  Decoders of the two encodings, and calls made of them: an instance of the locale.  What they do
  with invalid text does not matter here.
\<close>

definition continuation :: "nat list \<Rightarrow> nat \<Rightarrow> nat" where
  "continuation s i = (if i < length s then s ! i - 0x80 else 0)"

fun decode8 :: "nat list \<Rightarrow> nat list" where
  "decode8 [] = []"
| "decode8 (a # s) =
     (let x = continuation s 0; y = continuation s 1; z = continuation s 2 in
      if a < 0x80 then a # decode8 s
      else if a < 0xE0 then ((a - 0xC0) * 64 + x) # decode8 (drop 1 s)
      else if a < 0xF0 then (((a - 0xE0) * 64 + x) * 64 + y) # decode8 (drop 2 s)
      else ((((a - 0xF0) * 64 + x) * 64 + y) * 64 + z) # decode8 (drop 3 s))"

fun decode16 :: "nat list \<Rightarrow> nat list" where
  "decode16 [] = []"
| "decode16 (a # s) =
     (if 0xD800 \<le> a \<and> a < 0xE000
      then (0x10000 + (a - 0xD800) * 0x400 + (if s = [] then 0 else hd s - 0xDC00)) # decode16 (drop 1 s)
      else a # decode16 s)"

lemma decode8_utf8_bytes: "scalar c \<Longrightarrow> decode8 (utf8_bytes c @ s) = c # decode8 s"
proof -
  assume c: "scalar c"
  have d: "c div 64 * 64 + c mod 64 = c" "c div 64 div 64 * 64 + c div 64 mod 64 = c div 64"
    "c div 64 div 64 div 64 * 64 + c div 64 div 64 mod 64 = c div 64 div 64"
    by (rule div_mult_mod_eq)+
  consider "c < 0x80" | "0x80 \<le> c" "c < 0x800" | "0x800 \<le> c" "c < 0x10000" | "0x10000 \<le> c" "c < 0x110000"
    using c by (force simp: scalar_def)
  then show ?thesis
  proof cases
    case 2
    then have "c div 64 < 32" by simp
    with 2 d show ?thesis by (simp add: utf8_bytes_def continuation_def)
  next
    case 3
    then have "c div 64 div 64 < 16" by simp
    moreover have "4096 * (c div 64 div 64) + c div 64 mod 64 * 64 + c mod 64 = c"
      using d(1,2) by linarith
    ultimately show ?thesis using 3 by (simp add: utf8_bytes_def continuation_def numeral_2_eq_2)
  next
    case 4
    moreover have "262144 * (c div 64 div 64 div 64) + 4096 * (c div 64 div 64 mod 64)
        + c div 64 mod 64 * 64 + c mod 64 = c"
      using d by linarith
    ultimately show ?thesis
      by (simp add: utf8_bytes_def continuation_def numeral_2_eq_2 numeral_3_eq_3)
  qed (simp add: utf8_bytes_def)
qed

lemma decode16_utf16_units: "scalar c \<Longrightarrow> decode16 (utf16_units c @ s) = c # decode16 s"
proof -
  assume c: "scalar c"
  show ?thesis
  proof (cases "c < 0x10000")
    case False
    then have "(c - 0x10000) div 0x400 < 0x400" using c by (simp add: scalar_def less_mult_imp_div_less)
    moreover have "(c - 0x10000) div 0x400 * 0x400 + (c - 0x10000) mod 0x400 = c - 0x10000"
      by (rule div_mult_mod_eq)
    ultimately show ?thesis using False by (simp add: utf16_units_def)
  qed (use c in \<open>auto simp: utf16_units_def scalar_def\<close>)
qed

lemma decode_utf:
  "list_all scalar cs \<Longrightarrow> decode8 (concat (map utf8_bytes cs)) = cs"
  "list_all scalar cs \<Longrightarrow> decode16 (concat (map utf16_units cs)) = cs"
  by (induction cs) (simp_all add: decode8_utf8_bytes decode16_utf16_units)

lemma utf8_bytes_range: "scalar c \<Longrightarrow> b \<in> set (utf8_bytes c) \<Longrightarrow> b < 256"
  by (auto simp: utf8_bytes_def scalar_def split: if_splits)

lemma utf16_units_range: "scalar c \<Longrightarrow> b \<in> set (utf16_units c) \<Longrightarrow> b < 2 ^ 16"
  by (auto simp: utf16_units_def scalar_def split: if_splits)

definition codes8 :: "string \<Rightarrow> nat list" where
  "codes8 s = decode8 (map char_code s)"

definition codes16 :: "wstring \<Rightarrow> nat list" where
  "codes16 s = decode16 (map unat s)"

lemma map_char_codes: "\<forall>b \<in> set bs. b < 256 \<Longrightarrow> map char_code (map char_of bs) = bs"
  by (induction bs) (simp_all add: char_code_def)

lemma map_unat_words:
  "\<forall>b \<in> set bs. b < 2 ^ 16 \<Longrightarrow> map unat (map (word_of_nat :: nat \<Rightarrow> 16 word) bs) = bs"
  by (induction bs) (simp_all add: unat_of_nat)

lemma codes_utf:
  assumes "list_all scalar cs"
  shows "codes8 (utf8 cs) = cs" and "codes16 (utf16 cs) = cs"
proof -
  have r8: "\<forall>b \<in> set (concat (map utf8_bytes cs)). b < 256"
    and r16: "\<forall>b \<in> set (concat (map utf16_units cs)). b < 2 ^ 16"
    using assms utf8_bytes_range utf16_units_range unfolding list_all_iff set_concat by fastforce+
  from r8 have "map char_code (utf8 cs) = concat (map utf8_bytes cs)"
    unfolding utf8_def by (rule map_char_codes)
  then show "codes8 (utf8 cs) = cs" using assms by (simp add: codes8_def decode_utf)
  from r16 have "map unat (utf16 cs) = concat (map utf16_units cs)"
    unfolding utf16_def by (rule map_unat_words)
  then show "codes16 (utf16 cs) = cs" using assms by (simp add: codes16_def decode_utf)
qed

text \<open>A Win32 system with one file, whose other calls do nothing.\<close>

definition into_buffer :: "'a list \<Rightarrow> int \<Rightarrow> int \<times> 'a list" where
  "into_buffer xs k =
     (if k = 0 then (int (length xs), [])
      else if int (length xs) \<le> k then (int (length xs), xs) else (0, []))"

definition unicode_calls :: "wstring set win32_calls" where
  "unicode_calls =
     \<lparr>wn_to_wide = (\<lambda>s n k. into_buffer (utf16 (codes8 s)) k),
      wn_to_multi = (\<lambda>s n k. into_buffer (utf8 (codes16 s)) k),
      wn_wfopen = (\<lambda>p m w. (if p \<in> w then Some 0 else None, w)),
      wn_attributes = (\<lambda>p w. if p \<in> w then 0x80 else INVALID_FILE_ATTRIBUTES),
      wn_create_directory = (\<lambda>p w. (False, w)),
      wn_move = (\<lambda>p q f w. if p \<in> w then (True, insert q (w - {p})) else (False, w)),
      wn_delete = (\<lambda>p w. if p \<in> w then (True, w - {p}) else (False, w)),
      wn_last_error = (\<lambda>w. ERROR_FILE_NOT_FOUND)\<rparr>"

interpretation unicode: utf_conversion unicode_calls
proof
  fix cs :: "nat list" and n k :: int
  assume cs: "list_all scalar cs" "cs \<noteq> []"
  then show "k = int (length (utf16 cs)) \<Longrightarrow> fst (wn_to_wide unicode_calls (utf8 cs) n 0) = k
      \<and> wn_to_wide unicode_calls (utf8 cs) n k = (k, utf16 cs)"
    by (simp add: unicode_calls_def into_buffer_def codes_utf)
  from cs show "k = int (length (utf8 cs)) \<Longrightarrow> fst (wn_to_multi unicode_calls (utf16 cs) n 0) = k
      \<and> wn_to_multi unicode_calls (utf16 cs) n k = (k, utf8 cs)"
    by (simp add: unicode_calls_def into_buffer_def codes_utf)
qed

text \<open>
  C34. A path in UTF-8 is converted to the UTF-16 text of the same characters and back without
  loss, and so no operation on it fails for its conversion.
\<close>

theorem win_path_round_trip:
  assumes "utf_conversion wn" and "list_all scalar cs" and "length (utf8 cs) < 2 ^ 31"
  shows "to_native wn (utf8 cs) = utf16 cs \<and> from_native wn (to_native wn (utf8 cs)) = utf8 cs
    \<and> \<not> conversion_failed wn (utf8 cs)"
  using utf_conversion.to_native_utf8[OF assms] utf_conversion.native_round_trip[OF assms]
  by (simp add: conversion_failed_def)

theorem win_path_round_trip_witness:
  "to_native unicode_calls (utf8 [0x43, 0x3A, 0x65E5, 0x1F600]) = [0x43, 0x3A, 0x65E5, 0xD83D, 0xDE00]"
proof -
  have "to_native unicode_calls (utf8 [0x43, 0x3A, 0x65E5, 0x1F600]) = utf16 [0x43, 0x3A, 0x65E5, 0x1F600]"
    using win_path_round_trip[OF unicode.utf_conversion_axioms, of "[0x43, 0x3A, 0x65E5, 0x1F600]"]
    by (simp add: scalar_def utf8_def utf8_bytes_def)
  then show ?thesis by (simp add: utf16_def utf16_units_def)
qed

section \<open>What the functions promise\<close>

text \<open>
  The header says that \<open>remove_file\<close> returns true also when there was no such file.  On Windows
  this fails when a directory of the path does not exist: the error is then another one.
\<close>

lemma remove_missing_directory:
  assumes "px_remove px (c_str p) w = (Some ENOENT, w)"
    and "\<not> conversion_failed wn q" and "wn_delete wn (wc_str (to_native wn q)) v = (False, v)"
    and "wn_last_error wn v = ERROR_PATH_NOT_FOUND"
  shows "posix_remove_file px p w = (True, w)" and "win_remove_file wn q v = (False, v)"
  using assms
  by (simp_all add: posix_remove_file_def win_remove_file_def ERROR_PATH_NOT_FOUND_def ERROR_FILE_NOT_FOUND_def)

text \<open>
  \<open>create_directory\<close> returns true also when the existing thing is a file: both systems report the
  same error for it.
\<close>

lemma create_directory_over_file:
  assumes "px_mkdir px (c_str p) 493 w = (Some EEXIST, w)"
    and "\<not> conversion_failed wn q" and "wn_create_directory wn (wc_str (to_native wn q)) v = (False, v)"
    and "wn_last_error wn v = ERROR_ALREADY_EXISTS"
  shows "posix_create_directory px p w = (True, w)" and "win_create_directory wn q v = (True, v)"
  using assms by (simp_all add: posix_create_directory_def win_create_directory_def)

section \<open>The calls on the file system of the sinks\<close>

definition fs_calls :: "file_system posix_calls" where
  "fs_calls =
     \<lparr>px_fopen = (\<lambda>p m fs. (None, fs)),
      px_stat = (\<lambda>p fs. if fs_files fs p \<noteq> None then Some True
                         else if p \<in> fs_dirs fs then Some False else None),
      px_mkdir = (\<lambda>p m fs. if fs_files fs p \<noteq> None \<or> p \<in> fs_dirs fs then (Some EEXIST, fs)
                            else (None, fs\<lparr>fs_dirs := insert p (fs_dirs fs)\<rparr>)),
      px_rename = (\<lambda>p q fs. case fs_files fs p of
           None \<Rightarrow> (Some (if p \<in> fs_dirs fs then Other_errno 1 else ENOENT), fs)
         | Some c \<Rightarrow>
             if q \<in> fs_dirs fs then (Some (Other_errno 21), fs)
             else (None, fs\<lparr>fs_files := (if p = q then fs_files fs
                                       else (fs_files fs)(p := None, q \<mapsto> c))\<rparr>)),
      px_remove = (\<lambda>p fs. if fs_files fs p \<noteq> None then (None, fs\<lparr>fs_files := (fs_files fs)(p := None)\<rparr>)
                           else if p \<in> fs_dirs fs then (None, fs\<lparr>fs_dirs := fs_dirs fs - {p}\<rparr>)
                           else (Some ENOENT, fs))\<rparr>"

lemma c_str_plain: "CHR 0x00 \<notin> set p \<Longrightarrow> c_str p = p"
  unfolding c_str_def by (rule takeWhile_eq_all_conv[THEN iffD2]) auto

text \<open>
  On the file system of the sinks, the operations of \<open>src/util.cpp\<close>, made of POSIX calls, are the
  ones of \<open>File_System\<close>, for paths without a zero character that no directory has.
\<close>

theorem path_functions_refine:
  assumes "CHR 0x00 \<notin> set p" and "CHR 0x00 \<notin> set q" and "p \<notin> fs_dirs fs" and "q \<notin> fs_dirs fs"
  shows "posix_rename_file fs_calls p q fs = rename_file p q fs
    \<and> posix_remove_file fs_calls p fs = remove_file p fs
    \<and> posix_file_exists fs_calls p fs = file_exists p fs"
proof -
  have [simp]: "(fs_files fs)(p := None) = fs_files fs" if "fs_files fs p = None"
    using that by (simp add: fun_upd_idem_iff)
  show ?thesis
    using assms
    by (simp add: c_str_plain posix_rename_file_def posix_remove_file_def posix_file_exists_def
        fs_calls_def rename_file_def remove_file_def file_exists_def split: option.split)
qed

theorem path_functions_refine_witness:
  "posix_rename_file fs_calls ''a'' ''b'' \<lparr>fs_files = [''a'' \<mapsto> ''x''], fs_dirs = {}\<rparr>
   = (True, \<lparr>fs_files = [''b'' \<mapsto> ''x''], fs_dirs = {}\<rparr>)"
  using path_functions_refine[of "''a''" "''b''" "\<lparr>fs_files = [''a'' \<mapsto> ''x''], fs_dirs = {}\<rparr>"]
  by (simp add: rename_file_def)

end
