(* ===== verification/Experimental_Sinks.thy ===== *)
theory Experimental_Sinks
  imports Transitions Formatter File_System
begin

text \<open>
  The two sinks of \<open>src/experimental.disabled\<close>.  \<open>JsonSink\<close> writes what \<open>dump\<close> of nlohmann's JSON
  library returns, which is a parameter (\<^const>\<open>None\<close>: it throws, on text that is not UTF-8).
  \<open>NetworkSink\<close> is a queue and a worker thread over Asio: the steps of the worker are those of the
  code, resolving, connecting and writing may fail, and a failure throws out of the thread, which
  ends the process.
\<close>

section \<open>JsonSink\<close>

type_synonym json_object = "(string, string) omap"

definition exp_json_new :: "(string \<Rightarrow> bool) \<Rightarrow> string \<Rightarrow> file_system \<Rightarrow> stream \<times> file_system" where
  "exp_json_new can_open filename fs = open_append can_open filename fs"

definition exp_json_object :: "string \<Rightarrow> level \<Rightarrow> string \<Rightarrow> json_object" where
  "exp_json_object logger_name l message =
     omap_put ''message'' message (omap_put ''level'' (to_string l)
       (omap_put ''logger'' logger_name []))"

definition exp_json_log ::
    "(json_object \<Rightarrow> string option) \<Rightarrow> level \<Rightarrow> stream \<Rightarrow> string \<Rightarrow> level \<Rightarrow> string \<Rightarrow> file_system
     \<Rightarrow> file_system option" where
  "exp_json_log dump sink_level file logger_name l message fs =
     (if l < sink_level then Some fs
      else map_option (\<lambda>line. stream_write file (line @ newline) fs)
             (dump (exp_json_object logger_name l message)))"

text \<open>The members are written in the order of their keys, not of the assignments.\<close>

lemma exp_json_members:
  "exp_json_object nm l msg = [(''level'', to_string l), (''logger'', nm), (''message'', msg)]"
  by (simp add: exp_json_object_def less_char_def)

section \<open>NetworkSink\<close>

record net_sink =
  nt_level :: level
  nt_queue :: "string list"
  nt_running :: bool

text \<open>
  Where the worker is.  The members are initialised in the order of their declarations, and
  \<open>thread\<close> is declared before \<open>running\<close>: the worker may run before \<open>running\<close> has a value.
\<close>

datatype net_position =
  Net_connecting
| Net_testing                 \<comment> \<open>at the head of \<open>while (running)\<close>\<close>
| Net_locking                 \<comment> \<open>before or in the wait on the condition variable\<close>
| Net_writing string
| Net_ended
| Net_terminated "string option"   \<comment> \<open>the process is gone; with the message in the failed write\<close>

record net_system =
  nw_sink :: net_sink
  nw_position :: net_position
  nw_constructed :: bool
  nw_wire :: "string list"
  nw_logged :: "string list"

definition net_connect :: "bool \<Rightarrow> net_position" where
  "net_connect ok = (if ok then Net_testing else Net_terminated None)"

definition net_test :: "net_sink \<Rightarrow> net_position" where
  "net_test k = (if nt_running k then Net_locking else Net_ended)"

text \<open>The part under the mutex; \<^const>\<open>None\<close> while it waits.\<close>

definition net_take :: "net_sink \<Rightarrow> (net_position \<times> net_sink) option" where
  "net_take k =
     (case nt_queue k of
        [] \<Rightarrow> if nt_running k then None else Some (Net_ended, k)
      | m # ms \<Rightarrow> Some (Net_writing m, k\<lparr>nt_queue := ms\<rparr>))"

definition net_log ::
    "tz_offset \<Rightarrow> time \<Rightarrow> string \<Rightarrow> level \<Rightarrow> string \<Rightarrow> net_sink \<Rightarrow> net_sink" where
  "net_log tz now logger_name l message k =
     (if l < nt_level k then k
      else k\<lparr>nt_queue := nt_queue k @ [format tz now logger_name l message]\<rparr>)"

definition net_stop :: "net_sink \<Rightarrow> net_sink" where
  "net_stop k = k\<lparr>nt_running := False\<rparr>"

datatype net_label = Net_built | Net_worker | Net_logs string level string time | Net_stops

definition net_alive :: "net_system \<Rightarrow> bool" where
  "net_alive s \<longleftrightarrow> (\<forall>m. nw_position s \<noteq> Net_terminated m)"

inductive net_step :: "tz_offset \<Rightarrow> net_system \<Rightarrow> net_label \<Rightarrow> net_system \<Rightarrow> bool"
  for tz :: tz_offset where
  net_built: "net_alive s \<Longrightarrow> \<not> nw_constructed s \<Longrightarrow>
    net_step tz s Net_built
      (s\<lparr>nw_constructed := True, nw_sink := (nw_sink s)\<lparr>nt_running := True\<rparr>\<rparr>)"
| net_connects: "nw_position s = Net_connecting \<Longrightarrow>
    net_step tz s Net_worker (s\<lparr>nw_position := net_connect ok\<rparr>)"
| net_tests: "nw_position s = Net_testing \<Longrightarrow>
    net_step tz s Net_worker (s\<lparr>nw_position := net_test (nw_sink s)\<rparr>)"
| net_takes: "nw_position s = Net_locking \<Longrightarrow> net_take (nw_sink s) = Some (p, k) \<Longrightarrow>
    net_step tz s Net_worker (s\<lparr>nw_position := p, nw_sink := k\<rparr>)"
| net_writes: "nw_position s = Net_writing m \<Longrightarrow>
    net_step tz s Net_worker (s\<lparr>nw_position := Net_testing, nw_wire := nw_wire s @ [m @ newline]\<rparr>)"
| net_write_fails: "nw_position s = Net_writing m \<Longrightarrow>
    net_step tz s Net_worker (s\<lparr>nw_position := Net_terminated (Some m)\<rparr>)"
| net_logs: "net_alive s \<Longrightarrow> nw_constructed s \<Longrightarrow> k = net_log tz now nm l msg (nw_sink s) \<Longrightarrow>
    net_step tz s (Net_logs nm l msg now)
      (s\<lparr>nw_sink := k,
         nw_logged := nw_logged s @ drop (length (nt_queue (nw_sink s))) (nt_queue k)\<rparr>)"
| net_stops: "net_alive s \<Longrightarrow> nw_constructed s \<Longrightarrow>
    net_step tz s Net_stops (s\<lparr>nw_sink := net_stop (nw_sink s)\<rparr>)"

inductive_cases net_stepE: "net_step tz s l s'"

text \<open>The thread is started with \<open>running\<close> still indeterminate.\<close>

definition net_init :: "level \<Rightarrow> net_system \<Rightarrow> bool" where
  "net_init lv s \<longleftrightarrow>
     (\<exists>r. s = \<lparr>nw_sink = \<lparr>nt_level = lv, nt_queue = [], nt_running = r\<rparr>,
               nw_position = Net_connecting, nw_constructed = False, nw_wire = [], nw_logged = []\<rparr>)"

section \<open>What the network sink sends\<close>

fun in_flight :: "net_position \<Rightarrow> string list" where
  "in_flight (Net_writing m) = [m]"
| "in_flight (Net_terminated (Some m)) = [m]"
| "in_flight _ = []"

definition net_conserved :: "net_system \<Rightarrow> bool" where
  "net_conserved s \<longleftrightarrow>
     (\<exists>sent. nw_wire s = map (\<lambda>m. m @ newline) sent
       \<and> nw_logged s = sent @ in_flight (nw_position s) @ nt_queue (nw_sink s))"

lemma net_conserved_step: "net_step tz s l s' \<Longrightarrow> net_conserved s \<Longrightarrow> net_conserved s'"
proof (induction rule: net_step.induct)
  case (net_writes s m)
  then obtain sent where "nw_wire s = map (\<lambda>m. m @ newline) sent"
      "nw_logged s = sent @ [m] @ nt_queue (nw_sink s)" by (auto simp: net_conserved_def)
  then show ?case unfolding net_conserved_def by (intro exI[of _ "sent @ [m]"]) simp
qed (auto simp: net_conserved_def net_alive_def net_connect_def net_test_def net_take_def
    net_log_def net_stop_def split: list.splits if_splits)

interpretation net: invariant_of "net_init lv" "net_step tz" net_conserved
proof
  show "net_init lv s \<Longrightarrow> net_conserved s" for s by (auto simp: net_init_def net_conserved_def)
  show "net_conserved s \<Longrightarrow> net_step tz s l s' \<Longrightarrow> net_conserved s'" for s l s'
    by (rule net_conserved_step)
qed

text \<open>
  Whatever the worker, the loggers and the network do, what has been written to the connection
  is a prefix of the logged lines, in their order, each with a newline; the rest is at most one
  line in the current write, and the queue.
\<close>

theorem network_sink_order:
  assumes "reach (net_init lv) (net_step tz) s"
  shows "\<exists>sent. nw_wire s = map (\<lambda>m. m @ newline) sent
    \<and> nw_logged s = sent @ in_flight (nw_position s) @ nt_queue (nw_sink s)
    \<and> length (in_flight (nw_position s)) \<le> 1"
proof -
  have "length (in_flight p) \<le> 1" for p by (induction p rule: in_flight.induct) simp_all
  with net.invariant[OF assms] show ?thesis by (auto simp: net_conserved_def)
qed

text \<open>
  When the worker has ended, nothing is sent any more; and it can end although nobody stops the
  sink, when it reads \<open>running\<close> before the constructor has set it.
\<close>

lemma ended_step: "net_step tz s l s' \<Longrightarrow> nw_position s = Net_ended \<Longrightarrow>
    nw_position s' = Net_ended \<and> nw_wire s' = nw_wire s"
  by (induction rule: net_step.induct) auto

lemma ended_run: "run (net_step tz) s ls s' \<Longrightarrow> nw_position s = Net_ended \<Longrightarrow> nw_wire s' = nw_wire s"
  by (induction rule: run.induct) (auto dest: ended_step)

theorem network_worker_ends_early:
  "\<exists>s s'. net_init lv s \<and> run (net_step tz) s [Net_worker, Net_worker, Net_built] s'
     \<and> nt_running (nw_sink s')
     \<and> (\<forall>ls s''. run (net_step tz) s' ls s'' \<longrightarrow> nw_wire s'' = [])"
proof -
  let ?s = "\<lambda>r p c. \<lparr>nw_sink = \<lparr>nt_level = lv, nt_queue = [], nt_running = r\<rparr>,
      nw_position = p, nw_constructed = c, nw_wire = [], nw_logged = []\<rparr>"
  have 1: "net_step tz (?s False Net_connecting False) Net_worker (?s False Net_testing False)"
    using net_connects[of "?s False Net_connecting False" tz True] by (simp add: net_connect_def)
  have 2: "net_step tz (?s False Net_testing False) Net_worker (?s False Net_ended False)"
    using net_tests[of "?s False Net_testing False" tz] by (simp add: net_test_def)
  have 3: "net_step tz (?s False Net_ended False) Net_built (?s True Net_ended True)"
    using net_built[of "?s False Net_ended False" tz] by (simp add: net_alive_def)
  have "run (net_step tz) (?s False Net_connecting False) [Net_worker, Net_worker, Net_built]
      (?s True Net_ended True)"
    using 1 2 3 by (blast intro: run_Cons run_Nil)
  moreover have "\<forall>ls s''. run (net_step tz) (?s True Net_ended True) ls s'' \<longrightarrow> nw_wire s'' = []"
    using ended_run by fastforce
  moreover have "net_init lv (?s False Net_connecting False)" by (auto simp: net_init_def)
  ultimately show ?thesis
    by (intro exI[of _ "?s False Net_connecting False"] exI[of _ "?s True Net_ended True"]) simp
qed

text \<open>
  Stopping loses messages: the test of the loop comes before the queue is looked at, so the worker
  leaves with messages still queued, though its wait is written to drain them.
\<close>

theorem network_stop_loses_queue:
  assumes "nw_position s = Net_testing" and "nw_constructed s" and "nt_queue (nw_sink s) = q"
  shows "\<exists>s'. run (net_step tz) s [Net_stops, Net_worker] s'
    \<and> nw_position s' = Net_ended \<and> nt_queue (nw_sink s') = q"
proof -
  let ?s1 = "s\<lparr>nw_sink := net_stop (nw_sink s)\<rparr>"
  have 1: "net_step tz s Net_stops ?s1" using assms by (intro net_stops) (simp_all add: net_alive_def)
  have 2: "net_step tz ?s1 Net_worker (?s1\<lparr>nw_position := net_test (nw_sink ?s1)\<rparr>)"
    using assms by (intro net_tests) simp
  from run_Cons[of "net_step tz", OF 1 run_Cons[of "net_step tz", OF 2 run_Nil]] assms(3)
  show ?thesis by (fastforce simp: net_test_def net_stop_def)
qed

theorem network_sink_order_witness:
  "\<exists>(s :: net_system) sent. nw_wire s = map (\<lambda>m. m @ newline) sent \<and> length (nw_logged s) = 1
     \<and> nw_logged s = sent @ in_flight (nw_position s) @ nt_queue (nw_sink s)"
proof -
  let ?s = "\<lambda>r c q p lg. \<lparr>nw_sink = \<lparr>nt_level = Trace, nt_queue = q, nt_running = r\<rparr>,
      nw_position = p, nw_constructed = c, nw_wire = [], nw_logged = lg\<rparr>"
  let ?m = "format (\<lambda>_. 0) 0 ''a'' Info ''b''"
  have 0: "net_init Trace (?s True False [] Net_connecting [])" by (auto simp: net_init_def)
  have 1: "net_step (\<lambda>_. 0) (?s True False [] Net_connecting []) Net_built (?s True True [] Net_connecting [])"
    using net_built[of "?s True False [] Net_connecting []"] by (simp add: net_alive_def)
  have 2: "net_step (\<lambda>_. 0) (?s True True [] Net_connecting []) (Net_logs ''a'' Info ''b'' 0)
      (?s True True [?m] Net_connecting [?m])"
    using net_logs[of "?s True True [] Net_connecting []" _ "\<lambda>_. 0" 0 "''a''" Info "''b''"]
    by (simp add: net_alive_def net_log_def)
  have "reach (net_init Trace) (net_step (\<lambda>_. 0)) (?s True True [?m] Net_connecting [?m])"
    using 0 1 2 by (blast intro: reach_init reach_step)
  from network_sink_order[OF this] obtain sent where
    "[] = map (\<lambda>m. m @ newline) sent" "[?m] = sent @ [?m]" by auto
  then show ?thesis
    by (intro exI[of _ "?s True True [?m] Net_connecting [?m]"] exI[of _ sent]) simp
qed

end
