(* ===== verification/Metrics_Threads.thy ===== *)
theory Metrics_Threads
  imports Log_Metrics Transitions "HOL-Library.Multiset"
begin

text \<open>
  \<open>LogMetrics\<close> shared by threads: every recording of \<open>src/log_metrics.cpp\<close> as its atomic actions, an
  addition or a store, then a load of the maximum and the loop of weak compare-and-swaps, which may
  fail without a reason.  The order in which the recordings did their first action is kept as
  history; no action reads it.
\<close>

section \<open>Atomic actions\<close>

datatype max_kind = Max_log | Max_flush | Max_depth

primrec get_max :: "max_kind \<Rightarrow> log_metrics \<Rightarrow> u64" where
  "get_max Max_log m = mt_max_log_latency_us m"
| "get_max Max_flush m = mt_max_flush_latency_us m"
| "get_max Max_depth m = mt_max_depth m"

primrec set_max :: "max_kind \<Rightarrow> u64 \<Rightarrow> log_metrics \<Rightarrow> log_metrics" where
  "set_max Max_log x m = m\<lparr>mt_max_log_latency_us := x\<rparr>"
| "set_max Max_flush x m = m\<lparr>mt_max_flush_latency_us := x\<rparr>"
| "set_max Max_depth x m = m\<lparr>mt_max_depth := x\<rparr>"

text \<open>The maximum a recording raises, and its first action.\<close>

primrec event_max :: "metric_event \<Rightarrow> (max_kind \<times> u64) option" where
  "event_max Logged = None"
| "event_max Dropped = None"
| "event_max Filtered = None"
| "event_max Flushed = None"
| "event_max Errored = None"
| "event_max (Log_took us) = Some (Max_log, us)"
| "event_max (Flush_took us) = Some (Max_flush, us)"
| "event_max (Depth_is d) = Some (Max_depth, d)"

primrec first_action :: "metric_event \<Rightarrow> log_metrics \<Rightarrow> log_metrics" where
  "first_action Logged m = record_message_logged m"
| "first_action Dropped m = record_message_dropped m"
| "first_action Filtered m = record_message_filtered m"
| "first_action Flushed m = record_flush m"
| "first_action Errored m = record_error m"
| "first_action (Log_took us) m = m\<lparr>mt_total_log_time_us := mt_total_log_time_us m + us\<rparr>"
| "first_action (Flush_took us) m = m\<lparr>mt_total_flush_time_us := mt_total_flush_time_us m + us\<rparr>"
| "first_action (Depth_is d) m = m\<lparr>mt_current_depth := d\<rparr>"

datatype recorder =
  Rec_begin metric_event
| Rec_load metric_event
| Rec_loop metric_event u64        \<comment> \<open>with \<open>current_max\<close>\<close>
| Rec_done metric_event

inductive rec_step :: "log_metrics \<Rightarrow> recorder \<Rightarrow> log_metrics \<Rightarrow> recorder \<Rightarrow> bool" where
  rec_count: "event_max e = None \<Longrightarrow> rec_step m (Rec_begin e) (first_action e m) (Rec_done e)"
| rec_add: "event_max e = Some (k, v) \<Longrightarrow> rec_step m (Rec_begin e) (first_action e m) (Rec_load e)"
| rec_load: "event_max e = Some (k, v) \<Longrightarrow> rec_step m (Rec_load e) m (Rec_loop e (get_max k m))"
| rec_exit: "event_max e = Some (k, v) \<Longrightarrow> v \<le> seen \<Longrightarrow> rec_step m (Rec_loop e seen) m (Rec_done e)"
| rec_swap: "event_max e = Some (k, v) \<Longrightarrow> seen < v \<Longrightarrow> get_max k m = seen \<Longrightarrow>
    rec_step m (Rec_loop e seen) (set_max k v m) (Rec_done e)"
| rec_fail: "event_max e = Some (k, v) \<Longrightarrow> seen < v \<Longrightarrow>
    rec_step m (Rec_loop e seen) m (Rec_loop e (get_max k m))"

inductive_cases rec_stepE: "rec_step m p m' p'"

record metrics_system =
  ms_metrics :: log_metrics
  ms_threads :: "recorder list"
  ms_order :: "metric_event list"

fun begins :: "recorder \<Rightarrow> metric_event list" where
  "begins (Rec_begin e) = [e]"
| "begins _ = []"

inductive metrics_step :: "metrics_system \<Rightarrow> nat \<Rightarrow> metrics_system \<Rightarrow> bool" where
  metrics_act: "i < length (ms_threads s) \<Longrightarrow> rec_step (ms_metrics s) (ms_threads s ! i) m p \<Longrightarrow>
    metrics_step s i (s\<lparr>ms_metrics := m, ms_threads := (ms_threads s)[i := p],
                       ms_order := ms_order s @ begins (ms_threads s ! i)\<rparr>)"

inductive_cases metrics_stepE: "metrics_step s i s'"

definition metrics_init :: "log_metrics \<Rightarrow> metric_event list \<Rightarrow> metrics_system \<Rightarrow> bool" where
  "metrics_init m0 es s \<longleftrightarrow>
     s = \<lparr>ms_metrics = m0, ms_threads = map Rec_begin es, ms_order = []\<rparr>"

section \<open>The invariant\<close>

text \<open>The value a recorder has announced but perhaps not stored.\<close>

fun pending :: "max_kind \<Rightarrow> recorder \<Rightarrow> u64 option" where
  "pending k (Rec_load e) = (case event_max e of Some (k', v) \<Rightarrow> if k' = k then Some v else None | None \<Rightarrow> None)"
| "pending k (Rec_loop e seen) = (case event_max e of Some (k', v) \<Rightarrow> if k' = k then Some v else None | None \<Rightarrow> None)"
| "pending k _ = None"

fun seen_ok :: "log_metrics \<Rightarrow> recorder \<Rightarrow> bool" where
  "seen_ok m (Rec_loop e seen) = (case event_max e of Some (k, v) \<Rightarrow> seen \<le> get_max k m | None \<Rightarrow> True)"
| "seen_ok m _ = True"

fun recorded :: "recorder \<Rightarrow> metric_event" where
  "recorded (Rec_begin e) = e"
| "recorded (Rec_load e) = e"
| "recorded (Rec_loop e seen) = e"
| "recorded (Rec_done e) = e"

definition without_max :: "log_metrics \<Rightarrow> log_metrics" where
  "without_max m = set_max Max_log 0 (set_max Max_flush 0 (set_max Max_depth 0 m))"

definition record_all :: "log_metrics \<Rightarrow> metric_event list \<Rightarrow> log_metrics" where
  "record_all m es = foldl (\<lambda>m e. record_event e m) m es"

text \<open>
  Against the metrics \<open>m'\<close> of recording one after the other: everything but the maxima agrees, and a
  maximum is behind only by a value that some recorder has still to store.
\<close>

definition agrees :: "log_metrics \<Rightarrow> log_metrics \<Rightarrow> recorder list \<Rightarrow> bool" where
  "agrees m m' ts \<longleftrightarrow>
     without_max m = without_max m'
     \<and> (\<forall>k. get_max k m \<le> get_max k m')
     \<and> (\<forall>k. get_max k m = get_max k m' \<or> (\<exists>j < length ts. pending k (ts ! j) = Some (get_max k m')))
     \<and> (\<forall>j < length ts. \<forall>k v. pending k (ts ! j) = Some v \<longrightarrow> v \<le> get_max k m')
     \<and> (\<forall>j < length ts. seen_ok m (ts ! j))"

lemma agreesD:
  assumes "agrees m m' ts"
  shows "get_max k m \<le> get_max k m'"
    and "get_max k m = get_max k m' \<or> (\<exists>j < length ts. pending k (ts ! j) = Some (get_max k m'))"
    and "j < length ts \<Longrightarrow> pending k (ts ! j) = Some v \<Longrightarrow> v \<le> get_max k m'"
    and "j < length ts \<Longrightarrow> seen_ok m (ts ! j)"
    and "without_max m = without_max m'"
  using assms by (simp_all add: agrees_def)

text \<open>The same after the recorder at \<open>i\<close> has moved to \<open>p\<close>.\<close>

lemma agrees_update:
  assumes "i < length ts" and "without_max m = without_max m'"
    and "\<And>k. get_max k m \<le> get_max k m'"
    and "\<And>k. get_max k m = get_max k m' \<or> pending k p = Some (get_max k m')
      \<or> (\<exists>j < length ts. j \<noteq> i \<and> pending k (ts ! j) = Some (get_max k m'))"
    and "\<And>k v. pending k p = Some v \<Longrightarrow> v \<le> get_max k m'"
    and "\<And>j k v. j < length ts \<Longrightarrow> j \<noteq> i \<Longrightarrow> pending k (ts ! j) = Some v \<Longrightarrow> v \<le> get_max k m'"
    and "seen_ok m p" and "\<And>j. j < length ts \<Longrightarrow> j \<noteq> i \<Longrightarrow> seen_ok m (ts ! j)"
  shows "agrees m m' (ts[i := p])"
proof -
  have "get_max k m = get_max k m' \<or> (\<exists>j < length ts. pending k (ts[i := p] ! j) = Some (get_max k m'))" for k
    using assms(1) assms(4)[of k] by (metis nth_list_update_eq nth_list_update_neq)
  with assms show ?thesis by (simp add: agrees_def nth_list_update)
qed

lemma get_set_max [simp]:
  "get_max k (set_max k' x m) = (if k = k' then x else get_max k m)"
  "without_max (set_max k x m) = without_max m"
  by (cases k; cases k'; simp add: without_max_def)+

lemma get_max_first [simp]: "get_max k (first_action e m) = get_max k m"
  by (cases k; cases e) (simp_all add: metric_defs)

lemma without_max_first:
  "without_max m = without_max m' \<Longrightarrow> without_max (first_action e m) = without_max (first_action e m')"
  by (cases m; cases m'; cases e) (simp_all add: without_max_def metric_defs)

lemma record_event_first:
  "record_event e m = (case event_max e of None \<Rightarrow> first_action e m
     | Some (k, v) \<Rightarrow> set_max k (max (get_max k m) v) (first_action e m))"
  by (cases e) (simp_all add: metric_defs)

lemma without_max_record: "without_max (record_event e m) = without_max (first_action e m)"
  by (simp add: record_event_first split: option.split)

lemma get_max_record:
  "get_max k (record_event e m) =
     (case event_max e of Some (k', v) \<Rightarrow> if k' = k then max (get_max k m) v else get_max k m
      | None \<Rightarrow> get_max k m)"
  by (auto simp: record_event_first split: option.split)

lemma metrics_eqI:
  assumes "without_max m = without_max m'" and "\<And>k. get_max k m = get_max k m'"
  shows "m = m'"
  using assms(1) assms(2)[of Max_log] assms(2)[of Max_flush] assms(2)[of Max_depth]
  by (cases m; cases m') (simp add: without_max_def)

text \<open>A recorder that moves without touching the metrics, and without a larger value in hand.\<close>

lemma agrees_move:
  assumes a: "agrees m m' ts" and i: "i < length ts"
    and p: "\<And>k. pending k p = pending k (ts ! i)
      \<or> pending k p = None \<and> (\<forall>v. pending k (ts ! i) = Some v \<longrightarrow> v \<le> get_max k m)"
    and "seen_ok m p"
  shows "agrees m m' (ts[i := p])"
proof (rule agrees_update[OF i agreesD(5)[OF a] agreesD(1)[OF a]])
  show "get_max k m = get_max k m' \<or> pending k p = Some (get_max k m')
      \<or> (\<exists>j < length ts. j \<noteq> i \<and> pending k (ts ! j) = Some (get_max k m'))" for k
    using agreesD(1,2)[OF a, of k] p[of k] by (metis order.antisym)
  show "v \<le> get_max k m'" if "pending k p = Some v" for k v
    using p[of k] that agreesD(3)[OF a i] by auto
qed (use agreesD[OF a] assms(4) in auto)

lemma agrees_begin:
  assumes a: "agrees m m' ts" and i: "i < length ts" and starts: "ts ! i = Rec_begin e"
    and p: "p = (if event_max e = None then Rec_done e else Rec_load e)"
  shows "agrees (first_action e m) (record_event e m') (ts[i := p])"
proof -
  have pend: "pending k p = (case event_max e of Some (k', v) \<Rightarrow> if k' = k then Some v else None | None \<Rightarrow> None)"
    for k using p by (cases "event_max e") auto
  have grows: "get_max k m' \<le> get_max k (record_event e m')" for k
    by (simp add: get_max_record split: option.split prod.split)
  have new: "get_max k (record_event e m') = get_max k m' \<or> pending k p = Some (get_max k (record_event e m'))" for k
    by (auto simp: pend get_max_record max_def split: option.splits)
  show ?thesis
  proof (rule agrees_update[OF i])
    show "get_max k (first_action e m) = get_max k (record_event e m')
        \<or> pending k p = Some (get_max k (record_event e m'))
        \<or> (\<exists>j < length ts. j \<noteq> i \<and> pending k (ts ! j) = Some (get_max k (record_event e m')))" for k
    proof (cases "get_max k (record_event e m') = get_max k m'")
      case True
      have "j \<noteq> i" if "pending k (ts ! j) = Some x" for j x using that starts by auto
      with agreesD(2)[OF a, of k] show ?thesis unfolding True get_max_first by blast
    qed (use new in blast)
    show "v \<le> get_max k (record_event e m')" if "j < length ts" "pending k (ts ! j) = Some v" for j k v
      using agreesD(3)[OF a that] grows[of k] by (rule order_trans)
    show "seen_ok (first_action e m) (ts ! j)" if "j < length ts" for j
      using agreesD(4)[OF a that] by (cases "ts ! j") (auto split: option.splits)
    show "v \<le> get_max k (record_event e m')" if "pending k p = Some v" for k v
      using that grows[of k] unfolding pend get_max_record
      by (cases "event_max e") (simp_all split: prod.splits if_splits)
    show "seen_ok (first_action e m) p" using p by simp
    show "without_max (first_action e m) = without_max (record_event e m')"
      unfolding without_max_record by (rule without_max_first[OF agreesD(5)[OF a]])
    show "get_max k (first_action e m) \<le> get_max k (record_event e m')" for k
      using agreesD(1)[OF a, of k] grows[of k] by simp
  qed
qed

lemma agrees_swap:
  assumes a: "agrees m m' ts" and i: "i < length ts" and loop: "ts ! i = Rec_loop e seen"
    and e: "event_max e = Some (k, v)" "seen < v" "get_max k m = seen"
  shows "agrees (set_max k v m) m' (ts[i := Rec_done e])"
proof -
  have v: "v \<le> get_max k m'" using agreesD(3)[OF a i, of k v] loop e(1) by simp
  show ?thesis
  proof (rule agrees_update[OF i])
    show "get_max k' (set_max k v m) = get_max k' m' \<or> pending k' (Rec_done e) = Some (get_max k' m')
        \<or> (\<exists>j < length ts. j \<noteq> i \<and> pending k' (ts ! j) = Some (get_max k' m'))" for k'
    proof (cases "get_max k' (set_max k v m) = get_max k' m'")
      case False
      then have "get_max k' m \<noteq> get_max k' m'" using e v by (auto split: if_splits)
      then obtain j where j: "j < length ts" "pending k' (ts ! j) = Some (get_max k' m')"
        using agreesD(2)[OF a, of k'] by auto
      have "j \<noteq> i" using j(2) loop e(1) False by (auto split: if_splits)
      with j show ?thesis by blast
    qed simp
    show "seen_ok (set_max k v m) (ts ! j)" if "j < length ts" for j
      using agreesD(4)[OF a that] e(2,3) by (cases "ts ! j") (auto split: option.splits)
    show "get_max k' (set_max k v m) \<le> get_max k' m'" for k'
      using agreesD(1)[OF a, of k'] v by simp
  qed (use agreesD[OF a] in auto)
qed

lemma agrees_step:
  assumes a: "agrees m m' ts" and i: "i < length ts" and "rec_step m (ts ! i) m1 p"
  shows "agrees m1 (record_all m' (begins (ts ! i))) (ts[i := p])"
  using assms(3)
proof (cases rule: rec_step.cases)
  case (rec_count e)
  with agrees_begin[OF a i, of e p] show ?thesis by (simp add: record_all_def)
next
  case (rec_add e k v)
  with agrees_begin[OF a i, of e p] show ?thesis by (simp add: record_all_def)
next
  case (rec_exit e k v seen)
  have seen: "seen \<le> get_max k m" using agreesD(4)[OF a i] rec_exit by simp
  have "agrees m m' (ts[i := p])"
  proof (rule agrees_move[OF a i])
    show "pending k' p = pending k' (ts ! i)
        \<or> pending k' p = None \<and> (\<forall>v. pending k' (ts ! i) = Some v \<longrightarrow> v \<le> get_max k' m)" for k'
      using rec_exit seen by auto
  qed (use rec_exit in simp)
  with rec_exit show ?thesis by (simp add: record_all_def)
next
  case (rec_swap e k v seen)
  with agrees_swap[OF a i, of e seen k v] show ?thesis by (simp add: record_all_def)
qed (use agrees_move[OF a i, of p] in \<open>simp_all add: record_all_def\<close>)

text \<open>Each recorder keeps its event, and the history is the events that have begun.\<close>

definition metrics_ok :: "log_metrics \<Rightarrow> metric_event list \<Rightarrow> metrics_system \<Rightarrow> bool" where
  "metrics_ok m0 es s \<longleftrightarrow>
     agrees (ms_metrics s) (record_all m0 (ms_order s)) (ms_threads s)
     \<and> map recorded (ms_threads s) = es
     \<and> mset (ms_order s) + mset (concat (map begins (ms_threads s))) = mset es"

lemma rec_step_recorded: "rec_step m p m' p' \<Longrightarrow> recorded p' = recorded p \<and> begins p' = []"
  by (induction rule: rec_step.induct) simp_all

lemma mset_concat_update:
  "i < length xs \<Longrightarrow> f x = [] \<Longrightarrow>
     mset (f (xs ! i)) + mset (concat (map f (xs[i := x]))) = mset (concat (map f xs))"
proof (induction xs arbitrary: i)
  case (Cons y xs)
  then show ?case by (cases i) (auto simp: ac_simps)
qed simp

lemma record_all_append: "record_all m (es @ es') = record_all (record_all m es) es'"
  by (simp add: record_all_def)

interpretation metrics: invariant_of "metrics_init m0 es" metrics_step "metrics_ok m0 es"
proof
  fix s assume "metrics_init m0 es s"
  moreover have "concat (map (begins \<circ> Rec_begin) es) = es" "map (recorded \<circ> Rec_begin) es = es"
    by (induction es) simp_all
  ultimately show "metrics_ok m0 es s"
    by (auto simp: metrics_init_def metrics_ok_def agrees_def record_all_def)
next
  fix s l s' assume ok: "metrics_ok m0 es s" and "metrics_step s l s'"
  then obtain m p where 1: "l < length (ms_threads s)" "rec_step (ms_metrics s) (ms_threads s ! l) m p"
      "s' = s\<lparr>ms_metrics := m, ms_threads := (ms_threads s)[l := p],
             ms_order := ms_order s @ begins (ms_threads s ! l)\<rparr>"
    by (elim metrics_stepE)
  note p = rec_step_recorded[OF 1(2)]
  have "agrees m (record_all m0 (ms_order s @ begins (ms_threads s ! l))) ((ms_threads s)[l := p])"
    using agrees_step[OF _ 1(1,2)] ok by (simp add: metrics_ok_def record_all_append)
  moreover have "map recorded ((ms_threads s)[l := p]) = map recorded (ms_threads s)"
    using p 1(1) by (metis list_update_id map_update nth_map)
  moreover have "mset (begins (ms_threads s ! l)) + mset (concat (map begins ((ms_threads s)[l := p])))
      = mset (concat (map begins (ms_threads s)))"
    using p by (intro mset_concat_update[OF 1(1)]) simp
  ultimately show "metrics_ok m0 es s'" using ok 1(3) by (simp add: metrics_ok_def add.assoc)
qed

text \<open>
  C29. Recordings made by any number of threads at once, however their atomic actions interleave and
  however often a compare-and-swap fails: when all have returned, the metrics are those of the
  same recordings made one after the other, in the order in which they began; none is lost, and
  until then no maximum exceeds the one of that order.
\<close>

theorem concurrent_recording_linear:
  assumes "reach (metrics_init m0 es) metrics_step s"
  shows "(list_all (\<lambda>p. \<exists>e. p = Rec_done e) (ms_threads s) \<longrightarrow>
      mset (ms_order s) = mset es \<and> ms_metrics s = record_all m0 (ms_order s))
    \<and> (\<forall>k. get_max k (ms_metrics s) \<le> get_max k (record_all m0 (ms_order s)))"
proof -
  from metrics.invariant[OF assms] have ok: "metrics_ok m0 es s" .
  then have a: "agrees (ms_metrics s) (record_all m0 (ms_order s)) (ms_threads s)"
    by (simp add: metrics_ok_def)
  have "mset (ms_order s) = mset es \<and> ms_metrics s = record_all m0 (ms_order s)"
    if "list_all (\<lambda>p. \<exists>e. p = Rec_done e) (ms_threads s)"
  proof -
    have no: "begins p = [] \<and> pending k p = None" if "p \<in> set (ms_threads s)" for p k
      using \<open>list_all _ _\<close> that by (auto simp: list_all_iff)
    then have none: "mset (concat (map begins (ms_threads s))) = {#}" by simp
    have "get_max k (ms_metrics s) = get_max k (record_all m0 (ms_order s))" for k
      using agreesD(2)[OF a, of k] no[OF nth_mem] by auto
    then have "ms_metrics s = record_all m0 (ms_order s)" by (rule metrics_eqI[OF agreesD(5)[OF a]])
    then show ?thesis using ok none unfolding metrics_ok_def by simp
  qed
  with agreesD(1)[OF a] show ?thesis by blast
qed

text \<open>Two threads whose compare-and-swaps compete: the second fails once.\<close>

theorem concurrent_recording_linear_witness:
  "\<exists>s. reach (metrics_init (log_metrics_new 0) [Log_took 5, Log_took 3]) metrics_step s
     \<and> ms_metrics s = record_all (log_metrics_new 0) (ms_order s) \<and> length (ms_order s) = 2"
proof -
  let ?m0 = "log_metrics_new 0" and ?a = "Log_took 5" and ?b = "Log_took 3"
  let ?S = "\<lambda>m ts h. \<lparr>ms_metrics = m, ms_threads = ts, ms_order = h\<rparr>"
  let ?m1 = "first_action ?a ?m0" let ?m2 = "first_action ?b ?m1" let ?m3 = "set_max Max_log 5 ?m2"
  have z: "mt_max_log_latency_us ?m0 = 0" by (simp add: log_metrics_new_def)
  have "reach (metrics_init ?m0 [?a, ?b]) metrics_step (?S ?m0 [Rec_begin ?a, Rec_begin ?b] [])"
    by (rule reach_init) (simp add: metrics_init_def)
  then have "reach (metrics_init ?m0 [?a, ?b]) metrics_step (?S ?m1 [Rec_load ?a, Rec_begin ?b] [?a])"
    by (rule reach_step[where l = 0])
       (use metrics_act[of 0 "?S ?m0 [Rec_begin ?a, Rec_begin ?b] []" "?m1" "Rec_load ?a"] rec_add[of ?a Max_log 5 ?m0] z in simp)
  then have "reach (metrics_init ?m0 [?a, ?b]) metrics_step (?S ?m2 [Rec_load ?a, Rec_load ?b] [?a, ?b])"
    by (rule reach_step[where l = 1])
       (use metrics_act[of 1 "?S ?m1 [Rec_load ?a, Rec_begin ?b] [?a]" "?m2" "Rec_load ?b"] rec_add[of ?b Max_log 3 ?m1] z in simp)
  then have "reach (metrics_init ?m0 [?a, ?b]) metrics_step (?S ?m2 [Rec_loop ?a 0, Rec_load ?b] [?a, ?b])"
    by (rule reach_step[where l = 0])
       (use metrics_act[of 0 "?S ?m2 [Rec_load ?a, Rec_load ?b] [?a, ?b]" "?m2" "Rec_loop ?a 0"] rec_load[of ?a Max_log 5 ?m2] z in simp)
  then have "reach (metrics_init ?m0 [?a, ?b]) metrics_step (?S ?m2 [Rec_loop ?a 0, Rec_loop ?b 0] [?a, ?b])"
    by (rule reach_step[where l = 1])
       (use metrics_act[of 1 "?S ?m2 [Rec_loop ?a 0, Rec_load ?b] [?a, ?b]" "?m2" "Rec_loop ?b 0"] rec_load[of ?b Max_log 3 ?m2] z in simp)
  then have "reach (metrics_init ?m0 [?a, ?b]) metrics_step (?S ?m3 [Rec_done ?a, Rec_loop ?b 0] [?a, ?b])"
    by (rule reach_step[where l = 0])
       (use metrics_act[of 0 "?S ?m2 [Rec_loop ?a 0, Rec_loop ?b 0] [?a, ?b]" "?m3" "Rec_done ?a"] rec_swap[of ?a Max_log 5 0 ?m2] z in simp)
  then have "reach (metrics_init ?m0 [?a, ?b]) metrics_step (?S ?m3 [Rec_done ?a, Rec_loop ?b 5] [?a, ?b])"
    by (rule reach_step[where l = 1])
       (use metrics_act[of 1 "?S ?m3 [Rec_done ?a, Rec_loop ?b 0] [?a, ?b]" "?m3" "Rec_loop ?b 5"] rec_fail[of ?b Max_log 3 0 ?m3] z in simp)
  then have r: "reach (metrics_init ?m0 [?a, ?b]) metrics_step (?S ?m3 [Rec_done ?a, Rec_done ?b] [?a, ?b])"
    by (rule reach_step[where l = 1])
       (use metrics_act[of 1 "?S ?m3 [Rec_done ?a, Rec_loop ?b 5] [?a, ?b]" "?m3" "Rec_done ?b"] rec_exit[of ?b Max_log 3 5 ?m3] z in simp)
  from concurrent_recording_linear[OF r] r show ?thesis by fastforce
qed

end
