(* ===== verification/Ring_Threads.thy ===== *)
theory Ring_Threads
  imports Signal_Safe_Sink Transitions
begin

text \<open>
  The signal-safe sink called by any number of threads (or handlers) at once:
  \<open>src/sinks/signal_safe_sink.cpp\<close> as its atomic actions.  A load, a store, a compare-and-swap, the
  copy of one byte and one call of \<open>safe_write\<close> are one step each.  What a thread has still to write
  and where it stands in \<open>log\<close>, \<open>write_to_buffer\<close> or \<open>flush_buffer\<close> is its own state; the sink is
  shared.  The results of the reservations, in their order, are kept as history; no action reads it.
\<close>

section \<open>The actions of a thread\<close>

text \<open>\<open>capacity_ - (write_pos - read_pos)\<close> on 64-bit words, which wraps if \<open>read_pos\<close> is ahead.\<close>

definition held64 :: "nat \<Rightarrow> nat \<Rightarrow> u64" where
  "held64 w r = of_nat w - of_nat r"

definition available64 :: "nat \<Rightarrow> nat \<Rightarrow> nat \<Rightarrow> u64" where
  "available64 cap w r = of_nat cap - held64 w r"

datatype flush_pos = Flush_start | Flush_have nat | Flush_loop nat nat | Flush_done

fun flush_act :: "signal_sink \<Rightarrow> flush_pos \<Rightarrow> signal_sink \<times> flush_pos" where
  "flush_act s Flush_start = (s, if ss_ready s then Flush_have (ss_write_pos s) else Flush_done)"
| "flush_act s (Flush_have w) =
     (s, if w = ss_read_pos s then Flush_done else Flush_loop w (ss_read_pos s))"
| "flush_act s (Flush_loop w r) =
     (if r < w
      then
        (let idx = r mod ss_capacity s;
             n = (if w - r \<le> ss_capacity s - idx then w - r else ss_capacity s - idx);
             (out, rs) = safe_write (ss_script s) (ring_slice s idx n)
         in (s\<lparr>ss_file := ss_file s @ out, ss_script := rs\<rparr>, Flush_loop w (r + n)))
      else (s\<lparr>ss_read_pos := r\<rparr>, Flush_done))"
| "flush_act s Flush_done = (s, Flush_done)"

datatype ring_pos =
  Between                          \<comment> \<open>two calls of \<open>write_to_buffer\<close>\<close>
| Load_write string
| Load_read string nat
| No_room string
| Making_room string flush_pos     \<comment> \<open>with \<open>flush_in_progress_\<close> set\<close>
| Reload_write string
| Reload_read string nat
| Swap string nat
| Copying string nat nat           \<comment> \<open>data, start of the reservation, bytes copied\<close>
| Size_test
| Size_read nat
| Flushing flush_pos               \<comment> \<open>at the end of \<open>log\<close>\<close>
| Returned

text \<open>
  One action: the sink, the calls of \<open>write_to_buffer\<close> that are left, the new position, and the
  piece whose fate it decided, with whether it was stored.  \<open>spurious\<close> lets the weak
  compare-and-swap fail without a reason.
\<close>

fun ring_act :: "bool \<Rightarrow> signal_sink \<Rightarrow> string list \<Rightarrow> ring_pos
    \<Rightarrow> signal_sink \<times> string list \<times> ring_pos \<times> (string \<times> bool) option" where
  "ring_act spurious s [] Between = (s, [], Size_test, None)"
| "ring_act spurious s (d # ds) Between = (s, ds, if d = [] then Between else Load_write d, None)"
| "ring_act spurious s ds (Load_write d) = (s, ds, Load_read d (ss_write_pos s), None)"
| "ring_act spurious s ds (Load_read d w) =
     (s, ds, if of_nat (length d) > available64 (ss_capacity s) w (ss_read_pos s)
             then No_room d else Swap d w, None)"
| "ring_act spurious s ds (No_room d) =
     (if ss_flushing s then (s, ds, Reload_write d, None)
      else (s\<lparr>ss_flushing := True\<rparr>, ds, Making_room d Flush_start, None))"
| "ring_act spurious s ds (Making_room d f) =
     (if f = Flush_done then (s\<lparr>ss_flushing := False\<rparr>, ds, Reload_write d, None)
      else (let (s', f') = flush_act s f in (s', ds, Making_room d f', None)))"
| "ring_act spurious s ds (Reload_write d) = (s, ds, Reload_read d (ss_write_pos s), None)"
| "ring_act spurious s ds (Reload_read d w) =
     (if of_nat (length d) > available64 (ss_capacity s) w (ss_read_pos s)
      then (s\<lparr>ss_dropped := ss_dropped s + 1\<rparr>, ds, Between, Some (d, False))
      else (s, ds, Swap d w, None))"
| "ring_act spurious s ds (Swap d w) =
     (if ss_write_pos s = w \<and> \<not> spurious
      then (let (pos, s') = reserve (length d) s in (s', ds, Copying d pos 0, Some (d, True)))
      else (s, ds, Load_write d, None))"
| "ring_act spurious s ds (Copying d pos i) =
     (if i < length d
      then (s\<lparr>ss_buffer := (ss_buffer s)((pos + i) mod ss_capacity s := d ! i)\<rparr>, ds,
            Copying d pos (i + 1), None)
      else (s, ds, Between, None))"
| "ring_act spurious s ds Size_test = (s, ds, Size_read (ss_write_pos s), None)"
| "ring_act spurious s ds (Size_read w) =
     (s, ds, if held64 w (ss_read_pos s) > of_nat (ss_capacity s div 2)
             then Flushing Flush_start else Returned, None)"
| "ring_act spurious s ds (Flushing f) =
     (if f = Flush_done then (s, ds, Returned, None)
      else (let (s', f') = flush_act s f in (s', ds, Flushing f', None)))"
| "ring_act spurious s ds Returned = (s, ds, Returned, None)"

text \<open>The calls of \<open>write_to_buffer\<close> in one call of \<open>log\<close>.\<close>

definition log_pieces :: "level \<times> string \<Rightarrow> string list" where
  "log_pieces c = [level_to_str (fst c), snd c, newline]"

record ring_system =
  rs_sink :: signal_sink
  rs_threads :: "(string list \<times> ring_pos) list"
  rs_events :: "(nat \<times> string \<times> bool) list"

definition ring_next :: "bool \<Rightarrow> nat \<Rightarrow> ring_system \<Rightarrow> ring_system" where
  "ring_next spurious i y =
     (let (ds, p) = rs_threads y ! i;
          (s, ds', p', ev) = ring_act spurious (rs_sink y) ds p
      in \<lparr>rs_sink = s, rs_threads = (rs_threads y)[i := (ds', p')],
          rs_events = rs_events y @ (case ev of None \<Rightarrow> [] | Some e \<Rightarrow> [(i, e)])\<rparr>)"

inductive ring_step :: "ring_system \<Rightarrow> bool \<times> nat \<Rightarrow> ring_system \<Rightarrow> bool" where
  ring_move: "i < length (rs_threads y) \<Longrightarrow> ring_step y (spurious, i) (ring_next spurious i y)"

inductive_cases ring_stepE: "ring_step y l y'"

definition ring_start :: "signal_sink \<Rightarrow> (level \<times> string) list \<Rightarrow> ring_system" where
  "ring_start s calls =
     \<lparr>rs_sink = s, rs_threads = map (\<lambda>c. (log_pieces c, Between)) calls, rs_events = []\<rparr>"

section \<open>Quiet flushes\<close>

text \<open>
  The flush a thread is in, once it has read \<open>write_pos_\<close>, by the position it goes up to.  A flush is
  quiet if, when it reads \<open>write_pos_\<close>, no other thread is in a flush or copies into its reservation.
\<close>

fun flush_mark :: "flush_pos \<Rightarrow> nat option" where
  "flush_mark (Flush_have w) = Some w"
| "flush_mark (Flush_loop w r) = Some w"
| "flush_mark _ = None"

fun flush_of :: "ring_pos \<Rightarrow> flush_pos option" where
  "flush_of (Making_room d f) = Some f"
| "flush_of (Flushing f) = Some f"
| "flush_of _ = None"

definition flush_to :: "ring_pos \<Rightarrow> nat option" where
  "flush_to p = Option.bind (flush_of p) flush_mark"

fun copying :: "ring_pos \<Rightarrow> bool" where
  "copying (Copying d pos i) = True"
| "copying _ = False"

definition quiet_at :: "ring_pos list \<Rightarrow> nat \<Rightarrow> bool" where
  "quiet_at ps i \<longleftrightarrow> flush_of (ps ! i) = Some Flush_start \<longrightarrow>
     (\<forall>j < length ps. j \<noteq> i \<longrightarrow> flush_to (ps ! j) = None \<and> \<not> copying (ps ! j))"

definition positions :: "ring_system \<Rightarrow> ring_pos list" where
  "positions y = map snd (rs_threads y)"

definition quiet_step :: "ring_system \<Rightarrow> bool \<times> nat \<Rightarrow> ring_system \<Rightarrow> bool" where
  "quiet_step y l y' \<longleftrightarrow> ring_step y l y' \<and> quiet_at (positions y) (snd l)"

section \<open>The sink and the positions of the threads\<close>

text \<open>With \<open>st\<close> the bytes reserved so far and \<open>file0\<close> what the file held at first.\<close>

fun flush_fine :: "string \<Rightarrow> signal_sink \<Rightarrow> string \<Rightarrow> flush_pos \<Rightarrow> bool" where
  "flush_fine file0 s st (Flush_have w) \<longleftrightarrow> ss_read_pos s \<le> w \<and> w \<le> ss_write_pos s"
| "flush_fine file0 s st (Flush_loop w r) \<longleftrightarrow>
     ss_read_pos s \<le> r \<and> r \<le> w \<and> w \<le> ss_write_pos s \<and> ss_file s = file0 @ take r st"
| "flush_fine file0 s st _ \<longleftrightarrow> True"

fun pos_fine :: "string \<Rightarrow> signal_sink \<Rightarrow> string \<Rightarrow> ring_pos \<Rightarrow> bool" where
  "pos_fine file0 s st (Load_read d w) \<longleftrightarrow> w \<le> ss_write_pos s"
| "pos_fine file0 s st (Reload_read d w) \<longleftrightarrow> w \<le> ss_write_pos s"
| "pos_fine file0 s st (Swap d w) \<longleftrightarrow> w \<le> ss_write_pos s
     \<and> (w = ss_write_pos s \<longrightarrow> w + length d \<le> ss_read_pos s + ss_capacity s)"
| "pos_fine file0 s st (Copying d pos i) \<longleftrightarrow> ss_read_pos s \<le> pos \<and> i \<le> length d
     \<and> pos + length d \<le> ss_write_pos s \<and> (\<forall>k < length d. st ! (pos + k) = d ! k)"
| "pos_fine file0 s st (Making_room d f) \<longleftrightarrow> flush_fine file0 s st f"
| "pos_fine file0 s st (Flushing f) \<longleftrightarrow> flush_fine file0 s st f"
| "pos_fine file0 s st _ \<longleftrightarrow> True"

definition apart :: "ring_pos \<Rightarrow> ring_pos \<Rightarrow> bool" where
  "apart p q \<longleftrightarrow> (\<forall>w. flush_to p = Some w \<longrightarrow>
     flush_to q = None \<and> (\<forall>d pos i. q = Copying d pos i \<longrightarrow> w \<le> pos))"

text \<open>A position of the stream whose byte a thread has still to copy.\<close>

fun to_copy :: "ring_pos \<Rightarrow> nat \<Rightarrow> bool" where
  "to_copy (Copying d pos i) q \<longleftrightarrow> pos + i \<le> q \<and> q < pos + length d"
| "to_copy _ q \<longleftrightarrow> False"

fun in_loop :: "flush_pos option \<Rightarrow> bool" where
  "in_loop (Some (Flush_loop w r)) = True"
| "in_loop _ = False"

definition sink_fine :: "signal_sink \<Rightarrow> string \<Rightarrow> bool" where
  "sink_fine s st \<longleftrightarrow> ss_ready s \<and> ss_script s = [] \<and> ss_capacity s < 2 ^ 64
     \<and> ss_read_pos s \<le> ss_write_pos s \<and> ss_write_pos s \<le> ss_read_pos s + ss_capacity s
     \<and> ss_write_pos s = length st"

definition bytes_fine :: "signal_sink \<Rightarrow> string \<Rightarrow> ring_pos list \<Rightarrow> bool" where
  "bytes_fine s st ps \<longleftrightarrow> (\<forall>q. ss_read_pos s \<le> q \<and> q < ss_write_pos s \<longrightarrow>
     ss_buffer s (q mod ss_capacity s) = st ! q \<or> (\<exists>p \<in> set ps. to_copy p q))"

definition file_fine :: "string \<Rightarrow> signal_sink \<Rightarrow> string \<Rightarrow> ring_pos list \<Rightarrow> bool" where
  "file_fine file0 s st ps \<longleftrightarrow>
     (\<exists>p \<in> set ps. in_loop (flush_of p)) \<or> ss_file s = file0 @ take (ss_read_pos s) st"

definition ring_fine :: "string \<Rightarrow> signal_sink \<Rightarrow> string \<Rightarrow> ring_pos list \<Rightarrow> bool" where
  "ring_fine file0 s st ps \<longleftrightarrow> sink_fine s st \<and> (\<forall>p \<in> set ps. pos_fine file0 s st p)
     \<and> (\<forall>i < length ps. \<forall>j < length ps. i \<noteq> j \<longrightarrow> apart (ps ! i) (ps ! j))
     \<and> bytes_fine s st ps \<and> file_fine file0 s st ps"

text \<open>The words say what the numbers say, as long as \<open>read_pos\<close> is not ahead.\<close>

lemma sink_fineD:
  assumes "sink_fine s st"
  shows "ss_ready s" "ss_script s = []" "ss_capacity s < 2 ^ 64" "ss_read_pos s \<le> ss_write_pos s"
    "ss_write_pos s \<le> ss_read_pos s + ss_capacity s" "ss_write_pos s = length st"
  using assms unfolding sink_fine_def by blast+

lemma available64_sink:
  assumes "sink_fine s st"
  shows "unat (available64 (ss_capacity s) (ss_write_pos s) (ss_read_pos s)) = available s"
proof -
  note d = sink_fineD[OF assms]
  have "held64 (ss_write_pos s) (ss_read_pos s) = of_nat (ss_write_pos s - ss_read_pos s)"
    unfolding held64_def by (rule of_nat_diff[OF d(4), symmetric])
  moreover have "ss_write_pos s - ss_read_pos s \<le> ss_capacity s" using d(5) by linarith
  ultimately have "available64 (ss_capacity s) (ss_write_pos s) (ss_read_pos s) = of_nat (available s)"
    by (simp add: available64_def available_def)
  moreover have "available s < 2 ^ 64"
    by (rule le_less_trans[OF _ d(3)]) (simp add: available_def)
  ultimately show ?thesis by (simp add: unat_of_nat)
qed

lemma enough_room:
  assumes "sink_fine s st" and "length d < 2 ^ 64"
    and "\<not> of_nat (length d) > available64 (ss_capacity s) (ss_write_pos s) (ss_read_pos s)"
  shows "ss_write_pos s + length d \<le> ss_read_pos s + ss_capacity s"
proof -
  have "length d \<le> available s"
    using assms(3) available64_sink[OF assms(1)] assms(2)
    by (simp add: word_le_nat_alt not_less unat_of_nat)
  with sink_fineD(4,5)[OF assms(1)] show ?thesis unfolding available_def by linarith
qed

section \<open>Every quiet step keeps it\<close>

lemma ring_fineD:
  assumes "ring_fine file0 s st ps"
  shows "sink_fine s st" "p \<in> set ps \<Longrightarrow> pos_fine file0 s st p"
    "i < length ps \<Longrightarrow> j < length ps \<Longrightarrow> i \<noteq> j \<Longrightarrow> apart (ps ! i) (ps ! j)"
    "bytes_fine s st ps" "file_fine file0 s st ps"
  using assms unfolding ring_fine_def by blast+

lemma flush_of_facts:
  assumes "flush_of p = Some f"
  shows "pos_fine file0 s st p \<longleftrightarrow> flush_fine file0 s st f" "\<not> copying p" "\<not> to_copy p q"
    "flush_to p = flush_mark f"
  using assms by (cases p; simp add: flush_to_def)+

lemma not_copying: "\<not> copying p \<Longrightarrow> \<not> to_copy p q"
  by (cases p) auto

lemma ring_fine_update:
  assumes fine: "ring_fine file0 s st ps" and i: "i < length ps"
    and "sink_fine s' st'" "pos_fine file0 s' st' p'"
    and others: "\<And>p. p \<in> set ps \<Longrightarrow> pos_fine file0 s st p \<Longrightarrow> apart (ps ! i) p \<Longrightarrow> apart p (ps ! i) \<Longrightarrow>
      pos_fine file0 s' st' p"
    and apart: "\<And>p. p \<in> set ps \<Longrightarrow> pos_fine file0 s st p \<Longrightarrow> apart (ps ! i) p \<Longrightarrow> apart p (ps ! i) \<Longrightarrow>
      apart p' p \<and> apart p p'"
    and "bytes_fine s' st' (ps[i := p'])" "file_fine file0 s' st' (ps[i := p'])"
  shows "ring_fine file0 s' st' (ps[i := p'])"
proof -
  have pairs: "\<forall>i < length ps. \<forall>j < length ps. i \<noteq> j \<longrightarrow> apart (ps ! i) (ps ! j)"
    using ring_fineD(3)[OF fine] by blast
  have "\<forall>u \<in> set (ps[i := p']). pos_fine file0 s' st' u"
  proof (rule all_update)
    fix j assume "j < length ps" "j \<noteq> i"
    then show "pos_fine file0 s' st' (ps ! j)"
      using others[of "ps ! j"] ring_fineD(2)[OF fine] pairs i by simp
  qed fact
  moreover have "\<forall>k < length (ps[i := p']). \<forall>j < length (ps[i := p']). k \<noteq> j \<longrightarrow>
      apart (ps[i := p'] ! k) (ps[i := p'] ! j)"
    by (rule pairwise_update[OF pairs i]) (use apart ring_fineD(2)[OF fine] in blast)
  ultimately show ?thesis using assms(3,7,8) unfolding ring_fine_def by blast
qed

lemma in_set_update: "p \<in> set ps \<Longrightarrow> i < length ps \<Longrightarrow> p = ps ! i \<or> p \<in> set (ps[i := p'])"
  by (metis in_set_conv_nth length_list_update nth_list_update_neq)

lemma bytes_fine_same:
  assumes "bytes_fine s st ps" and "i < length ps" and "\<And>q. \<not> to_copy (ps ! i) q"
    and "ss_buffer s' = ss_buffer s" "ss_capacity s' = ss_capacity s" "ss_write_pos s' = ss_write_pos s"
    and "ss_read_pos s \<le> ss_read_pos s'"
  shows "bytes_fine s' st (ps[i := p'])"
proof -
  have "\<exists>p \<in> set (ps[i := p']). to_copy p q" if "\<exists>p \<in> set ps. to_copy p q" for q
    using that in_set_update[of _ ps i p'] assms(2,3) by blast
  with assms(1,4-7) show ?thesis unfolding bytes_fine_def by (metis order_trans)
qed

lemma loop_update:
  assumes "i < length ps" and "in_loop (flush_of p') = in_loop (flush_of (ps ! i))"
  shows "(\<exists>p \<in> set (ps[i := p']). in_loop (flush_of p)) \<longleftrightarrow> (\<exists>p \<in> set ps. in_loop (flush_of p))"
  using assms in_set_update[of _ ps i p'] set_update_memI[OF assms(1), of p'] nth_mem[OF assms(1)]
    set_update_subset_insert[of ps i p'] by blast

text \<open>Steps that leave the bytes, the positions and the file as they are.\<close>

definition same_ring :: "signal_sink \<Rightarrow> signal_sink \<Rightarrow> bool" where
  "same_ring s s' \<longleftrightarrow> ss_ready s' = ss_ready s \<and> ss_buffer s' = ss_buffer s
     \<and> ss_write_pos s' = ss_write_pos s \<and> ss_read_pos s' = ss_read_pos s
     \<and> ss_capacity s' = ss_capacity s \<and> ss_file s' = ss_file s \<and> ss_script s' = ss_script s"

lemma same_ring_simps [simp]:
  "same_ring s s" "same_ring s (s\<lparr>ss_flushing := b\<rparr>)" "same_ring s (s\<lparr>ss_dropped := n\<rparr>)"
  by (simp_all add: same_ring_def)

lemma same_ring_fine:
  assumes "same_ring s s'"
  shows "pos_fine file0 s' st p \<longleftrightarrow> pos_fine file0 s st p" "sink_fine s' st \<longleftrightarrow> sink_fine s st"
proof -
  have "flush_fine file0 s' st f \<longleftrightarrow> flush_fine file0 s st f" for f
    using assms by (cases f) (auto simp: same_ring_def)
  then show "pos_fine file0 s' st p \<longleftrightarrow> pos_fine file0 s st p"
    using assms by (cases p) (auto simp: same_ring_def)
  show "sink_fine s' st \<longleftrightarrow> sink_fine s st" using assms by (simp add: sink_fine_def same_ring_def)
qed

lemma ring_fine_move:
  assumes fine: "ring_fine file0 s st ps" and i: "i < length ps" and "same_ring s s'"
    and "pos_fine file0 s st p'" "\<not> copying p'" "\<And>q. \<not> to_copy (ps ! i) q"
    and "flush_to p' = None \<or> flush_to p' = flush_to (ps ! i)"
    and "in_loop (flush_of p') = in_loop (flush_of (ps ! i))"
  shows "ring_fine file0 s' st (ps[i := p'])"
proof (rule ring_fine_update[OF fine i])
  show "sink_fine s' st" "pos_fine file0 s' st p'"
    using assms(3,4) ring_fineD(1)[OF fine] by (simp_all add: same_ring_fine)
  show "bytes_fine s' st (ps[i := p'])"
    by (rule bytes_fine_same[OF ring_fineD(4)[OF fine] i assms(6)])
       (use assms(3) in \<open>simp_all add: same_ring_def\<close>)
  show "file_fine file0 s' st (ps[i := p'])"
    using ring_fineD(5)[OF fine] assms(3) unfolding file_fine_def loop_update[OF i assms(8)]
    by (simp add: same_ring_def)
  show "apart p' p \<and> apart p p'" if "apart (ps ! i) p" "apart p (ps ! i)" for p
    using that assms(5,7) unfolding apart_def by (cases "flush_to p'"; auto)
qed (use assms(3) in \<open>simp add: same_ring_fine\<close>)

text \<open>The bytes below the mark of a flush are all in the buffer.\<close>

lemma flushed_bytes:
  assumes fine: "ring_fine file0 s st ps" and i: "i < length ps" and mark: "flush_to (ps ! i) = Some w"
    and q: "ss_read_pos s \<le> q" "q < w" "w \<le> ss_write_pos s"
  shows "ss_buffer s (q mod ss_capacity s) = st ! q"
proof -
  have "\<not> to_copy p q" if mem: "p \<in> set ps" for p
  proof
    assume "to_copy p q"
    then obtain d pos k where p: "p = Copying d pos k" "pos \<le> q" by (cases p) auto
    obtain j where j: "j < length ps" "p = ps ! j" using mem by (metis in_set_conv_nth)
    have "flush_to p = None" using p(1) by (simp add: flush_to_def)
    then have "i \<noteq> j" using mark j(2) by auto
    then have "w \<le> pos" using ring_fineD(3)[OF fine i j(1)] mark j p unfolding apart_def by blast
    with p q show False by simp
  qed
  moreover have "q < ss_write_pos s" using q by simp
  ultimately show ?thesis using ring_fineD(4)[OF fine] q(1) unfolding bytes_fine_def by blast
qed

lemma flush_slice:
  assumes fine: "ring_fine file0 s st ps" and i: "i < length ps" and mark: "flush_to (ps ! i) = Some w"
    and r: "ss_read_pos s \<le> r" "r < w" "w \<le> ss_write_pos s"
    and n: "n = (if w - r \<le> ss_capacity s - r mod ss_capacity s then w - r
                 else ss_capacity s - r mod ss_capacity s)"
  shows "r + n \<le> w" and "take r st @ ring_slice s (r mod ss_capacity s) n = take (r + n) st"
proof -
  note d = sink_fineD[OF ring_fineD(1)[OF fine]]
  have cap: "0 < ss_capacity s" using d(5) r by linarith
  then have idx: "r mod ss_capacity s + n \<le> ss_capacity s" using n mod_less_divisor[OF cap, of r] by auto
  show le: "r + n \<le> w" using n r(2) by auto
  have "ring_slice s (r mod ss_capacity s) n = map (\<lambda>q. ss_buffer s (q mod ss_capacity s)) [r..<r + n]"
    by (rule ring_slice_mod[OF refl idx refl cap])
  also have "\<dots> = map ((!) st) [r..<r + n]"
    using flushed_bytes[OF fine i mark] r le by (intro map_cong[OF refl]) auto
  also have "\<dots> = take n (drop r st)"
    using d(6) r le by (intro nth_equalityI) simp_all
  finally show "take r st @ ring_slice s (r mod ss_capacity s) n = take (r + n) st" by (simp add: take_add)
qed

lemma in_loop_mark: "in_loop (flush_of p) \<Longrightarrow> \<exists>w. flush_to p = Some w"
  by (cases "flush_of p") (auto simp: flush_to_def elim: in_loop.elims)

text \<open>While one thread is past the start of a flush no other is.\<close>

lemma one_flush:
  assumes fine: "ring_fine file0 s st ps" and i: "i < length ps" and mark: "flush_to (ps ! i) = Some w"
    and p: "p \<in> set (ps[i := p'])"
  shows "p = p' \<or> flush_to p = None"
proof -
  obtain j where j: "j < length ps" "p = ps[i := p'] ! j" using p by (metis in_set_conv_nth length_list_update)
  show ?thesis
  proof (cases "j = i")
    case False
    then have "apart (ps ! i) (ps ! j)" using ring_fineD(3)[OF fine i j(1)] by simp
    with mark j False show ?thesis by (auto simp: apart_def)
  qed (use j i in simp)
qed

lemma file_fine_outside:
  assumes "ring_fine file0 s st ps" "i < length ps" "flush_to (ps ! i) = Some w" "\<not> in_loop (flush_of (ps ! i))"
  shows "ss_file s = file0 @ take (ss_read_pos s) st"
proof -
  have "\<not> in_loop (flush_of p)" if "p \<in> set ps" for p
    using one_flush[OF assms(1-3), of p "ps ! i"] assms(4) in_loop_mark[of p] that by auto
  then show ?thesis using ring_fineD(5)[OF assms(1)] by (auto simp: file_fine_def)
qed

text \<open>The other threads, when one writes to the file or stores the position it has flushed to.\<close>

lemma pos_fine_other:
  assumes "pos_fine file0 s st p" "flush_to p = None" "ss_read_pos s \<le> ss_read_pos s'"
    "ss_write_pos s' = ss_write_pos s" "ss_capacity s' = ss_capacity s"
    "\<And>d pos i. p = Copying d pos i \<Longrightarrow> ss_read_pos s' \<le> pos"
  shows "pos_fine file0 s' st p"
proof -
  have "flush_fine file0 s' st f" if "flush_of p = Some f" for f
    using assms(2) that by (cases f) (auto simp: flush_to_def)
  then show ?thesis using assms by (cases p) auto
qed

lemma apart_move:
  assumes "apart p0 p" "apart p p0" "\<not> copying p'" "flush_to p' = None \<or> flush_to p' = flush_to p0"
  shows "apart p' p \<and> apart p p'"
  using assms unfolding apart_def by (cases "flush_to p'"; auto)

lemma ring_fine_flush_write:
  assumes fine: "ring_fine file0 s st ps" and i: "i < length ps"
    and f: "flush_of (ps ! i) = Some (Flush_loop w r)" "r < w" "flush_of p' = Some (Flush_loop w (r + n))"
    and n: "n = (if w - r \<le> ss_capacity s - r mod ss_capacity s then w - r
                 else ss_capacity s - r mod ss_capacity s)"
    and s': "s' = s\<lparr>ss_file := ss_file s @ ring_slice s (r mod ss_capacity s) n, ss_script := []\<rparr>"
  shows "ring_fine file0 s' st (ps[i := p'])"
proof -
  note facts = flush_of_facts[OF f(1)] flush_of_facts[OF f(3)]
  have mark: "flush_to (ps ! i) = Some w" using facts(4) by simp
  have mine: "flush_fine file0 s st (Flush_loop w r)"
    using ring_fineD(2)[OF fine nth_mem[OF i]] facts(1) by simp
  have slice: "r + n \<le> w" "take r st @ ring_slice s (r mod ss_capacity s) n = take (r + n) st"
    using flush_slice[OF fine i mark _ f(2) _ n] mine by simp_all
  show ?thesis
  proof (rule ring_fine_update[OF fine i])
    show "pos_fine file0 s' st p" if "pos_fine file0 s st p" "apart (ps ! i) p" for p
      using that(2) mark sink_fineD(4)[OF ring_fineD(1)[OF fine]] that(1)
      by (intro pos_fine_other[OF that(1)]) (simp_all add: s' apart_def)
    show "bytes_fine s' st (ps[i := p'])"
      by (rule bytes_fine_same[OF ring_fineD(4)[OF fine] i facts(3)]) (simp_all add: s')
    show "file_fine file0 s' st (ps[i := p'])"
      unfolding file_fine_def
      by (rule disjI1, rule bexI[OF _ set_update_memI[OF i]]) (simp add: f(3))
    show "apart p' p \<and> apart p p'" if "apart (ps ! i) p" "apart p (ps ! i)" for p
      by (rule apart_move[OF that facts(6)]) (simp add: facts)
  qed (use ring_fineD(1)[OF fine] mine slice in \<open>simp_all add: facts s' sink_fine_def\<close>)
qed

lemma ring_fine_flush_store:
  assumes fine: "ring_fine file0 s st ps" and i: "i < length ps"
    and f: "flush_of (ps ! i) = Some (Flush_loop w r)" "\<not> r < w" "flush_of p' = Some Flush_done"
    and s': "s' = s\<lparr>ss_read_pos := r\<rparr>"
  shows "ring_fine file0 s' st (ps[i := p'])"
proof -
  note facts = flush_of_facts[OF f(1)] flush_of_facts[OF f(3)]
  have mark: "flush_to (ps ! i) = Some w" using facts(4) by simp
  have mine: "ss_read_pos s \<le> w" "w \<le> ss_write_pos s" "ss_file s = file0 @ take w st" "r = w"
    using ring_fineD(2)[OF fine nth_mem[OF i]] facts(1) f(2) by auto
  show ?thesis
  proof (rule ring_fine_update[OF fine i])
    show "pos_fine file0 s' st p" if "pos_fine file0 s st p" "apart (ps ! i) p" for p
      using that(2) mark mine by (intro pos_fine_other[OF that(1)]) (simp_all add: s' apart_def)
    show "bytes_fine s' st (ps[i := p'])"
      by (rule bytes_fine_same[OF ring_fineD(4)[OF fine] i facts(3)]) (simp_all add: s' mine)
    show "file_fine file0 s' st (ps[i := p'])" using mine(3,4) by (simp add: file_fine_def s')
    show "apart p' p \<and> apart p p'" if "apart (ps ! i) p" "apart p (ps ! i)" for p
      by (rule apart_move[OF that facts(6)]) (simp add: facts)
  qed (use ring_fineD(1)[OF fine] mine in \<open>simp_all add: facts s' sink_fine_def\<close>)
qed

lemma ring_fine_flush:
  assumes fine: "ring_fine file0 s st ps" and i: "i < length ps"
    and f: "flush_of (ps ! i) = Some f" "flush_of p' = Some f'" "flush_act s f = (s', f')"
    and quiet: "f = Flush_start \<Longrightarrow> \<forall>p \<in> set ps. flush_to p = None \<and> \<not> copying p"
  shows "ring_fine file0 s' st (ps[i := p'])"
proof -
  note d = sink_fineD[OF ring_fineD(1)[OF fine]]
  note facts = flush_of_facts[OF f(1)] flush_of_facts[OF f(2)]
  have mine: "flush_fine file0 s st f" using ring_fineD(2)[OF fine nth_mem[OF i]] facts(1) by simp
  have bytes: "bytes_fine s st (ps[i := p'])"
    by (rule bytes_fine_same[OF ring_fineD(4)[OF fine] i facts(3)]) simp_all
  show ?thesis
  proof (cases f)
    case Flush_start
    then have s': "s' = s" "f' = Flush_have (ss_write_pos s)" using f(3) d(1) by auto
    show ?thesis unfolding s'(1)
    proof (rule ring_fine_update[OF fine i _ _ _ _ bytes])
      show "file_fine file0 s st (ps[i := p'])"
        using ring_fineD(5)[OF fine] f(1,2) unfolding file_fine_def
        by (subst loop_update[OF i]) (simp_all add: s' Flush_start)
      show "apart p' p \<and> apart p p'" if "p \<in> set ps" for p
        using quiet[OF Flush_start] that unfolding apart_def by auto
    qed (use ring_fineD(1)[OF fine] facts s' d in simp_all)
  next
    case (Flush_have w)
    have content: "ss_file s = file0 @ take (ss_read_pos s) st"
      by (rule file_fine_outside[OF fine i]) (simp_all add: facts f Flush_have)
    have s': "s' = s" "flush_mark f' = None \<or> flush_mark f' = flush_mark f" "flush_fine file0 s st f'"
      using f(3) Flush_have mine content by (auto split: if_splits)
    show ?thesis unfolding s'(1)
    proof (rule ring_fine_update[OF fine i _ _ _ _ bytes])
      show "file_fine file0 s st (ps[i := p'])" using content by (simp add: file_fine_def)
      show "apart p' p \<and> apart p p'" if "apart (ps ! i) p" "apart p (ps ! i)" for p
        by (rule apart_move[OF that facts(6)]) (simp add: facts s')
    qed (use ring_fineD(1)[OF fine] facts s' in simp_all)
  next
    case (Flush_loop w r)
    show ?thesis
    proof (cases "r < w")
      case True
      with f Flush_loop d(2) show ?thesis
        by (intro ring_fine_flush_write[OF fine i _ True _ refl]) (auto simp: Let_def)
    next
      case False
      with f Flush_loop show ?thesis by (intro ring_fine_flush_store[OF fine i _ False]) auto
    qed
  next
    case Flush_done
    with f facts show ?thesis by (intro ring_fine_move[OF fine i]) simp_all
  qed
qed

lemma ring_fine_swap:
  assumes fine: "ring_fine file0 s st ps" and i: "i < length ps"
    and swap: "ps ! i = Swap d w" "ss_write_pos s = w" "reserve (length d) s = (pos, s')"
  shows "ring_fine file0 s' (st @ d) (ps[i := Copying d pos 0])"
proof -
  note fd = sink_fineD[OF ring_fineD(1)[OF fine]]
  have s': "pos = length st" "s' = s\<lparr>ss_write_pos := length st + length d\<rparr>"
    using swap(3) fd(6) by (auto simp: reserve_def)
  have room: "length st + length d \<le> ss_read_pos s + ss_capacity s"
    using ring_fineD(2)[OF fine nth_mem[OF i]] swap(1,2) fd(6) by simp
  show ?thesis
  proof (rule ring_fine_update[OF fine i])
    show "sink_fine s' (st @ d)" using fd room by (simp add: sink_fine_def s')
    show "pos_fine file0 s' (st @ d) p" if "pos_fine file0 s st p" for p
    proof -
      have "flush_fine file0 s' (st @ d) f" if "flush_fine file0 s st f" for f
        using that fd(6) by (cases f) (auto simp: s')
      then show ?thesis using that fd(6) room by (cases p) (auto simp: s' nth_append)
    qed
    show "apart (Copying d pos 0) p \<and> apart p (Copying d pos 0)" if "pos_fine file0 s st p" for p
    proof -
      have "w' \<le> pos" if "flush_to p = Some w'" for w'
        using that \<open>pos_fine file0 s st p\<close> fd(6)
        by (cases p; cases "the (flush_of p)") (auto simp: flush_to_def s')
      then show ?thesis by (simp add: apart_def flush_to_def)
    qed
    show "bytes_fine s' (st @ d) (ps[i := Copying d pos 0])" unfolding bytes_fine_def
    proof (intro allI impI, cases)
      fix q assume q: "ss_read_pos s' \<le> q \<and> q < ss_write_pos s'" and new: "length st \<le> q"
      then have "to_copy (Copying d pos 0) q" by (simp add: s')
      with set_update_memI[OF i]
      show "ss_buffer s' (q mod ss_capacity s') = (st @ d) ! q
        \<or> (\<exists>p \<in> set (ps[i := Copying d pos 0]). to_copy p q)" by blast
    next
      fix q assume q: "ss_read_pos s' \<le> q \<and> q < ss_write_pos s'" and old: "\<not> length st \<le> q"
      then have "ss_buffer s (q mod ss_capacity s) = st ! q \<or> (\<exists>p \<in> set ps. to_copy p q)"
        using ring_fineD(4)[OF fine] fd(6) by (simp add: bytes_fine_def s')
      moreover have "\<not> to_copy (ps ! i) q" by (simp add: swap(1))
      ultimately have "ss_buffer s (q mod ss_capacity s) = st ! q
        \<or> (\<exists>p \<in> set (ps[i := Copying d pos 0]). to_copy p q)"
        using in_set_update[OF _ i, of _ "Copying d pos 0"] by blast
      with old show "ss_buffer s' (q mod ss_capacity s') = (st @ d) ! q
        \<or> (\<exists>p \<in> set (ps[i := Copying d pos 0]). to_copy p q)"
        by (auto simp: s' nth_append)
    qed
    show "file_fine file0 s' (st @ d) (ps[i := Copying d pos 0])"
      using ring_fineD(5)[OF fine] fd(4,6) unfolding file_fine_def
      by (subst loop_update[OF i]) (simp_all add: s' swap(1))
  qed (use fd room in \<open>simp_all add: s' nth_append\<close>)
qed

lemma ring_fine_copy:
  assumes fine: "ring_fine file0 s st ps" and i: "i < length ps"
    and copy: "ps ! i = Copying d pos k" "k < length d"
    and s': "s' = s\<lparr>ss_buffer := (ss_buffer s)((pos + k) mod ss_capacity s := d ! k)\<rparr>"
  shows "ring_fine file0 s' st (ps[i := Copying d pos (k + 1)])"
proof -
  note fd = sink_fineD[OF ring_fineD(1)[OF fine]]
  have mine: "ss_read_pos s \<le> pos" "pos + length d \<le> ss_write_pos s" "\<forall>k < length d. st ! (pos + k) = d ! k"
    using ring_fineD(2)[OF fine nth_mem[OF i]] copy(1) by simp_all
  let ?ps = "ps[i := Copying d pos (k + 1)]"
  show ?thesis
  proof (rule ring_fine_update[OF fine i])
    show "pos_fine file0 s' st p" if "pos_fine file0 s st p" for p
    proof -
      have "flush_fine file0 s' st f" if "flush_fine file0 s st f" for f
        using that by (cases f) (auto simp: s')
      then show ?thesis using that by (cases p) (auto simp: s')
    qed
    show "apart (Copying d pos (k + 1)) p \<and> apart p (Copying d pos (k + 1))" if "apart p (ps ! i)" for p
      using that copy(1) by (auto simp: apart_def flush_to_def)
    show "bytes_fine s' st ?ps" unfolding bytes_fine_def
    proof (intro allI impI, cases)
      fix q assume "q = pos + k"
      then show "ss_buffer s' (q mod ss_capacity s') = st ! q \<or> (\<exists>p \<in> set ?ps. to_copy p q)"
        using mine(3) copy(2) by (simp add: s')
    next
      fix q assume q: "ss_read_pos s' \<le> q \<and> q < ss_write_pos s'" and other: "q \<noteq> pos + k"
      have "q mod ss_capacity s \<noteq> (pos + k) mod ss_capacity s"
      proof (cases "q < pos + k")
        case True
        have "pos + k - q < ss_capacity s" using q mine(1,2) copy(2) fd(5) unfolding s' by simp linarith
        then show ?thesis by (rule mod_apart[OF True])
      next
        case False
        then have "pos + k < q" "q - (pos + k) < ss_capacity s"
          using other q mine(1,2) fd(5) by (simp_all add: s')
        then show ?thesis by (rule mod_apart[THEN not_sym])
      qed
      then have "ss_buffer s' (q mod ss_capacity s') = ss_buffer s (q mod ss_capacity s)" by (simp add: s')
      moreover have "ss_buffer s (q mod ss_capacity s) = st ! q \<or> (\<exists>p \<in> set ps. to_copy p q)"
        using ring_fineD(4)[OF fine] q by (simp add: bytes_fine_def s')
      moreover have "\<exists>p \<in> set ?ps. to_copy p q" if "p \<in> set ps" "to_copy p q" for p
      proof (cases "p = ps ! i")
        case True
        then have "to_copy (Copying d pos (k + 1)) q" using that(2) copy(1) other by auto
        with set_update_memI[OF i] show ?thesis by blast
      qed (use in_set_update[OF that(1) i] that(2) in blast)
      ultimately show "ss_buffer s' (q mod ss_capacity s') = st ! q \<or> (\<exists>p \<in> set ?ps. to_copy p q)" by metis
    qed
    show "file_fine file0 s' st ?ps"
      using ring_fineD(5)[OF fine] unfolding file_fine_def
      by (subst loop_update[OF i]) (simp_all add: s' copy(1))
  qed (use fd mine copy(2) in \<open>simp_all add: s' sink_fine_def\<close>)
qed

text \<open>The piece a thread has taken and not yet stored or dropped, and what an event adds.\<close>

fun undecided :: "ring_pos \<Rightarrow> string list" where
  "undecided (Load_write d) = [d]"
| "undecided (Load_read d w) = [d]"
| "undecided (No_room d) = [d]"
| "undecided (Making_room d f) = [d]"
| "undecided (Reload_write d) = [d]"
| "undecided (Reload_read d w) = [d]"
| "undecided (Swap d w) = [d]"
| "undecided _ = []"

definition stored :: "(string \<times> bool) list \<Rightarrow> string" where
  "stored es = concat (map fst (filter snd es))"

definition event_list :: "'e option \<Rightarrow> 'e list" where
  "event_list ev = (case ev of None \<Rightarrow> [] | Some e \<Rightarrow> [e])"

lemma event_list_simps [simp]: "event_list None = []" "event_list (Some e) = [e]"
  by (simp_all add: event_list_def)

lemma stored_simps [simp]:
  "stored [] = []" "stored [(d, True)] = d" "stored [(d, False)] = []"
  "stored (es @ es') = stored es @ stored es'"
  by (simp_all add: stored_def)

lemma quiet_atD:
  assumes "quiet_at ps i" "i < length ps" "flush_of (ps ! i) = Some Flush_start"
  shows "\<forall>p \<in> set ps. flush_to p = None \<and> \<not> copying p"
proof
  fix p assume "p \<in> set ps"
  then obtain j where "j < length ps" "p = ps ! j" by (metis in_set_conv_nth)
  then show "flush_to p = None \<and> \<not> copying p"
    using assms flush_of_facts[OF assms(3)] unfolding quiet_at_def by (cases "j = i") auto
qed

text \<open>The actions that touch neither the buffer nor the positions nor the file.\<close>

fun still :: "bool \<Rightarrow> signal_sink \<Rightarrow> ring_pos \<Rightarrow> bool" where
  "still spurious s (Swap d w) \<longleftrightarrow> ss_write_pos s \<noteq> w \<or> spurious"
| "still spurious s (Copying d pos i) \<longleftrightarrow> length d \<le> i"
| "still spurious s (Making_room d f) \<longleftrightarrow> f = Flush_done"
| "still spurious s (Flushing f) \<longleftrightarrow> f = Flush_done"
| "still spurious s _ \<longleftrightarrow> True"

lemma ring_act_still:
  assumes "still spurious s p" "ring_act spurious s ds p = (s', ds', p', ev)"
    and "sink_fine s st" "pos_fine file0 s st p" "\<forall>d \<in> set (undecided p). length d < 2 ^ 64"
  shows "same_ring s s' \<and> stored (event_list ev) = [] \<and> pos_fine file0 s st p' \<and> \<not> copying p'
    \<and> flush_to p' = None \<and> \<not> in_loop (flush_of p') \<and> \<not> in_loop (flush_of p) \<and> (\<forall>q. \<not> to_copy p q)"
proof (cases p)
  case Between
  with assms show ?thesis by (cases ds) (auto simp: flush_to_def split: if_splits)
next
  case (Load_read d w)
  with assms enough_room[OF assms(3), of d] show ?thesis by (auto simp: flush_to_def split: if_splits)
next
  case (Reload_read d w)
  with assms enough_room[OF assms(3), of d] show ?thesis by (auto simp: flush_to_def split: if_splits)
qed (use assms in \<open>auto simp: flush_to_def split: if_splits\<close>)

lemma ring_fine_act:
  assumes fine: "ring_fine file0 s st ps" and i: "i < length ps" and quiet: "quiet_at ps i"
    and len: "\<forall>d \<in> set (undecided (ps ! i)). length d < 2 ^ 64"
    and act: "ring_act spurious s ds (ps ! i) = (s', ds', p', ev)"
  shows "ring_fine file0 s' (st @ stored (event_list ev)) (ps[i := p'])"
proof (cases "still spurious s (ps ! i)")
  case True
  note still = ring_act_still[OF True act ring_fineD(1)[OF fine] ring_fineD(2)[OF fine nth_mem[OF i]] len]
  then have "ring_fine file0 s' st (ps[i := p'])" by (intro ring_fine_move[OF fine i]) simp_all
  with still show ?thesis by simp
next
  case False
  have flushed: ?thesis
    if f: "flush_of (ps ! i) = Some f" "flush_of p' = Some f'" "flush_act s f = (s', f')" "ev = None" for f f'
    using ring_fine_flush[OF fine i f(1-3)] quiet_atD[OF quiet i] f by simp
  show ?thesis
  proof (cases "ps ! i")
    case (Swap d w)
    then obtain pos where r: "reserve (length d) s = (pos, s')" "p' = Copying d pos 0" "ev = Some (d, True)"
      "ss_write_pos s = w"
      using act False by (auto split: prod.splits)
    with ring_fine_swap[OF fine i Swap r(4,1)] show ?thesis by simp
  next
    case (Copying d pos k)
    with act False ring_fine_copy[OF fine i Copying _ refl] show ?thesis by auto
  next
    case (Making_room d f)
    then obtain f' where "flush_act s f = (s', f')" "p' = Making_room d f'" "ev = None"
      using act False by (auto split: prod.splits)
    with Making_room show ?thesis by (intro flushed) simp_all
  next
    case (Flushing f)
    then obtain f' where "flush_act s f = (s', f')" "p' = Flushing f'" "ev = None"
      using act False by (auto split: prod.splits)
    with Flushing show ?thesis by (intro flushed) simp_all
  qed (use False in simp_all)
qed

section \<open>What each thread has written\<close>

definition nonempty :: "string list \<Rightarrow> string list" where
  "nonempty ds = filter (\<lambda>d. d \<noteq> []) ds"

fun written :: "ring_pos \<Rightarrow> bool" where
  "written Size_test = True"
| "written (Size_read w) = True"
| "written (Flushing f) = True"
| "written Returned = True"
| "written _ = False"

text \<open>The pieces of thread \<open>i\<close> that are decided, in their order, and the number of those dropped.\<close>

definition decided :: "nat \<Rightarrow> (nat \<times> string \<times> bool) list \<Rightarrow> string list" where
  "decided i es = map (\<lambda>e. fst (snd e)) (filter (\<lambda>e. fst e = i) es)"

definition drops :: "(nat \<times> string \<times> bool) list \<Rightarrow> nat" where
  "drops es = length (filter (\<lambda>e. \<not> snd (snd e)) es)"

lemma ring_act_pieces:
  assumes "ring_act spurious s ds p = (s', ds', p', ev)" and "written p \<Longrightarrow> ds = []"
  shows "undecided p @ nonempty ds = map fst (event_list ev) @ undecided p' @ nonempty ds'"
    and "ss_dropped s' = ss_dropped s + length (filter (\<lambda>e. \<not> snd e) (event_list ev))"
    and "written p' \<Longrightarrow> ds' = []"
proof -
  have fl: "ss_dropped s'' = ss_dropped s" if "flush_act s f = (s'', f'')" for f s'' f''
    using that by (cases f) (auto simp: Let_def split: if_splits prod.splits)
  note auto_simps = nonempty_def reserve_def Let_def
  show "undecided p @ nonempty ds = map fst (event_list ev) @ undecided p' @ nonempty ds'"
    using assms by (cases p; cases ds) (auto simp: auto_simps split: if_splits prod.splits)
  show "ss_dropped s' = ss_dropped s + length (filter (\<lambda>e. \<not> snd e) (event_list ev))"
    using assms fl by (cases p; cases ds) (auto simp: auto_simps split: if_splits prod.splits)
  show "ds' = []" if "written p'"
    using assms that by (cases p; cases ds) (auto simp: auto_simps split: if_splits prod.splits)
qed

definition ring_inv :: "string \<Rightarrow> (level \<times> string) list \<Rightarrow> ring_system \<Rightarrow> bool" where
  "ring_inv file0 calls y \<longleftrightarrow>
     ring_fine file0 (rs_sink y) (stored (map snd (rs_events y))) (positions y)
     \<and> length (rs_threads y) = length calls \<and> ss_dropped (rs_sink y) = drops (rs_events y)
     \<and> (\<forall>i < length calls. case rs_threads y ! i of (ds, p) \<Rightarrow>
          decided i (rs_events y) @ undecided p @ nonempty ds = nonempty (log_pieces (calls ! i))
          \<and> (written p \<longrightarrow> ds = []))"

lemma log_pieces_length:
  "length (snd c) < 2 ^ 64 \<Longrightarrow> d \<in> set (log_pieces c) \<Longrightarrow> length d < 2 ^ 64"
  using level_to_str_length[of "fst c"] by (auto simp: log_pieces_def newline_def)

lemma ring_inv_start:
  "ring_inv file0 calls (ring_start (signal_sink_new True memory file0 [] cap) calls)"
proof -
  let ?s = "signal_sink_new True memory file0 [] cap"
  have "sink_fine ?s []" by (simp add: sink_fine_def signal_sink_new_def max_buffer_size_def)
  moreover have "apart p Between" for p by (simp add: apart_def flush_to_def)
  ultimately have "ring_fine file0 ?s [] (map (\<lambda>c. Between) calls)"
    by (auto simp: ring_fine_def bytes_fine_def file_fine_def signal_sink_new_def)
  then show ?thesis
    by (simp add: ring_inv_def ring_start_def positions_def comp_def drops_def decided_def signal_sink_new_def)
qed

lemma ring_inv_step:
  assumes inv: "ring_inv file0 calls y" and step: "quiet_step y l y'"
    and len: "\<forall>c \<in> set calls. length (snd c) < 2 ^ 64"
  shows "ring_inv file0 calls y'"
proof -
  obtain spurious i where l: "l = (spurious, i)" and i: "i < length (rs_threads y)"
    and y': "y' = ring_next spurious i y" and quiet: "quiet_at (positions y) i"
    using step by (auto simp: quiet_step_def elim: ring_stepE)
  obtain ds p where t: "rs_threads y ! i = (ds, p)" by fastforce
  obtain s ds' p' ev where act: "ring_act spurious (rs_sink y) ds p = (s, ds', p', ev)"
    by (metis prod_cases4)
  have p: "positions y ! i = p" and i': "i < length (positions y)" "i < length calls"
    using i t inv by (simp_all add: positions_def ring_inv_def)
  have next_y: "y' = \<lparr>rs_sink = s, rs_threads = (rs_threads y)[i := (ds', p')],
      rs_events = rs_events y @ map (Pair i) (event_list ev)\<rparr>"
    using t act y' by (cases ev) (simp_all add: ring_next_def)
  have mine: "decided i (rs_events y) @ undecided p @ nonempty ds = nonempty (log_pieces (calls ! i))"
    "written p \<Longrightarrow> ds = []" using inv i'(2) t by (auto simp: ring_inv_def)
  have "set (undecided p) \<subseteq> set (log_pieces (calls ! i))"
    using arg_cong[OF mine(1), of set] by (auto simp: nonempty_def)
  then have small: "\<forall>d \<in> set (undecided (positions y ! i)). length d < 2 ^ 64"
    using log_pieces_length[of "calls ! i"] len i'(2) p by auto
  have "ring_fine file0 s (stored (map snd (rs_events y)) @ stored (event_list ev)) ((positions y)[i := p'])"
    using ring_fine_act[OF _ i'(1) quiet small, of file0 "rs_sink y" _ spurious ds s ds' p' ev] act p inv
    by (simp add: ring_inv_def)
  moreover have "positions y' = (positions y)[i := p']" by (simp add: next_y positions_def map_update)
  moreover have "map snd (rs_events y') = map snd (rs_events y) @ event_list ev"
    by (simp add: next_y comp_def)
  moreover have "drops (rs_events y') = drops (rs_events y) + length (filter (\<lambda>e. \<not> snd e) (event_list ev))"
    by (simp add: next_y drops_def filter_map comp_def)
  moreover have "decided j (rs_events y') = decided j (rs_events y) @ (if j = i then map fst (event_list ev) else [])"
    for j by (simp add: next_y decided_def filter_map comp_def)
  ultimately show ?thesis
    using inv i mine ring_act_pieces[OF act mine(2)] unfolding ring_inv_def
    by (auto simp: next_y nth_list_update split: prod.splits)
qed

section \<open>Every call is accounted for\<close>

interpretation ring_threads:
  invariant_of "\<lambda>y. y = ring_start (signal_sink_new True memory file0 [] cap) calls" quiet_step
    "\<lambda>y. (\<forall>c \<in> set calls. length (snd c) < 2 ^ 64) \<longrightarrow> ring_inv file0 calls y"
  by unfold_locales (use ring_inv_start ring_inv_step in blast)+

lemma ring_pending_stream:
  assumes "ring_fine file0 s st ps" and "\<forall>p \<in> set ps. p = Returned"
  shows "ss_file s @ ring_pending s = file0 @ st"
proof -
  note d = sink_fineD[OF ring_fineD(1)[OF assms(1)]]
  have "\<not> (\<exists>p \<in> set ps. to_copy p q)" for q using assms(2) by auto
  then have "ring_pending s = map ((!) st) [ss_read_pos s..<ss_write_pos s]" unfolding ring_pending_def
    using ring_fineD(4)[OF assms(1)] assms(2) by (intro map_cong[OF refl]) (auto simp: bytes_fine_def)
  also have "\<dots> = drop (ss_read_pos s) st" using d(6) by (intro nth_equalityI) simp_all
  finally have "ring_pending s = drop (ss_read_pos s) st" .
  moreover have "\<not> (\<exists>p \<in> set ps. in_loop (flush_of p))" using assms(2) by auto
  ultimately show ?thesis using ring_fineD(5)[OF assms(1)] by (simp add: file_fine_def)
qed

text \<open>
  C14. Threads that log to the signal-safe sink at once, over an open file to which every write
  succeeds in full, in any interleaving of their atomic actions in which a flush reads \<open>write_pos_\<close>
  only while no other flush is past that point and no reserved range is still being filled: when all
  calls have returned, the file and the pending bytes are what the file held before and the stored
  pieces, whole and in the order of their reservations; every nonempty piece of every call was stored
  or dropped exactly once, each thread's in its own order; and \<open>dropped_count_\<close> counts the dropped
  ones.  (Messages shorter than \<open>2^64\<close>.)
\<close>

theorem concurrent_log_complete:
  assumes "reach (\<lambda>y. y = ring_start (signal_sink_new True memory file0 [] cap) calls) quiet_step y"
    and "\<forall>c \<in> set calls. length (snd c) < 2 ^ 64"
    and "\<forall>t \<in> set (rs_threads y). snd t = Returned"
  shows "ss_file (rs_sink y) @ ring_pending (rs_sink y) = file0 @ stored (map snd (rs_events y))
    \<and> (\<forall>i < length calls. decided i (rs_events y) = nonempty (log_pieces (calls ! i)))
    \<and> ss_dropped (rs_sink y) = drops (rs_events y)"
proof -
  have inv: "ring_inv file0 calls y" using ring_threads.invariant[OF assms(1)] assms(2) by blast
  have "\<forall>p \<in> set (positions y). p = Returned" using assms(3) by (auto simp: positions_def)
  with inv have "ss_file (rs_sink y) @ ring_pending (rs_sink y) = file0 @ stored (map snd (rs_events y))"
    by (intro ring_pending_stream[where ps = "positions y"]) (simp_all add: ring_inv_def)
  moreover have "decided i (rs_events y) = nonempty (log_pieces (calls ! i))" if i: "i < length calls" for i
  proof -
    obtain ds p where t: "rs_threads y ! i = (ds, p)" by fastforce
    have "p = Returned" using assms(3) t i inv nth_mem[of i "rs_threads y"] by (auto simp: ring_inv_def)
    with inv t i show ?thesis by (fastforce simp: ring_inv_def nonempty_def)
  qed
  ultimately show ?thesis using inv by (simp add: ring_inv_def)
qed

text \<open>Runs that can be computed, with the requirement on flushes or without.\<close>

primrec ring_run :: "bool \<Rightarrow> (bool \<times> nat) list \<Rightarrow> ring_system \<Rightarrow> ring_system option" where
  "ring_run quiet [] y = Some y"
| "ring_run quiet (l # ls) y =
     (if snd l < length (rs_threads y) \<and> (quiet \<longrightarrow> quiet_at (positions y) (snd l))
      then ring_run quiet ls (ring_next (fst l) (snd l) y) else None)"

lemma ring_run_reach:
  "ring_run quiet ls y = Some y' \<Longrightarrow> reach init (if quiet then quiet_step else ring_step) y \<Longrightarrow>
     reach init (if quiet then quiet_step else ring_step) y'"
proof (induction ls arbitrary: y)
  case (Cons l ls)
  then have l: "snd l < length (rs_threads y)" "quiet \<longrightarrow> quiet_at (positions y) (snd l)"
    "ring_run quiet ls (ring_next (fst l) (snd l) y) = Some y'" by (simp_all split: if_splits)
  have "ring_step y l (ring_next (fst l) (snd l) y)" using ring_move[OF l(1)] by (cases l) simp
  with l have "(if quiet then quiet_step else ring_step) y l (ring_next (fst l) (snd l) y)"
    by (simp add: quiet_step_def)
  from Cons.IH[OF l(3) reach_step[OF Cons.prems(2) this]] show ?case .
qed simp

text \<open>A sink of the given capacity, with the two runs below computed.\<close>

definition ring_example :: "nat \<Rightarrow> (level \<times> string) list \<Rightarrow> ring_system" where
  "ring_example cap calls =
     \<lparr>rs_sink = \<lparr>ss_ready = True, ss_buffer = (\<lambda>_. CHR ''?''), ss_write_pos = 0, ss_read_pos = 0,
        ss_capacity = cap, ss_dropped = 0, ss_in_handler = False, ss_flushing = False, ss_file = [],
        ss_script = []\<rparr>,
      rs_threads = map (\<lambda>c. (log_pieces c, Between)) calls, rs_events = []\<rparr>"

lemma ring_example_reach:
  assumes "ring_run quiet ls (ring_example cap calls) = Some y" and "cap \<le> max_buffer_size"
  shows "reach (\<lambda>y. y = ring_start (signal_sink_new True (\<lambda>_. CHR ''?'') [] [] cap) calls)
    (if quiet then quiet_step else ring_step) y"
proof -
  have "ring_example cap calls = ring_start (signal_sink_new True (\<lambda>_. CHR ''?'') [] [] cap) calls"
    using assms(2) by (simp add: ring_example_def ring_start_def signal_sink_new_def)
  then show ?thesis by (intro ring_run_reach[OF assms(1)] reach_init) simp
qed

lemma mixed_lines_run:
  "\<exists>y. ring_run True (replicate 12 (False, 0) @ replicate 30 (False, 1) @ replicate 30 (False, 0))
      (ring_example 20 [(Info, ''ab''), (Warn, [])]) = Some y
     \<and> rs_threads y = [([], Returned), ([], Returned)]
     \<and> stored (map snd (rs_events y)) = ''[INFO] [WARN] '' @ newline @ ''ab'' @ newline"
proof -
  have "case ring_run True (replicate 12 (False, 0) @ replicate 30 (False, 1) @ replicate 30 (False, 0))
      (ring_example 20 [(Info, ''ab''), (Warn, [])]) of None \<Rightarrow> False
     | Some y \<Rightarrow> rs_threads y = [([], Returned), ([], Returned)]
         \<and> stored (map snd (rs_events y)) = ''[INFO] [WARN] '' @ newline @ ''ab'' @ newline"
    by code_simp
  then show ?thesis by (simp split: option.splits)
qed

text \<open>Two calls whose pieces interleave: the text of one line ends up in the other.\<close>

theorem concurrent_log_complete_witness:
  "\<exists>y. reach (\<lambda>y. y = ring_start (signal_sink_new True (\<lambda>_. CHR ''?'') [] [] 20) [(Info, ''ab''), (Warn, [])])
       quiet_step y
     \<and> ss_file (rs_sink y) @ ring_pending (rs_sink y) = ''[INFO] [WARN] '' @ newline @ ''ab'' @ newline"
proof -
  let ?calls = "[(Info, ''ab''), (Warn, [])]"
  obtain y where y: "ring_run True (replicate 12 (False, 0) @ replicate 30 (False, 1) @ replicate 30 (False, 0))
      (ring_example 20 ?calls) = Some y" "rs_threads y = [([], Returned), ([], Returned)]"
    "stored (map snd (rs_events y)) = ''[INFO] [WARN] '' @ newline @ ''ab'' @ newline"
    using mixed_lines_run by blast
  have "reach (\<lambda>y. y = ring_start (signal_sink_new True (\<lambda>_. CHR ''?'') [] [] 20) ?calls) quiet_step y"
    using ring_example_reach[OF y(1)] by (simp add: max_buffer_size_def)
  with concurrent_log_complete[OF this] y(2,3) show ?thesis by auto
qed

section \<open>Flushes that overlap\<close>

text \<open>
  C38. Four calls of \<open>log\<close>, each by its own thread, on a sink of 16 bytes.  The flush at the end of
  \<open>log\<close> does not take \<open>flush_in_progress_\<close>, so two of them can overlap: both write the same bytes, and
  the one that stores \<open>read_pos_\<close> last may set it back, behind what a third flush has written since.
  All calls return and none reports a drop; every line has been or will be written twice.
\<close>

theorem overlapping_flushes_write_twice:
  "\<exists>y. reach (\<lambda>y. y = ring_start (signal_sink_new True (\<lambda>_. CHR ''?'') [] [] 16)
         [(Info, []), (Info, []), (Warn, []), (Warn, [])]) ring_step y
     \<and> rs_threads y = replicate 4 ([], Returned) \<and> ss_dropped (rs_sink y) = 0
     \<and> (let a = ''[INFO] '' @ newline @ ''[INFO] '' @ newline; b = ''[WARN] '' @ newline @ ''[WARN] '' @ newline
        in stored (map snd (rs_events y)) = a @ b
           \<and> ss_file (rs_sink y) = a @ a @ b \<and> ring_pending (rs_sink y) = b)"
proof -
  let ?calls = "[(Info, []), (Info, []), (Warn, []), (Warn, [])]"
  let ?ls = "replicate 20 (False, 0) @ replicate 20 (False, 1) @ replicate 5 (False, 0)
    @ replicate 10 (False, 1) @ replicate 25 (False, 2) @ replicate 30 (False, 3) @ replicate 5 (False, 0)"
  have "case ring_run False (replicate 20 (False, 0) @ replicate 20 (False, 1) @ replicate 5 (False, 0)
      @ replicate 10 (False, 1) @ replicate 25 (False, 2) @ replicate 30 (False, 3) @ replicate 5 (False, 0))
      (ring_example 16 [(Info, []), (Info, []), (Warn, []), (Warn, [])]) of None \<Rightarrow> False
     | Some y \<Rightarrow> rs_threads y = replicate 4 ([], Returned) \<and> ss_dropped (rs_sink y) = 0
         \<and> (let a = ''[INFO] '' @ newline @ ''[INFO] '' @ newline; b = ''[WARN] '' @ newline @ ''[WARN] '' @ newline
            in stored (map snd (rs_events y)) = a @ b
               \<and> ss_file (rs_sink y) = a @ a @ b \<and> ring_pending (rs_sink y) = b)"
    by code_simp
  then obtain y where y: "ring_run False ?ls (ring_example 16 ?calls) = Some y"
    and out: "rs_threads y = replicate 4 ([], Returned) \<and> ss_dropped (rs_sink y) = 0
         \<and> (let a = ''[INFO] '' @ newline @ ''[INFO] '' @ newline; b = ''[WARN] '' @ newline @ ''[WARN] '' @ newline
            in stored (map snd (rs_events y)) = a @ b
               \<and> ss_file (rs_sink y) = a @ a @ b \<and> ring_pending (rs_sink y) = b)"
    by (auto split: option.splits)
  have "reach (\<lambda>y. y = ring_start (signal_sink_new True (\<lambda>_. CHR ''?'') [] [] 16) ?calls) ring_step y"
    using ring_example_reach[OF y] by (simp add: max_buffer_size_def)
  with out show ?thesis by blast
qed

end
