(* ===== verification/Example_Console.thy ===== *)
theory Example_Console
  imports All_Sinks Config Log_Health
begin

text \<open>
  The programs of \<open>examples/\<close> that log to the console, as compositions of the model's operations.  A
  program's state is the world of the sinks, the thread's context with the scopes that are open, the
  logger at hand, the number of loggers made, the heap of filters, and the registries of the process;
  a statement is a function from states to states that may
  not return.  \<open>std::cout\<close> and the console sink write to the same stream.  What a program prints is
  given as a list of texts and log lines, whose time stamps depend on the clock.
\<close>

section \<open>Programs\<close>

text \<open>
  The machine a program runs on: the library of regular expressions, the environment of the sinks,
  the clock of the logger by the number of the call, the memory a logger is constructed in, and
  \<open>XLOG_ACTIVE_LEVEL\<close>.  The time a program sleeps is added to what the clock shows.
\<close>

record ('rx, 'n) host =
  ho_rx :: "'rx regex_lib"
  ho_env :: "'n environment"
  ho_clock :: "nat \<Rightarrow> clock"
  ho_temp :: temporary_level_change
  ho_active :: int

record ('rx, 'a, 'n, 'c) demo =
  dm_world :: "('a, 'n, 'c) sink_world"
  dm_context :: context_map
  dm_scopes :: "scoped_context list"
  dm_logger :: "('a, 'n, 'c) sink_world logger"
  dm_heap :: "'rx filter_heap"
  dm_cache :: "'rx regex_cache"
  dm_calls :: nat
  dm_slept :: time
  dm_loggers :: nat
  dm_health :: "('a, 'n, 'c) sink_world health_registry"
  dm_metrics :: metrics_registry

type_synonym ('rx, 'a, 'n, 'c) statement = "('rx, 'a, 'n, 'c) demo \<Rightarrow> ('rx, 'a, 'n, 'c) demo option"

primrec run_all :: "('s \<Rightarrow> 's option) list \<Rightarrow> 's \<Rightarrow> 's option" where
  "run_all [] s = Some s"
| "run_all (f # fs) s = Option.bind (f s) (run_all fs)"

lemma bind_run_all [simp]: "Option.bind x (run_all []) = x"
  by (cases x) simp_all

definition cout :: "string \<Rightarrow> ('rx, 'a, 'n, 'c) statement" where
  "cout text d =
     Some (d\<lparr>dm_world := (dm_world d)\<lparr>w_stdout := w_stdout (dm_world d) @ text\<rparr>\<rparr>)"

definition line_text :: "string \<Rightarrow> string" where "line_text s = s @ newline"
definition block_text :: "string \<Rightarrow> string" where "block_text s = newline @ s @ newline"
definition heading_text :: "string \<Rightarrow> string" where "heading_text s = newline @ s @ newline @ newline"
definition value_text :: "string \<Rightarrow> string \<Rightarrow> string" where "value_text label v = label @ v @ newline"

text \<open>The frame around a title, in UTF-8: \<open>n\<close> double lines between two corners.\<close>

definition frame_line :: "char \<Rightarrow> nat \<Rightarrow> char \<Rightarrow> string" where
  "frame_line left n right =
     [CHR 0xE2, CHR 0x95, left] @ concat (replicate n [CHR 0xE2, CHR 0x95, CHR 0x90])
     @ [CHR 0xE2, CHR 0x95, right] @ newline"

definition frame_text :: "string \<Rightarrow> string" where
  "frame_text s = [CHR 0xE2, CHR 0x95, CHR 0x91] @ s @ [CHR 0xE2, CHR 0x95, CHR 0x91] @ newline"

definition frame_top :: "nat \<Rightarrow> string" where "frame_top n = frame_line (CHR 0x94) n (CHR 0x97)"
definition frame_bottom :: "nat \<Rightarrow> string" where "frame_bottom n = frame_line (CHR 0x9A) n (CHR 0x9D)"

text \<open>A tick and a cross, in UTF-8.\<close>

definition tick :: string where "tick = [CHR 0xE2, CHR 0x9C, CHR 0x93]"
definition ballot :: string where "ballot = [CHR 0xE2, CHR 0x9C, CHR 0x97]"

text \<open>A text that depends on the state.\<close>

definition cout_of :: "(('rx, 'a, 'n, 'c) demo \<Rightarrow> string) \<Rightarrow> ('rx, 'a, 'n, 'c) statement" where
  "cout_of f d = cout (f d) d"

definition with_logger ::
    "(('a, 'n, 'c) sink_world logger \<Rightarrow> ('a, 'n, 'c) sink_world logger) \<Rightarrow> ('rx, 'a, 'n, 'c) statement" where
  "with_logger f d = Some (d\<lparr>dm_logger := f (dm_logger d)\<rparr>)"

text \<open>
  \<open>std::make_shared<Logger>\<close>, and a logger with a console sink.  The sink is at address 0,
  where an earlier logger's console sink, which has no state, may have been.  A logger's address, for the health registry,
  is the number of loggers made before it; \<open>create\_stdout\_logger\<close> offers the logger to that registry.
\<close>

definition console_ops :: "('rx, 'n) host \<Rightarrow> ('a, 'n, 'c) sink_world make_ops" where
  "console_ops h =
     \<lparr>mk_sink = (\<lambda>spec w. (0, set_object 0 Stdout_sink w)), mk_register = (\<lambda>nm w. w),
      mk_temp = ho_temp h\<rparr>"

definition register_made :: "string \<Rightarrow> ('rx, 'a, 'n, 'c) demo \<Rightarrow> ('rx, 'a, 'n, 'c) demo" where
  "register_made nm d =
     d\<lparr>dm_health := auto_register nm (dm_loggers d) (dm_health d), dm_loggers := Suc (dm_loggers d)\<rparr>"

definition make_logger :: "('rx, 'n) host \<Rightarrow> string \<Rightarrow> ('rx, 'a, 'n, 'c) statement" where
  "make_logger h nm d =
     Some (d\<lparr>dm_logger := logger_new (ho_temp h) nm, dm_loggers := Suc (dm_loggers d)\<rparr>)"

definition add_stdout_sink :: "('rx, 'a, 'n, 'c) statement" where
  "add_stdout_sink d =
     Some (d\<lparr>dm_world := set_object 0 Stdout_sink (dm_world d),
             dm_logger := add_sink_unnamed (Some 0) (dm_logger d)\<rparr>)"

definition make_stdout_logger :: "('rx, 'n) host \<Rightarrow> string \<Rightarrow> ('rx, 'a, 'n, 'c) statement" where
  "make_stdout_logger h nm d =
     (let (lg, w) = create_stdout_logger (console_ops h) nm (dm_world d)
      in Some ((register_made nm d)\<lparr>dm_logger := lg, dm_world := w\<rparr>))"

text \<open>A logger with a file sink.\<close>

definition make_file_logger :: "('rx, 'n) host \<Rightarrow> string \<Rightarrow> string \<Rightarrow> ('rx, 'a, 'n, 'c) statement" where
  "make_file_logger h nm path d =
     (let (s, fs) = file_sink_new (en_can_open (ho_env h)) path (w_files (dm_world d))
      in Some (d\<lparr>dm_loggers := Suc (dm_loggers d),
                 dm_logger := add_sink_unnamed (Some 0) (logger_new (ho_temp h) nm),
                 dm_world := set_object 0 (File_sink s) ((dm_world d)\<lparr>w_files := fs\<rparr>)\<rparr>))"

definition clock_now :: "('rx, 'n) host \<Rightarrow> ('rx, 'a, 'n, 'c) demo \<Rightarrow> clock" where
  "clock_now h d = (\<lambda>i. ho_clock h (dm_calls d) i + dm_slept d)"

definition sleep_for :: "time \<Rightarrow> ('rx, 'a, 'n, 'c) statement" where
  "sleep_for t d = Some (d\<lparr>dm_slept := dm_slept d + t\<rparr>)"

text \<open>A call of the logger that returns a new logger, heap and world.\<close>

definition logger_call ::
    "(clock \<Rightarrow> context_map \<Rightarrow> ('a, 'n, 'c) sink_world logger \<times> 'rx filter_heap \<times> ('a, 'n, 'c) sink_world
        \<Rightarrow> (('a, 'n, 'c) sink_world logger \<times> 'rx filter_heap \<times> ('a, 'n, 'c) sink_world) option)
      \<Rightarrow> ('rx, 'n) host \<Rightarrow> ('rx, 'a, 'n, 'c) statement" where
  "logger_call f h d =
     map_option (\<lambda>(lg, hp, w). d\<lparr>dm_logger := lg, dm_heap := hp, dm_world := w, dm_calls := Suc (dm_calls d)\<rparr>)
       (f (clock_now h d) (dm_context d) (dm_logger d, dm_heap d, dm_world d))"

definition say :: "('rx, 'n) host \<Rightarrow> level \<Rightarrow> string \<Rightarrow> ('rx, 'a, 'n, 'c) statement" where
  "say h l msg = logger_call (\<lambda>clk ctx. Logger.log (ho_rx h) (all_sinks (ho_env h)) clk ctx l msg) h"

definition macro :: "('rx, 'n) host \<Rightarrow> level \<Rightarrow> string \<Rightarrow> ('rx, 'a, 'n, 'c) statement" where
  "macro h l msg =
     logger_call (\<lambda>clk ctx. xlog_log (ho_active h) (ho_rx h) (all_sinks (ho_env h)) clk ctx l msg) h"

definition macro_if :: "('rx, 'n) host \<Rightarrow> level \<Rightarrow> bool \<Rightarrow> string \<Rightarrow> ('rx, 'a, 'n, 'c) statement" where
  "macro_if h l b msg =
     logger_call (\<lambda>clk ctx. xlog_log_if (ho_active h) (ho_rx h) (all_sinks (ho_env h)) clk ctx l b msg) h"

text \<open>A filter is constructed, and given to the logger; a composite is filled before that.\<close>

definition new_filter :: "'rx filter_obj \<Rightarrow> (fptr \<Rightarrow> ('rx, 'a, 'n, 'c) statement) \<Rightarrow> ('rx, 'a, 'n, 'c) statement" where
  "new_filter x f d = (let (p, hp) = alloc_filter x (dm_heap d) in f p (d\<lparr>dm_heap := hp\<rparr>))"

definition fill_composite :: "fptr \<Rightarrow> fptr \<Rightarrow> ('rx, 'a, 'n, 'c) statement" where
  "fill_composite p q d = Some (d\<lparr>dm_heap := composite_add_filter p q (dm_heap d)\<rparr>)"

text \<open>A regex filter; a pattern that does not compile throws, and the program ends.\<close>

definition new_regex_filter ::
    "'rx regex_filter option \<Rightarrow> (fptr \<Rightarrow> ('rx, 'a, 'n, 'c) statement) \<Rightarrow> ('rx, 'a, 'n, 'c) statement" where
  "new_regex_filter x f d = (case x of None \<Rightarrow> None | Some rf \<Rightarrow> new_filter (RegexFilter rf) f d)"

text \<open>An operation of the filter cache, with its result.\<close>

definition cache_call ::
    "('rx cache_state \<Rightarrow> (filter_error + 'r) \<times> 'rx cache_state) \<Rightarrow> ('r \<Rightarrow> ('rx, 'a, 'n, 'c) statement)
      \<Rightarrow> ('rx, 'a, 'n, 'c) statement" where
  "cache_call f k d =
     (case f (dm_cache d, dm_heap d) of
        (Inl e, _) \<Rightarrow> None
      | (Inr x, c, hp) \<Rightarrow> k x (d\<lparr>dm_cache := c, dm_heap := hp\<rparr>))"

text \<open>A change of the level, whose callbacks may print.\<close>

definition level_call ::
    "(clock \<Rightarrow> ('a, 'n, 'c) sink_world logger \<times> ('a, 'n, 'c) sink_world
        \<Rightarrow> ('a, 'n, 'c) sink_world logger \<times> ('a, 'n, 'c) sink_world)
      \<Rightarrow> ('rx, 'n) host \<Rightarrow> ('rx, 'a, 'n, 'c) statement" where
  "level_call f h d =
     (let (lg, w) = f (clock_now h d) (dm_logger d, dm_world d)
      in Some (d\<lparr>dm_logger := lg, dm_world := w, dm_calls := Suc (dm_calls d)\<rparr>))"

definition print_text :: "string \<Rightarrow> ('a, 'n, 'c) sink_world \<Rightarrow> ('a, 'n, 'c) sink_world" where
  "print_text t w = w\<lparr>w_stdout := w_stdout w @ t\<rparr>"

text \<open>A reading of the clock, and a text that depends on one.\<close>

definition clock_then :: "('rx, 'n) host \<Rightarrow> (clock \<Rightarrow> ('rx, 'a, 'n, 'c) statement) \<Rightarrow> ('rx, 'a, 'n, 'c) statement" where
  "clock_then h k d = k (clock_now h d) (d\<lparr>dm_calls := Suc (dm_calls d)\<rparr>)"

definition now_then :: "('rx, 'n) host \<Rightarrow> (time \<Rightarrow> ('rx, 'a, 'n, 'c) statement) \<Rightarrow> ('rx, 'a, 'n, 'c) statement" where
  "now_then h k = clock_then h (\<lambda>clk. k (clk 0))"

definition cout_at ::
    "('rx, 'n) host \<Rightarrow> (clock \<Rightarrow> ('rx, 'a, 'n, 'c) demo \<Rightarrow> string) \<Rightarrow> ('rx, 'a, 'n, 'c) statement" where
  "cout_at h f = clock_then h (\<lambda>clk. cout_of (f clk))"

text \<open>A loop with local variables, which the rest of the block goes on with.\<close>

primrec loop ::
    "('i \<Rightarrow> 'l \<Rightarrow> ('l \<Rightarrow> 's \<Rightarrow> 's option) \<Rightarrow> 's \<Rightarrow> 's option) \<Rightarrow> 'i list \<Rightarrow> 'l
      \<Rightarrow> ('l \<Rightarrow> 's \<Rightarrow> 's option) \<Rightarrow> 's \<Rightarrow> 's option" where
  "loop body [] l k = k l"
| "loop body (i # is) l k = body i l (\<lambda>l'. loop body is l' k)"

text \<open>A \<open>ScopedContext\<close> in a block: opened, set, and closed at the end of the block.\<close>

definition open_scope :: "('rx, 'a, 'n, 'c) statement" where
  "open_scope d =
     (let (sc, ctx) = scoped_new [] (dm_context d)
      in Some (d\<lparr>dm_scopes := sc # dm_scopes d, dm_context := ctx\<rparr>))"

definition set_in_scope :: "string \<Rightarrow> string \<Rightarrow> ('rx, 'a, 'n, 'c) statement" where
  "set_in_scope k v d =
     (case dm_scopes d of
        [] \<Rightarrow> Some d
      | sc # scs \<Rightarrow>
          (let (sc', ctx) = scoped_set k v (sc, dm_context d)
           in Some (d\<lparr>dm_scopes := sc' # scs, dm_context := ctx\<rparr>)))"

definition close_scope :: "('rx, 'a, 'n, 'c) statement" where
  "close_scope d =
     (case dm_scopes d of
        [] \<Rightarrow> Some d
      | sc # scs \<Rightarrow> Some (d\<lparr>dm_scopes := scs, dm_context := scoped_delete (sc, dm_context d)\<rparr>))"

section \<open>What a program prints\<close>

datatype console_item = Text string | Line string level string

fun render :: "'n environment \<Rightarrow> nat \<Rightarrow> console_item list \<Rightarrow> string" where
  "render en k [] = []"
| "render en k (Text t # xs) = t @ render en k xs"
| "render en k (Line nm l msg # xs) =
     stdout_text (en_tz en) (en_clock en k 0) nm l msg @ render en (Suc k) xs"

fun item_lines :: "console_item list \<Rightarrow> nat" where
  "item_lines [] = 0"
| "item_lines (Text t # xs) = item_lines xs"
| "item_lines (Line nm l msg # xs) = Suc (item_lines xs)"

definition print_items :: "'n environment \<Rightarrow> console_item list \<Rightarrow> ('a, 'n, 'c) sink_world \<Rightarrow> ('a, 'n, 'c) sink_world" where
  "print_items en xs w =
     w\<lparr>w_stdout := w_stdout w @ render en (w_calls w) xs, w_calls := w_calls w + item_lines xs\<rparr>"

lemma render_append: "render en k (xs @ ys) = render en k xs @ render en (k + item_lines xs) ys"
  by (induction en k xs rule: render.induct) simp_all

lemma item_lines_append [simp]: "item_lines (xs @ ys) = item_lines xs + item_lines ys"
  by (induction xs rule: item_lines.induct) simp_all

lemma print_items_items [simp]: "print_items en ys (print_items en xs w) = print_items en (xs @ ys) w"
  by (simp add: print_items_def render_append add.assoc)

lemma print_items_fields [simp]:
  "w_objects (print_items en xs w) = w_objects w" "w_stuck (print_items en xs w) = w_stuck w"
  "w_files (print_items en xs w) = w_files w"
  "set_object p x (print_items en xs w) = print_items en xs (set_object p x w)"
  by (simp_all add: print_items_def set_object_def)

text \<open>The initial state of a program, and a state that has printed something since.\<close>

definition printed ::
    "('rx, 'n) host \<Rightarrow> console_item list \<Rightarrow> ('rx, 'a, 'n, 'c) demo \<Rightarrow> ('rx, 'a, 'n, 'c) demo" where
  "printed h xs d = d\<lparr>dm_world := print_items (ho_env h) xs (dm_world d)\<rparr>"

lemma printed_host [simp]: "printed (h\<lparr>ho_clock := c\<rparr>) = printed h"
  by (simp add: printed_def fun_eq_iff)

lemma printed_nothing [simp]: "printed h [] d = d"
  by (simp add: printed_def print_items_def)

lemma printed_printed [simp]: "printed h ys (printed h xs d) = printed h (xs @ ys) d"
  by (simp add: printed_def)

lemma printed_updates [simp]:
  "(printed h xs d)\<lparr>dm_context := c\<rparr> = printed h xs (d\<lparr>dm_context := c\<rparr>)"
  "(printed h xs d)\<lparr>dm_scopes := scs\<rparr> = printed h xs (d\<lparr>dm_scopes := scs\<rparr>)"
  "(printed h xs d)\<lparr>dm_logger := lg\<rparr> = printed h xs (d\<lparr>dm_logger := lg\<rparr>)"
  "(printed h xs d)\<lparr>dm_heap := hp\<rparr> = printed h xs (d\<lparr>dm_heap := hp\<rparr>)"
  "(printed h xs d)\<lparr>dm_cache := c'\<rparr> = printed h xs (d\<lparr>dm_cache := c'\<rparr>)"
  "(printed h xs d)\<lparr>dm_calls := k\<rparr> = printed h xs (d\<lparr>dm_calls := k\<rparr>)"
  "(printed h xs d)\<lparr>dm_slept := t\<rparr> = printed h xs (d\<lparr>dm_slept := t\<rparr>)"
  "(printed h xs d)\<lparr>dm_loggers := k\<rparr> = printed h xs (d\<lparr>dm_loggers := k\<rparr>)"
  "(printed h xs d)\<lparr>dm_health := g\<rparr> = printed h xs (d\<lparr>dm_health := g\<rparr>)"
  "(printed h xs d)\<lparr>dm_metrics := g'\<rparr> = printed h xs (d\<lparr>dm_metrics := g'\<rparr>)"
  "(printed h xs d)\<lparr>dm_world := w\<rparr> = d\<lparr>dm_world := w\<rparr>"
  "dm_world (printed h xs d) = print_items (ho_env h) xs (dm_world d)"
  by (simp_all add: printed_def)

named_theorems demo_simps \<open>evaluation of programs\<close>

lemma printed_fold [demo_simps]:
  "d\<lparr>dm_world := print_items (ho_env h) xs w\<rparr> = printed h xs (d\<lparr>dm_world := w\<rparr>)"
  by (simp add: printed_def)

lemma printed_fields [simp]:
  "dm_context (printed h xs d) = dm_context d" "dm_scopes (printed h xs d) = dm_scopes d"
  "dm_logger (printed h xs d) = dm_logger d" "dm_heap (printed h xs d) = dm_heap d"
  "dm_cache (printed h xs d) = dm_cache d" "dm_calls (printed h xs d) = dm_calls d"
  "dm_loggers (printed h xs d) = dm_loggers d" "dm_health (printed h xs d) = dm_health d"
  "dm_metrics (printed h xs d) = dm_metrics d" "dm_slept (printed h xs d) = dm_slept d"
  by (simp_all add: printed_def)

lemma cout_printed: "cout t d = Some (printed h [Text t] d)"
  by (simp add: cout_def printed_def print_items_def)

text \<open>A logger whose only sink is the console, with nothing to redact.\<close>

definition console_logger :: "'w logger \<Rightarrow> bool" where
  "console_logger lg \<longleftrightarrow>
     \<not> tmp_active (lg_temp lg)
     \<and> lg_sink_entries lg = [\<lparr>se_sink = Some 0, se_name = [], se_marked = False, se_refs = 0\<rparr>]
     \<and> lg_redact_patterns lg = [] \<and> lg_redact_regex_patterns lg = [] \<and> lg_redact_pii_presets lg = []
     \<and> lg_overrides lg = Map.empty"

definition on_console :: "('rx, 'a, 'n, 'c) demo \<Rightarrow> bool" where
  "on_console d \<longleftrightarrow>
     console_logger (dm_logger d) \<and> w_objects (dm_world d) 0 = Stdout_sink \<and> \<not> w_stuck (dm_world d)"

lemma on_console_printed [simp]: "on_console (printed h xs d) = on_console d"
  by (simp add: on_console_def printed_def)

lemma console_log:
  assumes "w_objects w 0 = Stdout_sink" "\<not> w_stuck w"
  shows "so_log (all_sinks en) 0 nm l msg w = print_items en [Line nm l msg] w"
  using assms
  by (simp add: all_sinks_def sink_calls.simps[of en nm l msg "[Some 0]"]
      sink_calls.simps[of en nm l msg "[]"] leaf_log_def leaf_effect_def print_items_def)

definition accepted :: "('rx, 'n) host \<Rightarrow> level \<Rightarrow> ('rx, 'a, 'n, 'c) demo \<Rightarrow> (bool \<times> 'rx filter_heap) option" where
  "accepted h l d =
     should_log (ho_rx h) (dm_context d) (probe_record (lg_name (dm_logger d)) l) (dm_logger d) (dm_heap d)"

text \<open>A call on such a logger prints its line if the level and the filters accept it.\<close>

definition say_result ::
    "('rx, 'n) host \<Rightarrow> level \<Rightarrow> string \<Rightarrow> ('rx, 'a, 'n, 'c) statement" where
  "say_result h l msg d =
     (case accepted h l d of
        None \<Rightarrow> None
      | Some (b, hp) \<Rightarrow>
          Some ((printed h (if b then [Line (lg_name (dm_logger d)) l msg] else []) d)
                 \<lparr>dm_heap := hp, dm_calls := Suc (dm_calls d)\<rparr>))"

lemma say_console: "on_console d \<Longrightarrow> say h l msg d = say_result h l msg d"
  by (auto simp: say_def logger_call_def say_result_def accepted_def Logger.log_def
      check_temporary_level_expiry_def on_console_def console_logger_def apply_redaction_def Let_def console_log
      printed_def print_items_def split: option.splits prod.splits)

section \<open>Proving what is printed\<close>

definition ready :: "('rx, 'a, 'n, 'c) demo \<Rightarrow> bool" where
  "ready d \<longleftrightarrow> dm_context d = Map.empty \<and> dm_scopes d = [] \<and> \<not> w_stuck (dm_world d)"

text \<open>
  From every state of a thread with no context in which the singletons of the process and
  the time slept satisfy \<open>P\<close>, the statement returns to such a state in which they satisfy \<open>Q\<close>; of the world it changes the
  objects and the files, and it prints the items.
\<close>

type_synonym ('rx, 'a, 'n, 'c) singletons =
  "'rx regex_cache \<times> ('a, 'n, 'c) sink_world health_registry \<times> metrics_registry \<times> time"

definition process :: "('rx, 'a, 'n, 'c) demo \<Rightarrow> ('rx, 'a, 'n, 'c) singletons" where
  "process d = (dm_cache d, dm_health d, dm_metrics d, dm_slept d)"

definition prints_when ::
    "(('rx, 'a, 'n, 'c) singletons \<Rightarrow> bool) \<Rightarrow> ('rx, 'n) host \<Rightarrow> ('rx, 'a, 'n, 'c) statement
      \<Rightarrow> (('rx, 'a, 'n, 'c) singletons \<Rightarrow> bool) \<Rightarrow> console_item list \<Rightarrow> bool" where
  "prints_when P h f Q xs \<longleftrightarrow> (\<forall>d. ready d \<and> P (process d) \<longrightarrow>
     (\<exists>d' objs fs. f d = Some d' \<and> ready d' \<and> Q (process d')
        \<and> dm_world d' = print_items (ho_env h) xs ((dm_world d)\<lparr>w_objects := objs, w_files := fs\<rparr>)))"

abbreviation prints :: "('rx, 'n) host \<Rightarrow> ('rx, 'a, 'n, 'c) statement \<Rightarrow> console_item list \<Rightarrow> bool" where
  "prints h f xs \<equiv> prints_when (\<lambda>_. True) h f (\<lambda>_. True) xs"

lemma prints_files:
  fixes f :: "('rx, 'a, 'n, 'c) statement"
  assumes "\<And>d. ready d \<Longrightarrow> P (process d) \<Longrightarrow> \<exists>d' objs fs. f d = Some d' \<and> dm_context d' = Map.empty
    \<and> dm_scopes d' = [] \<and> Q (process d')
    \<and> dm_world d' = print_items (ho_env h) xs ((dm_world d)\<lparr>w_objects := objs, w_files := fs\<rparr>)"
  shows "prints_when P h f Q xs"
  unfolding prints_when_def ready_def
proof (intro allI impI)
  fix d :: "('rx, 'a, 'n, 'c) demo"
  assume "(dm_context d = Map.empty \<and> dm_scopes d = [] \<and> \<not> w_stuck (dm_world d)) \<and> P (process d)"
  with assms[of d] show "\<exists>d' objs fs. f d = Some d'
      \<and> (dm_context d' = Map.empty \<and> dm_scopes d' = [] \<and> \<not> w_stuck (dm_world d')) \<and> Q (process d')
      \<and> dm_world d' = print_items (ho_env h) xs ((dm_world d)\<lparr>w_objects := objs, w_files := fs\<rparr>)"
    by (fastforce simp: ready_def)
qed

lemma prints_whenI:
  fixes f :: "('rx, 'a, 'n, 'c) statement"
  assumes "\<And>d. ready d \<Longrightarrow> P (process d) \<Longrightarrow> \<exists>d' objs. f d = Some d' \<and> dm_context d' = Map.empty
    \<and> dm_scopes d' = [] \<and> Q (process d')
    \<and> dm_world d' = print_items (ho_env h) xs ((dm_world d)\<lparr>w_objects := objs\<rparr>)"
  shows "prints_when P h f Q xs"
proof (rule prints_files)
  fix d :: "('rx, 'a, 'n, 'c) demo" assume "ready d" "P (process d)"
  then obtain d' objs where "f d = Some d'" "dm_context d' = Map.empty" "dm_scopes d' = []" "Q (process d')"
    "dm_world d' = print_items (ho_env h) xs ((dm_world d)\<lparr>w_objects := objs\<rparr>)"
    using assms by blast
  then show "\<exists>d' objs fs. f d = Some d' \<and> dm_context d' = Map.empty \<and> dm_scopes d' = [] \<and> Q (process d')
      \<and> dm_world d' = print_items (ho_env h) xs ((dm_world d)\<lparr>w_objects := objs, w_files := fs\<rparr>)"
    by (intro exI[of _ d'] exI[of _ objs] exI[of _ "w_files (dm_world d)"]) simp
qed

lemma printsI:
  assumes "\<And>d. ready d \<Longrightarrow> \<exists>d' objs. f d = Some d' \<and> dm_context d' = Map.empty \<and> dm_scopes d' = []
    \<and> dm_world d' = print_items (ho_env h) xs ((dm_world d)\<lparr>w_objects := objs\<rparr>)"
  shows "prints h f xs"
  by (rule prints_whenI) (use assms in blast)

lemma prints_cout:
  fixes h :: "('rx, 'n) host"
  shows "prints_when P h (cout t :: ('rx, 'a, 'n, 'c) statement) P [Text t]"
proof (rule prints_whenI)
  fix d :: "('rx, 'a, 'n, 'c) demo" assume "ready d" "P (process d)"
  then show "\<exists>d' objs. cout t d = Some d' \<and> dm_context d' = Map.empty \<and> dm_scopes d' = [] \<and> P (process d')
    \<and> dm_world d' = print_items (ho_env h) [Text t] ((dm_world d)\<lparr>w_objects := objs\<rparr>)"
    by (intro exI[of _ "printed h [Text t] d"] exI[of _ "w_objects (dm_world d)"])
       (simp add: cout_printed[where h = h] ready_def process_def)
qed

lemma prints_Nil:
  fixes h :: "('rx, 'n) host"
  shows "prints_when P h (run_all [] :: ('rx, 'a, 'n, 'c) statement) P []"
proof (rule prints_whenI)
  fix d :: "('rx, 'a, 'n, 'c) demo" assume "ready d" "P (process d)"
  then show "\<exists>d' objs. run_all [] d = Some d' \<and> dm_context d' = Map.empty \<and> dm_scopes d' = [] \<and> P (process d')
    \<and> dm_world d' = print_items (ho_env h) [] ((dm_world d)\<lparr>w_objects := objs\<rparr>)"
    by (intro exI[of _ d] exI[of _ "w_objects (dm_world d)"]) (simp add: ready_def print_items_def)
qed

lemma prints_Cons:
  fixes f :: "('rx, 'a, 'n, 'c) statement"
  assumes "prints_when P h f Q xs" and "prints_when Q h (run_all fs) R ys"
  shows "prints_when P h (run_all (f # fs)) R (xs @ ys)"
proof (rule prints_files)
  fix d :: "('rx, 'a, 'n, 'c) demo" assume d: "ready d" "P (process d)"
  then obtain d1 o1 f1 where 1: "f d = Some d1" "ready d1" "Q (process d1)"
    "dm_world d1 = print_items (ho_env h) xs ((dm_world d)\<lparr>w_objects := o1, w_files := f1\<rparr>)"
    using assms(1) unfolding prints_when_def by blast
  with assms(2) obtain d2 o2 f2 where "run_all fs d1 = Some d2" "ready d2" "R (process d2)"
    "dm_world d2 = print_items (ho_env h) ys ((dm_world d1)\<lparr>w_objects := o2, w_files := f2\<rparr>)"
    unfolding prints_when_def by blast
  with 1 show "\<exists>d' objs fs'. run_all (f # fs) d = Some d' \<and> dm_context d' = Map.empty \<and> dm_scopes d' = []
    \<and> R (process d')
    \<and> dm_world d' = print_items (ho_env h) (xs @ ys) ((dm_world d)\<lparr>w_objects := objs, w_files := fs'\<rparr>)"
    by (intro exI[of _ d2] exI[of _ o2] exI[of _ f2])
       (simp add: ready_def print_items_def render_append add.assoc)
qed

lemma prints_eq: "prints_when P h f Q xs \<Longrightarrow> xs = ys \<Longrightarrow> prints_when P h f Q ys"
  by simp

lemma prints_any: "prints h f xs \<Longrightarrow> prints_when P h f (\<lambda>_. True) xs"
  by (simp add: prints_when_def)

lemmas prints_intros = prints_Cons prints_Nil prints_cout

lemma world_objects [demo_simps]:
  "set_object p x w = w\<lparr>w_objects := (w_objects w)(p := x)\<rparr>"
  "(print_items en xs w)\<lparr>w_objects := objs\<rparr> = print_items en xs (w\<lparr>w_objects := objs\<rparr>)"
  "\<exists>objs'. print_items en xs (w\<lparr>w_objects := objs\<rparr>) = print_items en xs (w\<lparr>w_objects := objs'\<rparr>)"
  by (simp add: set_object_def, simp add: print_items_def, blast)

lemma same_objects [demo_simps]: "\<exists>objs. print_items en xs w = print_items en xs (w\<lparr>w_objects := objs\<rparr>)"
  by (intro exI[of _ "w_objects w"]) simp

lemma world_files [demo_simps]:
  "(print_items en xs w)\<lparr>w_files := fs\<rparr> = print_items en xs (w\<lparr>w_files := fs\<rparr>)"
  "\<exists>objs' fs'. print_items en xs (w\<lparr>w_files := fs, w_objects := objs\<rparr>)
     = print_items en xs (w\<lparr>w_objects := objs', w_files := fs'\<rparr>)"
  by (simp add: print_items_def) (intro exI[of _ objs] exI[of _ fs], cases w, simp)

lemma print_text_items [demo_simps]:
  "print_text t (print_items en xs w) = print_items en (xs @ [Text t]) w"
  by (simp add: print_text_def print_items_def render_append)

lemma macro_say:
  "macro h l msg d =
     (if ho_active h \<le> level_int l then say h l msg d else Some (d\<lparr>dm_calls := Suc (dm_calls d)\<rparr>))"
  by (simp add: macro_def say_def logger_call_def xlog_log_def)

lemma macro_if_say:
  "macro_if h l b msg d =
     (if xlog_level_enabled (ho_active h) (dm_logger d) l \<and> b then say h l msg d
      else Some (d\<lparr>dm_calls := Suc (dm_calls d)\<rparr>))"
  by (simp add: macro_if_def say_def logger_call_def xlog_log_if_def)

lemmas console_defs [demo_simps] =
  on_console_def console_logger_def say_console say_result_def accepted_def should_log_def
  probe_record_def make_logger_def make_stdout_logger_def register_made_def create_stdout_logger_def console_ops_def
  add_stdout_sink_def with_logger_def logger_new_def add_sink_unnamed_def add_sink_def set_level_def
  get_level_def set_filter_func_def clear_filters_def add_filter_def new_filter_def alloc_filter_def
  fill_composite_def new_regex_filter_def cache_call_def level_call_def cout_of_def cout_at_def
  now_then_def clock_then_def sleep_for_def clock_now_def composite_add_filter_def set_filter_def open_scope_def set_in_scope_def
  close_scope_def macro_say macro_if_say xlog_level_enabled_def ready_def

lemma scope_defs [demo_simps]:
  "scoped_new [] ctx = (\<lparr>scoped_keys = []\<rparr>, ctx)"
  "scoped_set k v (sc, ctx) =
     ((if ctx k = None then sc\<lparr>scoped_keys := scoped_keys sc @ [k]\<rparr> else sc), ctx(k \<mapsto> v))"
  "scoped_delete (\<lparr>scoped_keys = [k]\<rparr>, ctx) = ctx(k := None)"
  by (simp_all add: scoped_new_def scoped_set_def scoped_delete_def ctx_set_def ctx_contains_def ctx_remove_def)

lemma filter_steps [demo_simps]:
  "filters_accept rx ctx r [] hp = Some (True, hp)"
  "fh_objs hp p = FieldFilter nm v \<Longrightarrow>
     filter_run rx ctx r (Inl p) hp = Some (field_should_log ctx nm v r, hp)"
  "fh_objs hp p = LevelFilter l \<Longrightarrow> filter_run rx ctx r (Inl p) hp = Some (l \<le> rec_level r, hp)"
  "fh_objs hp p = CompositeFilter m (q # qs) \<Longrightarrow>
     filter_run rx ctx r (Inl p) hp = filter_run rx ctx r (Inr (m, q # qs)) hp"
  by (simp_all add: filter_run.simps[of rx ctx r "Inl p"])

lemma regex_filter_step [demo_simps]:
  "fh_objs hp p = RegexFilter rf \<Longrightarrow>
     filter_run rx ctx r (Inl p) hp =
       (let (b, rf') = regex_should_log rx ctx rf r in Some (b, set_filter p (RegexFilter rf') hp))"
  by (simp add: filter_run.simps[of rx ctx r "Inl p"])

lemma filter_loop_steps [demo_simps]:
  "filter_run rx ctx r (Inr (And, [])) hp = Some (True, hp)"
  "filter_run rx ctx r (Inr (And, q # qs)) hp =
     Option.bind (filter_run rx ctx r (Inl q) hp)
       (\<lambda>(b, hp'). if \<not> b then Some (False, hp') else filter_run rx ctx r (Inr (And, qs)) hp')"
  by (simp_all add: filter_run.simps[of rx ctx r "Inr _"])

lemmas field_defs [demo_simps] = filter_should_log_def field_should_log_def get_field_def

text \<open>The cache of the filters and the health registry when the process starts.\<close>

definition fresh_cache :: "'rx regex_cache" where
  "fresh_cache = \<lparr>rc_cache = [], rc_precompiled = [], rc_hits = 0, rc_misses = 0\<rparr>"

definition no_filter_or_logger :: "('rx, 'a, 'n, 'c) singletons \<Rightarrow> bool" where
  "no_filter_or_logger = (\<lambda>(cache, health, _, slept).
     cache = fresh_cache \<and> health = health_registry_new \<and> slept = 0)"

definition no_logger :: "('rx, 'a, 'n, 'c) singletons \<Rightarrow> bool" where
  "no_logger = (\<lambda>(_, health, _, slept). health = health_registry_new \<and> slept = 0)"

definition not_slept :: "('rx, 'a, 'n, 'c) singletons \<Rightarrow> bool" where
  "not_slept = (\<lambda>(_, _, _, slept). slept = 0)"

section \<open>Loops that log\<close>

text \<open>The body of a loop that logs a line and updates a local variable.\<close>

definition log_each ::
    "('rx, 'n) host \<Rightarrow> level \<Rightarrow> ('i \<Rightarrow> string) \<Rightarrow> ('i \<Rightarrow> 'l \<Rightarrow> 'l) \<Rightarrow> 'i \<Rightarrow> 'l
      \<Rightarrow> ('l \<Rightarrow> ('rx, 'a, 'n, 'c) statement) \<Rightarrow> ('rx, 'a, 'n, 'c) statement" where
  "log_each h l msg f i m k = run_all [say h l (msg i), k (f i m)]"

text \<open>A logger without filters that takes every level, and a state after \<open>n\<close> calls.\<close>

definition plain_logger :: "'w logger \<Rightarrow> bool" where
  "plain_logger lg \<longleftrightarrow>
     console_logger lg \<and> lg_filters lg = [] \<and> lg_filter_func lg = None \<and> lg_min_level lg = Trace"

definition plain_console :: "('rx, 'a, 'n, 'c) demo \<Rightarrow> bool" where
  "plain_console d \<longleftrightarrow>
     plain_logger (dm_logger d) \<and> w_objects (dm_world d) 0 = Stdout_sink \<and> \<not> w_stuck (dm_world d)"

definition after_calls ::
    "('rx, 'n) host \<Rightarrow> nat \<Rightarrow> console_item list \<Rightarrow> ('rx, 'a, 'n, 'c) demo \<Rightarrow> ('rx, 'a, 'n, 'c) demo" where
  "after_calls h n xs d = (printed h xs d)\<lparr>dm_calls := n + dm_calls d\<rparr>"

lemma plain_after_calls [simp]: "plain_console (after_calls h n xs d) = plain_console d"
  by (simp add: plain_console_def after_calls_def)

lemma after_calls_after [simp]:
  "after_calls h m ys (after_calls h n xs d) = after_calls h (m + n) (xs @ ys) d"
  "after_calls h n ys (printed h xs d) = after_calls h n (xs @ ys) d"
  "printed h ys (after_calls h n xs d) = after_calls h n (xs @ ys) d"
  by (simp_all add: after_calls_def add.assoc)

lemma say_plain:
  "plain_console d \<Longrightarrow> say h l msg d = Some (after_calls h 1 [Line (lg_name (dm_logger d)) l msg] d)"
  by (cases l) (simp_all add: say_console on_console_def plain_console_def plain_logger_def say_result_def
      accepted_def should_log_def probe_record_def after_calls_def)

lemma after_calls_name [simp]: "dm_logger (after_calls h n xs d) = dm_logger d"
  by (simp add: after_calls_def)

lemma loop_says:
  assumes "plain_console d"
  shows "loop (log_each h l msg f) is m k d
    = k (foldl (\<lambda>m i. f i m) m is)
        (after_calls h (length is) (map (\<lambda>i. Line (lg_name (dm_logger d)) l (msg i)) is) d)"
  using assms
proof (induction "is" arbitrary: m d)
  case (Cons i "is")
  then show ?case by (simp add: log_each_def say_plain)
qed (simp add: after_calls_def)

end
