(* ===== verification/Double_Eval.thy ===== *)
theory Double_Eval
  imports Doubles
begin

text \<open>
  Evaluation of rounding and of the texts of numbers by the simplifier: the equations apply to
  numerals only, and so do not unfold for ever.
\<close>

lemma digit_chars:
  "digit_char 0 = CHR ''0''" "digit_char (Suc 0) = CHR ''1''" "digit_char 2 = CHR ''2''"
  "digit_char 3 = CHR ''3''" "digit_char 4 = CHR ''4''" "digit_char 5 = CHR ''5''"
  "digit_char 6 = CHR ''6''" "digit_char 7 = CHR ''7''" "digit_char 8 = CHR ''8''" "digit_char 9 = CHR ''9''"
  by code_simp+

lemma show_nat_numeral:
  "show_nat 0 = [digit_char 0]" "show_nat (Suc 0) = [digit_char (Suc 0)]"
  "show_nat (numeral w) = (if (numeral w :: nat) < 10 then [digit_char (numeral w)]
     else show_nat (numeral w div 10) @ [digit_char (numeral w mod 10)])"
  by (simp_all add: show_nat.simps[of 0] show_nat.simps[of "Suc 0"] show_nat.simps[of "numeral w"])

lemma bit_width_numeral:
  "bit_width 0 = 0" "bit_width (Suc 0) = 1" "bit_width (numeral w) = Suc (bit_width (numeral w div 2))"
  by (simp_all add: bit_width.simps[of 0] bit_width.simps[of "Suc 0"] bit_width.simps[of "numeral w"])

lemma zeros_numeral:
  "zeros 0 = []" "zeros (Suc n) = CHR ''0'' # zeros n" "zeros (numeral w) = CHR ''0'' # zeros (pred_numeral w)"
  by (simp_all add: zeros_def numeral_eq_Suc)

lemma floor_rat: "\<lfloor>numeral a / numeral b :: rat\<rfloor> = numeral a div numeral b"
  by (metis floor_divide_of_int_eq of_int_numeral)

lemma ceiling_rat: "\<lceil>numeral a / numeral b :: rat\<rceil> = - (- numeral a div numeral b)"
  by (metis ceiling_divide_eq_div of_int_numeral)

lemma round_numeral: "round_half_even (numeral w) = numeral w"
  using round_half_even_int[of "numeral w"] by simp

lemma round_ratio:
  "round_half_even (numeral a / numeral b) =
     (let f = numeral a div numeral b; d = numeral a / numeral b - of_int f :: rat in
      if d < 1 / 2 then f else if 1 / 2 < d then f + 1 else if even f then f else f + 1)"
  by (simp only: round_half_even_def floor_rat)

lemmas fl_eval = fl_def fl_pos_def binade_def round_numeral round_ratio power_int_def floor_rat ceiling_rat
  bit_width_numeral power_one_over Let_def

lemmas show_eval = show_general_def decade_def show_nat_numeral digit_chars with_fraction_def strip_zeros_def
  zeros_numeral round_numeral round_ratio power_int_def floor_rat ceiling_rat power_one_over Let_def

lemmas show_u64_eval = show_u64_def show_int_def show_nat_numeral digit_chars

end
