(* ===== verification/Example_Conditional.thy ===== *)
theory Example_Conditional
  imports Example_Console Double_Eval
begin

text \<open>
  The program \<open>examples/conditional\_logging.cpp\<close>: its demonstrations of the compile-time level, of the
  conditional macros and of the filters, and the output of the whole program.
\<close>

section \<open>The demonstrations\<close>

definition demo_compile_time_filtering :: "('rx, 'n) host \<Rightarrow> ('rx, 'a, 'n, 'c) statement" where
  "demo_compile_time_filtering h = run_all
     [cout (block_text ''=== Compile-Time Filtering Demo ===''),
      make_stdout_logger h ''compile_time'',
      cout (line_text ''Using macros for zero-cost debug logs:''),
      macro h Trace ''Trace: This might be compiled out in release'',
      macro h Debug ''Debug: This might be compiled out in release'',
      macro h Info ''Info: This is always included'',
      macro h Warn ''Warning: Always included'',
      macro h Error ''Error: Always included'',
      cout (block_text ''In Release builds (-DNDEBUG), TRACE and DEBUG are eliminated at compile time!'')]"

definition demo_conditional_logging :: "('rx, 'n) host \<Rightarrow> ('rx, 'a, 'n, 'c) statement" where
  "demo_conditional_logging h = run_all
     ([cout (block_text ''=== Conditional Logging Demo ===''),
       make_stdout_logger h ''conditional'',
       cout (line_text ''Only log expensive operations when condition is true:'')]
      @ concat (map (\<lambda>i.
          let request_count = i + 1; is_premium_user = True in
          [macro_if h Debug (request_count mod 2 = 0) (''Even request: '' @ show_nat request_count),
           macro_if h Info is_premium_user (''Premium user action: '' @ show_nat i)]) [0..<5])
      @ [cout (block_text ''Conditional macros prevent message construction if condition is false!'')])"

definition demo_runtime_filtering :: "('rx, 'n) host \<Rightarrow> ('rx, 'a, 'n, 'c) statement" where
  "demo_runtime_filtering h = run_all
     [cout (block_text ''=== Runtime Filtering Demo ===''),
      make_logger h ''runtime_filter'',
      add_stdout_sink,
      cout (line_text ''1. Level-based filtering:''),
      with_logger (set_level Warn),
      say h Info ''This won't appear (below Warn level)'',
      say h Warn ''This will appear (Warn level)'',
      say h Error ''This will appear (Error level)'',
      with_logger (set_level Trace),
      cout (block_text ''2. Custom lambda filter (only log errors):''),
      with_logger (set_filter_func (Some (\<lambda>ctx r. rec_level r \<ge> Error))),
      say h Info ''Filtered out (not an error)'',
      say h Error ''Passes filter (is an error)'',
      with_logger clear_filters]"

definition demo_field_based_filtering :: "('rx, 'n) host \<Rightarrow> ('rx, 'a, 'n, 'c) statement" where
  "demo_field_based_filtering h = run_all
     [cout (block_text ''=== Field-Based Filtering Demo ===''),
      make_logger h ''field_filter'',
      add_stdout_sink,
      cout (line_text ''Only log messages with specific context fields:''),
      new_filter (FieldFilter ''user_type'' ''premium'') (\<lambda>p. with_logger (add_filter p)),
      open_scope,
      set_in_scope ''user_type'' ''premium'',
      say h Info ''Premium user activity (passes filter)'',
      close_scope,
      open_scope,
      set_in_scope ''user_type'' ''free'',
      say h Info ''Free user activity (filtered out)'',
      close_scope,
      with_logger clear_filters]"

definition demo_composite_filtering :: "('rx, 'n) host \<Rightarrow> ('rx, 'a, 'n, 'c) statement" where
  "demo_composite_filtering h = run_all
     [cout (block_text ''=== Composite Filtering Demo ===''),
      make_logger h ''composite'',
      add_stdout_sink,
      cout (line_text ''Combine multiple filters with AND logic:''),
      new_filter (CompositeFilter And []) (\<lambda>p. run_all
        [new_filter (LevelFilter Info) (fill_composite p),
         new_filter (FieldFilter ''important'' ''true'') (fill_composite p),
         with_logger (add_filter p)]),
      open_scope,
      set_in_scope ''important'' ''true'',
      say h Debug ''Debug + important (filtered - level too low)'',
      say h Info ''Info + important (passes both filters)'',
      close_scope,
      open_scope,
      set_in_scope ''important'' ''false'',
      say h Info ''Info + not important (filtered - wrong field)'',
      close_scope,
      with_logger clear_filters]"

definition demo_advanced_lambda_filter :: "('rx, 'n) host \<Rightarrow> ('rx, 'a, 'n, 'c) statement" where
  "demo_advanced_lambda_filter h = run_all
     [cout (block_text ''=== Advanced Lambda Filtering Demo ===''),
      make_logger h ''advanced'',
      add_stdout_sink,
      cout (line_text ''Complex filtering logic with lambdas:''),
      with_logger (set_filter_func (Some (\<lambda>ctx r.
        if rec_level r \<ge> Error then True
        else (case ctx ''request_id'' of
                Some v \<Rightarrow> find_from ''urgent'' v 0 \<noteq> None
              | None \<Rightarrow> False)))),
      say h Info ''Normal info (filtered out)'',
      say h Error ''Error message (always passes)'',
      open_scope,
      set_in_scope ''request_id'' ''urgent-12345'',
      say h Info ''Urgent request info (passes due to request_id)'',
      close_scope,
      with_logger clear_filters]"

definition iterations :: nat where "iterations = 100000"

text \<open>The two measured durations and their quotient, a \<open>float\<close>, are arguments.\<close>

record measured =
  ms_runtime_us :: int
  ms_compile_us :: int
  ms_speedup :: string

definition micro_seconds :: string where
  "micro_seconds = [CHR '' '', CHR 0xCE, CHR 0xBC, CHR ''s'']"

definition demo_performance_comparison :: "measured \<Rightarrow> ('rx, 'n) host \<Rightarrow> ('rx, 'a, 'n, 'c) statement" where
  "demo_performance_comparison m h = run_all
     [cout (block_text ''=== Performance Comparison Demo ===''),
      make_file_logger h ''perf'' ''/dev/null'',
      with_logger (set_level Error),
      cout (value_text ''Running '' (show_nat iterations @ '' filtered logs...'')),
      run_all (replicate iterations (say h Debug ''This gets filtered at runtime'')),
      run_all (replicate iterations (macro h Debug ''This gets eliminated at compile time'')),
      cout (value_text ''Runtime filtering: '' (show_int (ms_runtime_us m) @ micro_seconds)),
      cout (value_text ''Compile-time elimination: '' (show_int (ms_compile_us m) @ micro_seconds)),
      cout (value_text ''Speedup: '' (ms_speedup m @ ''x faster!''))]"

definition conditional_main :: "measured \<Rightarrow> ('rx, 'n) host \<Rightarrow> ('rx, 'a, 'n, 'c) statement" where
  "conditional_main m h = run_all
     [cout (line_text ''===========================================''),
      cout (line_text ''Zyrnix Conditional Logging & Filtering Demo''),
      cout (line_text ''===========================================''),
      demo_compile_time_filtering h,
      demo_conditional_logging h,
      demo_runtime_filtering h,
      demo_field_based_filtering h,
      demo_composite_filtering h,
      demo_advanced_lambda_filter h,
      demo_performance_comparison m h,
      cout (block_text ''==========================================='' ),
      cout (line_text ''Demo Complete!''),
      cout (line_text ''==========================================='')]"

lemma demo_compile_time_prints:
  "prints h (demo_compile_time_filtering h)
     ([Text (block_text ''=== Compile-Time Filtering Demo ===''),
       Text (line_text ''Using macros for zero-cost debug logs:'')]
      @ map (\<lambda>(l, m). Line ''compile_time'' l m) (filter (\<lambda>(l, m). ho_active h \<le> level_int l)
         [(Trace, ''Trace: This might be compiled out in release''),
          (Debug, ''Debug: This might be compiled out in release''),
          (Info, ''Info: This is always included''),
          (Warn, ''Warning: Always included''),
          (Error, ''Error: Always included'')])
      @ [Text (block_text ''In Release builds (-DNDEBUG), TRACE and DEBUG are eliminated at compile time!'')])"
  by (rule printsI) (simp add: demo_simps cout_printed[where h = h] demo_compile_time_filtering_def)

lemma demo_conditional_prints:
  "prints h (demo_conditional_logging h)
     ([Text (block_text ''=== Conditional Logging Demo ===''),
       Text (line_text ''Only log expensive operations when condition is true:'')]
      @ concat (map (\<lambda>i.
          (if (i + 1) mod 2 = 0 \<and> ho_active h \<le> 1
           then [Line ''conditional'' Debug (''Even request: '' @ show_nat (i + 1))] else [])
          @ (if ho_active h \<le> 2 then [Line ''conditional'' Info (''Premium user action: '' @ show_nat i)] else []))
          [0..<5])
      @ [Text (block_text ''Conditional macros prevent message construction if condition is false!'')])"
  by (rule printsI) (simp add: demo_simps cout_printed[where h = h] demo_conditional_logging_def upt_rec)

lemma demo_runtime_prints:
  "prints h (demo_runtime_filtering h)
     [Text (block_text ''=== Runtime Filtering Demo ===''),
      Text (line_text ''1. Level-based filtering:''),
      Line ''runtime_filter'' Warn ''This will appear (Warn level)'',
      Line ''runtime_filter'' Error ''This will appear (Error level)'',
      Text (block_text ''2. Custom lambda filter (only log errors):''),
      Line ''runtime_filter'' Error ''Passes filter (is an error)'']"
  by (rule printsI) (simp add: demo_simps cout_printed[where h = h] demo_runtime_filtering_def)

lemma demo_field_prints:
  "prints h (demo_field_based_filtering h)
     [Text (block_text ''=== Field-Based Filtering Demo ===''),
      Text (line_text ''Only log messages with specific context fields:''),
      Line ''field_filter'' Info ''Premium user activity (passes filter)'']"
  by (rule printsI) (simp add: demo_simps cout_printed[where h = h] demo_field_based_filtering_def)

lemma demo_composite_prints:
  "prints h (demo_composite_filtering h)
     [Text (block_text ''=== Composite Filtering Demo ===''),
      Text (line_text ''Combine multiple filters with AND logic:''),
      Line ''composite'' Info ''Info + important (passes both filters)'']"
  by (rule printsI) (simp add: demo_simps cout_printed[where h = h] demo_composite_filtering_def)

lemma demo_lambda_prints:
  "prints h (demo_advanced_lambda_filter h)
     [Text (block_text ''=== Advanced Lambda Filtering Demo ===''),
      Text (line_text ''Complex filtering logic with lambdas:''),
      Line ''advanced'' Error ''Error message (always passes)'',
      Line ''advanced'' Info ''Urgent request info (passes due to request_id)'']"
  by (rule printsI) (simp add: demo_simps cout_printed[where h = h] demo_advanced_lambda_filter_def find_from_def find_in.simps)

text \<open>A statement that is rejected at run time only advances the clock.\<close>

definition only_calls :: "nat \<Rightarrow> ('rx, 'a, 'n, 'c) demo \<Rightarrow> ('rx, 'a, 'n, 'c) demo" where
  "only_calls n d = d\<lparr>dm_calls := n + dm_calls d\<rparr>"

lemma run_all_replicate:
  assumes "\<And>k. f (only_calls k d) = Some (only_calls (Suc k) d)"
  shows "run_all (replicate n f) (only_calls k d) = Some (only_calls (n + k) d)"
  by (induction n arbitrary: k) (simp_all add: assms)

lemma only_calls_simps [simp]:
  "only_calls 0 d = d" "only_calls m (only_calls n d) = only_calls (m + n) d"
  "dm_world (only_calls n d) = dm_world d" "dm_context (only_calls n d) = dm_context d"
  "dm_scopes (only_calls n d) = dm_scopes d" "dm_logger (only_calls n d) = dm_logger d"
  by (simp_all add: only_calls_def add.assoc)

definition rejects_debug :: "'w logger \<Rightarrow> bool" where
  "rejects_debug lg \<longleftrightarrow> lg_min_level lg = Error \<and> \<not> tmp_active (lg_temp lg)"

lemma rejected_say:
  assumes "rejects_debug (dm_logger d)"
  shows "say h Debug m d = Some (only_calls 1 d)"
  using assms by (simp add: rejects_debug_def say_def logger_call_def Logger.log_def
      check_temporary_level_expiry_def Let_def should_log_def probe_record_def only_calls_def)

lemma rejected_macro: "rejects_debug (dm_logger d) \<Longrightarrow> macro h Debug m d = Some (only_calls 1 d)"
  by (simp add: macro_say rejected_say only_calls_def)

lemma rejected_loop:
  assumes "rejects_debug (dm_logger d)"
  shows "run_all (replicate n (say h Debug m)) d = Some (only_calls n d)"
    "run_all (replicate n (macro h Debug m)) d = Some (only_calls n d)"
  using run_all_replicate[of "say h Debug m" d n 0] run_all_replicate[of "macro h Debug m" d n 0] assms
  by (simp_all add: rejected_say rejected_macro)

text \<open>The equations of \<open>show_nat\<close> on numerals are taken from \<open>Double_Eval\<close>.\<close>

lemma iterations_text: "show_nat iterations = ''100000''"
  by (simp add: iterations_def show_nat_numeral digit_chars)

lemma demo_performance_prints:
  fixes h :: "('rx, 'n) host"
  shows "prints h (demo_performance_comparison m h :: ('rx, 'a, 'n, 'c) statement)
     [Text (block_text ''=== Performance Comparison Demo ===''),
      Text (value_text ''Running '' ''100000 filtered logs...''),
      Text (value_text ''Runtime filtering: '' (show_int (ms_runtime_us m) @ micro_seconds)),
      Text (value_text ''Compile-time elimination: '' (show_int (ms_compile_us m) @ micro_seconds)),
      Text (value_text ''Speedup: '' (ms_speedup m @ ''x faster!''))]"
proof (rule prints_files)
  fix d :: "('rx, 'a, 'n, 'c) demo" assume d: "ready d"
  obtain s fs where s: "file_sink_new (en_can_open (ho_env h)) ''/dev/null'' (w_files (dm_world d)) = (s, fs)"
    by (cases "file_sink_new (en_can_open (ho_env h)) ''/dev/null'' (w_files (dm_world d))") simp
  show "\<exists>d' objs fs. demo_performance_comparison m h d = Some d' \<and> dm_context d' = Map.empty \<and> dm_scopes d' = []
    \<and> True
    \<and> dm_world d' = print_items (ho_env h)
     [Text (block_text ''=== Performance Comparison Demo ===''),
      Text (value_text ''Running '' ''100000 filtered logs...''),
      Text (value_text ''Runtime filtering: '' (show_int (ms_runtime_us m) @ micro_seconds)),
      Text (value_text ''Compile-time elimination: '' (show_int (ms_compile_us m) @ micro_seconds)),
      Text (value_text ''Speedup: '' (ms_speedup m @ ''x faster!''))]
     ((dm_world d)\<lparr>w_objects := objs, w_files := fs\<rparr>)"
    using d s
    by (simp add: demo_simps rejected_loop rejects_debug_def make_file_logger_def cout_printed[where h = h] iterations_text
        demo_performance_comparison_def)
qed

section \<open>The whole program\<close>

text \<open>What \<open>conditional\_logging.cpp\<close> prints, by \<open>XLOG\_ACTIVE\_LEVEL\<close> and the measured times.\<close>

definition active_lines :: "int \<Rightarrow> string \<Rightarrow> (level \<times> string) list \<Rightarrow> console_item list" where
  "active_lines active nm msgs =
     map (\<lambda>(l, m). Line nm l m) (filter (\<lambda>(l, m). active \<le> level_int l) msgs)"

definition conditional_output :: "int \<Rightarrow> measured \<Rightarrow> console_item list" where
  "conditional_output active m =
     [Text (line_text ''===========================================''),
      Text (line_text ''Zyrnix Conditional Logging & Filtering Demo''),
      Text (line_text ''===========================================''),
      Text (block_text ''=== Compile-Time Filtering Demo ===''),
      Text (line_text ''Using macros for zero-cost debug logs:'')]
     @ active_lines active ''compile_time''
         [(Trace, ''Trace: This might be compiled out in release''),
          (Debug, ''Debug: This might be compiled out in release''),
          (Info, ''Info: This is always included''),
          (Warn, ''Warning: Always included''),
          (Error, ''Error: Always included'')]
     @ [Text (block_text ''In Release builds (-DNDEBUG), TRACE and DEBUG are eliminated at compile time!''),
        Text (block_text ''=== Conditional Logging Demo ===''),
        Text (line_text ''Only log expensive operations when condition is true:'')]
     @ active_lines active ''conditional''
         [(Info, ''Premium user action: 0''),
          (Debug, ''Even request: 2''),
          (Info, ''Premium user action: 1''),
          (Info, ''Premium user action: 2''),
          (Debug, ''Even request: 4''),
          (Info, ''Premium user action: 3''),
          (Info, ''Premium user action: 4'')]
     @ [Text (block_text ''Conditional macros prevent message construction if condition is false!''),
        Text (block_text ''=== Runtime Filtering Demo ===''),
        Text (line_text ''1. Level-based filtering:''),
        Line ''runtime_filter'' Warn ''This will appear (Warn level)'',
        Line ''runtime_filter'' Error ''This will appear (Error level)'',
        Text (block_text ''2. Custom lambda filter (only log errors):''),
        Line ''runtime_filter'' Error ''Passes filter (is an error)'',
        Text (block_text ''=== Field-Based Filtering Demo ===''),
        Text (line_text ''Only log messages with specific context fields:''),
        Line ''field_filter'' Info ''Premium user activity (passes filter)'',
        Text (block_text ''=== Composite Filtering Demo ===''),
        Text (line_text ''Combine multiple filters with AND logic:''),
        Line ''composite'' Info ''Info + important (passes both filters)'',
        Text (block_text ''=== Advanced Lambda Filtering Demo ===''),
        Text (line_text ''Complex filtering logic with lambdas:''),
        Line ''advanced'' Error ''Error message (always passes)'',
        Line ''advanced'' Info ''Urgent request info (passes due to request_id)'',
        Text (block_text ''=== Performance Comparison Demo ===''),
        Text (value_text ''Running '' ''100000 filtered logs...''),
        Text (value_text ''Runtime filtering: '' (show_int (ms_runtime_us m) @ micro_seconds)),
        Text (value_text ''Compile-time elimination: '' (show_int (ms_compile_us m) @ micro_seconds)),
        Text (value_text ''Speedup: '' (ms_speedup m @ ''x faster!'')),
        Text (block_text ''===========================================''),
        Text (line_text ''Demo Complete!''),
        Text (line_text ''==========================================='')]"

lemma show_small:
  "show_nat 0 = ''0''" "show_nat (Suc 0) = ''1''" "show_nat (Suc (Suc 0)) = ''2''"
  "show_nat (Suc (Suc (Suc 0))) = ''3''" "show_nat (Suc (Suc (Suc (Suc 0)))) = ''4''"
  by code_simp+

text \<open>
  C33. The program \<open>examples/conditional\_logging.cpp\<close> returns, and what it writes to the standard
  output is exactly the output listed: its texts, and of its log lines those that the compile-time
  level, the logger's level, the lambda, field and composite filters accept, in the order of the calls.
\<close>

theorem conditional_program_prints:
  "prints h (conditional_main m h) (conditional_output (ho_active h) m)"
  unfolding conditional_main_def
  by (rule prints_eq, (rule prints_intros demo_compile_time_prints demo_conditional_prints demo_runtime_prints
      demo_field_prints demo_composite_prints demo_lambda_prints demo_performance_prints)+)
    (simp add: conditional_output_def active_lines_def upt_rec show_small)

end
