(* ===== verification/Example_Health.thy ===== *)
theory Example_Health
  imports Example_Console
begin

text \<open>
  The demonstrations of the health checks in \<open>examples/v1.1.1\_features.cpp\<close> and
  \<open>examples/v1.1.1\_beta2\_features.cpp\<close>, over the registry of the process.
\<close>

section \<open>The programs\<close>

definition registry_call ::
    "(clock \<Rightarrow> ('a, 'n, 'c) sink_world health_registry \<Rightarrow> ('a, 'n, 'c) sink_world health_registry)
      \<Rightarrow> ('rx, 'n) host \<Rightarrow> ('rx, 'a, 'n, 'c) statement" where
  "registry_call f h = clock_then h (\<lambda>clk d. Some (d\<lparr>dm_health := f clk (dm_health d)\<rparr>))"

text \<open>A check of every logger reads the clock for one after the other.\<close>

definition entry_clocks :: "('rx, 'n) host \<Rightarrow> ('rx, 'a, 'n, 'c) demo \<Rightarrow> string \<Rightarrow> clock" where
  "entry_clocks h d nm =
     clock_now h (d\<lparr>dm_calls := dm_calls d + length (takeWhile (\<lambda>e. fst e \<noteq> nm) (hg_loggers (dm_health d)))\<rparr>)"

definition check_then ::
    "('rx, 'n) host \<Rightarrow> ((string \<Rightarrow> clock) \<Rightarrow> ('a, 'n, 'c) sink_world health_registry \<Rightarrow> ('rx, 'a, 'n, 'c) statement)
      \<Rightarrow> ('rx, 'a, 'n, 'c) statement" where
  "check_then h k d =
     k (entry_clocks h d) (dm_health d) (d\<lparr>dm_calls := dm_calls d + length (hg_loggers (dm_health d))\<rparr>)"

definition check_mark :: string where "check_mark = [CHR 0xE2, CHR 0x9C, CHR 0x85]"
definition cross_mark :: string where "cross_mark = [CHR 0xE2, CHR 0x9D, CHR 0x8C]"
definition warning_mark :: string where
  "warning_mark = [CHR 0xE2, CHR 0x9A, CHR 0xA0, CHR 0xEF, CHR 0xB8, CHR 0x8F]"

definition overall_text :: "health_status \<Rightarrow> string" where
  "overall_text st = (case st of
     Healthy \<Rightarrow> check_mark @ '' HEALTHY''
   | Degraded \<Rightarrow> warning_mark @ ''  DEGRADED''
   | Unhealthy \<Rightarrow> cross_mark @ '' UNHEALTHY'') @ newline"

definition record_activity :: "nat \<Rightarrow> log_metrics \<Rightarrow> log_metrics" where
  "record_activity i metrics =
     (let m = record_message_logged metrics in if i mod 20 = 0 then record_error m else m)"

text \<open>
  Of the loggers registered in the process only the one made here is alive when the registry is
  asked.
\<close>

definition v111_health_checks :: "('rx, 'n) host \<Rightarrow> ('rx, 'a, 'n, 'c) statement" where
  "v111_health_checks h d0 = (let logger = dm_loggers d0 in run_all
     [cout (block_text ''=== Health Check Demo ===''),
      make_stdout_logger h ''health_demo'',
      now_then h (\<lambda>start. run_all
       [registry_call (\<lambda>_. register_logger ''health_demo'' logger) h,
        loop (log_each h Info (\<lambda>i. ''Message '' @ show_nat i)
            record_activity)
          [0..<100] (log_metrics_new start) (\<lambda>metrics. run_all
         [clock_then h (\<lambda>clk. let result = check_metrics health_config_default clk metrics 10000 in run_all
           [cout (block_text ''Health Check Result:''),
            cout (line_text (result_to_string result)),
            cout (block_text ''Health Check JSON:''),
            cout (line_text (result_to_json result))]),
          check_then h (\<lambda>clks g.
            cout (newline @ ''Overall System Health: ''
              @ overall_text (get_overall_status clks (\<lambda>p. p = logger) g)))])])] d0)"

definition status_name :: "health_status \<Rightarrow> string" where
  "status_name st = (case st of Healthy \<Rightarrow> ''Healthy'' | Degraded \<Rightarrow> ''Degraded'' | Unhealthy \<Rightarrow> ''Unhealthy'')"

definition state_change_notice :: "('a, 'n, 'c) sink_world state_change_callback" where
  "state_change_notice nm old_status new_status result = print_text
     (''Health state changed for '' @ [CHR 0x27] @ nm @ [CHR 0x27] @ '': '' @ status_name old_status @ '' -> ''
      @ status_name new_status @ newline)"

definition strict_config :: health_config where
  "strict_config = health_config_default
     \<lparr>hc_max_drop_rate_healthy := fl (1 / 1000), hc_max_latency_us_healthy := 5000\<rparr>"

definition beta2_health_checks :: "('rx, 'n) host \<Rightarrow> ('rx, 'a, 'n, 'c) statement" where
  "beta2_health_checks h d0 = (let first = dm_loggers d0 in run_all
     [cout (heading_text ''=== Health Check Improvements ===''),
      cout (line_text ''1. Auto-registration of loggers:''),
      registry_call (\<lambda>_. enable_auto_registration True) h,
      make_stdout_logger h ''api'',
      make_stdout_logger h ''database'',
      make_stdout_logger h ''cache'',
      cout (block_text ''2. Health state change callback:''),
      registry_call (\<lambda>_. register_state_change_callback state_change_notice) h,
      cout (block_text ''3. Per-logger health configuration:''),
      registry_call (\<lambda>_. set_logger_config ''api'' strict_config) h,
      cout (line_text ''Set strict health config for 'api' logger''),
      cout (block_text ''4. Last error tracking:''),
      registry_call (\<lambda>clk. health_record_error (clk 0) ''database''
        ''Connection timeout after 30s to primary replica'') h,
      cout (block_text ''5. Aggregate health check:''),
      check_then h (\<lambda>clks g. now_then h (\<lambda>now.
        let aggregate = check_all_aggregate clks now (\<lambda>p. first \<le> p) g in run_all
         [cout (aggregate_to_string aggregate),
          cout (block_text ''JSON output:'' @ line_text (aggregate_to_json aggregate))])),
      registry_call (\<lambda>_. enable_auto_registration False) h] d0)"

section \<open>What they print\<close>

text \<open>The metrics after the loop, and the result of their check on a machine whose clock stands still.\<close>

definition hundred_metrics :: "time \<Rightarrow> log_metrics" where
  "hundred_metrics start = (log_metrics_new start)\<lparr>mt_messages_logged := 100, mt_errors := 5\<rparr>"

definition hundred_result :: "time \<Rightarrow> health_result" where
  "hundred_result t = check_metrics health_config_default (\<lambda>_. t) (hundred_metrics t) 10000"

lemma counted_metrics:
  "foldl (\<lambda>metrics i. record_activity i metrics) m is
   = m\<lparr>mt_messages_logged := mt_messages_logged m + of_nat (length is),
       mt_errors := mt_errors m + of_nat (length (filter (\<lambda>i. i mod 20 = 0) is))\<rparr>"
  by (induction "is" arbitrary: m)
     (simp_all add: record_activity_def record_message_logged_def record_error_def Let_def add_ac)

lemma hundred_metrics:
  "foldl (\<lambda>metrics i. record_activity i metrics) (log_metrics_new start) [0..<100] = hundred_metrics start"
proof -
  have "length (filter (\<lambda>i. i mod 20 = 0) [0..<100]) = (5::nat)" by code_simp
  then show ?thesis by (simp add: counted_metrics hundred_metrics_def log_metrics_new_def)
qed

lemma hundred_unhealthy: "hr_status (hundred_result t) = Unhealthy"
proof -
  have "fl (u64_double 5 / u64_double 100) > fl (1 / 100)" by code_simp
  then show ?thesis
    by (simp add: hundred_result_def check_metrics_def Let_def get_snapshot_def hundred_metrics_def
        determine_status_def health_config_default_def log_metrics_new_def)
qed

lemma idle_healthy: "hr_status (check_entry clk health_config_default (entry_new p None)) = Healthy"
  using fresh_metrics_healthy[OF tolerant_default] by (simp add: check_entry_def entry_new_def Let_def)

lemma one_logger:
  "alive p \<Longrightarrow> get_overall_status clks alive
     \<lparr>hg_loggers = [(nm, entry_new p None)], hg_checker = health_config_default, hg_callbacks = fs, hg_auto = b\<rparr> = Healthy"
  by (simp add: get_overall_status_def overall_of_def check_all_def entry_new_def idle_healthy[unfolded entry_new_def])

lemmas health_simps = demo_simps Let_def registry_call_def check_then_def register_logger_def
  auto_register_def one_logger

lemma v111_health_prints:
  fixes h :: "('rx, 'n) host" and t :: time
  defines "g \<equiv> h\<lparr>ho_clock := \<lambda>_ _. t\<rparr>"
  shows "prints_when no_logger g (v111_health_checks g) (\<lambda>_. True)
     ([Text (block_text ''=== Health Check Demo ==='')]
      @ map (\<lambda>i. Line ''health_demo'' Info (''Message '' @ show_nat i)) [0..<100]
      @ [Text (block_text ''Health Check Result:''),
         Text (line_text (result_to_string (hundred_result t))),
         Text (block_text ''Health Check JSON:''),
         Text (line_text (result_to_json (hundred_result t))),
         Text (newline @ ''Overall System Health: '' @ overall_text Healthy)])"
  unfolding g_def
  by (rule prints_whenI)
     (simp add: health_simps v111_health_checks_def loop_says plain_console_def plain_logger_def hundred_metrics
       cout_printed[where h = h] no_logger_def process_def
       health_registry_new_def after_calls_def hundred_result_def)

text \<open>
  The check of a logger that has recorded nothing, with the last error it was told of; the aggregate
  of such results.
\<close>

definition idle_result :: "time \<Rightarrow> string \<Rightarrow> time \<Rightarrow> health_result" where
  "idle_result t msg err_time =
     (check_metrics health_config_default (\<lambda>_. t) (log_metrics_new t) 10000)
       \<lparr>hr_last_error_message := msg, hr_last_error_time := err_time\<rparr>"

definition idle_aggregate :: "time \<Rightarrow> (string, health_result) omap \<Rightarrow> aggregate" where
  "idle_aggregate now results =
     \<lparr>ag_overall = Healthy, ag_timestamp = now, ag_total = length results, ag_healthy = length results,
      ag_degraded = 0, ag_unhealthy = 0, ag_messages_logged = 0, ag_messages_dropped = 0, ag_errors = 0,
      ag_messages_per_second = 0, ag_worst_name = [], ag_worst_status = Healthy, ag_results = results\<rparr>"

text \<open>A check is the same with every configuration whose limits are positive.\<close>

definition lenient :: "health_config \<Rightarrow> bool" where
  "lenient c \<longleftrightarrow> tolerant c \<and> 0 < hc_max_queue_usage_degraded c \<and> hc_max_latency_us_degraded c \<noteq> 0"

lemma lenient_configs: "lenient health_config_default" "lenient strict_config"
proof -
  have "0 < fl (9 / 10)" "0 \<le> fl (1 / 1000)" by code_simp+
  with tolerant_default show "lenient health_config_default" "lenient strict_config"
    by (simp_all add: lenient_def strict_config_def tolerant_def health_config_default_def)
qed

lemma idle_metrics:
  assumes "lenient c"
  shows "check_metrics c (\<lambda>_. t) (log_metrics_new t') 10000
    = check_metrics health_config_default (\<lambda>_. t) (log_metrics_new t') 10000"
proof -
  have "hr_status (check_metrics c (\<lambda>_. t) (log_metrics_new t') 10000) = Healthy"
    "hr_status (check_metrics health_config_default (\<lambda>_. t) (log_metrics_new t') 10000) = Healthy"
    using assms fresh_metrics_healthy tolerant_default
    by (simp_all add: lenient_def checker_check_logger_def)
  moreover have "\<not> hc_max_queue_usage_degraded c \<le> 0" "\<not> hc_max_latency_us_degraded c \<le> 0"
    "\<not> hc_max_queue_usage_degraded health_config_default \<le> 0"
    "\<not> hc_max_latency_us_degraded health_config_default \<le> 0"
    using assms lenient_configs(1) by (simp_all add: lenient_def)
  ultimately show ?thesis
    by (simp add: check_metrics_def Let_def get_snapshot_def log_metrics_new_def u64_double_def)
qed

lemma idle_check:
  assumes "lenient (case he_custom e of Some c \<Rightarrow> c | None \<Rightarrow> health_config_default)"
  shows "check_entry (\<lambda>_. t) health_config_default e
    = idle_result t (he_last_error_message e) (he_last_error_time e)"
  using idle_metrics[OF assms, of t t]
  by (simp add: check_entry_def Let_def idle_result_def checker_check_logger_def)

lemma idle_healthy_result [simp]: "hr_status (idle_result t msg e) = Healthy"
  using fresh_metrics_healthy[OF tolerant_default] by (simp add: idle_result_def checker_check_logger_def)

lemma idle_aggregates:
  assumes "\<forall>(nm, r) \<in> set results. \<exists>t msg e. r = idle_result t msg e"
  shows "aggregate_results now results = idle_aggregate now results"
proof -
  have counts: "hr_messages_logged (idle_result t msg e) = 0" "hr_messages_dropped (idle_result t msg e) = 0"
    "hr_errors (idle_result t msg e) = 0" "hr_messages_per_second (idle_result t msg e) = 0" for t msg e
    by (simp_all add: idle_result_def check_metrics_def Let_def get_snapshot_def log_metrics_new_def
        get_messages_per_second_def u64_double_def)
  have "foldl (\<lambda>a nr. aggregate_add nr a) a results = a\<lparr>ag_healthy := ag_healthy a + length results\<rparr>"
    if "fl (ag_messages_per_second a) = ag_messages_per_second a" for a
    using assms that
    by (induction results arbitrary: a) (auto simp: aggregate_add_def counts Let_def)
  then show ?thesis
    by (simp add: aggregate_results_def aggregate_start_def idle_aggregate_def Let_def)
qed

definition beta2_results :: "time \<Rightarrow> (string, health_result) omap" where
  "beta2_results t =
     [(''api'', idle_result t [] 0), (''cache'', idle_result t [] 0),
      (''database'', idle_result t ''Connection timeout after 30s to primary replica'' t)]"

lemma beta2_aggregate: "aggregate_results now (beta2_results t) = idle_aggregate now (beta2_results t)"
  by (rule idle_aggregates) (auto simp: beta2_results_def)

text \<open>What the model computes, and the same text written out.\<close>

definition beta2_health_items :: "time \<Rightarrow> console_item list" where
  "beta2_health_items t =
     [Text (heading_text ''=== Health Check Improvements ===''),
      Text (line_text ''1. Auto-registration of loggers:''),
      Text (block_text ''2. Health state change callback:''),
      Text (block_text ''3. Per-logger health configuration:''),
      Text (line_text ''Set strict health config for 'api' logger''),
      Text (block_text ''4. Last error tracking:''),
      Text (block_text ''5. Aggregate health check:''),
      Text (aggregate_to_string (idle_aggregate t (beta2_results t))),
      Text (block_text ''JSON output:'' @ line_text (aggregate_to_json (idle_aggregate t (beta2_results t))))]"

lemma beta2_health_prints:
  fixes h :: "('rx, 'n) host" and t :: time
  defines "g \<equiv> h\<lparr>ho_clock := \<lambda>_ _. t\<rparr>"
  shows "prints_when no_logger g (beta2_health_checks g) not_slept (beta2_health_items t)"
  unfolding g_def
  by (rule prints_whenI)
     (simp add: health_simps beta2_health_checks_def cout_printed[where h = h] no_logger_def not_slept_def
       process_def health_registry_new_def enable_auto_registration_def register_state_change_callback_def
       set_logger_config_def health_record_error_def omap_get_def check_all_aggregate_def check_all_def
       entry_new_def entry_clocks_def idle_check lenient_configs
       beta2_aggregate[unfolded beta2_results_def] beta2_results_def
       beta2_health_items_def)

definition text_lines :: "string list \<Rightarrow> string" where
  "text_lines ls = concat (map line_text ls)"

definition beta2_health_output :: "time \<Rightarrow> console_item list" where
  "beta2_health_output t =
     [Text (heading_text ''=== Health Check Improvements ===''),
      Text (line_text ''1. Auto-registration of loggers:''),
      Text (block_text ''2. Health state change callback:''),
      Text (block_text ''3. Per-logger health configuration:''),
      Text (line_text ''Set strict health config for 'api' logger''),
      Text (block_text ''4. Last error tracking:''),
      Text (block_text ''5. Aggregate health check:''),
      Text (text_lines
        [''=== Aggregate Health Check ==='',
         ''Overall Status: HEALTHY'',
         [],
         ''Loggers: 3 total'',
         ''  - Healthy: 3'',
         ''  - Degraded: 0'',
         ''  - Unhealthy: 0'',
         [],
         ''Aggregate Metrics:'',
         ''  - Total Messages: 0'',
         ''  - Total Dropped: 0'',
         ''  - Total Errors: 0'',
         ''  - Throughput: 0 msg/sec'']),
      Text (block_text ''JSON output:'' @ text_lines
        [''{'',
         ''  \"overall_status\": \"healthy\",'',
         ''  \"timestamp\": \"'' @ iso_time t @ ''\",'',
         ''  \"summary\": {'',
         ''    \"total_loggers\": 3,'',
         ''    \"healthy\": 3,'',
         ''    \"degraded\": 0,'',
         ''    \"unhealthy\": 0'',
         ''  },'',
         ''  \"aggregate_metrics\": {'',
         ''    \"total_messages_logged\": 0,'',
         ''    \"total_messages_dropped\": 0,'',
         ''    \"total_errors\": 0,'',
         ''    \"avg_messages_per_second\": 0.00'',
         ''  },'',
         ''  \"loggers\": 3'',
         ''}''])]"

lemma idle_texts:
  "show_nat 0 = ''0''" "show_nat (Suc (Suc (Suc 0))) = ''3''" "show_u64 0 = ''0''" "show_general 0 = ''0''"
  "show_fixed2 0 = ''0.00''" "replicate 2 CHR '' '' = ''  ''" "replicate 4 CHR '' '' = ''    ''"
  by code_simp+

lemma beta2_health_written: "beta2_health_items t = beta2_health_output t"
  by (simp add: beta2_health_items_def beta2_health_output_def aggregate_to_string_def
      aggregate_to_json_def idle_aggregate_def beta2_results_def idle_texts json_line_def quoted_def
      dquote_def nl2_def text_lines_def line_text_def status_upper_def status_lower_def)

end
