(* ===== verification/Example_Features.thy ===== *)
theory Example_Features
  imports Example_Health Pii_Redaction
begin

text \<open>
  The demonstrations of filters and levels in \<open>examples/v1.1.1_features.cpp\<close> and
  \<open>examples/v1.1.1_beta2_features.cpp\<close>, with the regular expressions of \<open>Std_Regex\<close>.
\<close>

section \<open>v1.1.1\_features.cpp\<close>

definition v111_regex_filtering :: "('rx, 'n) host \<Rightarrow> ('rx, 'a, 'n, 'c) statement" where
  "v111_regex_filtering h = run_all
     [cout (block_text ''=== Regex Filtering Demo ===''),
      make_stdout_logger h ''regex_demo'',
      new_regex_filter (regex_filter_plain (ho_rx h) [] ''(ERROR|CRITICAL)'' False) (\<lambda>p. with_logger (add_filter p)),
      cout (line_text ''Logging with regex filter (only ERROR|CRITICAL messages):''),
      say h Info ''Normal info message'',
      say h Warn ''Warning message'',
      say h Error ''ERROR: Database connection failed'',
      say h Critical ''CRITICAL: System failure'',
      with_logger clear_filters,
      new_regex_filter (regex_filter_plain (ho_rx h) [] ''DEBUG'' True) (\<lambda>p. with_logger (add_filter p)),
      cout (block_text ''Logging with inverted regex (exclude DEBUG):''),
      say h Debug ''DEBUG: Detailed information'',
      say h Info ''INFO: Application started'',
      say h Warn ''WARN: Low memory'']"

text \<open>U+1F514, a bell.\<close>

definition bell :: string where
  "bell = [CHR 0xF0, CHR 0x9F, CHR 0x94, CHR 0x94]"

definition level_change_notice :: "level \<Rightarrow> level \<Rightarrow> string" where
  "level_change_notice old_level new_level =
     bell @ '' Log level changed from '' @ show_int (level_int old_level) @ '' to ''
     @ show_int (level_int new_level) @ newline"

definition v111_dynamic_log_levels :: "('rx, 'n) host \<Rightarrow> ('rx, 'a, 'n, 'c) statement" where
  "v111_dynamic_log_levels h = run_all
     [cout (block_text ''=== Dynamic Log Level Changes Demo ===''),
      make_stdout_logger h ''dynamic_level'',
      with_logger (register_level_change_callback (\<lambda>old_level new_level.
        print_text (level_change_notice old_level new_level))),
      with_logger (set_level Info),
      say h Info ''Application started'',
      say h Debug ''This debug message won't appear'',
      cout (block_text ''Enabling debug logging at runtime...''),
      level_call (\<lambda>clk. set_level_dynamic_silent clk Debug) h,
      say h Debug ''Now debug messages appear!'',
      say h Info ''Still logging info'',
      cout (block_text ''Disabling debug logging...''),
      level_call (\<lambda>clk. set_level_dynamic_silent clk Info) h,
      say h Debug ''This debug message won't appear again'',
      say h Info ''Back to info level'']"

section \<open>v1.1.1\_beta2\_features.cpp\<close>

definition match_rate :: "filter_stats \<Rightarrow> double" where
  "match_rate st =
     (if fs_total_checks st > 0 then fl (u64_double (fs_matches st) / u64_double (fs_total_checks st)) else 0)"

definition stats_of :: "fptr \<Rightarrow> ('rx, 'a, 'n, 'c) demo \<Rightarrow> filter_stats" where
  "stats_of p d = (case fh_objs (dm_heap d) p of RegexFilter rf \<Rightarrow> get_stats rf
     | _ \<Rightarrow> \<lparr>fs_matches = 0, fs_misses = 0, fs_total_checks = 0\<rparr>)"

definition credit_card_digits :: string where
  "credit_card_digits =
     bslash @ ''d{4}-'' @ bslash @ ''d{4}-'' @ bslash @ ''d{4}-'' @ bslash @ ''d{4}''"

definition beta2_regex_filters :: "('rx, 'n) host \<Rightarrow> ('rx, 'a, 'n, 'c) statement" where
  "beta2_regex_filters h = run_all
     [cout (heading_text ''=== Regex Filter Caching & Optimization ===''),
      make_stdout_logger h ''regex_demo'',
      cout (line_text ''1. Case-insensitive regex filter:''),
      new_regex_filter (regex_filter_new (ho_rx h) [] ''error|warning''
          (default_options\<lparr>opt_case_insensitive := True, opt_track_stats := True\<rparr>)) (\<lambda>ci_filter. run_all
        [with_logger (add_filter ci_filter),
         say h Info ''This is an ERROR message'',
         say h Info ''This has a Warning in it'',
         say h Info ''This is just info'',
         say h Info ''CRITICAL ERROR DETECTED'',
         cout (block_text ''Filter statistics:''),
         cout_of (\<lambda>d. value_text ''  Matches: '' (show_nat (unat (fs_matches (stats_of ci_filter d))))),
         cout_of (\<lambda>d. value_text ''  Misses: '' (show_nat (unat (fs_misses (stats_of ci_filter d))))),
         cout_of (\<lambda>d. value_text ''  Match rate: '' (show_general (fl (match_rate (stats_of ci_filter d) * 100)) @ ''%''))]),
      cout (block_text ''2. Pre-compiled filter cache:''),
      cache_call (precompile (ho_rx h) ''no_passwords'' ''(password|secret|token|api_key)''
        \<lparr>opt_case_insensitive = False, opt_invert = True, opt_track_stats = True\<rparr>) (\<lambda>_. Some),
      cache_call (precompile (ho_rx h) ''errors_only'' ''(ERROR|CRITICAL|FATAL)''
        \<lparr>opt_case_insensitive = True, opt_invert = False, opt_track_stats = True\<rparr>) (\<lambda>_. Some),
      (\<lambda>d. case get_precompiled (dm_cache d) ''no_passwords'' of
         None \<Rightarrow> Some d
       | Some pwd_filter \<Rightarrow> run_all
          [with_logger clear_filters,
           with_logger (add_filter pwd_filter),
           say h Info ''User logged in successfully'',
           say h Info ''Setting password to secret123'',
           say h Info ''API call completed''] d),
      cache_call (get_or_create_pattern (ho_rx h) credit_card_digits default_options) (\<lambda>_. Some),
      cache_call (get_or_create_pattern (ho_rx h) credit_card_digits default_options) (\<lambda>_. Some),
      cout_of (\<lambda>d. value_text ''Cache hits: '' (show_nat (unat (rc_hits (dm_cache d))))),
      cout_of (\<lambda>d. value_text ''Cache misses: '' (show_nat (unat (rc_misses (dm_cache d))))),
      cout_of (\<lambda>d. value_text ''Cache size: '' (show_nat (cache_size (dm_cache d))))]"

text \<open>\<open>std::ctime\<close>, whose text ends the line; the first day of the epoch was a Thursday.\<close>

definition day_names :: "string list" where
  "day_names = [''Thu'', ''Fri'', ''Sat'', ''Sun'', ''Mon'', ''Tue'', ''Wed'']"

definition month_names :: "string list" where
  "month_names = [''Jan'', ''Feb'', ''Mar'', ''Apr'', ''May'', ''Jun'', ''Jul'', ''Aug'', ''Sep'', ''Oct'', ''Nov'', ''Dec'']"

definition ctime :: "tz_offset \<Rightarrow> time \<Rightarrow> string" where
  "ctime tz now =
     (let t = local_time tz now; (y, m, d) = civil_from_days (t div 86400); day = show_int d
      in day_names ! nat ((t div 86400) mod 7) @ '' '' @ month_names ! nat (m - 1) @ '' ''
         @ replicate (2 - length day) CHR '' '' @ day @ '' '' @ put_clock t @ '' '' @ show_int y @ newline)"

definition history_text :: "tz_offset \<Rightarrow> level_change_entry list \<Rightarrow> string" where
  "history_text tz entries = concat (map (\<lambda>e.
     ''  '' @ ctime tz (lce_timestamp e)
     @ ''    Changed from level '' @ show_int (level_int (lce_old_level e))
     @ '' to '' @ show_int (level_int (lce_new_level e))
     @ (if lce_reason e \<noteq> [] then '' - Reason: '' @ lce_reason e else []) @ newline) entries)"

text \<open>A request for a level, whose response is printed as JSON.\<close>

definition api_request ::
    "('rx, 'n) host \<Rightarrow> string \<Rightarrow> string \<Rightarrow> int \<Rightarrow> (string \<Rightarrow> string) \<Rightarrow> ('rx, 'a, 'n, 'c) statement" where
  "api_request h str reason seconds text d =
     (case handle_level_change_request (clock_now h d) str reason seconds (Some (dm_logger d), dm_world d) of
        (resp, lgo, w) \<Rightarrow>
          cout (text (response_to_json resp))
            (d\<lparr>dm_logger := (case lgo of Some lg \<Rightarrow> lg | None \<Rightarrow> dm_logger d), dm_world := w,
               dm_calls := Suc (dm_calls d)\<rparr>))"

definition seconds_left :: "clock \<Rightarrow> ('rx, 'a, 'n, 'c) demo \<Rightarrow> string" where
  "seconds_left clk d = show_int (remaining_temporary_duration clk (dm_logger d)) @ ''s''"

definition level_text :: "('rx, 'a, 'n, 'c) demo \<Rightarrow> string" where
  "level_text d = show_int (level_int (get_level (dm_logger d)))"

definition beta2_level_control :: "('rx, 'n) host \<Rightarrow> ('rx, 'a, 'n, 'c) statement" where
  "beta2_level_control h = run_all
     [cout (heading_text ''=== Dynamic Log Level Enhancements ===''),
      make_stdout_logger h ''dynamic_demo'',
      with_logger (set_level Info),
      cout (line_text ''1. Level change with reason (audit trail):''),
      level_call (\<lambda>clk. set_level_dynamic clk Debug ''Debugging production issue #12345'') h,
      level_call (\<lambda>clk. set_level_dynamic clk Trace ''Need more detail for RCA'') h,
      level_call (\<lambda>clk. set_level_dynamic clk Info ''Issue resolved, reverting to normal'') h,
      cout (block_text ''Level change history:''),
      cout_of (\<lambda>d. history_text (en_tz (ho_env h)) (get_level_history 100 (dm_logger d))),
      cout (block_text ''2. Temporary level change (5 second duration):''),
      level_call (\<lambda>clk. set_level_temporary clk Debug 5 ''Temporary debugging'') h,
      cout_of (\<lambda>d. value_text ''Current level: '' (level_text d @ '' (Debug)'')),
      cout_of (\<lambda>d. value_text ''Has temporary level: ''
        (if has_temporary_level (dm_logger d) then ''yes'' else ''no'')),
      cout_at h (\<lambda>clk d. value_text ''Remaining duration: '' (seconds_left clk d)),
      say h Debug ''This debug message will appear'',
      say h Trace ''This trace message won't appear (still below Debug)'',
      cout (block_text ''Waiting 3 seconds...''),
      sleep_for (3 * second),
      cout_at h (\<lambda>clk d. value_text ''Remaining duration: '' (seconds_left clk d)),
      level_call cancel_temporary_level h,
      cout (line_text ''Cancelled temporary level''),
      cout_of (\<lambda>d. value_text ''Current level: '' (level_text d @ '' (Info)'')),
      cout (block_text ''3. Per-sink level overrides:''),
      cout (line_text ''Per-sink levels allow different sinks to receive different log levels''),
      cout (line_text ''Example: Console=Info, File=Debug, Syslog=Error''),
      cout (block_text ''4. REST API helper for web-based control:''),
      api_request h ''debug'' ''Changed via admin API'' 0
        (\<lambda>json. line_text ''API Response:'' @ line_text json),
      api_request h ''trace'' ''Temporary debug session'' 60
        (\<lambda>json. block_text ''Temporary change response:'' @ line_text json),
      api_request h ''invalid_level'' [] 0
        (\<lambda>json. block_text ''Invalid level response:'' @ line_text json)]"

section \<open>What the demonstrations print\<close>

text \<open>
  The trees of the patterns.  None of them matches the empty text, and the filters only ever see
  that: \<open>should_log(LogLevel)\<close> calls them with an empty message.
\<close>

definition tree_of :: "string \<Rightarrow> regex" where
  "tree_of p = the (parse_regex p)"

lemma pattern_trees:
  "parse_regex ''(ERROR|CRITICAL)'' = Some (tree_of ''(ERROR|CRITICAL)'')"
  "parse_regex ''DEBUG'' = Some (tree_of ''DEBUG'')"
  "parse_regex ''error|warning'' = Some (tree_of ''error|warning'')"
  "parse_regex ''(password|secret|token|api_key)'' = Some (tree_of ''(password|secret|token|api_key)'')"
  "parse_regex ''(ERROR|CRITICAL|FATAL)'' = Some (tree_of ''(ERROR|CRITICAL|FATAL)'')"
  "parse_regex credit_card_digits = Some (tree_of credit_card_digits)"
  by code_simp+

lemma pattern_misses:
  "\<not> regex_search False (tree_of ''(ERROR|CRITICAL)'') []"
  "\<not> regex_search False (tree_of ''DEBUG'') []"
  "\<not> regex_search True (tree_of ''error|warning'') []"
  "\<not> regex_search False (tree_of ''(password|secret|token|api_key)'') []"
  by code_simp+

lemmas feature_simps = demo_simps pattern_trees pattern_misses regex_filter_plain_def regex_filter_new_def
  regex_should_log_def regex_matches_def update_stats_def Let_def

lemma v111_regex_prints:
  "prints (h\<lparr>ho_rx := std_regex\<rparr>) (v111_regex_filtering (h\<lparr>ho_rx := std_regex\<rparr>))
     [Text (block_text ''=== Regex Filtering Demo ===''),
      Text (line_text ''Logging with regex filter (only ERROR|CRITICAL messages):''),
      Text (block_text ''Logging with inverted regex (exclude DEBUG):''),
      Line ''regex_demo'' Debug ''DEBUG: Detailed information'',
      Line ''regex_demo'' Info ''INFO: Application started'',
      Line ''regex_demo'' Warn ''WARN: Low memory'']"
  by (rule printsI) (simp add: feature_simps cout_printed[where h = "h\<lparr>ho_rx := std_regex\<rparr>"] v111_regex_filtering_def)

lemmas level_changes = register_level_change_callback_def set_level_dynamic_silent_def set_level_dynamic_def
  check_temporary_level_expiry_def record_level_change_def run_callbacks_def pop_excess.simps

lemma v111_dynamic_prints:
  "prints h (v111_dynamic_log_levels h)
     [Text (block_text ''=== Dynamic Log Level Changes Demo ===''),
      Line ''dynamic_level'' Info ''Application started'',
      Text (block_text ''Enabling debug logging at runtime...''),
      Text (level_change_notice Info Debug),
      Line ''dynamic_level'' Debug ''Now debug messages appear!'',
      Line ''dynamic_level'' Info ''Still logging info'',
      Text (block_text ''Disabling debug logging...''),
      Text (level_change_notice Debug Info),
      Line ''dynamic_level'' Info ''Back to info level'']"
  by (rule printsI) (simp add: feature_simps level_changes cout_printed[where h = h] v111_dynamic_log_levels_def)

lemma small_texts: "show_nat 0 = ''0''" "show_nat (Suc 0) = ''1''" "show_nat 4 = ''4''" "show_general (fl (fl (u64_double 0 / u64_double 4) * 100)) = ''0''"
  by code_simp+

definition beta2_regex_output :: "console_item list" where
  "beta2_regex_output =
     [Text (heading_text ''=== Regex Filter Caching & Optimization ===''),
      Text (line_text ''1. Case-insensitive regex filter:''),
      Text (block_text ''Filter statistics:''),
      Text (value_text ''  Matches: '' ''0''),
      Text (value_text ''  Misses: '' ''4''),
      Text (value_text ''  Match rate: '' ''0%''),
      Text (block_text ''2. Pre-compiled filter cache:''),
      Line ''regex_demo'' Info ''User logged in successfully'',
      Line ''regex_demo'' Info ''Setting password to secret123'',
      Line ''regex_demo'' Info ''API call completed'',
      Text (value_text ''Cache hits: '' ''1''),
      Text (value_text ''Cache misses: '' ''1''),
      Text (value_text ''Cache size: '' ''1'')]"

lemma beta2_regex_prints:
  "prints_when no_filter_or_logger (h\<lparr>ho_rx := std_regex\<rparr>) (beta2_regex_filters (h\<lparr>ho_rx := std_regex\<rparr>)) no_logger beta2_regex_output"
  by (rule prints_whenI)
     (simp add: feature_simps cout_printed[where h = "h\<lparr>ho_rx := std_regex\<rparr>"] beta2_regex_filters_def
       no_filter_or_logger_def no_logger_def process_def fresh_cache_def health_registry_new_def auto_register_def
       precompile_def get_precompiled_def get_or_create_pattern_def get_or_create_def omap_get_def
       default_options_def cache_size_def stats_of_def get_stats_def match_rate_def small_texts
       beta2_regex_output_def)

text \<open>
  On a machine that is so fast that its clock only advances while the program sleeps, the remaining
  time is 5 seconds and then 2.
\<close>

definition level_entry :: "level \<Rightarrow> level \<Rightarrow> time \<Rightarrow> string \<Rightarrow> level_change_entry" where
  "level_entry old_level new_level t reason =
     \<lparr>lce_old_level = old_level, lce_new_level = new_level, lce_timestamp = t, lce_reason = reason\<rparr>"

definition response :: "bool \<Rightarrow> string \<Rightarrow> level \<Rightarrow> string" where
  "response ok msg l = response_to_json
     \<lparr>resp_success = ok, resp_message = msg, resp_current_level = l, resp_logger_name = ''dynamic_demo''\<rparr>"

lemmas request_defs = api_request_def handle_level_change_request_def set_level_temporary_def
  cancel_temporary_level_def revert_level_def has_temporary_level_def remaining_temporary_duration_def
  get_level_history_def seconds_left_def level_text_def

lemma request_levels:
  "parse_log_level ''debug'' = (True, Debug)" "parse_log_level ''trace'' = (True, Trace)"
  "parse_log_level ''invalid_level'' = (False, Info)"
  by code_simp+

lemma level_texts:
  "show_int 1 = ''1''" "show_int 2 = ''2''" "show_int (trunc_div 5000000000 1000000000) = ''5''"
  "show_int (trunc_div 2000000000 1000000000) = ''2''" "show_int 60 = ''60''"
  by code_simp+

text \<open>A call while a temporary level is in force is not different.\<close>

lemma say_unexpired:
  assumes "on_console (d\<lparr>dm_logger := dm_logger d\<lparr>lg_temp := lg_temp (dm_logger d)\<lparr>tmp_active := False\<rparr>\<rparr>\<rparr>)"
    and "clock_now h d 0 < tmp_revert_time (lg_temp (dm_logger d))"
  shows "say h l msg d = say_result h l msg d"
  using assms by (auto simp: say_def logger_call_def say_result_def accepted_def Logger.log_def
      check_temporary_level_expiry_def on_console_def console_logger_def apply_redaction_def Let_def console_log
      printed_def print_items_def should_log_def split: option.splits prod.splits)

definition beta2_level_items :: "tz_offset \<Rightarrow> time \<Rightarrow> console_item list" where
  "beta2_level_items tz t =
     [Text (heading_text ''=== Dynamic Log Level Enhancements ===''),
      Text (line_text ''1. Level change with reason (audit trail):''),
      Text (block_text ''Level change history:''),
      Text (history_text tz
        [level_entry Info Debug t ''Debugging production issue #12345'',
         level_entry Debug Trace t ''Need more detail for RCA'',
         level_entry Trace Info t ''Issue resolved, reverting to normal'']),
      Text (block_text ''2. Temporary level change (5 second duration):''),
      Text (value_text ''Current level: '' ''1 (Debug)''),
      Text (value_text ''Has temporary level: '' ''yes''),
      Text (value_text ''Remaining duration: '' ''5s''),
      Line ''dynamic_demo'' Debug ''This debug message will appear'',
      Text (block_text ''Waiting 3 seconds...''),
      Text (value_text ''Remaining duration: '' ''2s''),
      Text (line_text ''Cancelled temporary level''),
      Text (value_text ''Current level: '' ''2 (Info)''),
      Text (block_text ''3. Per-sink level overrides:''),
      Text (line_text ''Per-sink levels allow different sinks to receive different log levels''),
      Text (line_text ''Example: Console=Info, File=Debug, Syslog=Error''),
      Text (block_text ''4. REST API helper for web-based control:''),
      Text (line_text ''API Response:'' @ line_text (response True ''Log level changed successfully'' Debug)),
      Text (block_text ''Temporary change response:''
        @ line_text (response True ''Log level changed temporarily for 60 seconds'' Trace)),
      Text (block_text ''Invalid level response:''
        @ line_text (response False ''Invalid log level: invalid_level'' Trace))]"

lemma beta2_level_prints:
  fixes h :: "('rx, 'n) host" and t :: time
  defines "g \<equiv> h\<lparr>ho_clock := \<lambda>_ _. t\<rparr>"
  shows "prints_when not_slept g (beta2_level_control g) (\<lambda>_. True) (beta2_level_items (en_tz (ho_env h)) t)"
  unfolding g_def
  by (rule prints_whenI)
     (simp add: feature_simps say_unexpired level_changes request_defs cout_printed[where h = h]
       beta2_level_control_def not_slept_def process_def request_levels level_texts level_entry_def response_def second_def
       beta2_level_items_def)

text \<open>The same text written out; \<open>ctime\<close> ends with a line break.\<close>

definition history_lines :: "tz_offset \<Rightarrow> time \<Rightarrow> string" where
  "history_lines tz t =
     ''  '' @ ctime tz t
     @ line_text ''    Changed from level 2 to 1 - Reason: Debugging production issue #12345''
     @ ''  '' @ ctime tz t
     @ line_text ''    Changed from level 1 to 0 - Reason: Need more detail for RCA''
     @ ''  '' @ ctime tz t
     @ line_text ''    Changed from level 0 to 2 - Reason: Issue resolved, reverting to normal''"

definition beta2_level_output :: "tz_offset \<Rightarrow> time \<Rightarrow> console_item list" where
  "beta2_level_output tz t =
     [Text (heading_text ''=== Dynamic Log Level Enhancements ===''),
      Text (line_text ''1. Level change with reason (audit trail):''),
      Text (block_text ''Level change history:''),
      Text (history_lines tz t),
      Text (block_text ''2. Temporary level change (5 second duration):''),
      Text (line_text ''Current level: 1 (Debug)''),
      Text (line_text ''Has temporary level: yes''),
      Text (line_text ''Remaining duration: 5s''),
      Line ''dynamic_demo'' Debug ''This debug message will appear'',
      Text (block_text ''Waiting 3 seconds...''),
      Text (line_text ''Remaining duration: 2s''),
      Text (line_text ''Cancelled temporary level''),
      Text (line_text ''Current level: 2 (Info)''),
      Text (block_text ''3. Per-sink level overrides:''),
      Text (line_text ''Per-sink levels allow different sinks to receive different log levels''),
      Text (line_text ''Example: Console=Info, File=Debug, Syslog=Error''),
      Text (block_text ''4. REST API helper for web-based control:''),
      Text (text_lines
        [''API Response:'',
         ''{'',
         ''  \"success\": true,'',
         ''  \"message\": \"Log level changed successfully\",'',
         ''  \"logger_name\": \"dynamic_demo\",'',
         ''  \"current_level\": \"debug\"'',
         ''}'']),
      Text (text_lines
        [[],
         ''Temporary change response:'',
         ''{'',
         ''  \"success\": true,'',
         ''  \"message\": \"Log level changed temporarily for 60 seconds\",'',
         ''  \"logger_name\": \"dynamic_demo\",'',
         ''  \"current_level\": \"trace\"'',
         ''}'']),
      Text (text_lines
        [[],
         ''Invalid level response:'',
         ''{'',
         ''  \"success\": false,'',
         ''  \"message\": \"Invalid log level: invalid_level\",'',
         ''  \"logger_name\": \"dynamic_demo\",'',
         ''  \"current_level\": \"trace\"'',
         ''}''])]"

lemma beta2_level_written: "beta2_level_items tz t = beta2_level_output tz t"
proof -
  have "show_int 0 = ''0''" by code_simp
  then show ?thesis
    by (simp add: beta2_level_items_def beta2_level_output_def history_text_def history_lines_def
        level_entry_def level_texts response_def response_to_json_def 
        show_bool_def quoted_def dquote_def text_lines_def line_text_def block_text_def value_text_def)
qed

section \<open>The whole program\<close>

definition beta2_main :: "('rx, 'n) host \<Rightarrow> ('rx, 'a, 'n, 'c) statement" where
  "beta2_main h = run_all
     [cout (frame_top 60),
      cout (frame_text ''         Zyrnix v1.1.1-beta.2 Features Demonstration          ''),
      cout (frame_bottom 60),
      beta2_regex_filters h,
      beta2_health_checks h,
      beta2_level_control h,
      cout (block_text ''=== Demo Complete ==='')]"

definition beta2_output :: "tz_offset \<Rightarrow> time \<Rightarrow> console_item list" where
  "beta2_output tz t =
     [Text (frame_top 60),
      Text (frame_text ''         Zyrnix v1.1.1-beta.2 Features Demonstration          ''),
      Text (frame_bottom 60)]
     @ beta2_regex_output @ beta2_health_output t @ beta2_level_output tz t
     @ [Text (block_text ''=== Demo Complete ==='')]"

definition demo_host :: "(bool \<times> regex, 'n) host \<Rightarrow> time \<Rightarrow> (bool \<times> regex, 'n) host" where
  "demo_host h t = h\<lparr>ho_clock := \<lambda>_ _. t, ho_rx := std_regex\<rparr>"

lemma demo_host_alt: "demo_host h t = h\<lparr>ho_rx := std_regex, ho_clock := \<lambda>_ _. t\<rparr>"
  by (cases h) (simp add: demo_host_def)

lemma demo_host_prints:
  "prints_when no_filter_or_logger (demo_host h t) (beta2_regex_filters (demo_host h t)) no_logger beta2_regex_output"
  "prints_when no_logger (demo_host h t) (beta2_health_checks (demo_host h t)) not_slept (beta2_health_output t)"
  "prints_when not_slept (demo_host h t) (beta2_level_control (demo_host h t)) (\<lambda>_. True)
     (beta2_level_output (en_tz (ho_env h)) t)"
  using beta2_regex_prints[of "h\<lparr>ho_clock := \<lambda>_ _. t\<rparr>"] beta2_health_prints[where h = "h\<lparr>ho_rx := std_regex\<rparr>" and t = t]
    beta2_level_prints[where h = "h\<lparr>ho_rx := std_regex\<rparr>" and t = t]
  by (simp_all add: beta2_level_written beta2_health_written demo_host_def[symmetric] demo_host_alt[symmetric])

text \<open>
  C32. The program \<open>examples/v1.1.1\_beta2\_features.cpp\<close>, started in a process without cached filters
  and without registered loggers, with the ECMAScript regular expressions and on a clock that only
  advances while the program sleeps, prints exactly the output listed (every character of it written
  out, but for the time of day, which is that of the clock).  In particular the
  case-insensitive filter of its first part counts no match and four misses and prints none of
  the lines it is to let through, and the line with the password is printed although its
  filter is to hold it back; the three loggers are reported healthy.
\<close>

theorem beta2_program_prints:
  "prints_when no_filter_or_logger (demo_host h t) (beta2_main (demo_host h t)) (\<lambda>_. True)
     (beta2_output (en_tz (ho_env h)) t)"
  unfolding beta2_main_def
  by (rule prints_eq, (rule prints_intros demo_host_prints)+) (simp add: beta2_output_def)

end
