(* ===== verification/Example_Limits.thy ===== *)
theory Example_Limits
  imports Example_Console Rate_Limiter Double_Eval
begin

text \<open>
  Loops behind a limiter, and the program \<open>examples/rate\_limiting\_example.cpp\<close> with its whole output.
\<close>

section \<open>Loops behind a limiter\<close>

text \<open>
  The body of a loop that asks a limiter, acts if it admits the message, and then may sleep.  Every
  question has its own reading of the clock, whether the limiter looks at it or not.  The locals are
  the limiter and the two counters.
\<close>

definition gated ::
    "('rx, 'n) host \<Rightarrow> (time \<Rightarrow> 'l \<Rightarrow> bool \<times> 'l) \<Rightarrow> ('i \<Rightarrow> ('rx, 'a, 'n, 'c) statement) \<Rightarrow> time
      \<Rightarrow> 'i \<Rightarrow> 'l \<times> int \<times> int \<Rightarrow> ('l \<times> int \<times> int \<Rightarrow> ('rx, 'a, 'n, 'c) statement) \<Rightarrow> ('rx, 'a, 'n, 'c) statement" where
  "gated h try act pause i l k = (case l of (lm, logged, dropped) \<Rightarrow>
     now_then h (\<lambda>t. case try t lm of (ok, lm') \<Rightarrow> run_all
       [if ok then act i else Some,
        sleep_for pause,
        k (lm', if ok then logged + 1 else logged, if ok then dropped else dropped + 1)]))"

definition say_text :: "('rx, 'n) host \<Rightarrow> level \<Rightarrow> ('i \<Rightarrow> string) \<Rightarrow> 'i \<Rightarrow> ('rx, 'a, 'n, 'c) statement" where
  "say_text h l msg i = say h l (msg i)"

definition cout_text :: "('i \<Rightarrow> string) \<Rightarrow> 'i \<Rightarrow> ('rx, 'a, 'n, 'c) statement" where
  "cout_text msg i = cout (msg i)"

section \<open>rate\_limiting\_example.cpp\<close>

definition logged_text :: "nat \<Rightarrow> string" where
  "logged_text i = ''Message '' @ show_nat i @ '' logged'' @ newline"

definition example_rate_limiting :: "('rx, 'n) host \<Rightarrow> ('rx, 'a, 'n, 'c) statement" where
  "example_rate_limiting h = run_all
     [cout (block_text ''=== Rate Limiting Example ===''),
      now_then h (\<lambda>t. run_all
       [cout (line_text ''Attempting to log 100 messages rapidly...''),
        loop (gated h try_log (cout_text logged_text) 0) [0..<100] (rate_limiter_new t 10 20, 0, 0)
          (\<lambda>(limiter, logged, dropped). run_all
           [cout (block_text ''Results:''),
            cout (value_text ''  Logged: '' (show_int logged)),
            cout (value_text ''  Dropped: '' (show_int dropped)),
            cout (value_text ''  Rate limiter dropped: '' (show_u64 (rl_dropped limiter)))])])]"

definition sampled_text :: "nat \<Rightarrow> string" where
  "sampled_text i = ''Message '' @ show_nat i @ '' logged (sampled)'' @ newline"

definition example_sampling :: "('rx, 'n) host \<Rightarrow> ('rx, 'a, 'n, 'c) statement" where
  "example_sampling h = run_all
     [cout (block_text ''=== Sampling Example ===''),
      cout (line_text ''Logging 100 messages with 1-in-10 sampling...''),
      loop (gated h (\<lambda>_. sampling_should_log) (cout_text sampled_text) 0) [0..<100] (sampling_limiter_new 10, 0, 0)
        (\<lambda>(sampler, _, _). run_all
         [cout (block_text ''Results:''),
          cout (value_text ''  Total messages: '' (show_u64 (sl_counter sampler))),
          cout (value_text ''  Dropped (sampled out): '' (show_u64 (sampling_dropped_count sampler)))])]"

definition milliseconds :: "time \<Rightarrow> int" where
  "milliseconds t = trunc_div t 1000000"

text \<open>The quotient is a floating point number; the elapsed time is at least what the program slept.\<close>

definition effective_rate :: "u64 \<Rightarrow> int \<Rightarrow> double" where
  "effective_rate logged elapsed = fl (fl (u64_double logged * 1000) / fl (of_int elapsed))"

definition limiter_text :: "limiter_stats \<Rightarrow> string" where
  "limiter_text st =
     value_text ''  Total messages: '' (show_u64 (st_total_messages st))
     @ value_text ''  Logged: '' (show_u64 (st_logged_messages st))
     @ value_text ''  Sampling drops: '' (show_u64 (st_sampling_drops st))
     @ value_text ''  Rate limit drops: '' (show_u64 (st_rate_limited_drops st))"

definition example_combined_limiting :: "('rx, 'n) host \<Rightarrow> ('rx, 'a, 'n, 'c) statement" where
  "example_combined_limiting h = run_all
     [cout (block_text ''=== Combined Rate Limiting + Sampling Example ===''),
      now_then h (\<lambda>t. run_all
       [cout (line_text ''Simulating high-throughput logging...''),
        now_then h (\<lambda>start.
          loop (gated h combined_should_log (\<lambda>_. Some) 500000) [0..<1000] (combined_limiter_new t 100 150 5, 0, 0)
            (\<lambda>(limiter, _, _). now_then h (\<lambda>stop.
              let elapsed = milliseconds (stop - start); st = combined_stats limiter in run_all
               [cout (block_text (''Results (elapsed: '' @ show_int elapsed @ '' ms):'')),
                cout (limiter_text st),
                cout (value_text ''  Effective rate: ''
                  (show_general (effective_rate (st_logged_messages st) elapsed) @ '' msg/s''))])))])]"

definition failed_attempt :: "nat \<Rightarrow> string" where
  "failed_attempt i = ''Database connection failed (attempt '' @ show_nat i @ '')''"

definition example_production_scenario :: "('rx, 'n) host \<Rightarrow> ('rx, 'a, 'n, 'c) statement" where
  "example_production_scenario h = run_all
     [cout (block_text ''=== Production Scenario: Preventing Log Flooding ===''),
      make_logger h ''app'',
      add_stdout_sink,
      now_then h (\<lambda>t. run_all
       [cout (line_text ''Simulating an error storm (1000 errors rapidly)...''),
        loop (gated h try_log (say_text h Error failed_attempt) 0) [0..<1000] (rate_limiter_new t 50 100, 0, 0)
          (\<lambda>(rate_limiter, logged, _). run_all
           [cout (block_text ''Protected the system by rate limiting:''),
            cout (line_text ''  Would have logged: 1000 messages''),
            cout (value_text ''  Actually logged: '' (show_int logged @ '' messages'')),
            cout (value_text ''  Prevented: '' (show_int (1000 - logged) @ '' messages from flooding disk'')),
            cout (value_text ''  Dropped by rate limiter: '' (show_u64 (rl_dropped rate_limiter)))])])]"

definition rate_limiting_main :: "('rx, 'n) host \<Rightarrow> ('rx, 'a, 'n, 'c) statement" where
  "rate_limiting_main h = run_all
     [cout (line_text ''Zyrnix Rate Limiting & Sampling Examples''),
      cout (line_text ''========================================''),
      example_rate_limiting h,
      example_sampling h,
      example_combined_limiting h,
      example_production_scenario h,
      cout (block_text ''=== Key Takeaways ===''),
      cout (line_text ''1. Rate limiting prevents log flooding during incidents''),
      cout (line_text ''2. Sampling reduces log volume in high-throughput scenarios''),
      cout (line_text ''3. Combined approach provides flexible control''),
      cout (line_text ''4. Token bucket algorithm allows bursts while maintaining limits''),
      cout (line_text ''5. Statistics help monitor dropped message counts'')]"

section \<open>The loops on a clock that stands still\<close>

fun gates :: "(time \<Rightarrow> 'l \<Rightarrow> bool \<times> 'l) \<Rightarrow> time list \<Rightarrow> 'l \<Rightarrow> bool list \<times> 'l" where
  "gates try [] lm = ([], lm)"
| "gates try (t # ts) lm =
     (let (b, lm1) = try t lm; (bs, lm2) = gates try ts lm1 in (b # bs, lm2))"

definition gate_times :: "time \<Rightarrow> time \<Rightarrow> nat \<Rightarrow> time list" where
  "gate_times t pause n = map (\<lambda>j. t + int j * pause) [0..<n]"

definition passed :: "('i \<Rightarrow> console_item list) \<Rightarrow> 'i list \<Rightarrow> bool list \<Rightarrow> console_item list" where
  "passed item is bs = concat (map (\<lambda>(i, b). if b then item i else []) (zip is bs))"

definition refused :: "bool list \<Rightarrow> nat" where
  "refused bs = length (filter Not bs)"

lemma gate_times_Suc: "gate_times t pause (Suc n) = t # gate_times (t + pause) pause n"
  by (simp add: gate_times_def upt_conv_Cons map_Suc_upt[symmetric] algebra_simps del: upt_Suc)

text \<open>A state after \<open>n\<close> calls and a sleep.\<close>

definition later ::
    "('rx, 'n) host \<Rightarrow> time \<Rightarrow> nat \<Rightarrow> console_item list \<Rightarrow> ('rx, 'a, 'n, 'c) demo \<Rightarrow> ('rx, 'a, 'n, 'c) demo" where
  "later h s n xs d = (printed h xs d)\<lparr>dm_calls := n + dm_calls d, dm_slept := dm_slept d + s\<rparr>"

lemma later_later [simp]: "later h s m ys (later h s' n xs d) = later h (s' + s) (m + n) (xs @ ys) d"
  by (simp add: later_def add_ac)

lemma later_fields [simp]:
  "dm_logger (later h s n xs d) = dm_logger d" "dm_slept (later h s n xs d) = dm_slept d + s"
  "plain_console (later h s n xs d) = plain_console d" "later h 0 0 [] d = d"
  by (simp_all add: later_def plain_console_def)

text \<open>An action that prints its item, in \<open>c\<close> calls of the logger.\<close>

definition prints_item ::
    "('rx, 'n) host \<Rightarrow> ('i \<Rightarrow> ('rx, 'a, 'n, 'c) statement) \<Rightarrow> nat \<Rightarrow> ('i \<Rightarrow> console_item list)
      \<Rightarrow> ('rx, 'a, 'n, 'c) demo \<Rightarrow> bool" where
  "prints_item h act c item d \<longleftrightarrow>
     (\<forall>i s n xs. act i (later h s n xs d) = Some (later h 0 c (item i) (later h s n xs d)))"

lemma prints_item_later [simp]: "prints_item h act c item d \<Longrightarrow> prints_item h act c item (later h s n xs d)"
  by (simp add: prints_item_def)

lemma loop_gated:
  assumes "ho_clock h = (\<lambda>_ _. t)" and "prints_item h act c item d"
  shows "loop (gated h try act pause) is (lm, a, b) k d =
    (case gates try (gate_times (t + dm_slept d) pause (length is)) lm of (bs, lm') \<Rightarrow>
       k (lm', a + int (admitted bs), b + int (refused bs))
         (later h (int (length is) * pause) (length is + c * admitted bs) (passed item is bs) d))"
  using assms(2)
proof (induction "is" arbitrary: lm a b d)
  case Nil
  then show ?case by (simp add: gate_times_def passed_def refused_def)
next
  case (Cons i "is")
  obtain ok lm1 where ok: "try (t + dm_slept d) lm = (ok, lm1)" by fastforce
  obtain bs lm2 where bs: "gates try (gate_times (t + dm_slept d + pause) pause (length is)) lm1 = (bs, lm2)"
    by fastforce
  let ?d = "later h pause (1 + (if ok then c else 0)) (if ok then item i else []) d"
  have call: "now_then h k' d = k' (t + dm_slept d) (later h 0 1 [] d)" for k'
    using assms(1) by (simp add: now_then_def clock_then_def clock_now_def later_def)
  have act: "act i (later h 0 (Suc 0) [] d) = Some (later h 0 (Suc c) (item i) d)"
    using Cons.prems by (simp add: prints_item_def)
  have pause: "sleep_for pause (later h 0 n xs d) = Some (later h pause n xs d)" for n xs
    by (simp add: sleep_for_def later_def)
  have "loop (gated h try act pause) (i # is) (lm, a, b) k d
    = loop (gated h try act pause) is (lm1, if ok then a + 1 else a, if ok then b else b + 1) k ?d"
    by (cases ok) (simp_all add: gated_def call ok act pause)
  also have "\<dots> = k (lm2, (if ok then a + 1 else a) + int (admitted bs), (if ok then b else b + 1) + int (refused bs))
      (later h (int (length is) * pause) (length is + c * admitted bs) (passed item is bs) ?d)"
    using Cons.IH[of ?d] Cons.prems bs by (simp add: add.assoc)
  finally show ?case
    using ok bs by (simp add: gate_times_Suc passed_def refused_def algebra_simps)
qed

section \<open>What the limiters of the programs admit\<close>

lemma still_burst:
  assumes "rate_enabled rl" and "m \<le> 2 ^ 53" and "rl_tokens rl = of_nat m" and "rl_last_refill rl = t"
  shows "gates try_log (replicate n t) rl =
    (replicate (min m n) True @ replicate (n - m) False,
     rl\<lparr>rl_tokens := of_nat (m - n), rl_dropped := rl_dropped rl + of_nat (n - m)\<rparr>)"
  using assms
proof (induction n arbitrary: rl m)
  case (Suc n)
  then have refill: "refill_tokens t rl = rl" by (simp add: refill_tokens_def Let_def trunc_div_def)
  show ?case
  proof (cases m)
    case 0
    then have "try_log t rl = (False, rl\<lparr>rl_dropped := rl_dropped rl + 1\<rparr>)"
      using Suc.prems refill by (simp add: try_log_def Let_def)
    then show ?thesis using 0 Suc.IH[of "rl\<lparr>rl_dropped := rl_dropped rl + 1\<rparr>" 0] Suc.prems
      by (simp add: rate_enabled_def add_ac)
  next
    case (Suc k)
    have "fl (rl_tokens rl - 1) = of_nat k" using Suc Suc.prems(2,3) fl_nat[of k] by simp
    then have "try_log t rl = (True, rl\<lparr>rl_tokens := of_nat k\<rparr>)"
      using Suc Suc.prems refill by (simp add: try_log_def Let_def)
    then show ?thesis using Suc Suc.IH[of "rl\<lparr>rl_tokens := of_nat k\<rparr>" k] Suc.prems
      by (simp add: rate_enabled_def)
  qed
qed simp

lemma still_times: "gate_times t 0 n = replicate n t"
  by (simp add: gate_times_def map_replicate_trivial flip: map_replicate_const)

lemma passed_none: "passed item is (replicate n False) = []"
  by (simp add: passed_def) (auto simp: set_zip)

lemma passed_burst: "passed item is (replicate m True @ replicate n False) = concat (map item (take m is))"
proof (induction m arbitrary: "is")
  case (Suc m)
  then show ?case by (cases "is") (simp_all add: passed_def)
qed (simp add: passed_none)

lemma timeless:
  "gates (\<lambda>_. f) ts lm = gates (\<lambda>_. f) (replicate (length ts) 0) lm"
  by (induction ts arbitrary: lm) (simp_all add: split_beta)

definition shifted :: "time \<Rightarrow> combined_limiter \<Rightarrow> combined_limiter" where
  "shifted t cl = cl\<lparr>cl_rate := (cl_rate cl)\<lparr>rl_last_refill := rl_last_refill (cl_rate cl) + t\<rparr>\<rparr>"

lemma try_shifted:
  "combined_should_log (t' + t) (shifted t cl) = map_prod id (shifted t) (combined_should_log t' cl)"
  by (simp add: combined_should_log_def shifted_def try_log_def refill_tokens_def rate_enabled_def Let_def
      split: prod.split)

lemma gates_shifted:
  "gates combined_should_log (gate_times (t' + t) pause n) (shifted t cl)
   = map_prod id (shifted t) (gates combined_should_log (gate_times t' pause n) cl)"
proof (induction n arbitrary: t' cl)
  case (Suc n)
  show ?case
    using Suc.IH[of "t' + pause" "snd (combined_should_log t' cl)"]
    by (simp add: gate_times_Suc try_shifted split_beta add.assoc add.commute[of t pause])
qed (simp add: gate_times_def)

lemma fresh_burst:
  assumes "0 < m" and "unat m \<le> 2 ^ 53"
  shows "gates try_log (replicate n t) (rate_limiter_new t r m) =
    (replicate (min (unat m) n) True @ replicate (n - unat m) False,
     (rate_limiter_new t r m)\<lparr>rl_tokens := of_nat (unat m - n), rl_dropped := of_nat (n - unat m)\<rparr>)"
  using still_burst[of "rate_limiter_new t r m" "unat m" t n] assms
  by (simp add: rate_limiter_new_def rate_enabled_def u64_double_exact Let_def)

lemma counts_append [simp]:
  "admitted (bs @ cs) = admitted bs + admitted cs" "refused (bs @ cs) = refused bs + refused cs"
  "admitted (replicate n True) = n" "refused (replicate n False) = n"
  "admitted (replicate n False) = 0" "refused (replicate n True) = 0"
  by (simp_all add: admitted_def refused_def)

lemma sampled_hundred:
  "gates (\<lambda>_. sampling_should_log) (gate_times t 0 100) (sampling_limiter_new 10)
   = (map (\<lambda>i. i mod 10 = 0) [0..<100], \<lparr>sl_sample_rate = 10, sl_counter = 100\<rparr>)"
proof -
  have "gates (\<lambda>_. sampling_should_log) (replicate 100 0) (sampling_limiter_new 10)
    = (map (\<lambda>i. i mod 10 = 0) [0..<100], \<lparr>sl_sample_rate = 10, sl_counter = 100\<rparr>)"
    by code_simp
  then show ?thesis
    using timeless[of sampling_should_log "gate_times t 0 100" "sampling_limiter_new 10"]
    by (simp add: gate_times_def)
qed

lemma passed_filter: "passed item is (map P is) = concat (map item (filter P is))"
  by (induction "is") (simp_all add: passed_def)

section \<open>The loops of the programs\<close>

lemma passed_nothing: "passed (\<lambda>_. []) is bs = []"
  by (simp add: passed_def)

lemma later_clock: "later (h\<lparr>ho_clock := \<lambda>_ _. t\<rparr>) = later h"
  by (simp add: later_def fun_eq_iff)

lemma loop_cout:
  fixes h :: "('rx, 'n) host" and t :: time
  shows "loop (gated (h\<lparr>ho_clock := \<lambda>_ _. t\<rparr>) try (cout_text msg) pause) is (lm, a, b) k d =
    (case gates try (gate_times (t + dm_slept d) pause (length is)) lm of (bs, lm') \<Rightarrow>
       k (lm', a + int (admitted bs), b + int (refused bs))
         (later h (int (length is) * pause) (length is) (passed (\<lambda>i. [Text (msg i)]) is bs) d))"
proof -
  define g where "g = h\<lparr>ho_clock := \<lambda>_ _. t\<rparr>"
  have clock: "ho_clock g = (\<lambda>_ _. t)" by (simp add: g_def)
  have "prints_item g (cout_text msg) 0 (\<lambda>i. [Text (msg i)]) d"
    by (simp add: prints_item_def g_def cout_text_def cout_printed[where h = h] later_def)
  from loop_gated[OF clock this] show ?thesis
    by (simp add: g_def[symmetric] passed_nothing later_clock[where h = h and t = t, folded g_def])
qed

lemma loop_say:
  fixes h :: "('rx, 'n) host" and t :: time
  assumes "plain_console d"
  shows "loop (gated (h\<lparr>ho_clock := \<lambda>_ _. t\<rparr>) try (say_text (h\<lparr>ho_clock := \<lambda>_ _. t\<rparr>) l msg) pause) is (lm, a, b) k d =
    (case gates try (gate_times (t + dm_slept d) pause (length is)) lm of (bs, lm') \<Rightarrow>
       k (lm', a + int (admitted bs), b + int (refused bs))
         (later h (int (length is) * pause) (length is + admitted bs)
           (passed (\<lambda>i. [Line (lg_name (dm_logger d)) l (msg i)]) is bs) d))"
proof -
  define g where "g = h\<lparr>ho_clock := \<lambda>_ _. t\<rparr>"
  have clock: "ho_clock g = (\<lambda>_ _. t)" by (simp add: g_def)
  have "prints_item g (say_text g l msg) 1 (\<lambda>i. [Line (lg_name (dm_logger d)) l (msg i)]) d"
    using assms by (simp add: prints_item_def say_text_def say_plain g_def) (simp add: later_def after_calls_def)
  from loop_gated[OF clock this] show ?thesis
    by (simp add: g_def[symmetric] passed_nothing later_clock[where h = h and t = t, folded g_def])
qed

lemma loop_nothing:
  fixes h :: "('rx, 'n) host" and t :: time
  shows "loop (gated (h\<lparr>ho_clock := \<lambda>_ _. t\<rparr>) try (\<lambda>_. Some) pause) is (lm, a, b) k d =
    (case gates try (gate_times (t + dm_slept d) pause (length is)) lm of (bs, lm') \<Rightarrow>
       k (lm', a + int (admitted bs), b + int (refused bs))
         (later h (int (length is) * pause) (length is) [] d))"
proof -
  define g where "g = h\<lparr>ho_clock := \<lambda>_ _. t\<rparr>"
  have clock: "ho_clock g = (\<lambda>_ _. t)" by (simp add: g_def)
  have "prints_item g (\<lambda>_. Some) 0 (\<lambda>_. []) d"
    by (simp add: prints_item_def later_def)
  from loop_gated[OF clock this] show ?thesis
    by (simp add: g_def[symmetric] passed_nothing later_clock[where h = h and t = t, folded g_def])
qed

section \<open>What rate\_limiting\_example.cpp prints\<close>

text \<open>
  The combined limiter after its 1000 calls, one each half millisecond.  The times are shifted to
  begin at 0, which makes no difference.
\<close>

definition combined_run :: combined_limiter where
  "combined_run = snd (gates combined_should_log (gate_times 0 500000 1000) (combined_limiter_new 0 100 150 5))"

lemma combined_run_shifted:
  "snd (gates combined_should_log (gate_times t 500000 1000) (combined_limiter_new t 100 150 5)) = shifted t combined_run"
  using gates_shifted[of 0 t 500000 1000 "combined_limiter_new 0 100 150 5"]
  by (simp add: combined_run_def) (simp add: shifted_def combined_limiter_new_def rate_limiter_new_def Let_def)

lemma stats_shifted [simp]: "combined_stats (shifted t cl) = combined_stats cl"
  by (simp add: combined_stats_def shifted_def)

lemma limit_texts:
  "show_int 20 = ''20''" "show_int 80 = ''80''" "show_u64 80 = ''80''" "show_u64 100 = ''100''" "show_u64 90 = ''90''"
  "show_int 500 = ''500''" "show_int 100 = ''100''" "show_int 900 = ''900''" "show_u64 900 = ''900''"
  "milliseconds 500000000 = 500"
  by code_simp+

lemma concat_items [simp]: "concat (map (\<lambda>i. [f i]) is) = map f is"
  by (induction "is") simp_all

lemmas limit_simps = demo_simps loop_cout loop_say loop_nothing still_times fresh_burst passed_burst
  limit_texts Let_def later_def plain_console_def plain_logger_def

lemma rate_limiting_prints:
  fixes h :: "('rx, 'n) host" and t :: time
  defines "g \<equiv> h\<lparr>ho_clock := \<lambda>_ _. t\<rparr>"
  shows "prints g (example_rate_limiting g)
     ([Text (block_text ''=== Rate Limiting Example ===''),
      Text (line_text ''Attempting to log 100 messages rapidly...'')]
     @ map (\<lambda>i. Text (logged_text i)) [0..<20]
     @ [Text (block_text ''Results:''),
        Text (value_text ''  Logged: '' ''20''),
        Text (value_text ''  Dropped: '' ''80''),
        Text (value_text ''  Rate limiter dropped: '' ''80'')])"
  unfolding g_def
  by (rule printsI) (simp add: limit_simps cout_printed[where h = h] example_rate_limiting_def)

lemma sampling_prints:
  fixes h :: "('rx, 'n) host" and t :: time
  defines "g \<equiv> h\<lparr>ho_clock := \<lambda>_ _. t\<rparr>"
  shows "prints g (example_sampling g)
     ([Text (block_text ''=== Sampling Example ===''),
       Text (line_text ''Logging 100 messages with 1-in-10 sampling...'')]
      @ map (\<lambda>i. Text (sampled_text i)) (filter (\<lambda>i. i mod 10 = 0) [0..<100])
      @ [Text (block_text ''Results:''),
         Text (value_text ''  Total messages: '' ''100''),
         Text (value_text ''  Dropped (sampled out): '' ''90'')])"
  unfolding g_def
  by (rule printsI) (simp add: limit_simps sampled_hundred[unfolded still_times] passed_filter
    sampling_dropped_count_def sampling_enabled_def cout_printed[where h = h] example_sampling_def)

lemma combined_prints:
  fixes h :: "('rx, 'n) host" and t :: time
  defines "g \<equiv> h\<lparr>ho_clock := \<lambda>_ _. t\<rparr>"
  shows "prints g (example_combined_limiting g)
     [Text (block_text ''=== Combined Rate Limiting + Sampling Example ===''),
      Text (line_text ''Simulating high-throughput logging...''),
      Text (block_text ''Results (elapsed: 500 ms):''),
      Text (limiter_text (combined_stats combined_run)),
      Text (value_text ''  Effective rate: ''
          (show_general (effective_rate (st_logged_messages (combined_stats combined_run)) 500) @ '' msg/s''))]"
  unfolding g_def
  by (rule printsI) (simp add: limit_simps combined_run_shifted split_beta
    cout_printed[where h = h] example_combined_limiting_def)

lemma production_prints:
  fixes h :: "('rx, 'n) host" and t :: time
  defines "g \<equiv> h\<lparr>ho_clock := \<lambda>_ _. t\<rparr>"
  shows "prints g (example_production_scenario g)
     ([Text (block_text ''=== Production Scenario: Preventing Log Flooding ===''),
       Text (line_text ''Simulating an error storm (1000 errors rapidly)...'')]
      @ map (\<lambda>i. Line ''app'' Error (failed_attempt i)) [0..<100]
      @ [Text (block_text ''Protected the system by rate limiting:''),
         Text (line_text ''  Would have logged: 1000 messages''),
         Text (value_text ''  Actually logged: '' ''100 messages''),
         Text (value_text ''  Prevented: '' ''900 messages from flooding disk''),
         Text (value_text ''  Dropped by rate limiter: '' ''900'')])"
  unfolding g_def
  by (rule printsI) (simp add: limit_simps cout_printed[where h = h] example_production_scenario_def)

lemma combined_samples:
  assumes "rate_enabled (cl_rate cl)"
  shows "cl_sampling (snd (gates combined_should_log ts cl)) = snd (samplings (length ts) (cl_sampling cl))
    \<and> cl_logged (snd (gates combined_should_log ts cl)) + rl_dropped (cl_rate (snd (gates combined_should_log ts cl)))
      = cl_logged cl + rl_dropped (cl_rate cl) + of_nat (admitted (fst (samplings (length ts) (cl_sampling cl))))"
  using assms
proof (induction ts arbitrary: cl)
  case (Cons t ts)
  define cl1 where "cl1 = snd (combined_should_log t cl)"
  have en: "rate_enabled (cl_rate cl1)"
    using Cons.prems by (simp add: cl1_def combined_should_log_def rate_enabled_def split: prod.split)
       (metis try_log_frame(1) snd_conv)
  have "cl_sampling cl1 = snd (sampling_should_log (cl_sampling cl))
    \<and> cl_logged cl1 + rl_dropped (cl_rate cl1) = cl_logged cl + rl_dropped (cl_rate cl)
        + (if fst (sampling_should_log (cl_sampling cl)) then 1 else 0)"
    using Cons.prems
    by (simp add: cl1_def combined_should_log_def try_log_def Let_def split: prod.split)
  with Cons.IH[OF en] show ?case
    by (simp add: split_beta add_ac flip: cl1_def)
qed simp

text \<open>
  Of the 1000 calls 200 pass the sampler; the bucket admits a part of them.
\<close>

definition combined_logged :: u64 where
  "combined_logged = cl_logged combined_run"

lemma combined_numbers:
  "combined_stats combined_run =
     \<lparr>st_total_messages = 1000, st_rate_limited_drops = 200 - combined_logged, st_sampling_drops = 800,
      st_logged_messages = combined_logged\<rparr>"
proof -
  let ?cl = "combined_limiter_new 0 100 150 5" and ?ts = "gate_times 0 500000 1000"
  let ?sl = "cl_sampling ?cl"
  have sl: "?sl = \<lparr>sl_sample_rate = 5, sl_counter = 0\<rparr>"
    by (simp add: combined_limiter_new_def sampling_limiter_new_def)
  have len: "length ?ts = 1000" by (simp add: gate_times_def)
  have run: "cl_sampling combined_run = snd (samplings 1000 ?sl)"
    "combined_logged + rl_dropped (cl_rate combined_run) = of_nat (admitted (fst (samplings 1000 ?sl)))"
    using combined_samples[of ?cl ?ts] len
    by (simp_all add: combined_run_def combined_logged_def)
      (simp_all add: combined_limiter_new_def rate_limiter_new_def rate_enabled_def)
  from samplings_run[of ?sl 1000 5] have
    "unat (sl_counter (snd (samplings 1000 ?sl))) = 1000" "sl_sample_rate (snd (samplings 1000 ?sl)) = 5"
    "admitted (fst (samplings 1000 ?sl)) = 200"
    by (simp_all add: sl sampling_enabled_def admitted_def)
  then have sampler: "cl_sampling combined_run = \<lparr>sl_sample_rate = 5, sl_counter = 1000\<rparr>"
    and sum: "combined_logged + rl_dropped (cl_rate combined_run) = 200"
    using run by (simp_all add: word_unat_eq_iff)
  have "sampling_dropped_count \<lparr>sl_sample_rate = 5, sl_counter = 1000\<rparr> = 800" by code_simp
  moreover have "rl_dropped (cl_rate combined_run) = 200 - combined_logged"
    using sum by (metis add_diff_cancel_left')
  ultimately show ?thesis
    by (simp add: combined_stats_def combined_logged_def sampler)
qed

section \<open>A bucket that is asked at equal distances\<close>

text \<open>
  The answers of a bucket of capacity \<open>m\<close> that holds \<open>x\<close> tokens and gets \<open>a\<close> more before each of the
  \<open>n\<close> questions.
\<close>

fun bucket :: "double \<Rightarrow> double \<Rightarrow> nat \<Rightarrow> double \<Rightarrow> bool list" where
  "bucket a m 0 x = []"
| "bucket a m (Suc n) x =
     (let y = min (fl (x + a)) m in
      if 1 \<le> y then True # bucket a m n (fl (y - 1)) else False # bucket a m n y)"

lemma bucket_numeral:
  "bucket a m (numeral w) x =
     (let y = min (fl (x + a)) m in
      if 1 \<le> y then True # bucket a m (pred_numeral w) (fl (y - 1)) else False # bucket a m (pred_numeral w) y)"
  by (simp add: numeral_eq_Suc)

lemma gates_bucket:
  assumes "rate_enabled rl" and "0 < trunc_div p 1000000" and "rl_last_refill rl + p = t"
    and "a = fl (u64_double (rl_refill_rate rl * word_of_int (trunc_div p 1000000)) / 1000)"
    and "m = u64_double (rl_max_tokens rl)"
  shows "fst (gates try_log (gate_times t p n) rl) = bucket a m n (rl_tokens rl)"
  using assms
proof (induction n arbitrary: t rl)
  case (Suc n)
  have dist: "t - rl_last_refill rl = p" using Suc.prems(3) by simp
  define y where "y = min (fl (rl_tokens rl + a)) m"
  define rl1 where "rl1 = rl\<lparr>rl_tokens := y, rl_last_refill := t\<rparr>"
  have "refill_tokens t rl = rl1"
    using Suc.prems(2,4,5) by (simp add: refill_tokens_def Let_def dist rl1_def y_def)
  then have "try_log t rl = (if 1 \<le> y then (True, rl1\<lparr>rl_tokens := fl (y - 1)\<rparr>)
      else (False, rl1\<lparr>rl_dropped := rl_dropped rl1 + 1\<rparr>))"
    using Suc.prems(1) by (simp add: try_log_def Let_def) (simp add: rl1_def)
  moreover have "fst (gates try_log (gate_times (t + p) p n) rl2) = bucket a m n (rl_tokens rl2)"
    if "rl_last_refill rl2 = t" "rl_max_tokens rl2 = rl_max_tokens rl" "rl_refill_rate rl2 = rl_refill_rate rl" for rl2
    using Suc.IH[of rl2 "t + p"] Suc.prems that by (simp add: rate_enabled_def)
  from this[of "rl1\<lparr>rl_tokens := fl (y - 1)\<rparr>"] this[of "rl1\<lparr>rl_dropped := rl_dropped rl1 + 1\<rparr>"] have
    "fst (gates try_log (gate_times (t + p) p n) (rl1\<lparr>rl_tokens := fl (y - 1)\<rparr>)) = bucket a m n (fl (y - 1))"
    "fst (gates try_log (gate_times (t + p) p n) (rl1\<lparr>rl_dropped := rl_dropped rl1 + 1\<rparr>)) = bucket a m n y"
    by (simp_all add: rl1_def)
  ultimately show ?case
    unfolding bucket.simps Let_def y_def[symmetric] by (simp add: gate_times_Suc split_beta)
qed (simp add: gate_times_def)

text \<open>The first question of a full bucket finds no time passed.\<close>

lemma fresh_bucket:
  assumes "1 \<le> u64_double m" and "0 < trunc_div p 1000000" and "0 < m"
  shows "fst (gates try_log (gate_times t p (Suc n)) (rate_limiter_new t r m)) =
    True # bucket (fl (u64_double (r * word_of_int (trunc_div p 1000000)) / 1000)) (u64_double m) n
      (fl (u64_double m - 1))"
proof -
  let ?rl = "rate_limiter_new t r m"
  define rl1 where "rl1 = ?rl\<lparr>rl_tokens := fl (u64_double m - 1)\<rparr>"
  have "try_log t ?rl = (True, rl1)"
    using assms by (simp add: try_log_def refill_tokens_def trunc_div_def rate_limiter_new_def rate_enabled_def
        Let_def rl1_def)
  moreover have "fst (gates try_log (gate_times (t + p) p n) rl1) =
      bucket (fl (u64_double (r * word_of_int (trunc_div p 1000000)) / 1000)) (u64_double m) n (rl_tokens rl1)"
    using assms by (intro gates_bucket) (simp_all add: rl1_def rate_limiter_new_def rate_enabled_def Let_def)
  ultimately show ?thesis by (simp add: gate_times_Suc split_beta rl1_def)
qed

text \<open>Of a combined limiter that samples one in five, the bucket sees every fifth call.\<close>

lemma sampler_step_rate:
  assumes "1 < s" "s < 2 ^ 64" "i < 2 ^ 64 - 1"
  shows "sampling_should_log \<lparr>sl_sample_rate = of_nat s, sl_counter = of_nat i\<rparr>
     = (i mod s = 0, \<lparr>sl_sample_rate = of_nat s, sl_counter = of_nat (Suc i)\<rparr>)"
proof -
  have "unat (of_nat i mod of_nat s :: u64) = i mod s" using assms by (simp add: unat_mod unat_of_nat)
  then have "(of_nat i mod of_nat s :: u64) = 0 \<longleftrightarrow> i mod s = 0" by (metis unat_eq_zero)
  moreover have "(1 :: u64) < of_nat s" using assms by (simp add: word_less_nat_alt unat_of_nat)
  ultimately show ?thesis by (simp add: sampling_should_log_def sampling_enabled_def add.commute)
qed

lemmas sampler_step = sampler_step_rate[of 5, simplified]

definition fifth :: "rate_limiter \<Rightarrow> nat \<Rightarrow> u64 \<Rightarrow> combined_limiter" where
  "fifth rl i l = \<lparr>cl_rate = rl, cl_sampling = \<lparr>sl_sample_rate = 5, sl_counter = of_nat i\<rparr>, cl_logged = l\<rparr>"

lemma fifth_skips:
  "i < 2 ^ 64 - 1 \<Longrightarrow> i mod 5 \<noteq> 0 \<Longrightarrow> i' = Suc i \<Longrightarrow>
     combined_should_log t (fifth rl i l) = (False, fifth rl i' l)"
  by (simp add: combined_should_log_def fifth_def sampler_step)

lemma fifth_asks:
  "i < 2 ^ 64 - 1 \<Longrightarrow> i mod 5 = 0 \<Longrightarrow> combined_should_log t (fifth rl i l) =
     (case try_log t rl of (b, rl') \<Rightarrow> (b, fifth rl' (Suc i) (if b then l + 1 else l)))"
  by (auto simp: combined_should_log_def fifth_def sampler_step split: prod.splits)

lemma gates_Cons: "snd (gates try (t # ts) lm) = snd (gates try ts (snd (try t lm)))"
  by (simp add: split_beta)

lemma combined_block:
  assumes "5 * (k + n) < 2 ^ 64 - 1"
  shows "snd (gates combined_should_log (gate_times t p (5 * n)) (fifth rl (5 * k) l)) =
    (case gates try_log (gate_times t (5 * p) n) rl of (bs, rl') \<Rightarrow>
       fifth rl' (5 * (k + n)) (l + of_nat (admitted bs)))"
  using assms
proof (induction n arbitrary: t k rl l)
  case (Suc n)
  obtain b rl1 where b: "try_log t rl = (b, rl1)" by fastforce
  obtain bs rl2 where bs: "gates try_log (gate_times (t + 5 * p) (5 * p) n) rl1 = (bs, rl2)" by fastforce
  let ?l = "if b then l + 1 else l"
  have times: "gate_times t p (5 * Suc n) =
      t # (t + p) # (t + 2 * p) # (t + 3 * p) # (t + 4 * p) # gate_times (t + 5 * p) p (5 * n)"
  proof -
    have "5 * Suc n = Suc (Suc (Suc (Suc (Suc (5 * n)))))" by simp
    then show ?thesis by (simp only: gate_times_Suc) (simp add: algebra_simps)
  qed
  have small: "5 * k + 5 < 2 ^ 64 - 1" using Suc.prems by simp
  have first: "combined_should_log t (fifth rl (5 * k) l) = (b, fifth rl1 (5 * k + 1) ?l)"
    using Suc.prems b fifth_asks[of "5 * k" t rl l] by simp
  have rest: "combined_should_log t1 (fifth rl1 (5 * k + 1) ?l) = (False, fifth rl1 (5 * k + 2) ?l)"
    "combined_should_log t1 (fifth rl1 (5 * k + 2) ?l) = (False, fifth rl1 (5 * k + 3) ?l)"
    "combined_should_log t1 (fifth rl1 (5 * k + 3) ?l) = (False, fifth rl1 (5 * k + 4) ?l)"
    "combined_should_log t1 (fifth rl1 (5 * k + 4) ?l) = (False, fifth rl1 (5 * Suc k) ?l)" for t1
    by (rule fifth_skips; (use small in simp; fail | presburger))+
  have "snd (gates combined_should_log (gate_times t p (5 * Suc n)) (fifth rl (5 * k) l))
    = snd (gates combined_should_log (gate_times (t + 5 * p) p (5 * n)) (fifth rl1 (5 * Suc k) ?l))"
    by (simp only: times gates_Cons first rest snd_conv)
  also have "\<dots> = fifth rl2 (5 * (Suc k + n)) (?l + of_nat (admitted bs))"
    using Suc.IH[of "Suc k" "t + 5 * p" rl1 ?l] Suc.prems bs by simp
  finally show ?case using b bs by (simp add: gate_times_Suc add_ac)
qed (simp add: gate_times_def)

text \<open>The bucket of the combined example, asked each two and a half milliseconds, gains 0.2 for two of them.\<close>

fun bucket_rest :: "double \<Rightarrow> double \<Rightarrow> nat \<Rightarrow> double \<Rightarrow> double" where
  "bucket_rest a m 0 x = x"
| "bucket_rest a m (Suc n) x =
     (let y = min (fl (x + a)) m in
      if 1 \<le> y then bucket_rest a m n (fl (y - 1)) else bucket_rest a m n y)"

lemma bucket_rest_numeral:
  "bucket_rest a m (numeral w) x =
     (let y = min (fl (x + a)) m in
      if 1 \<le> y then bucket_rest a m (pred_numeral w) (fl (y - 1)) else bucket_rest a m (pred_numeral w) y)"
  by (simp add: numeral_eq_Suc)

lemma bucket_add: "bucket a m (n + k) x = bucket a m n x @ bucket a m k (bucket_rest a m n x)"
  by (induction n arbitrary: x) (simp_all add: Let_def)

lemmas bucket_eval = bucket_numeral bucket_rest_numeral fl_eval min_def

lemma combined_bucket1:
  "admitted (bucket (fl (1 / 5)) 150 50 149) = 50"
  "bucket_rest (fl (1 / 5)) 150 50 149 = (7670193115365359 / 70368744177664)"
  by (simp_all add: bucket_eval)

lemma combined_bucket2:
  "admitted (bucket (fl (1 / 5)) 150 50 (7670193115365359 / 70368744177664)) = 50"
  "bucket_rest (fl (1 / 5)) 150 50 (7670193115365359 / 70368744177664) = (4855443348258809 / 70368744177664)"
  by (simp_all add: bucket_eval)

lemma combined_bucket3:
  "admitted (bucket (fl (1 / 5)) 150 50 (4855443348258809 / 70368744177664)) = 50"
  "bucket_rest (fl (1 / 5)) 150 50 (4855443348258809 / 70368744177664) = (8162774324609033 / 281474976710656)"
  by (simp_all add: bucket_eval)

lemma combined_bucket4:
  "admitted (bucket (fl (1 / 5)) 150 49 (8162774324609033 / 281474976710656)) = 38"
  by (simp add: bucket_eval)

lemma combined_bucket: "admitted (bucket (fl (1 / 5)) 150 199 149) = 188"
  using bucket_add[of "fl (1 / 5)" 150 50 149 149] bucket_add[of "fl (1 / 5)" 150 50 99]
    bucket_add[of "fl (1 / 5)" 150 50 49]
  by (simp add: combined_bucket1 combined_bucket2 combined_bucket3 combined_bucket4)

lemma combined_admits: "combined_logged = 189"
proof -
  let ?rl = "rate_limiter_new 0 100 150"
  have new: "combined_limiter_new 0 100 150 5 = fifth ?rl (5 * 0) 0"
    by (simp add: combined_limiter_new_def sampling_limiter_new_def fifth_def)
  obtain bs rl where bs: "gates try_log (gate_times 0 2500000 200) ?rl = (bs, rl)" by fastforce
  have tokens: "u64_double 150 = 150" "u64_double 200 = 200" by (simp_all add: u64_double_def fl_eval)
  have "fst (gates try_log (gate_times 0 2500000 (Suc 199)) ?rl) = True # bucket (fl (200 / 1000)) 150 199 149"
    using fresh_bucket[of 150 2500000 0 199 100] by (simp add: tokens trunc_div_def fl_eval)
  with bs have "admitted bs = 189" by (simp add: combined_bucket)
  with combined_block[of 0 200 0 500000 ?rl 0] bs show ?thesis
    by (simp add: combined_logged_def combined_run_def new fifth_def)
qed

section \<open>The whole program\<close>

definition rate_limiting_output :: "console_item list" where
  "rate_limiting_output =
     [Text (line_text ''Zyrnix Rate Limiting & Sampling Examples''),
      Text (line_text ''========================================''),
      Text (block_text ''=== Rate Limiting Example ===''),
      Text (line_text ''Attempting to log 100 messages rapidly...'')]
     @ map (\<lambda>i. Text (logged_text i)) [0..<20]
     @ [Text (block_text ''Results:''),
        Text (value_text ''  Logged: '' ''20''),
        Text (value_text ''  Dropped: '' ''80''),
        Text (value_text ''  Rate limiter dropped: '' ''80''),
        Text (block_text ''=== Sampling Example ===''),
        Text (line_text ''Logging 100 messages with 1-in-10 sampling...'')]
     @ map (\<lambda>i. Text (sampled_text i)) [0, 10, 20, 30, 40, 50, 60, 70, 80, 90]
     @ [Text (block_text ''Results:''),
        Text (value_text ''  Total messages: '' ''100''),
        Text (value_text ''  Dropped (sampled out): '' ''90''),
        Text (block_text ''=== Combined Rate Limiting + Sampling Example ===''),
        Text (line_text ''Simulating high-throughput logging...''),
        Text (block_text ''Results (elapsed: 500 ms):''),
        Text (value_text ''  Total messages: '' ''1000''
          @ value_text ''  Logged: '' ''189''
          @ value_text ''  Sampling drops: '' ''800''
          @ value_text ''  Rate limit drops: '' ''11''),
        Text (value_text ''  Effective rate: '' ''378 msg/s''),
        Text (block_text ''=== Production Scenario: Preventing Log Flooding ===''),
        Text (line_text ''Simulating an error storm (1000 errors rapidly)...'')]
     @ map (\<lambda>i. Line ''app'' Error (failed_attempt i)) [0..<100]
     @ [Text (block_text ''Protected the system by rate limiting:''),
        Text (line_text ''  Would have logged: 1000 messages''),
        Text (value_text ''  Actually logged: '' ''100 messages''),
        Text (value_text ''  Prevented: '' ''900 messages from flooding disk''),
        Text (value_text ''  Dropped by rate limiter: '' ''900''),
        Text (block_text ''=== Key Takeaways ===''),
        Text (line_text ''1. Rate limiting prevents log flooding during incidents''),
        Text (line_text ''2. Sampling reduces log volume in high-throughput scenarios''),
        Text (line_text ''3. Combined approach provides flexible control''),
        Text (line_text ''4. Token bucket algorithm allows bursts while maintaining limits''),
        Text (line_text ''5. Statistics help monitor dropped message counts'')]"

lemma tenths: "filter (\<lambda>i. i mod 10 = 0) [0..<100] = [0, 10, 20, 30, 40, 50, 60, 70, 80, 90]"
  by code_simp

lemma combined_texts:
  "show_u64 1000 = ''1000''" "show_u64 800 = ''800''" "show_u64 189 = ''189''" "show_u64 11 = ''11''"
  "show_general (effective_rate 189 500) = ''378''"
  by (simp_all add: show_u64_eval) (simp add: effective_rate_def u64_double_def fl_eval show_eval)

text \<open>
  The program \<open>examples/rate\_limiting\_example.cpp\<close>, on a clock that only advances while the
  program sleeps, prints exactly the output listed: of 100 rapid messages the first 20 and of 1000
  errors the first 100 pass, which are the bursts, and the limiter counts the others; the sampler
  passes the messages 0, 10, ..., 90; of 1000 messages in half a second the combined limiter drops
  800 by sampling and 11 by the bucket, and logs 189; the bucket is asked each 2.5 ms and credited
  for 2 of them.
\<close>

theorem rate_limiting_program_prints:
  fixes h :: "('rx, 'n) host" and t :: time
  shows "prints (h\<lparr>ho_clock := \<lambda>_ _. t\<rparr>) (rate_limiting_main (h\<lparr>ho_clock := \<lambda>_ _. t\<rparr>)) rate_limiting_output"
  unfolding rate_limiting_main_def
  by (rule prints_eq, (rule prints_intros rate_limiting_prints sampling_prints combined_prints production_prints)+)
    (simp add: rate_limiting_output_def tenths combined_numbers combined_admits limiter_text_def combined_texts)

end
