(* ===== verification/Example_Metrics.thy ===== *)
theory Example_Metrics
  imports Example_Console Double_Eval
begin

text \<open>
  The program \<open>examples/metrics\_example.cpp\<close>: metrics of a logger and of a sink as local objects, and
  the metrics of the process through the pointers that its registry hands out.  A loop that only
  records is a fold over its counter.
\<close>

section \<open>The programs\<close>

text \<open>\<open>MetricsRegistry::get\_logger\_metrics\<close>, and the methods called through the pointer.\<close>

definition ask_metrics :: "('rx, 'n) host \<Rightarrow> string \<Rightarrow> (nat \<Rightarrow> ('rx, 'a, 'n, 'c) statement) \<Rightarrow> ('rx, 'a, 'n, 'c) statement" where
  "ask_metrics h nm k = now_then h (\<lambda>t d.
     case get_logger_metrics t nm (dm_metrics d) of (p, r) \<Rightarrow> k p (d\<lparr>dm_metrics := r\<rparr>))"

definition through :: "nat \<Rightarrow> (log_metrics \<Rightarrow> log_metrics) \<Rightarrow> ('rx, 'a, 'n, 'c) statement" where
  "through p f d = Some (d\<lparr>dm_metrics := on_logger_metrics f p (dm_metrics d)\<rparr>)"

definition through_loop :: "nat \<Rightarrow> (nat \<Rightarrow> log_metrics \<Rightarrow> log_metrics) \<Rightarrow> nat \<Rightarrow> ('rx, 'a, 'n, 'c) statement" where
  "through_loop p f n d =
     Some (d\<lparr>dm_metrics := foldl (\<lambda>r i. on_logger_metrics (f i) p r) (dm_metrics d) [0..<n]\<rparr>)"

definition registry_then :: "(metrics_registry \<Rightarrow> ('rx, 'a, 'n, 'c) statement) \<Rightarrow> ('rx, 'a, 'n, 'c) statement" where
  "registry_then k d = k (dm_metrics d) d"

text \<open>Of every logger in the registry the clock is read for one after the other.\<close>

definition logger_clocks :: "('rx, 'n) host \<Rightarrow> ('rx, 'a, 'n, 'c) demo \<Rightarrow> string \<Rightarrow> clock" where
  "logger_clocks h d nm =
     clock_now h (d\<lparr>dm_calls := dm_calls d + length (takeWhile (\<lambda>e. fst e \<noteq> nm) (rg_loggers (dm_metrics d)))\<rparr>)"

definition all_then ::
    "('rx, 'n) host \<Rightarrow> ((string \<Rightarrow> clock) \<Rightarrow> metrics_registry \<Rightarrow> ('rx, 'a, 'n, 'c) statement)
      \<Rightarrow> ('rx, 'a, 'n, 'c) statement" where
  "all_then h k d =
     k (logger_clocks h d) (dm_metrics d) (d\<lparr>dm_calls := dm_calls d + length (rg_loggers (dm_metrics d))\<rparr>)"

definition us_text :: "string \<Rightarrow> string" where
  "us_text v = v @ [CHR '' '', CHR 0xC2, CHR 0xB5, CHR ''s'']"

definition basic_activity :: "nat \<Rightarrow> log_metrics \<Rightarrow> log_metrics" where
  "basic_activity i m0 =
     (let m1 = record_message_logged m0;
          m2 = (if i mod 100 = 0 then record_message_dropped m1 else m1);
          m3 = (if i mod 50 = 0 then record_message_filtered m2 else m2)
      in record_log_duration (of_nat (10 + i mod 20)) m3)"

definition flush_activity :: "nat \<Rightarrow> log_metrics \<Rightarrow> log_metrics" where
  "flush_activity i m = record_flush_duration (of_nat (500 + i * 100)) (record_flush m)"

definition snapshot_text :: "snapshot \<Rightarrow> string" where
  "snapshot_text sn =
     value_text ''  Messages logged: '' (show_u64 (sn_messages_logged sn))
     @ value_text ''  Messages dropped: '' (show_u64 (sn_messages_dropped sn))
     @ value_text ''  Messages filtered: '' (show_u64 (sn_messages_filtered sn))
     @ value_text ''  Flushes: '' (show_u64 (sn_flushes sn))
     @ value_text ''  Messages/second: '' (show_general (sn_messages_per_second sn))
     @ value_text ''  Avg log latency: '' (us_text (show_general (sn_avg_log_latency_us sn)))
     @ value_text ''  Max log latency: '' (us_text (show_u64 (sn_max_log_latency_us sn)))
     @ value_text ''  Avg flush latency: '' (us_text (show_general (sn_avg_flush_latency_us sn)))
     @ value_text ''  Max flush latency: '' (us_text (show_u64 (sn_max_flush_latency_us sn)))"

definition example_basic_metrics :: "('rx, 'n) host \<Rightarrow> ('rx, 'a, 'n, 'c) statement" where
  "example_basic_metrics h = run_all
     [cout (block_text ''=== Basic Metrics Example ===''),
      now_then h (\<lambda>start.
        let m1 = foldl (\<lambda>m i. basic_activity i m) (log_metrics_new start) [0..<1000];
            metrics = foldl (\<lambda>m i. flush_activity i m) m1 [0..<5] in
        clock_then h (\<lambda>clk. run_all
         [cout (line_text ''Metrics Snapshot:''),
          cout (snapshot_text (get_snapshot clk metrics))]))]"

definition prometheus_activity :: "nat \<Rightarrow> log_metrics \<Rightarrow> log_metrics" where
  "prometheus_activity i m = record_log_duration 15 (record_message_logged m)"

definition example_prometheus_export :: "('rx, 'n) host \<Rightarrow> ('rx, 'a, 'n, 'c) statement" where
  "example_prometheus_export h = run_all
     [cout (block_text ''=== Prometheus Export Example ===''),
      now_then h (\<lambda>start.
        let m = foldl (\<lambda>m i. prometheus_activity i m) (log_metrics_new start) [0..<5000];
            metrics = update_queue_depth 125 (record_message_dropped (record_message_dropped m)) in
        now_then h (\<lambda>now. run_all
         [cout (line_text ''Prometheus Metrics Format:''),
          cout (line_text ''----------------------------''),
          cout (export_prometheus now ''myapp_log'' metrics),
          cout (block_text ''These metrics can be scraped by Prometheus and visualized in Grafana'')]))]"

definition example_json_export :: "('rx, 'n) host \<Rightarrow> ('rx, 'a, 'n, 'c) statement" where
  "example_json_export h = run_all
     [cout (block_text ''=== JSON Export Example ===''),
      now_then h (\<lambda>start.
        let m = foldl (\<lambda>m i. record_message_logged m) (log_metrics_new start) [0..<2000];
            metrics = record_error (record_message_dropped m) in
        now_then h (\<lambda>now. run_all
         [cout (line_text ''JSON Metrics:''),
          cout (export_json now metrics @ nl2),
          cout (line_text ''This format is ideal for:''),
          cout (line_text ''  - REST API endpoints''),
          cout (line_text ''  - Monitoring dashboards''),
          cout (line_text ''  - Log aggregators (ELK, Splunk)'')]))]"

definition sink_activity :: "u64 \<Rightarrow> u64 \<Rightarrow> sink_metrics \<Rightarrow> sink_metrics" where
  "sink_activity bytes us m = sm_record_write_duration us (sm_record_write bytes m)"

definition example_sink_metrics :: "('rx, 'a, 'n, 'c) statement" where
  "example_sink_metrics =
     (let (f, s) = foldl (\<lambda>(f, s) i. (sink_activity 256 50 f, sink_activity 128 10 s))
            (sink_metrics_new ''file_sink'', sink_metrics_new ''stdout_sink'') [0..<1000];
          file_metrics = sm_record_flush (sm_record_flush f);
          stdout_metrics = sm_record_flush s
      in run_all
        [cout (block_text ''=== Per-Sink Metrics Example ===''),
         cout (line_text ''File Sink Statistics:''),
         cout (value_text ''  Writes: '' (show_u64 (sm_writes file_metrics))),
         cout (value_text ''  Bytes written: '' (show_u64 (sm_bytes_written file_metrics))),
         cout (value_text ''  Flushes: '' (show_u64 (sm_flushes file_metrics))),
         cout (value_text ''  Avg write latency: ''
           (us_text (show_general (get_average_write_latency_us file_metrics)) @ newline)),
         cout (line_text ''Stdout Sink Statistics:''),
         cout (value_text ''  Writes: '' (show_u64 (sm_writes stdout_metrics))),
         cout (value_text ''  Bytes written: '' (show_u64 (sm_bytes_written stdout_metrics))),
         cout (value_text ''  Avg write latency: ''
           (us_text (show_general (get_average_write_latency_us stdout_metrics))))])"

definition logger_text :: "string \<Rightarrow> snapshot \<Rightarrow> string" where
  "logger_text nm sn =
     newline @ value_text ''Logger: '' nm
     @ value_text ''  Messages: '' (show_u64 (sn_messages_logged sn))
     @ value_text ''  Dropped: '' (show_u64 (sn_messages_dropped sn))
     @ value_text ''  Errors: '' (show_u64 (sn_errors sn))
     @ value_text ''  Rate: '' (show_general (sn_messages_per_second sn) @ '' msg/s'')"

definition example_global_registry :: "('rx, 'n) host \<Rightarrow> ('rx, 'a, 'n, 'c) statement" where
  "example_global_registry h = run_all
     [cout (block_text ''=== Global Metrics Registry Example ===''),
      ask_metrics h ''app'' (\<lambda>app_metrics.
      ask_metrics h ''api'' (\<lambda>api_metrics.
      ask_metrics h ''database'' (\<lambda>db_metrics. run_all
       [through_loop app_metrics (\<lambda>i. record_message_logged) 1000,
        through_loop api_metrics (\<lambda>i. record_message_logged) 500,
        through_loop db_metrics (\<lambda>i. record_message_logged) 2000,
        through app_metrics record_message_dropped,
        through api_metrics record_error,
        all_then h (\<lambda>clks r. run_all
         [cout (line_text ''All Logger Metrics:''),
          cout (concat (map (\<lambda>(nm, sn). logger_text nm sn) (get_all_logger_snapshots clks r)))]),
        cout (block_text ''=== Combined Prometheus Export ===''),
        all_then h (\<lambda>clks r.
          cout (line_text (take 500 (export_all_prometheus (\<lambda>nm. clks nm 0) ''Zyrnix'' r) @ ''...'')))])))]"

definition endpoint_activity :: "nat \<Rightarrow> log_metrics \<Rightarrow> log_metrics" where
  "endpoint_activity i m = record_log_duration 12 (record_message_logged m)"

definition example_monitoring_endpoint :: "('rx, 'n) host \<Rightarrow> ('rx, 'a, 'n, 'c) statement" where
  "example_monitoring_endpoint h = run_all
     [cout (block_text ''=== HTTP Monitoring Endpoint Pattern ===''),
      ask_metrics h ''app'' (\<lambda>app. run_all
       [through_loop app endpoint_activity 10000,
        cout (line_text ''Example HTTP endpoint implementation:''),
        cout (line_text ''------------------------------------''),
        cout (line_text ''GET /metrics (Prometheus format):'' @ newline),
        all_then h (\<lambda>clks r. cout (line_text (export_all_prometheus (\<lambda>nm. clks nm 0) ''Zyrnix'' r))),
        cout (line_text ''------------------------------------''),
        cout (line_text ''GET /metrics/json:'' @ newline),
        all_then h (\<lambda>clks r. cout (line_text (export_all_json (\<lambda>nm. clks nm 0) r))),
        cout (block_text ''Integrate with your HTTP server:''),
        cout (line_text ''  - Expose /metrics endpoint for Prometheus scraping''),
        cout (line_text ''  - Use JSON endpoint for custom dashboards''),
        cout (line_text ''  - Monitor queue depth to detect backpressure''),
        cout (line_text ''  - Alert on high drop rates or error counts'')])]"

definition production_activity :: "nat \<Rightarrow> log_metrics \<Rightarrow> log_metrics" where
  "production_activity i m0 =
     (let m1 = record_log_duration (of_nat (8 + i mod 10)) (record_message_logged m0)
      in if i mod 1000 = 0 then update_queue_depth (of_nat (i div 100)) m1 else m1)"

text \<open>The drop rate is the quotient of two doubles; the program has logged messages before.\<close>

definition drop_percentage :: "snapshot \<Rightarrow> double" where
  "drop_percentage sn =
     fl (fl (100 * u64_double (sn_messages_dropped sn)) / u64_double (sn_messages_logged sn))"

definition dashboard_text :: "snapshot \<Rightarrow> string" where
  "dashboard_text sn =
     value_text ''Throughput:  '' (show_general (sn_messages_per_second sn) @ '' msg/s'')
     @ value_text ''Total Logs:  '' (show_u64 (sn_messages_logged sn))
     @ value_text ''Dropped:     '' (show_u64 (sn_messages_dropped sn) @ '' ('' @ show_general (drop_percentage sn) @ ''%)'')
     @ value_text ''Latency (avg): '' (us_text (show_general (sn_avg_log_latency_us sn)))
     @ value_text ''Latency (p99): '' (us_text (show_u64 (sn_max_log_latency_us sn)))
     @ value_text ''Queue Depth: '' (show_u64 (sn_current_queue_depth sn) @ '' / '' @ show_u64 (sn_max_queue_depth sn))"

definition dashboard_healthy :: "snapshot \<Rightarrow> bool" where
  "dashboard_healthy sn \<longleftrightarrow>
     sn_messages_dropped sn < 10 \<and> sn_avg_log_latency_us sn < 100 \<and> sn_current_queue_depth sn < 1000"

definition alert_text :: "string \<Rightarrow> string" where
  "alert_text s = ''  '' @ [CHR 0xE2, CHR 0x9A, CHR 0xA0] @ '' '' @ s @ newline"

definition example_production_monitoring :: "('rx, 'n) host \<Rightarrow> ('rx, 'a, 'n, 'c) statement" where
  "example_production_monitoring h = run_all
     [cout (block_text ''=== Production Monitoring Example ===''),
      ask_metrics h ''production'' (\<lambda>metrics. run_all
       [cout (line_text ''Simulating production workload...''),
        through_loop metrics production_activity 100000,
        through metrics record_message_dropped,
        through metrics record_message_dropped,
        through metrics record_message_dropped,
        clock_then h (\<lambda>clk. registry_then (\<lambda>r.
          let sn = get_snapshot clk (rg_logger_heap r ! metrics); healthy = dashboard_healthy sn in run_all
           [cout (block_text ''Production Metrics Dashboard:''),
            cout (line_text ''=============================''),
            cout (dashboard_text sn),
            cout (block_text ''Health Check:''),
            cout (value_text ''Status: '' (if healthy then tick @ '' HEALTHY'' else ballot @ '' DEGRADED'')),
            if \<not> healthy then run_all
             [cout (block_text ''Alerts:''),
              if sn_messages_dropped sn \<ge> 10 then cout (alert_text ''High drop rate detected'') else Some,
              if sn_avg_log_latency_us sn \<ge> 100 then cout (alert_text ''High latency detected'') else Some,
              if sn_current_queue_depth sn \<ge> 1000 then cout (alert_text ''Queue backlog detected'') else Some]
            else Some]))])]"

definition metrics_main :: "('rx, 'n) host \<Rightarrow> ('rx, 'a, 'n, 'c) statement" where
  "metrics_main h = run_all
     [cout (line_text ''Zyrnix Metrics & Observability Examples''),
      cout (line_text ''======================================''),
      example_basic_metrics h,
      example_prometheus_export h,
      example_json_export h,
      example_sink_metrics,
      example_global_registry h,
      example_monitoring_endpoint h,
      example_production_monitoring h,
      cout (block_text ''=== Key Benefits ===''),
      cout (line_text ''1. Built-in observability for logging infrastructure''),
      cout (line_text ''2. Prometheus integration for Grafana dashboards''),
      cout (line_text ''3. JSON export for custom monitoring tools''),
      cout (line_text ''4. Per-logger and per-sink granular metrics''),
      cout (line_text ''5. Real-time health checks and alerting''),
      cout (line_text ''6. Performance tracking (latency, throughput)''),
      cout (line_text ''7. Queue depth monitoring for async logging''),
      cout (block_text ''=== Grafana Dashboard Ideas ===''),
      cout (line_text ''- Log throughput over time (messages/sec)''),
      cout (line_text ''- Drop rate percentage''),
      cout (line_text ''- P50/P95/P99 latency percentiles''),
      cout (line_text ''- Queue depth heatmap''),
      cout (line_text ''- Error rate by logger''),
      cout (line_text ''- Bytes written by sink'')]"

section \<open>Periodic loops\<close>

text \<open>A loop whose body depends on the counter modulo \<open>k\<close>, as a sum and as a maximum over one period.\<close>

lemma upt_period: "[0..<k * Suc n] = [0..<k * n] @ map (\<lambda>j. k * n + j) [0..<k]"
  using upt_add_eq_append[of 0 "k * n" k] by (simp add: add.commute map_add_upt)

lemma periodic_sum:
  fixes f :: "nat \<Rightarrow> 'a::comm_semiring_1"
  shows "sum_list (map (\<lambda>i. f (i mod k)) [0..<k * n]) = of_nat n * sum_list (map f [0..<k])"
proof (induction n)
  case (Suc n)
  have "map (\<lambda>i. f (i mod k)) (map (\<lambda>j. k * n + j) [0..<k]) = map f [0..<k]"
    by (simp cong: map_cong)
  then have "map (\<lambda>i. f (i mod k)) [0..<k * Suc n] = map (\<lambda>i. f (i mod k)) [0..<k * n] @ map f [0..<k]"
    unfolding upt_period by simp
  then show ?case using Suc by (simp only: sum_list_append of_nat_Suc) (simp add: algebra_simps)
qed simp

lemma fold_max: "foldl max (c :: 'a::linorder) xs = Max (insert c (set xs))"
proof (induction xs arbitrary: c)
  case (Cons x xs)
  then show ?case by (cases "xs = []") (simp_all add: max.assoc)
qed simp

lemma periodic_max:
  assumes "0 < n"
  shows "foldl max (c :: 'a::linorder) (map (\<lambda>i. f (i mod k)) [0..<k * n]) = foldl max c (map f [0..<k])"
proof -
  have "(\<lambda>i. i mod k) ` {0..<k * n} = {0..<k}"
  proof (cases "k = 0")
    case False
    have "j \<in> (\<lambda>i. i mod k) ` {0..<k * n}" if "j < k" for j
      using that assms by (intro image_eqI[of _ _ j]) (simp_all add: less_le_trans[of j k])
    then show ?thesis using False by auto
  qed simp
  then have "set (map (\<lambda>i. f (i mod k)) [0..<k * n]) = set (map f [0..<k])"
    by (simp add: image_image[of f "\<lambda>i. i mod k", symmetric])
  then show ?thesis by (simp only: fold_max)
qed

text \<open>A loop whose body acts on every \<open>k\<close>th counter only.\<close>

lemma periodic_step:
  assumes "0 < k"
  shows "foldl (\<lambda>d i. if i mod k = 0 then g i d else d) c [0..<k * n] = foldl (\<lambda>d q. g (k * q) d) c [0..<n]"
proof (induction n)
  case (Suc n)
  have stay: "foldl (\<lambda>d i. if i mod k = 0 then g i d else d) d (map (\<lambda>j. k * n + j) js) = d"
    if "set js \<subseteq> {1..<k}" for d js
    using that by (induction js) auto
  have "[0..<k] = 0 # [1..<k]" using assms by (simp add: upt_conv_Cons)
  then have "foldl (\<lambda>d i. if i mod k = 0 then g i d else d) d (map (\<lambda>j. k * n + j) [0..<k]) = g (k * n) d" for d
    using stay[of "[1..<k]"] by simp
  with Suc show ?case unfolding upt_period by simp
qed simp

section \<open>The metrics after the loops\<close>

lemma logged_fold:
  "foldl (\<lambda>m i. record_message_logged m) m is
   = m\<lparr>mt_messages_logged := mt_messages_logged m + of_nat (length is)\<rparr>"
  by (induction "is" arbitrary: m) (simp_all add: metric_defs add_ac)

lemma timed_fold:
  "foldl (\<lambda>m i. record_log_duration (f i) (record_message_logged m)) m is
   = m\<lparr>mt_messages_logged := mt_messages_logged m + of_nat (length is),
       mt_total_log_time_us := mt_total_log_time_us m + sum_list (map f is),
       mt_max_log_latency_us := foldl max (mt_max_log_latency_us m) (map f is)\<rparr>"
  by (induction "is" arbitrary: m) (simp_all add: metric_defs add_ac)

lemma flush_fold:
  "foldl (\<lambda>m i. flush_activity i m) m is
   = m\<lparr>mt_flushes := mt_flushes m + of_nat (length is),
       mt_total_flush_time_us := mt_total_flush_time_us m + sum_list (map (\<lambda>i. of_nat (500 + i * 100)) is),
       mt_max_flush_latency_us := foldl max (mt_max_flush_latency_us m) (map (\<lambda>i. of_nat (500 + i * 100)) is)\<rparr>"
  by (induction "is" arbitrary: m) (simp_all add: flush_activity_def metric_defs add_ac)

lemma basic_fold:
  "foldl (\<lambda>m i. basic_activity i m) m is
   = m\<lparr>mt_messages_logged := mt_messages_logged m + of_nat (length is),
       mt_messages_dropped := mt_messages_dropped m + sum_list (map (\<lambda>i. of_bool (i mod 100 = 0)) is),
       mt_messages_filtered := mt_messages_filtered m + sum_list (map (\<lambda>i. of_bool (i mod 50 = 0)) is),
       mt_total_log_time_us := mt_total_log_time_us m + sum_list (map (\<lambda>i. of_nat (10 + i mod 20)) is),
       mt_max_log_latency_us := foldl max (mt_max_log_latency_us m) (map (\<lambda>i. of_nat (10 + i mod 20)) is)\<rparr>"
  by (induction "is" arbitrary: m) (simp_all add: basic_activity_def Let_def metric_defs add_ac)

lemma sinks_fold:
  "foldl (\<lambda>(f, s) i. (sink_activity b u f, sink_activity b' u' s)) (f, s) is
   = (f\<lparr>sm_writes := sm_writes f + of_nat (length is), sm_bytes_written := sm_bytes_written f + of_nat (length is) * b,
        sm_total_write_time_us := sm_total_write_time_us f + of_nat (length is) * u\<rparr>,
      s\<lparr>sm_writes := sm_writes s + of_nat (length is), sm_bytes_written := sm_bytes_written s + of_nat (length is) * b',
        sm_total_write_time_us := sm_total_write_time_us s + of_nat (length is) * u'\<rparr>)"
  by (induction "is" arbitrary: f s)
     (simp_all add: sink_activity_def sm_record_write_def sm_record_write_duration_def algebra_simps)

lemma basic_metrics:
  "foldl (\<lambda>m i. flush_activity i m) (foldl (\<lambda>m i. basic_activity i m) (log_metrics_new t) [0..<1000]) [0..<5]
   = (log_metrics_new t)\<lparr>mt_messages_logged := 1000, mt_messages_dropped := 10, mt_messages_filtered := 20,
       mt_flushes := 5, mt_total_log_time_us := 19500, mt_max_log_latency_us := 29,
       mt_total_flush_time_us := 3500, mt_max_flush_latency_us := 900\<rparr>"
proof -
  have once: "sum_list (map (\<lambda>i. of_bool (i = 0)) [0..<100]) = (1 :: u64)"
    "sum_list (map (\<lambda>i. of_bool (i = 0)) [0..<50]) = (1 :: u64)"
    "sum_list (map (\<lambda>i. of_nat (10 + i)) [0..<20]) = (390 :: u64)"
    "foldl max 0 (map (\<lambda>i. of_nat (10 + i)) [0..<20]) = (29 :: u64)"
    by code_simp+
  have "sum_list (map (\<lambda>i. of_bool (i mod 100 = 0)) [0..<1000]) = (10 :: u64)"
    "sum_list (map (\<lambda>i. of_bool (i mod 50 = 0)) [0..<1000]) = (20 :: u64)"
    "sum_list (map (\<lambda>i. of_nat (10 + i mod 20)) [0..<1000]) = (19500 :: u64)"
    "foldl max 0 (map (\<lambda>i. of_nat (10 + i mod 20)) [0..<1000]) = (29 :: u64)"
    using periodic_sum[of "\<lambda>i. of_bool (i = 0) :: u64" 100 10] periodic_sum[of "\<lambda>i. of_bool (i = 0) :: u64" 50 20]
      periodic_sum[of "\<lambda>i. of_nat (10 + i) :: u64" 20 50]
      periodic_max[of 50 "0 :: u64" "\<lambda>i. of_nat (10 + i)" 20]
    by (simp_all only: once) simp_all
  moreover have "sum_list (map (\<lambda>i. of_nat (500 + i * 100)) [0..<5]) = (3500 :: u64)"
    "foldl max 0 (map (\<lambda>i. of_nat (500 + i * 100)) [0..<5]) = (900 :: u64)"
    by code_simp+
  ultimately show ?thesis
    unfolding flush_fold basic_fold by (simp add: log_metrics_new_def)
qed

definition depth_at :: "nat \<Rightarrow> u64 \<Rightarrow> u64" where
  "depth_at i d = (if i mod 1000 = 0 then of_nat (i div 100) else d)"

definition deepest_at :: "nat \<Rightarrow> u64 \<Rightarrow> u64" where
  "deepest_at i d = (if i mod 1000 = 0 then max d (of_nat (i div 100)) else d)"

lemma production_fold:
  "foldl (\<lambda>m i. production_activity i m) m is
   = m\<lparr>mt_messages_logged := mt_messages_logged m + of_nat (length is),
       mt_total_log_time_us := mt_total_log_time_us m + sum_list (map (\<lambda>i. of_nat (8 + i mod 10)) is),
       mt_max_log_latency_us := foldl max (mt_max_log_latency_us m) (map (\<lambda>i. of_nat (8 + i mod 10)) is),
       mt_current_depth := foldl (\<lambda>d i. depth_at i d) (mt_current_depth m) is,
       mt_max_depth := foldl (\<lambda>d i. deepest_at i d) (mt_max_depth m) is\<rparr>"
  by (induction "is" arbitrary: m)
     (simp_all add: production_activity_def depth_at_def deepest_at_def Let_def metric_defs add_ac)

lemma depth_loop:
  "foldl (\<lambda>d i. depth_at i d) 0 [0..<100000] = 990" "foldl (\<lambda>d i. deepest_at i d) 0 [0..<100000] = 990"
proof -
  have "foldl (\<lambda>d q. of_nat (1000 * q div 100)) 0 [0..<100] = (990 :: u64)"
    by (simp add: upt_rec)
  moreover have "foldl (\<lambda>d q. max d (of_nat (1000 * q div 100))) 0 [0..<100] = (990 :: u64)"
    by (simp add: upt_rec word_le_nat_alt max_def)
  ultimately show "foldl (\<lambda>d i. depth_at i d) 0 [0..<100000] = 990"
      "foldl (\<lambda>d i. deepest_at i d) 0 [0..<100000] = 990"
    using periodic_step[of 1000 "\<lambda>i _. of_nat (i div 100)" "0 :: u64" 100]
      periodic_step[of 1000 "\<lambda>i d. max d (of_nat (i div 100))" "0 :: u64" 100]
    by (simp_all add: depth_at_def deepest_at_def)
qed

lemma production_metrics:
  "foldl (\<lambda>m i. production_activity i m) (log_metrics_new t) [0..<100000]
   = (log_metrics_new t)\<lparr>mt_messages_logged := 100000, mt_total_log_time_us := 1250000,
       mt_max_log_latency_us := 17, mt_current_depth := 990, mt_max_depth := 990\<rparr>"
proof -
  have once: "sum_list (map (\<lambda>i. of_nat (8 + i)) [0..<10]) = (125 :: u64)"
    "foldl max 0 (map (\<lambda>i. of_nat (8 + i)) [0..<10]) = (17 :: u64)"
    by code_simp+
  have "sum_list (map (\<lambda>i. of_nat (8 + i mod 10)) [0..<100000]) = (1250000 :: u64)"
    "foldl max 0 (map (\<lambda>i. of_nat (8 + i mod 10)) [0..<100000]) = (17 :: u64)"
    using periodic_sum[of "\<lambda>i. of_nat (8 + i) :: u64" 10 10000]
      periodic_max[of 10000 "0 :: u64" "\<lambda>i. of_nat (8 + i)" 10]
    by (simp_all only: once) simp_all
  then show ?thesis
    unfolding production_fold by (simp add: depth_loop log_metrics_new_def)
qed

section \<open>What the programs print\<close>

text \<open>The registry of the process when it starts, after the global example and after the endpoint example.\<close>

definition fresh_metrics :: "('rx, 'a, 'n, 'c) singletons \<Rightarrow> bool" where
  "fresh_metrics = (\<lambda>(_, _, metrics, slept). metrics = registry_new \<and> slept = 0)"

definition has_metrics :: "metrics_registry \<Rightarrow> ('rx, 'a, 'n, 'c) singletons \<Rightarrow> bool" where
  "has_metrics r = (\<lambda>(_, _, metrics, slept). metrics = r \<and> slept = 0)"

definition global_registry :: "time \<Rightarrow> log_metrics \<Rightarrow> metrics_registry" where
  "global_registry t app =
     \<lparr>rg_loggers = [(''api'', 1), (''app'', 0), (''database'', 2)], rg_sinks = [],
      rg_logger_heap =
        [app, (log_metrics_new t)\<lparr>mt_messages_logged := 500, mt_errors := 1\<rparr>,
         (log_metrics_new t)\<lparr>mt_messages_logged := 2000\<rparr>],
      rg_sink_heap = []\<rparr>"

definition app_metrics :: "time \<Rightarrow> log_metrics" where
  "app_metrics t = (log_metrics_new t)\<lparr>mt_messages_logged := 1000, mt_messages_dropped := 1\<rparr>"

definition endpoint_metrics :: "time \<Rightarrow> log_metrics" where
  "endpoint_metrics t = (app_metrics t)\<lparr>mt_messages_logged := 11000,
     mt_total_log_time_us := 120000, mt_max_log_latency_us := 12\<rparr>"

lemma mps_still [simp]: "mt_start_time m = t \<Longrightarrow> get_messages_per_second t m = 0"
proof -
  have "0 < fl (1 / 1000)" by code_simp
  then show "mt_start_time m = t \<Longrightarrow> get_messages_per_second t m = 0"
    by (simp add: get_messages_per_second_def Let_def)
qed

lemma through_fold:
  assumes "p < length (rg_logger_heap r)"
  shows "foldl (\<lambda>r i. on_logger_metrics (f i) p r) r is
    = on_logger_metrics (\<lambda>m. foldl (\<lambda>m i. f i m) m is) p r"
  using assms
  by (induction "is" arbitrary: r) (simp_all add: on_logger_metrics_def)

lemma on_logger_metrics_literal:
  "on_logger_metrics f p \<lparr>rg_loggers = ls, rg_sinks = ss, rg_logger_heap = xs, rg_sink_heap = ys\<rparr>
   = \<lparr>rg_loggers = ls, rg_sinks = ss, rg_logger_heap = xs[p := f (xs ! p)], rg_sink_heap = ys\<rparr>"
  by (simp add: on_logger_metrics_def)

lemma logger_clocks_still [simp]: "logger_clocks (h\<lparr>ho_clock := \<lambda>_ _. t\<rparr>) d = (\<lambda>_ _. t + dm_slept d)"
  by (simp add: logger_clocks_def clock_now_def fun_eq_iff)

lemma prometheus_metrics:
  "update_queue_depth 125 (record_message_dropped (record_message_dropped
     (foldl (\<lambda>m i. prometheus_activity i m) (log_metrics_new t) [0..<5000])))
   = (log_metrics_new t)\<lparr>mt_messages_logged := 5000, mt_messages_dropped := 2, mt_total_log_time_us := 75000,
       mt_max_log_latency_us := 15, mt_current_depth := 125, mt_max_depth := 125\<rparr>"
proof -
  have "sum_list (map (\<lambda>i. 15) [0..<5000]) = (75000 :: u64)" "foldl max 0 (map (\<lambda>i. 15) [0..<5000]) = (15 :: u64)"
    by (simp_all add: sum_list_replicate fold_max map_replicate_const)
  moreover have "max 125 0 = (125 :: u64)" by code_simp
  ultimately show ?thesis
    unfolding prometheus_activity_def timed_fold by (simp add: metric_defs log_metrics_new_def)
qed

lemma endpoint_fold:
  "foldl (\<lambda>m i. endpoint_activity i m) (app_metrics t) [0..<10000] = endpoint_metrics t"
proof -
  have "sum_list (map (\<lambda>i. 12) [0..<10000]) = (120000 :: u64)" "foldl max 0 (map (\<lambda>i. 12) [0..<10000]) = (12 :: u64)"
    by (simp_all add: sum_list_replicate fold_max map_replicate_const)
  then show ?thesis
    unfolding endpoint_activity_def timed_fold
    by (simp add: endpoint_metrics_def app_metrics_def log_metrics_new_def)
qed

lemma metric_texts:
  "show_u64 1000 = ''1000''" "show_u64 10 = ''10''" "show_u64 20 = ''20''" "show_u64 5 = ''5''" "show_u64 29 = ''29''"
  "show_u64 900 = ''900''" "show_u64 256000 = ''256000''" "show_u64 128000 = ''128000''" "show_u64 2 = ''2''"
  "show_u64 500 = ''500''" "show_u64 2000 = ''2000''" "show_u64 1 = ''1''" "show_u64 0 = ''0''" "show_u64 3 = ''3''"
  "show_u64 100000 = ''100000''" "show_u64 17 = ''17''" "show_u64 990 = ''990''"
  by (simp_all add: show_u64_eval)

lemma rate_texts:
  "show_general 0 = ''0''"
  "show_general (average_us 19500 1000) = ''19.5''" "show_general (average_us 3500 5) = ''700''"
  "show_general (average_us 50000 1000) = ''50''" "show_general (average_us 10000 1000) = ''10''"
  "show_general (average_us 1250000 100000) = ''12.5''"
  "show_general (fl (fl (100 * u64_double 3) / u64_double 100000)) = ''0.003''"
  "average_us 1250000 100000 < 100"
  by (simp_all add: average_us_def u64_double_def fl_eval show_eval)

lemmas metric_simps = demo_simps Let_def get_snapshot_def get_average_log_latency_us_def
  get_average_flush_latency_us_def metric_texts rate_texts log_metrics_new_def fresh_metrics_def has_metrics_def process_def

definition basic_output :: "console_item list" where
  "basic_output =
     [Text (block_text ''=== Basic Metrics Example ===''),
      Text (line_text ''Metrics Snapshot:''),
      Text (value_text ''  Messages logged: '' ''1000''
        @ value_text ''  Messages dropped: '' ''10''
        @ value_text ''  Messages filtered: '' ''20''
        @ value_text ''  Flushes: '' ''5''
        @ value_text ''  Messages/second: '' ''0''
        @ value_text ''  Avg log latency: '' (us_text ''19.5'')
        @ value_text ''  Max log latency: '' (us_text ''29'')
        @ value_text ''  Avg flush latency: '' (us_text ''700'')
        @ value_text ''  Max flush latency: '' (us_text ''900''))]"

lemma basic_prints:
  fixes h :: "('rx, 'n) host" and t :: time
  defines "g \<equiv> h\<lparr>ho_clock := \<lambda>_ _. t\<rparr>"
  shows "prints_when fresh_metrics g (example_basic_metrics g) fresh_metrics basic_output"
  unfolding g_def
  by (rule prints_whenI) (simp add: example_basic_metrics_def basic_metrics[unfolded log_metrics_new_def]
    cout_printed[where h = h] metric_simps snapshot_text_def basic_output_def)

definition prometheus_metrics_end :: "time \<Rightarrow> log_metrics" where
  "prometheus_metrics_end t =
     (log_metrics_new t)\<lparr>mt_messages_logged := 5000, mt_messages_dropped := 2, mt_total_log_time_us := 75000,
       mt_max_log_latency_us := 15, mt_current_depth := 125, mt_max_depth := 125\<rparr>"

definition json_metrics_end :: "time \<Rightarrow> log_metrics" where
  "json_metrics_end t = (log_metrics_new t)\<lparr>mt_messages_logged := 2000, mt_messages_dropped := 1, mt_errors := 1\<rparr>"

definition prometheus_output :: "time \<Rightarrow> console_item list" where
  "prometheus_output t =
     [Text (block_text ''=== Prometheus Export Example ===''),
      Text (line_text ''Prometheus Metrics Format:''),
      Text (line_text ''----------------------------''),
      Text (export_prometheus t ''myapp_log'' (prometheus_metrics_end t)),
      Text (block_text ''These metrics can be scraped by Prometheus and visualized in Grafana'')]"

definition json_output :: "time \<Rightarrow> console_item list" where
  "json_output t =
     [Text (block_text ''=== JSON Export Example ===''),
      Text (line_text ''JSON Metrics:''),
      Text (export_json t (json_metrics_end t) @ nl2),
      Text (line_text ''This format is ideal for:''),
      Text (line_text ''  - REST API endpoints''),
      Text (line_text ''  - Monitoring dashboards''),
      Text (line_text ''  - Log aggregators (ELK, Splunk)'')]"

lemma json_metrics:
  "record_error (record_message_dropped (foldl (\<lambda>m i. record_message_logged m) (log_metrics_new t) [0..<2000]))
   = json_metrics_end t"
  unfolding logged_fold by (simp add: json_metrics_end_def metric_defs log_metrics_new_def)

lemma prometheus_prints:
  fixes h :: "('rx, 'n) host" and t :: time
  defines "g \<equiv> h\<lparr>ho_clock := \<lambda>_ _. t\<rparr>"
  shows "prints_when fresh_metrics g (example_prometheus_export g) fresh_metrics (prometheus_output t)"
  unfolding g_def
  by (rule prints_whenI) (simp add: example_prometheus_export_def prometheus_metrics[folded prometheus_metrics_end_def] demo_simps Let_def
    cout_printed[where h = h] fresh_metrics_def process_def prometheus_output_def)

lemma json_prints:
  fixes h :: "('rx, 'n) host" and t :: time
  defines "g \<equiv> h\<lparr>ho_clock := \<lambda>_ _. t\<rparr>"
  shows "prints_when fresh_metrics g (example_json_export g) fresh_metrics (json_output t)"
  unfolding g_def
  by (rule prints_whenI) (simp add: example_json_export_def json_metrics demo_simps Let_def
    cout_printed[where h = h] fresh_metrics_def process_def json_output_def)

definition sink_output :: "console_item list" where
  "sink_output =
     [Text (block_text ''=== Per-Sink Metrics Example ===''),
      Text (line_text ''File Sink Statistics:''),
      Text (value_text ''  Writes: '' ''1000''),
      Text (value_text ''  Bytes written: '' ''256000''),
      Text (value_text ''  Flushes: '' ''2''),
      Text (value_text ''  Avg write latency: '' (us_text ''50'' @ newline)),
      Text (line_text ''Stdout Sink Statistics:''),
      Text (value_text ''  Writes: '' ''1000''),
      Text (value_text ''  Bytes written: '' ''128000''),
      Text (value_text ''  Avg write latency: '' (us_text ''10''))]"

lemma sink_prints: "prints_when fresh_metrics h example_sink_metrics fresh_metrics sink_output"
  by (rule prints_whenI) (simp add: example_sink_metrics_def sinks_fold sink_metrics_new_def sm_record_flush_def
    get_average_write_latency_us_def cout_printed[where h = h] metric_simps sink_output_def)

definition global_output :: "time \<Rightarrow> console_item list" where
  "global_output t =
     [Text (block_text ''=== Global Metrics Registry Example ===''),
      Text (line_text ''All Logger Metrics:''),
      Text (concat (map (\<lambda>(nm, messages, dropped, errors).
        newline @ value_text ''Logger: '' nm
        @ value_text ''  Messages: '' messages
        @ value_text ''  Dropped: '' dropped
        @ value_text ''  Errors: '' errors
        @ value_text ''  Rate: '' ''0 msg/s'')
        [(''api'', ''500'', ''0'', ''1''), (''app'', ''1000'', ''1'', ''0''), (''database'', ''2000'', ''0'', ''0'')])),
      Text (block_text ''=== Combined Prometheus Export ===''),
      Text (line_text (take 500 (export_all_prometheus (\<lambda>_. t) ''Zyrnix'' (global_registry t (app_metrics t))) @ ''...''))]"

lemma global_prints:
  fixes h :: "('rx, 'n) host" and t :: time
  defines "g \<equiv> h\<lparr>ho_clock := \<lambda>_ _. t\<rparr>"
  shows "prints_when fresh_metrics g (example_global_registry g) (has_metrics (global_registry t (app_metrics t)))
     (global_output t)"
  unfolding g_def
  by (rule prints_whenI) (simp add: example_global_registry_def ask_metrics_def through_loop_def through_def all_then_def
    get_logger_metrics_def registry_new_def omap_get_def through_fold on_logger_metrics_literal logged_fold
    get_all_logger_snapshots_def logger_text_def record_message_dropped_def record_error_def numeral_2_eq_2
    cout_printed[where h = h] metric_simps global_output_def global_registry_def app_metrics_def)

text \<open>The endpoint shows the metrics of the global example, whose logger \<open>app\<close> it has gone on with.\<close>

definition endpoint_output :: "time \<Rightarrow> console_item list" where
  "endpoint_output t =
     [Text (block_text ''=== HTTP Monitoring Endpoint Pattern ===''),
      Text (line_text ''Example HTTP endpoint implementation:''),
      Text (line_text ''------------------------------------''),
      Text (line_text ''GET /metrics (Prometheus format):'' @ newline),
      Text (line_text (export_all_prometheus (\<lambda>_. t) ''Zyrnix'' (global_registry t (endpoint_metrics t)))),
      Text (line_text ''------------------------------------''),
      Text (line_text ''GET /metrics/json:'' @ newline),
      Text (line_text (export_all_json (\<lambda>_. t) (global_registry t (endpoint_metrics t)))),
      Text (block_text ''Integrate with your HTTP server:''),
      Text (line_text ''  - Expose /metrics endpoint for Prometheus scraping''),
      Text (line_text ''  - Use JSON endpoint for custom dashboards''),
      Text (line_text ''  - Monitor queue depth to detect backpressure''),
      Text (line_text ''  - Alert on high drop rates or error counts'')]"

lemma endpoint_prints:
  fixes h :: "('rx, 'n) host" and t :: time
  defines "g \<equiv> h\<lparr>ho_clock := \<lambda>_ _. t\<rparr>"
  shows "prints_when (has_metrics (global_registry t (app_metrics t))) g (example_monitoring_endpoint g)
     (has_metrics (global_registry t (endpoint_metrics t))) (endpoint_output t)"
  unfolding g_def
  by (rule prints_whenI) (simp add: example_monitoring_endpoint_def ask_metrics_def through_loop_def all_then_def
    get_logger_metrics_def omap_get_def through_fold on_logger_metrics_literal endpoint_fold
    cout_printed[where h = h] demo_simps Let_def has_metrics_def process_def endpoint_output_def global_registry_def)

definition production_output :: "console_item list" where
  "production_output =
     [Text (block_text ''=== Production Monitoring Example ===''),
      Text (line_text ''Simulating production workload...''),
      Text (block_text ''Production Metrics Dashboard:''),
      Text (line_text ''=============================''),
      Text (value_text ''Throughput:  '' ''0 msg/s''
        @ value_text ''Total Logs:  '' ''100000''
        @ value_text ''Dropped:     '' ''3 (0.003%)''
        @ value_text ''Latency (avg): '' (us_text ''12.5'')
        @ value_text ''Latency (p99): '' (us_text ''17'')
        @ value_text ''Queue Depth: '' ''990 / 990''),
      Text (block_text ''Health Check:''),
      Text (value_text ''Status: '' (tick @ '' HEALTHY''))]"

lemma dashboard_prints:
  fixes h :: "('rx, 'n) host" and t :: time
  defines "g \<equiv> h\<lparr>ho_clock := \<lambda>_ _. t\<rparr>"
  shows "prints_when (has_metrics (global_registry t m)) g (example_production_monitoring g) (\<lambda>_. True) production_output"
  unfolding g_def
  by (rule prints_whenI) (simp add: example_production_monitoring_def ask_metrics_def through_loop_def through_def
    registry_then_def get_logger_metrics_def omap_get_def through_fold on_logger_metrics_literal
    production_metrics[unfolded log_metrics_new_def] record_message_dropped_def dashboard_text_def
    dashboard_healthy_def drop_percentage_def
    cout_printed[where h = h] metric_simps production_output_def global_registry_def)

section \<open>The whole program\<close>

definition metrics_output :: "time \<Rightarrow> console_item list" where
  "metrics_output t =
     [Text (line_text ''Zyrnix Metrics & Observability Examples''),
      Text (line_text ''======================================'')]
     @ basic_output @ prometheus_output t @ json_output t @ sink_output @ global_output t
     @ endpoint_output t @ production_output
     @ [Text (block_text ''=== Key Benefits ===''),
        Text (line_text ''1. Built-in observability for logging infrastructure''),
        Text (line_text ''2. Prometheus integration for Grafana dashboards''),
        Text (line_text ''3. JSON export for custom monitoring tools''),
        Text (line_text ''4. Per-logger and per-sink granular metrics''),
        Text (line_text ''5. Real-time health checks and alerting''),
        Text (line_text ''6. Performance tracking (latency, throughput)''),
        Text (line_text ''7. Queue depth monitoring for async logging''),
        Text (block_text ''=== Grafana Dashboard Ideas ===''),
        Text (line_text ''- Log throughput over time (messages/sec)''),
        Text (line_text ''- Drop rate percentage''),
        Text (line_text ''- P50/P95/P99 latency percentiles''),
        Text (line_text ''- Queue depth heatmap''),
        Text (line_text ''- Error rate by logger''),
        Text (line_text ''- Bytes written by sink'')]"

text \<open>
  The program \<open>examples/metrics\_example.cpp\<close>, started with an empty registry and on a clock that
  stands still, prints exactly the output listed: the counters, averages and maxima of its seven
  parts, of loops of up to 100000 recordings, with the metrics of the logger \<open>app\<close> shared between the
  two parts that ask the registry for it.
\<close>

theorem metrics_program_prints:
  fixes h :: "('rx, 'n) host" and t :: time
  shows "prints_when fresh_metrics (h\<lparr>ho_clock := \<lambda>_ _. t\<rparr>) (metrics_main (h\<lparr>ho_clock := \<lambda>_ _. t\<rparr>)) (\<lambda>_. True)
    (metrics_output t)"
  unfolding metrics_main_def
  by (rule prints_eq, (rule prints_intros basic_prints prometheus_prints json_prints sink_prints global_prints
      endpoint_prints dashboard_prints)+) (simp add: metrics_output_def)

end
