(* ===== verification/Example_Comprehensive.thy ===== *)
theory Example_Comprehensive
  imports Example_Limits Example_Metrics
begin

text \<open>
  The program \<open>examples/comprehensive\_test.cpp\<close>: five scenarios with the logger, the limiters and the
  metrics.  Nothing in it throws, so that its handler of exceptions is not reached.
\<close>

section \<open>The program\<close>

definition rule_40 :: string where "rule_40 = ''========================================''"

definition scenario_title :: "string \<Rightarrow> string" where
  "scenario_title s = block_text rule_40 @ line_text s @ rule_40 @ nl2"

definition done_text :: "string \<Rightarrow> string" where
  "done_text s = newline @ tick @ '' '' @ line_text s"

definition simulate_application_startup :: "('rx, 'n) host \<Rightarrow> ('rx, 'a, 'n, 'c) statement" where
  "simulate_application_startup h = run_all
     [cout (scenario_title ''SCENARIO 1: Application Startup''),
      make_stdout_logger h ''app'',
      say h Info ''Application starting...'',
      say h Info ''Loading configuration from config.json'',
      say h Debug ''Database connection pool size: 10'',
      say h Info ''Connected to database: postgres://localhost:5432/myapp'',
      say h Info ''HTTP server listening on port 8080'',
      say h Info ''Application ready to accept requests'',
      cout (done_text ''Basic logging works!'')]"

definition timeout_text :: "nat \<Rightarrow> string" where
  "timeout_text i = ''Database connection timeout on attempt '' @ show_nat i"

definition simulate_error_storm_with_rate_limiting :: "('rx, 'n) host \<Rightarrow> ('rx, 'a, 'n, 'c) statement" where
  "simulate_error_storm_with_rate_limiting h = run_all
     [cout (scenario_title ''SCENARIO 2: Error Storm with Rate Limiting''),
      make_stdout_logger h ''error-handler'',
      now_then h (\<lambda>t. run_all
       [cout (line_text ''Simulating 100 rapid database errors...''),
        cout (line_text ''Rate limit: 5 msg/sec, burst: 10'' @ newline),
        loop (gated h try_log (say_text h Error timeout_text) 10000000) [0..<100] (rate_limiter_new t 5 10, 0, 0)
          (\<lambda>(limiter, logged, dropped). run_all
           [cout (done_text ''Rate limiting prevented log flooding!''),
            cout (value_text ''  Messages logged: '' (show_int logged)),
            cout (value_text ''  Messages dropped: '' (show_int dropped)),
            cout (value_text ''  Disk space saved: '' (show_int (dropped * 100) @ '' bytes (approx)''))])])]"

definition payment_text :: "nat \<Rightarrow> string" where
  "payment_text i = ''Processing payment transaction #'' @ show_nat i @ '' amount: $'' @ show_nat (50 + i mod 100)"

definition simulate_sampling_debug_logs :: "('rx, 'n) host \<Rightarrow> ('rx, 'a, 'n, 'c) statement" where
  "simulate_sampling_debug_logs h = run_all
     [cout (scenario_title ''SCENARIO 3: Sampling High-Frequency Debug Logs''),
      make_stdout_logger h ''payment-processor'',
      cout (line_text ''Processing 200 transactions (sampling 1 in 20)...'' @ newline),
      loop (gated h (\<lambda>_. sampling_should_log) (say_text h Debug payment_text) 0) [1..<201] (sampling_limiter_new 20, 0, 0)
        (\<lambda>(sampler, _, _). run_all
         [cout (done_text ''Sampling reduced log volume!''),
          cout (value_text ''  Total transactions: '' (show_u64 (sl_counter sampler))),
          cout (value_text ''  Debug logs written: '' (show_u64 (sl_counter sampler div 20))),
          cout (line_text ''  Volume reduction: 95%'')])]"

definition server_activity :: "nat \<Rightarrow> log_metrics \<Rightarrow> log_metrics" where
  "server_activity i m0 =
     (let m1 = record_log_duration (of_nat (5 + i mod 20)) (record_message_logged m0);
          m2 = (if i mod 500 = 0 then record_message_dropped m1 else m1)
      in if i mod 1000 = 0 then update_queue_depth (of_nat (50 + i div 100)) m2 else m2)"

definition server_flush :: "nat \<Rightarrow> log_metrics \<Rightarrow> log_metrics" where
  "server_flush i m = record_flush_duration (of_nat (200 + i * 50)) (record_flush m)"

definition performance_text :: "snapshot \<Rightarrow> string" where
  "performance_text sn =
     value_text ''  Messages logged: '' (show_u64 (sn_messages_logged sn))
     @ value_text ''  Messages/second: '' (show_general (sn_messages_per_second sn))
     @ value_text ''  Avg log latency: '' (us_text (show_general (sn_avg_log_latency_us sn)))
     @ value_text ''  Max log latency: '' (us_text (show_u64 (sn_max_log_latency_us sn)))
     @ value_text ''  Queue depth: '' (show_u64 (sn_current_queue_depth sn))
     @ value_text ''  Max queue depth: '' (show_u64 (sn_max_queue_depth sn))"

definition health_text :: "snapshot \<Rightarrow> string" where
  "health_text sn =
     value_text ''  Messages dropped: '' (show_u64 (sn_messages_dropped sn))
     @ value_text ''  Drop rate: '' (show_general (drop_percentage sn) @ ''%'')
     @ value_text ''  Errors: '' (show_u64 (sn_errors sn))
     @ value_text ''  Flushes: '' (show_u64 (sn_flushes sn))
     @ value_text ''  Avg flush time: '' (us_text (show_general (sn_avg_flush_latency_us sn)))"

definition simulate_metrics_monitoring :: "('rx, 'n) host \<Rightarrow> ('rx, 'a, 'n, 'c) statement" where
  "simulate_metrics_monitoring h = run_all
     [cout (scenario_title ''SCENARIO 4: Metrics & Observability''),
      ask_metrics h ''api-server'' (\<lambda>metrics. run_all
       [cout (line_text ''Simulating API server logging activity...'' @ newline),
        through_loop metrics server_activity 5000,
        through_loop metrics server_flush 10,
        clock_then h (\<lambda>clk. registry_then (\<lambda>r.
          let sn = get_snapshot clk (rg_logger_heap r ! metrics) in run_all
           [cout (tick @ '' Metrics collected!'' @ nl2),
            cout (line_text ''Performance Metrics:''),
            cout (performance_text sn),
            cout (block_text ''Health Metrics:''),
            cout (health_text sn)]))])]"

definition cache_text :: "nat \<Rightarrow> string" where
  "cache_text i = ''Cache hit for key: user_'' @ show_nat (i mod 100)"

text \<open>The difference is of unsigned integers, the product and the quotient are of doubles.\<close>

definition reduction :: "limiter_stats \<Rightarrow> double" where
  "reduction st =
     fl (fl (100 * u64_double (st_total_messages st - st_logged_messages st)) / u64_double (st_total_messages st))"

definition simulate_combined_rate_and_sampling :: "('rx, 'n) host \<Rightarrow> ('rx, 'a, 'n, 'c) statement" where
  "simulate_combined_rate_and_sampling h = run_all
     [cout (scenario_title ''SCENARIO 5: Combined Rate Limiting + Sampling''),
      make_stdout_logger h ''high-frequency'',
      now_then h (\<lambda>t. run_all
       [cout (line_text ''Simulating high-frequency event logging...''),
        cout (line_text ''Rate limit: 50 msg/sec, Sampling: 1 in 10'' @ newline),
        loop (gated h combined_should_log (say_text h Debug cache_text) 0) [0..<1000] (combined_limiter_new t 50 100 10, 0, 0)
          (\<lambda>(limiter, _, _). let st = combined_stats limiter in run_all
           [cout (done_text ''Combined limiting achieved maximum control!''),
            cout (limiter_text st),
            cout (value_text ''  Effective reduction: '' (show_general (reduction st) @ ''%''))])])]"

definition comprehensive_main :: "('rx, 'n) host \<Rightarrow> ('rx, 'a, 'n, 'c) statement" where
  "comprehensive_main h = run_all
     [cout (frame_top 40),
      cout (frame_text ''   Zyrnix v1.1.0 Comprehensive Test      ''),
      cout (frame_text ''   Real-World Scenarios Demonstration   ''),
      cout (frame_bottom 40),
      simulate_application_startup h,
      sleep_for second,
      simulate_error_storm_with_rate_limiting h,
      sleep_for second,
      simulate_sampling_debug_logs h,
      sleep_for second,
      simulate_metrics_monitoring h,
      sleep_for second,
      simulate_combined_rate_and_sampling h,
      cout (newline @ frame_top 40),
      cout (frame_text (''         ALL TESTS PASSED! '' @ tick @ ''            '')),
      cout (frame_text ''                                        ''),
      cout (frame_text ''  Zyrnix v1.1.0 features demonstrated:   ''),
      cout (frame_text (''  '' @ tick @ '' Rate Limiting                       '')),
      cout (frame_text (''  '' @ tick @ '' Sampling                            '')),
      cout (frame_text (''  '' @ tick @ '' Metrics & Observability             '')),
      cout (frame_text (''  '' @ tick @ '' Combined limiters                   '')),
      cout (frame_bottom 40 @ newline)]"

section \<open>What the limiters of the program admit\<close>

text \<open>The bucket of the error storm gains 0.05 tokens between two errors.\<close>

lemma storm_bucket1:
  "bucket (fl (1 / 20)) 10 50 9 = map (\<lambda>i. i < 10 \<or> i mod 20 = 0) [1..<51]"
  by (simp add: bucket_eval upt_rec)

lemma storm_bucket2:
  "bucket (fl (1 / 20)) 10 49 (bucket_rest (fl (1 / 20)) 10 50 9) = map (\<lambda>i. i < 10 \<or> i mod 20 = 0) [51..<100]"
  by (simp add: bucket_eval upt_rec)

lemma storm_admits:
  "fst (gates try_log (gate_times t 10000000 100) (rate_limiter_new t 5 10))
   = map (\<lambda>i. i < 10 \<or> i mod 20 = 0) [0..<100]"
proof -
  have tokens: "u64_double 10 = 10" "u64_double 50 = 50" by (simp_all add: u64_double_def fl_eval)
  have "fst (gates try_log (gate_times t 10000000 (Suc 99)) (rate_limiter_new t 5 10))
    = True # bucket (fl (1 / 20)) 10 (50 + 49) 9"
    using fresh_bucket[of 10 10000000 t 99 5] by (simp add: tokens trunc_div_def fl_eval)
  also have "\<dots> = map (\<lambda>i. i < 10 \<or> i mod 20 = 0) (0 # [1..<51] @ [51..<100])"
    unfolding bucket_add storm_bucket1 storm_bucket2 map_append list.map by simp
  also have "0 # [1..<51] @ [51..<100] = [0..<100]" by code_simp
  finally show ?thesis by simp
qed

lemma sampled_payments:
  "gates (\<lambda>_. sampling_should_log) (replicate 200 t) (sampling_limiter_new 20)
   = (map (\<lambda>i. i mod 20 = 1) [1..<201], \<lparr>sl_sample_rate = 20, sl_counter = 200\<rparr>)"
proof -
  have "gates (\<lambda>_. sampling_should_log) (replicate 200 0) (sampling_limiter_new 20)
    = (map (\<lambda>i. i mod 20 = 1) [1..<201], \<lparr>sl_sample_rate = 20, sl_counter = 200\<rparr>)"
    by code_simp
  then show ?thesis
    using timeless[of sampling_should_log "replicate 200 t" "sampling_limiter_new 20"] by simp
qed

text \<open>The combined limiter before its call \<open>i\<close>, when no time passes.\<close>

definition tenth :: "time \<Rightarrow> nat \<Rightarrow> combined_limiter" where
  "tenth t i =
     \<lparr>cl_rate = (rate_limiter_new t 50 100)\<lparr>rl_tokens := of_nat (100 - (i + 9) div 10)\<rparr>,
      cl_sampling = \<lparr>sl_sample_rate = 10, sl_counter = of_nat i\<rparr>, cl_logged = of_nat ((i + 9) div 10)\<rparr>"

lemma still_admits:
  assumes "rate_enabled rl" and "k < 2 ^ 53" and "rl_tokens rl = of_nat (Suc k)" and "rl_last_refill rl = t"
  shows "try_log t rl = (True, rl\<lparr>rl_tokens := of_nat k\<rparr>)"
proof -
  have "refill_tokens t rl = rl" using assms(4) by (simp add: refill_tokens_def Let_def trunc_div_def)
  moreover have "fl (rl_tokens rl - 1) = of_nat k" using assms(2,3) fl_nat[of k] by simp
  moreover have "1 \<le> rl_tokens rl" using assms(3) by simp
  ultimately show ?thesis using assms(1) by (simp add: try_log_def Let_def)
qed

lemma tenth_step:
  assumes "i < 1000"
  shows "combined_should_log t (tenth t i) = (i mod 10 = 0, tenth t (Suc i))"
proof -
  have sampler: "sampling_should_log \<lparr>sl_sample_rate = 10, sl_counter = of_nat i\<rparr>
     = (i mod 10 = 0, \<lparr>sl_sample_rate = 10, sl_counter = of_nat (Suc i)\<rparr>)"
    using sampler_step_rate[of 10 i] assms by simp
  show ?thesis
  proof (cases "i mod 10 = 0")
    case True
    then obtain q where q: "i = 10 * q" "q < 100" using assms by (auto elim!: dvdE simp flip: dvd_eq_mod_eq_0)
    then obtain k where k: "100 - q = Suc k" "100 - Suc q = k" "k < 2 ^ 53" by (cases "100 - q") simp_all
    define rl where "rl = (rate_limiter_new t 50 100)\<lparr>rl_tokens := of_nat (100 - q)\<rparr>"
    define rl' where "rl' = (rate_limiter_new t 50 100)\<lparr>rl_tokens := of_nat (100 - Suc q)\<rparr>"
    have rate: "try_log t rl = (True, rl')"
      unfolding rl_def rl'_def k(1,2) using k(3)
      by (subst still_admits[of _ k]) (simp_all add: rate_limiter_new_def rate_enabled_def Let_def)
    have "(i + 9) div 10 = q" "(Suc i + 9) div 10 = Suc q" using q(1) by simp_all
    then have tenths: "tenth t i = \<lparr>cl_rate = rl,
        cl_sampling = \<lparr>sl_sample_rate = 10, sl_counter = of_nat i\<rparr>, cl_logged = of_nat q\<rparr>"
      "tenth t (Suc i) = \<lparr>cl_rate = rl',
        cl_sampling = \<lparr>sl_sample_rate = 10, sl_counter = of_nat (Suc i)\<rparr>, cl_logged = of_nat (Suc q)\<rparr>"
      by (simp_all only: tenth_def rl_def rl'_def)
    show ?thesis
      unfolding tenths by (simp add: combined_should_log_def sampler rate True)
  next
    case False
    then have "Suc (i + 9) mod 10 \<noteq> 0" by simp
    then have same: "(Suc i + 9) div 10 = (i + 9) div 10" unfolding add_Suc by (simp only: div_Suc if_False)
    define rl where "rl = (rate_limiter_new t 50 100)\<lparr>rl_tokens := of_nat (100 - (i + 9) div 10)\<rparr>"
    define n where "n = (i + 9) div 10"
    have tenths: "tenth t i = \<lparr>cl_rate = rl,
        cl_sampling = \<lparr>sl_sample_rate = 10, sl_counter = of_nat i\<rparr>, cl_logged = of_nat n\<rparr>"
      "tenth t (Suc i) = \<lparr>cl_rate = rl,
        cl_sampling = \<lparr>sl_sample_rate = 10, sl_counter = of_nat (Suc i)\<rparr>, cl_logged = of_nat n\<rparr>"
      by (simp_all only: tenth_def rl_def n_def same)
    show ?thesis
      unfolding tenths by (simp add: combined_should_log_def sampler False)
  qed
qed

lemma tenth_run:
  "i + n \<le> 1000 \<Longrightarrow> gates combined_should_log (replicate n t) (tenth t i)
     = (map (\<lambda>j. j mod 10 = 0) [i..<i + n], tenth t (i + n))"
  by (induction n arbitrary: i) (simp_all add: tenth_step upt_conv_Cons del: upt_Suc)

lemma combined_cache:
  "gates combined_should_log (replicate 1000 t) (combined_limiter_new t 50 100 10)
   = (map (\<lambda>j. j mod 10 = 0) [0..<1000], tenth t 1000)"
proof -
  have "u64_double 100 = 100" by (simp add: u64_double_def fl_eval)
  then have "combined_limiter_new t 50 100 10 = tenth t 0"
    by (simp add: combined_limiter_new_def sampling_limiter_new_def tenth_def rate_limiter_new_def Let_def)
  with tenth_run[of 0 1000 t] show ?thesis by simp
qed

lemma cache_stats:
  "combined_stats (tenth t 1000) =
     \<lparr>st_total_messages = 1000, st_rate_limited_drops = 0, st_sampling_drops = 900, st_logged_messages = 100\<rparr>"
proof -
  have "sampling_dropped_count \<lparr>sl_sample_rate = 10, sl_counter = 1000\<rparr> = 900" by code_simp
  then show ?thesis by (simp add: combined_stats_def tenth_def rate_limiter_new_def Let_def)
qed

section \<open>The metrics of the program\<close>

lemma server_fold:
  "foldl (\<lambda>m i. server_activity i m) m is
   = m\<lparr>mt_messages_logged := mt_messages_logged m + of_nat (length is),
       mt_messages_dropped := mt_messages_dropped m + sum_list (map (\<lambda>i. of_bool (i mod 500 = 0)) is),
       mt_total_log_time_us := mt_total_log_time_us m + sum_list (map (\<lambda>i. of_nat (5 + i mod 20)) is),
       mt_max_log_latency_us := foldl max (mt_max_log_latency_us m) (map (\<lambda>i. of_nat (5 + i mod 20)) is),
       mt_current_depth :=
         foldl (\<lambda>d i. if i mod 1000 = 0 then of_nat (50 + i div 100) else d) (mt_current_depth m) is,
       mt_max_depth :=
         foldl (\<lambda>d i. if i mod 1000 = 0 then max d (of_nat (50 + i div 100)) else d) (mt_max_depth m) is\<rparr>"
  by (induction "is" arbitrary: m) (simp_all add: server_activity_def Let_def metric_defs add_ac)

lemma server_flushes:
  "foldl (\<lambda>m i. server_flush i m) m is
   = m\<lparr>mt_flushes := mt_flushes m + of_nat (length is),
       mt_total_flush_time_us := mt_total_flush_time_us m + sum_list (map (\<lambda>i. of_nat (200 + i * 50)) is),
       mt_max_flush_latency_us := foldl max (mt_max_flush_latency_us m) (map (\<lambda>i. of_nat (200 + i * 50)) is)\<rparr>"
  by (induction "is" arbitrary: m) (simp_all add: server_flush_def metric_defs add_ac)

lemma server_metrics:
  "foldl (\<lambda>m i. server_flush i m) (foldl (\<lambda>m i. server_activity i m) (log_metrics_new t) [0..<5000]) [0..<10]
   = (log_metrics_new t)\<lparr>mt_messages_logged := 5000, mt_messages_dropped := 10, mt_flushes := 10,
       mt_total_log_time_us := 72500, mt_max_log_latency_us := 24,
       mt_total_flush_time_us := 4250, mt_max_flush_latency_us := 650,
       mt_current_depth := 90, mt_max_depth := 90\<rparr>"
proof -
  have once: "sum_list (map (\<lambda>i. of_bool (i = 0)) [0..<500]) = (1 :: u64)"
    "sum_list (map (\<lambda>i. of_nat (5 + i)) [0..<20]) = (290 :: u64)"
    "foldl max 0 (map (\<lambda>i. of_nat (5 + i)) [0..<20]) = (24 :: u64)"
    "foldl (\<lambda>d q. of_nat (50 + 1000 * q div 100)) 0 [0..<5] = (90 :: u64)"
    "foldl (\<lambda>d q. max d (of_nat (50 + 1000 * q div 100))) 0 [0..<5] = (90 :: u64)"
    "sum_list (map (\<lambda>i. of_nat (200 + i * 50)) [0..<10]) = (4250 :: u64)"
    "foldl max 0 (map (\<lambda>i. of_nat (200 + i * 50)) [0..<10]) = (650 :: u64)"
    by (simp_all add: upt_rec word_le_nat_alt max_def)
  have "sum_list (map (\<lambda>i. of_bool (i mod 500 = 0)) [0..<5000]) = (10 :: u64)"
    "sum_list (map (\<lambda>i. of_nat (5 + i mod 20)) [0..<5000]) = (72500 :: u64)"
    "foldl max 0 (map (\<lambda>i. of_nat (5 + i mod 20)) [0..<5000]) = (24 :: u64)"
    "foldl (\<lambda>d i. if i mod 1000 = 0 then of_nat (50 + i div 100) else d) 0 [0..<5000] = (90 :: u64)"
    "foldl (\<lambda>d i. if i mod 1000 = 0 then max d (of_nat (50 + i div 100)) else d) 0 [0..<5000] = (90 :: u64)"
    using periodic_sum[of "\<lambda>i. of_bool (i = 0) :: u64" 500 10] periodic_sum[of "\<lambda>i. of_nat (5 + i) :: u64" 20 250]
      periodic_max[of 250 "0 :: u64" "\<lambda>i. of_nat (5 + i)" 20]
      periodic_step[of 1000 "\<lambda>i _. of_nat (50 + i div 100)" "0 :: u64" 5]
      periodic_step[of 1000 "\<lambda>i d. max d (of_nat (50 + i div 100))" "0 :: u64" 5]
    by (simp_all only: once) simp_all
  with once(6,7) show ?thesis
    unfolding server_flushes server_fold by (simp add: log_metrics_new_def)
qed

section \<open>What the program prints\<close>

definition unused_metrics :: "('rx, 'a, 'n, 'c) singletons \<Rightarrow> bool" where
  "unused_metrics = (\<lambda>(_, _, metrics, _). metrics = registry_new)"

lemma prints_sleep:
  fixes P :: "('rx, 'a, 'n, 'c) singletons \<Rightarrow> bool"
  assumes "\<And>d :: ('rx, 'a, 'n, 'c) demo. P (process d) \<Longrightarrow> Q (process (d\<lparr>dm_slept := dm_slept d + s\<rparr>))"
  shows "prints_when P h (sleep_for s :: ('rx, 'a, 'n, 'c) statement) Q []"
proof (rule prints_whenI)
  fix d :: "('rx, 'a, 'n, 'c) demo" assume "ready d" "P (process d)"
  with assms[of d] show "\<exists>d' objs. sleep_for s d = Some d' \<and> dm_context d' = Map.empty \<and> dm_scopes d' = [] \<and> Q (process d')
    \<and> dm_world d' = print_items (ho_env h) [] ((dm_world d)\<lparr>w_objects := objs\<rparr>)"
    by (intro exI[of _ "d\<lparr>dm_slept := dm_slept d + s\<rparr>"] exI[of _ "w_objects (dm_world d)"])
       (simp add: sleep_for_def ready_def print_items_def)
qed

lemma storm_numbers:
  "admitted (map (\<lambda>i. i < 10 \<or> i mod 20 = 0) [0..<100]) = 14"
  "refused (map (\<lambda>i. i < 10 \<or> i mod 20 = 0) [0..<100]) = 86"
  "filter (\<lambda>i. i < 10 \<or> i mod 20 = 0) [0..<100] = [0, 1, 2, 3, 4, 5, 6, 7, 8, 9, 20, 40, 60, 80]"
  "filter (\<lambda>i. i mod 20 = 1) [1..<201] = [1, 21, 41, 61, 81, 101, 121, 141, 161, 181]"
  by code_simp+

lemma count_texts: "show_int 14 = ''14''" "show_int 86 = ''86''" "show_int 8600 = ''8600''"
  by (simp_all add: show_u64_eval)

lemma scenario_texts:
  "show_u64 200 = ''200''" "show_u64 10 = ''10''" "show_u64 5000 = ''5000''" "show_u64 24 = ''24''" "show_u64 90 = ''90''"
  "show_general (average_us 72500 5000) = ''14.5''" "show_general (average_us 4250 10) = ''425''"
  "show_general (fl (fl (100 * u64_double 10) / u64_double 5000)) = ''0.2''"
  "show_general (fl (fl (100 * u64_double 900) / u64_double 1000)) = ''90''"
  by (simp_all add: show_u64_eval) (simp_all add: average_us_def u64_double_def fl_eval show_eval)

lemma startup_prints:
  "prints_when unused_metrics h (simulate_application_startup h) unused_metrics
     [Text (scenario_title ''SCENARIO 1: Application Startup''),
      Line ''app'' Info ''Application starting...'',
      Line ''app'' Info ''Loading configuration from config.json'',
      Line ''app'' Debug ''Database connection pool size: 10'',
      Line ''app'' Info ''Connected to database: postgres://localhost:5432/myapp'',
      Line ''app'' Info ''HTTP server listening on port 8080'',
      Line ''app'' Info ''Application ready to accept requests'',
      Text (done_text ''Basic logging works!'')]"
  by (rule prints_whenI)
     (simp add: demo_simps say_plain plain_console_def plain_logger_def process_def unused_metrics_def
        cout_printed[where h = h] simulate_application_startup_def del: say_console,
      simp add: demo_simps after_calls_def cout_printed[where h = h])

lemma storm_prints:
  fixes h :: "('rx, 'n) host" and t :: time
  defines "g \<equiv> h\<lparr>ho_clock := \<lambda>_ _. t\<rparr>"
  shows "prints_when unused_metrics g (simulate_error_storm_with_rate_limiting g) unused_metrics
     ([Text (scenario_title ''SCENARIO 2: Error Storm with Rate Limiting''),
       Text (line_text ''Simulating 100 rapid database errors...''),
       Text (line_text ''Rate limit: 5 msg/sec, burst: 10'' @ newline)]
      @ map (\<lambda>i. Line ''error-handler'' Error (timeout_text i)) [0, 1, 2, 3, 4, 5, 6, 7, 8, 9, 20, 40, 60, 80]
      @ [Text (done_text ''Rate limiting prevented log flooding!''),
         Text (value_text ''  Messages logged: '' ''14''),
         Text (value_text ''  Messages dropped: '' ''86''),
         Text (value_text ''  Disk space saved: '' ''8600 bytes (approx)'')])"
  unfolding g_def
  by (rule prints_whenI) (simp add: limit_simps process_def unused_metrics_def split_beta storm_admits passed_filter
    storm_numbers count_texts cout_printed[where h = h] simulate_error_storm_with_rate_limiting_def)

lemma payments_print:
  fixes h :: "('rx, 'n) host" and t :: time
  defines "g \<equiv> h\<lparr>ho_clock := \<lambda>_ _. t\<rparr>"
  shows "prints_when unused_metrics g (simulate_sampling_debug_logs g) unused_metrics
     ([Text (scenario_title ''SCENARIO 3: Sampling High-Frequency Debug Logs''),
       Text (line_text ''Processing 200 transactions (sampling 1 in 20)...'' @ newline)]
      @ map (\<lambda>i. Line ''payment-processor'' Debug (payment_text i)) [1, 21, 41, 61, 81, 101, 121, 141, 161, 181]
      @ [Text (done_text ''Sampling reduced log volume!''),
         Text (value_text ''  Total transactions: '' ''200''),
         Text (value_text ''  Debug logs written: '' ''10''),
         Text (line_text ''  Volume reduction: 95%'')])"
proof -
  have "(200 :: u64) div 20 = 10" by code_simp
  then show ?thesis
    unfolding g_def
    by (intro prints_whenI) (simp add: limit_simps process_def unused_metrics_def sampled_payments passed_filter
      storm_numbers[unfolded One_nat_def] scenario_texts cout_printed[where h = h] simulate_sampling_debug_logs_def)
qed

lemma monitoring_prints:
  fixes h :: "('rx, 'n) host" and t :: time
  defines "g \<equiv> h\<lparr>ho_clock := \<lambda>_ _. t\<rparr>"
  shows "prints_when unused_metrics g (simulate_metrics_monitoring g) (\<lambda>_. True)
     [Text (scenario_title ''SCENARIO 4: Metrics & Observability''),
      Text (line_text ''Simulating API server logging activity...'' @ newline),
      Text (tick @ '' Metrics collected!'' @ nl2),
      Text (line_text ''Performance Metrics:''),
      Text (value_text ''  Messages logged: '' ''5000''
        @ value_text ''  Messages/second: '' ''0''
        @ value_text ''  Avg log latency: '' (us_text ''14.5'')
        @ value_text ''  Max log latency: '' (us_text ''24'')
        @ value_text ''  Queue depth: '' ''90''
        @ value_text ''  Max queue depth: '' ''90''),
      Text (block_text ''Health Metrics:''),
      Text (value_text ''  Messages dropped: '' ''10''
        @ value_text ''  Drop rate: '' ''0.2%''
        @ value_text ''  Errors: '' ''0''
        @ value_text ''  Flushes: '' ''10''
        @ value_text ''  Avg flush time: '' (us_text ''425''))]"
  unfolding g_def
  by (rule prints_whenI) (simp add: simulate_metrics_monitoring_def ask_metrics_def through_loop_def
    registry_then_def get_logger_metrics_def omap_get_def registry_new_def through_fold on_logger_metrics_literal
    server_metrics[unfolded log_metrics_new_def] performance_text_def health_text_def drop_percentage_def
    unused_metrics_def scenario_texts cout_printed[where h = h] metric_simps)

lemma cache_prints:
  fixes h :: "('rx, 'n) host" and t :: time
  defines "g \<equiv> h\<lparr>ho_clock := \<lambda>_ _. t\<rparr>"
  shows "prints g (simulate_combined_rate_and_sampling g)
     ([Text (scenario_title ''SCENARIO 5: Combined Rate Limiting + Sampling''),
       Text (line_text ''Simulating high-frequency event logging...''),
       Text (line_text ''Rate limit: 50 msg/sec, Sampling: 1 in 10'' @ newline)]
      @ map (\<lambda>i. Line ''high-frequency'' Debug (cache_text i)) (filter (\<lambda>i. i mod 10 = 0) [0..<1000])
      @ [Text (done_text ''Combined limiting achieved maximum control!''),
         Text (value_text ''  Total messages: '' ''1000''
           @ value_text ''  Logged: '' ''100''
           @ value_text ''  Sampling drops: '' ''900''
           @ value_text ''  Rate limit drops: '' ''0''),
         Text (value_text ''  Effective reduction: '' ''90%'')])"
  unfolding g_def
  by (rule printsI) (simp add: limit_simps combined_cache passed_filter cache_stats limiter_text_def reduction_def
    combined_texts metric_texts scenario_texts cout_printed[where h = h] simulate_combined_rate_and_sampling_def)

section \<open>The whole program\<close>

lemma sleeps_print:
  "prints_when unused_metrics h (sleep_for s) unused_metrics []" "prints h (sleep_for s) []"
  by (rule prints_sleep; simp add: unused_metrics_def process_def)+

definition comprehensive_output :: "console_item list" where
  "comprehensive_output =
     [Text (frame_top 40),
      Text (frame_text ''   Zyrnix v1.1.0 Comprehensive Test      ''),
      Text (frame_text ''   Real-World Scenarios Demonstration   ''),
      Text (frame_bottom 40),
      Text (scenario_title ''SCENARIO 1: Application Startup''),
      Line ''app'' Info ''Application starting...'',
      Line ''app'' Info ''Loading configuration from config.json'',
      Line ''app'' Debug ''Database connection pool size: 10'',
      Line ''app'' Info ''Connected to database: postgres://localhost:5432/myapp'',
      Line ''app'' Info ''HTTP server listening on port 8080'',
      Line ''app'' Info ''Application ready to accept requests'',
      Text (done_text ''Basic logging works!''),
      Text (scenario_title ''SCENARIO 2: Error Storm with Rate Limiting''),
      Text (line_text ''Simulating 100 rapid database errors...''),
      Text (line_text ''Rate limit: 5 msg/sec, burst: 10'' @ newline)]
     @ map (\<lambda>i. Line ''error-handler'' Error (timeout_text i)) [0, 1, 2, 3, 4, 5, 6, 7, 8, 9, 20, 40, 60, 80]
     @ [Text (done_text ''Rate limiting prevented log flooding!''),
        Text (value_text ''  Messages logged: '' ''14''),
        Text (value_text ''  Messages dropped: '' ''86''),
        Text (value_text ''  Disk space saved: '' ''8600 bytes (approx)''),
        Text (scenario_title ''SCENARIO 3: Sampling High-Frequency Debug Logs''),
        Text (line_text ''Processing 200 transactions (sampling 1 in 20)...'' @ newline)]
     @ map (\<lambda>i. Line ''payment-processor'' Debug (payment_text i)) [1, 21, 41, 61, 81, 101, 121, 141, 161, 181]
     @ [Text (done_text ''Sampling reduced log volume!''),
        Text (value_text ''  Total transactions: '' ''200''),
        Text (value_text ''  Debug logs written: '' ''10''),
        Text (line_text ''  Volume reduction: 95%''),
        Text (scenario_title ''SCENARIO 4: Metrics & Observability''),
        Text (line_text ''Simulating API server logging activity...'' @ newline),
        Text (tick @ '' Metrics collected!'' @ nl2),
        Text (line_text ''Performance Metrics:''),
        Text (value_text ''  Messages logged: '' ''5000''
          @ value_text ''  Messages/second: '' ''0''
          @ value_text ''  Avg log latency: '' (us_text ''14.5'')
          @ value_text ''  Max log latency: '' (us_text ''24'')
          @ value_text ''  Queue depth: '' ''90''
          @ value_text ''  Max queue depth: '' ''90''),
        Text (block_text ''Health Metrics:''),
        Text (value_text ''  Messages dropped: '' ''10''
          @ value_text ''  Drop rate: '' ''0.2%''
          @ value_text ''  Errors: '' ''0''
          @ value_text ''  Flushes: '' ''10''
          @ value_text ''  Avg flush time: '' (us_text ''425'')),
        Text (scenario_title ''SCENARIO 5: Combined Rate Limiting + Sampling''),
        Text (line_text ''Simulating high-frequency event logging...''),
        Text (line_text ''Rate limit: 50 msg/sec, Sampling: 1 in 10'' @ newline)]
     @ map (\<lambda>i. Line ''high-frequency'' Debug (cache_text i)) (filter (\<lambda>i. i mod 10 = 0) [0..<1000])
     @ [Text (done_text ''Combined limiting achieved maximum control!''),
        Text (value_text ''  Total messages: '' ''1000''
          @ value_text ''  Logged: '' ''100''
          @ value_text ''  Sampling drops: '' ''900''
          @ value_text ''  Rate limit drops: '' ''0''),
        Text (value_text ''  Effective reduction: '' ''90%''),
        Text (newline @ frame_top 40),
        Text (frame_text (''         ALL TESTS PASSED! '' @ tick @ ''            '')),
        Text (frame_text ''                                        ''),
        Text (frame_text ''  Zyrnix v1.1.0 features demonstrated:   ''),
        Text (frame_text (''  '' @ tick @ '' Rate Limiting                       '')),
        Text (frame_text (''  '' @ tick @ '' Sampling                            '')),
        Text (frame_text (''  '' @ tick @ '' Metrics & Observability             '')),
        Text (frame_text (''  '' @ tick @ '' Combined limiters                   '')),
        Text (frame_bottom 40 @ newline)]"

text \<open>
  C39. The program \<open>examples/comprehensive\_test.cpp\<close>, started with an empty metrics registry on a clock
  that only advances while it sleeps, prints exactly the output listed.  Of the 100 errors, one each
  ten milliseconds, a bucket of 10 that gains 5 in a second passes the first ten and then one in
  twenty, 14 in all; of 200 payments the sampler passes every twentieth; of 1000 events the combined
  limiter passes every tenth, none of which its bucket refuses; and the metrics of 5000 messages have
  the averages, maxima and rates listed.
\<close>

theorem comprehensive_program_prints:
  fixes h :: "('rx, 'n) host" and t :: time
  shows "prints_when unused_metrics (h\<lparr>ho_clock := \<lambda>_ _. t\<rparr>)
    (comprehensive_main (h\<lparr>ho_clock := \<lambda>_ _. t\<rparr>)) (\<lambda>_. True) comprehensive_output"
  unfolding comprehensive_main_def
  by (rule prints_eq, (rule prints_intros sleeps_print startup_prints storm_prints payments_print monitoring_prints
      cache_prints)+) (simp only: comprehensive_output_def append.simps append_assoc append_Nil)

end
