(* ===== verification/Example_Config.thy ===== *)
theory Example_Config
  imports Example_Console
begin

text \<open>
  The program \<open>examples/config\_file\_example.cpp\<close>, which loads loggers from a configuration text and
  logs to them, and what it prints and logs.
\<close>

section \<open>The program\<close>

text \<open>The configuration, line by line.\<close>

definition row :: "nat \<Rightarrow> string \<Rightarrow> string" where
  "row n s = replicate n (CHR '' '') @ line_text s"

definition config_json :: string where
  "config_json =
     row 0 ''{''
     @ row 8 (quoted ''loggers'' @ '': ['')
     @ row 12 ''{''
     @ row 16 (quoted ''name'' @ '': '' @ quoted ''app'' @ '','')
     @ row 16 (quoted ''level'' @ '': '' @ quoted ''debug'' @ '','')
     @ row 16 (quoted ''async'' @ '': false,'')
     @ row 16 (quoted ''sinks'' @ '': ['')
     @ row 20 (''{'' @ quoted ''type'' @ '': '' @ quoted ''stdout'' @ ''},'')
     @ row 20 (''{'' @ quoted ''type'' @ '': '' @ quoted ''file'' @ '', '' @ quoted ''path'' @ '': '' @ quoted ''app.log'' @ ''}'')
     @ row 16 '']''
     @ row 12 ''},''
     @ row 12 ''{''
     @ row 16 (quoted ''name'' @ '': '' @ quoted ''network'' @ '','')
     @ row 16 (quoted ''level'' @ '': '' @ quoted ''info'' @ '','')
     @ row 16 (quoted ''async'' @ '': true,'')
     @ row 16 (quoted ''sinks'' @ '': ['')
     @ row 20 (''{'' @ quoted ''type'' @ '': '' @ quoted ''rotating'' @ '', '' @ quoted ''path'' @ '': '' @ quoted ''network.log'' @ '', '' @ quoted ''max_size'' @ '': 5242880, '' @ quoted ''max_files'' @ '': 3}'')
     @ row 16 '']''
     @ row 12 ''}''
     @ row 8 '']''
     @ replicate 4 (CHR '' '') @ ''}''"

text \<open>
  \<open>create\_loggers\<close>, and a logger looked up in its result.  The constructors of the sinks are the
  argument \<open>mk\<close>; asynchronous loggers are offered to the health registry.
\<close>

definition config_ops ::
    "('rx, 'n) host \<Rightarrow> (sink_spec \<Rightarrow> ('a, 'n, 'c) sink_world \<Rightarrow> sink_ptr \<times> ('a, 'n, 'c) sink_world)
      \<Rightarrow> ('a, 'n, 'c) sink_world make_ops" where
  "config_ops h mk = \<lparr>mk_sink = mk, mk_register = (\<lambda>nm w. w), mk_temp = ho_temp h\<rparr>"

definition configured_made :: "logger_config \<Rightarrow> ('rx, 'a, 'n, 'c) demo \<Rightarrow> ('rx, 'a, 'n, 'c) demo" where
  "configured_made c d =
     (if cf_async c then register_made (cf_name c) d else d\<lparr>dm_loggers := Suc (dm_loggers d)\<rparr>)"

definition create_then ::
    "('a, 'n, 'c) sink_world make_ops \<Rightarrow> loader
      \<Rightarrow> ((string, ('a, 'n, 'c) sink_world logger) omap \<Rightarrow> ('rx, 'a, 'n, 'c) statement)
      \<Rightarrow> ('rx, 'a, 'n, 'c) statement" where
  "create_then mk ld k d =
     (case create_loggers mk ld (dm_world d) of
        (Inl e, w) \<Rightarrow> None
      | (Inr m, w) \<Rightarrow> k m ((fold configured_made (ld_configs ld) d)\<lparr>dm_world := w\<rparr>))"

definition use_logger ::
    "string \<Rightarrow> (string, ('a, 'n, 'c) sink_world logger) omap \<Rightarrow> ('rx, 'a, 'n, 'c) statement
      \<Rightarrow> ('rx, 'a, 'n, 'c) statement" where
  "use_logger nm m f d = (case omap_get m nm of None \<Rightarrow> Some d | Some lg \<Rightarrow> f (d\<lparr>dm_logger := lg\<rparr>))"

text \<open>The texts about files and environments at the end of the program.\<close>

definition production_lines :: "string list" where
  "production_lines =
     [''   Create a file named 'Zyrnix_config.json' with your configuration:'',
      ''   {'',
      (''     '' @ quoted ''loggers'' @ '': [''),
      ''       {'',
      (''         '' @ quoted ''name'' @ '': '' @ quoted ''production'' @ '',''),
      (''         '' @ quoted ''level'' @ '': '' @ quoted ''warn'' @ '',''),
      (''         '' @ quoted ''async'' @ '': true,''),
      (''         '' @ quoted ''sinks'' @ '': [''),
      (''           {'' @ quoted ''type'' @ '': '' @ quoted ''file'' @ '', '' @ quoted ''path'' @ '': '' @ quoted ''/var/log/app.log'' @ ''},''),
      (''           {'' @ quoted ''type'' @ '': '' @ quoted ''rotating'' @ '', '' @ quoted ''path'' @ '': '' @ quoted ''app.log'' @ '', '' @ quoted ''max_size'' @ '': 10485760, '' @ quoted ''max_files'' @ '': 5}''),
      ''         ]'',
      ''       }'',
      ''     ]'',
      ''   }'',
      [],
      ''   Then in your code:'',
      (''   if (Zyrnix::ConfigLoader::load_from_json('' @ quoted ''Zyrnix_config.json'' @ '')) {''),
      ''       auto loggers = Zyrnix::ConfigLoader::create_loggers();'',
      ''       // Use loggers...'',
      ''   }'']"

definition environment_lines :: "string list" where
  "environment_lines =
     [(''   const char* env = std::getenv('' @ quoted ''ENVIRONMENT'' @ '');''),
      (''   std::string config_file = std::string('' @ quoted ''config_'' @ '') + (env ? env : '' @ quoted ''dev'' @ '') + '' @ quoted ''.json'' @ '';''),
      ''   Zyrnix::ConfigLoader::load_from_json(config_file);'',
      ''   // Automatically loads config_dev.json, config_prod.json, etc.'']"

definition print_lines :: "string list \<Rightarrow> ('rx, 'a, 'n, 'c) statement" where
  "print_lines ls = run_all (map (\<lambda>l. cout (line_text l)) ls)"

definition config_file_main ::
    "(sink_spec \<Rightarrow> ('a, 'n, 'c) sink_world \<Rightarrow> sink_ptr \<times> ('a, 'n, 'c) sink_world) \<Rightarrow> loader
      \<Rightarrow> ('rx, 'n) host \<Rightarrow> ('rx, 'a, 'n, 'c) statement" where
  "config_file_main mk ld0 h = run_all
     [cout (line_text ''=== Zyrnix Configuration File Example ===''),
      cout (block_text ''1. Loading configuration from JSON string...''),
      case load_from_json_string config_json ld0 of (loaded, ld) \<Rightarrow>
        if \<not> loaded then cout (line_text (''   '' @ ballot @ '' Failed to load configuration''))
        else run_all
         [cout (line_text (''   '' @ tick @ '' Configuration loaded successfully'')),
          cout (block_text ''2. Creating loggers from configuration...''),
          create_then (config_ops h mk) ld (\<lambda>loggers. run_all
           [cout (line_text (''   '' @ tick @ '' Created '' @ show_nat (length loggers) @ '' loggers'')),
            cout (block_text ''3. Using configured loggers...''),
            use_logger ''app'' loggers (run_all
             [say h Info ''Application started'',
              say h Debug ''Debug information visible due to config'',
              say h Warn ''This is a warning message'',
              cout (line_text (''   '' @ tick @ '' App logger working''))]),
            use_logger ''network'' loggers (run_all
             [say h Info ''Network subsystem initialized'',
              say h Debug ''This won't appear (network logger is at Info level)'',
              cout (line_text (''   '' @ tick @ '' Network logger working''))]),
            cout (block_text ''4. Production usage - loading from file...''),
            print_lines production_lines,
            cout (block_text ''5. Environment-specific configuration pattern...''),
            print_lines environment_lines,
            cout (block_text ''=== Configuration example completed ===''),
            cout (line_text ''Check app.log and network.log for output'')])]]"

section \<open>What it prints\<close>

text \<open>The configuration is cut at the first closing bracket, which is that of the sinks of the first logger.\<close>

lemma config_positions:
  "length config_json = 578"
  "skip_ws config_json 22 = 35" "config_json ! 35 = CHR ''{''" "find_from ''}'' config_json 35 = Some 198"
  "skip_ws config_json 199 = 199" "config_json ! 199 = CHR '',''"
  "skip_ws config_json 200 = 221" "config_json ! 221 = CHR ''{''" "find_from ''}'' config_json 221 = Some 255"
  "skip_ws config_json 256 = 273" "config_json ! 273 = CHR '']''"
  "find_from (key ''loggers'') config_json 0 = Some 10" "find_from ''['' config_json 10 = Some 21"
  by code_simp+

lemma config_objects:
  "parse_logger (substr config_json 35 164) 198 = default_config\<lparr>cf_name := ''app'', cf_level := Debug\<rparr>"
  "cf_name (parse_logger (substr config_json 221 35) 255) = []"
  by code_simp+

lemma config_json_parsed:
  "load_from_json_string config_json ld0 =
     (True, \<lparr>ld_configs = [default_config\<lparr>cf_name := ''app'', cf_level := Debug\<rparr>], ld_last_error = []\<rparr>)"
proof -
  let ?c = "default_config\<lparr>cf_name := ''app'', cf_level := Debug\<rparr>"
  let ?st = "\<lparr>ld_configs = [?c], ld_last_error = []\<rparr>"
  have "parse_loop config_json 22 \<lparr>ld_configs = [], ld_last_error = []\<rparr> = parse_loop config_json 199 ?st"
    by (subst parse_loop.simps) (simp add: config_positions config_objects)
  also have "\<dots> = parse_loop config_json 200 ?st"
    by (subst parse_loop.simps) (simp add: config_positions)
  also have "\<dots> = parse_loop config_json 256 ?st"
    by (subst parse_loop.simps) (simp add: config_positions config_objects)
  also have "\<dots> = ?st"
    by (subst parse_loop.simps) (simp add: config_positions)
  finally show ?thesis
    by (simp add: load_from_json_string_def parse_json_internal_def config_positions)
qed

lemma lines_printed:
  "print_lines ls d = Some (printed h (map (\<lambda>l. Text (line_text l)) ls) d)"
  by (induction ls arbitrary: d) (simp_all add: print_lines_def cout_printed[where h = h])

text \<open>A logger without sinks accepts a message and does nothing else.\<close>

lemma say_silent:
  assumes "lg_sink_entries (dm_logger d) = []" "\<not> tmp_active (lg_temp (dm_logger d))"
    "lg_filters (dm_logger d) = []" "lg_filter_func (dm_logger d) = None"
    "lg_redact_patterns (dm_logger d) = []" "lg_redact_regex_patterns (dm_logger d) = []"
    "lg_redact_pii_presets (dm_logger d) = []"
  shows "say h l msg d = Some (d\<lparr>dm_calls := Suc (dm_calls d)\<rparr>)"
  using assms
  by (simp add: say_def logger_call_def Logger.log_def check_temporary_level_expiry_def should_log_def
      probe_record_def filter_steps apply_redaction_def Let_def)

lemma one_text: "show_nat (Suc 0) = ''1''"
  by code_simp

definition config_file_output :: "console_item list" where
  "config_file_output =
     [Text (line_text ''=== Zyrnix Configuration File Example ===''),
      Text (block_text ''1. Loading configuration from JSON string...''),
      Text (line_text (''   '' @ tick @ '' Configuration loaded successfully'')),
      Text (block_text ''2. Creating loggers from configuration...''),
      Text (line_text (''   '' @ tick @ '' Created 1 loggers'')),
      Text (block_text ''3. Using configured loggers...''),
      Text (line_text (''   '' @ tick @ '' App logger working'')),
      Text (block_text ''4. Production usage - loading from file...'')]
     @ map (\<lambda>l. Text (line_text l)) production_lines
     @ [Text (block_text ''5. Environment-specific configuration pattern...'')]
     @ map (\<lambda>l. Text (line_text l)) environment_lines
     @ [Text (block_text ''=== Configuration example completed ===''),
        Text (line_text ''Check app.log and network.log for output'')]"

text \<open>
  The program \<open>examples/config\_file\_example.cpp\<close> prints exactly the output listed, from every state
  of the loader and whatever the constructors of the sinks do: of the two loggers of its configuration
  one is created, which has no sinks, so that none of the five messages appears anywhere, and the
  block about the second logger is skipped.
\<close>

theorem config_file_program_prints:
  "prints h (config_file_main mk ld0 h) config_file_output"
  unfolding config_file_main_def config_json_parsed
  by (rule printsI) (simp add: demo_simps say_silent create_then_def config_ops_def create_loggers_def
    create_logger_of_def apply_redaction_config_def set_redact_apply_to_cloud_only_def configured_made_def
    use_logger_def omap_get_def lines_printed[where h = h] default_config_def one_text
    cout_printed[where h = h] config_file_output_def del: say_console)

end
