(* ===== verification/Example_Minimal.thy ===== *)
theory Example_Minimal
  imports Example_Config
begin

text \<open>
  The feature flags of \<open>Zyrnix\_features.hpp\<close> as a function of the macros that the build defines, and
  the program \<open>examples/minimal\_build\_example.cpp\<close>, which they configure.
\<close>

section \<open>Feature flags\<close>

datatype build_macro =
  XLOG_MINIMAL | XLOG_NO_STRUCTURED | XLOG_NO_ASYNC | XLOG_NO_JSON | XLOG_NO_NETWORK | XLOG_NO_COLORS
| XLOG_NO_FILE_ROTATION | XLOG_NO_CONTEXT | XLOG_NO_FILTERS

definition minimal_macros :: "build_macro list" where
  "minimal_macros =
     [XLOG_NO_ASYNC, XLOG_NO_JSON, XLOG_NO_NETWORK, XLOG_NO_COLORS, XLOG_NO_FILE_ROTATION,
      XLOG_NO_CONTEXT, XLOG_NO_FILTERS]"

definition if_minimal :: "build_macro list \<Rightarrow> build_macro list" where
  "if_minimal ms = (if XLOG_MINIMAL \<in> set ms then fold List.insert minimal_macros ms else ms)"

definition if_no_structured :: "build_macro list \<Rightarrow> build_macro list" where
  "if_no_structured ms = (if XLOG_NO_STRUCTURED \<in> set ms then List.insert XLOG_NO_JSON ms else ms)"

definition unless_defined :: "build_macro list \<Rightarrow> build_macro \<Rightarrow> int" where
  "unless_defined ms m = (if m \<notin> set ms then 1 else 0)"

record features =
  ft_async :: int
  ft_json :: int
  ft_network :: int
  ft_colors :: int
  ft_file_rotation :: int
  ft_context :: int
  ft_filters :: int

definition features_of :: "build_macro list \<Rightarrow> features" where
  "features_of ms0 =
     (let ms = if_no_structured (if_minimal ms0) in
      \<lparr>ft_async = unless_defined ms XLOG_NO_ASYNC,
       ft_json = unless_defined ms XLOG_NO_JSON,
       ft_network = unless_defined ms XLOG_NO_NETWORK,
       ft_colors = unless_defined ms XLOG_NO_COLORS,
       ft_file_rotation = unless_defined ms XLOG_NO_FILE_ROTATION,
       ft_context = unless_defined ms XLOG_NO_CONTEXT,
       ft_filters = unless_defined ms XLOG_NO_FILTERS\<rparr>)"

text \<open>A feature is there unless the minimal build, its own macro or, for JSON, that of structured logging leaves it out.\<close>

lemma features_enabled:
  "ft_async (features_of ms) \<noteq> 0 \<longleftrightarrow> XLOG_MINIMAL \<notin> set ms \<and> XLOG_NO_ASYNC \<notin> set ms"
  "ft_json (features_of ms) \<noteq> 0 \<longleftrightarrow>
     XLOG_MINIMAL \<notin> set ms \<and> XLOG_NO_JSON \<notin> set ms \<and> XLOG_NO_STRUCTURED \<notin> set ms"
  "ft_network (features_of ms) \<noteq> 0 \<longleftrightarrow> XLOG_MINIMAL \<notin> set ms \<and> XLOG_NO_NETWORK \<notin> set ms"
  "ft_colors (features_of ms) \<noteq> 0 \<longleftrightarrow> XLOG_MINIMAL \<notin> set ms \<and> XLOG_NO_COLORS \<notin> set ms"
  "ft_file_rotation (features_of ms) \<noteq> 0 \<longleftrightarrow>
     XLOG_MINIMAL \<notin> set ms \<and> XLOG_NO_FILE_ROTATION \<notin> set ms"
  "ft_context (features_of ms) \<noteq> 0 \<longleftrightarrow> XLOG_MINIMAL \<notin> set ms \<and> XLOG_NO_CONTEXT \<notin> set ms"
  "ft_filters (features_of ms) \<noteq> 0 \<longleftrightarrow> XLOG_MINIMAL \<notin> set ms \<and> XLOG_NO_FILTERS \<notin> set ms"
  by (simp_all add: features_of_def Let_def unless_defined_def if_no_structured_def if_minimal_def minimal_macros_def)

section \<open>The program\<close>

definition feature_line :: "int \<Rightarrow> string \<Rightarrow> string \<Rightarrow> string" where
  "feature_line v label saving =
     line_text (if v \<noteq> 0 then tick @ '' '' @ label @ ''ENABLED''
                else ballot @ '' '' @ label @ ''DISABLED (save ~'' @ saving @ ''KB)'')"

definition show_features :: "features \<Rightarrow> ('rx, 'a, 'n, 'c) statement" where
  "show_features ft = run_all
     [cout (line_text ''=== Zyrnix Feature Configuration ===''),
      cout newline,
      cout (feature_line (ft_async ft) ''Async logging:      '' ''15-20''),
      cout (feature_line (ft_json ft) ''JSON logging:       '' ''10-15''),
      cout (feature_line (ft_network ft) ''Network sinks:      '' ''8-12''),
      cout (feature_line (ft_colors ft) ''Color output:       '' ''2-3''),
      cout (feature_line (ft_file_rotation ft) ''File rotation:      '' ''5-8''),
      cout (feature_line (ft_context ft) ''Log context:        '' ''3-5''),
      cout (feature_line (ft_filters ft) ''Log filters:        '' ''2-4''),
      cout newline,
      cout (line_text ''Total binary size reduction: ~50-70KB with XLOG_MINIMAL''),
      cout newline]"

definition make_async_logger :: "('rx, 'n) host \<Rightarrow> string \<Rightarrow> ('rx, 'a, 'n, 'c) statement" where
  "make_async_logger h nm d =
     (let (lg, w) = create_async (console_ops h) nm (dm_world d)
      in Some ((register_made nm d)\<lparr>dm_logger := lg, dm_world := w\<rparr>))"

definition build_lines :: "string list" where
  "build_lines =
     [''Embedded/IoT devices:'',
      ''  Use -DXLOG_MINIMAL for smallest binary'',
      [],
      ''Desktop applications:'',
      ''  Disable only unused features (e.g., -DXLOG_NO_NETWORK)'',
      [],
      ''Servers/Cloud:'',
      ''  Use full build with all features enabled'',
      [],
      ''=== CMake Configuration Examples ==='',
      [],
      ''Minimal build:'',
      ''  cmake -DXLOG_MINIMAL=ON ..'',
      [],
      ''Custom build:'',
      (''  cmake -DXLOG_ENABLE_ASYNC=OFF '' @ bslash),
      (''        -DXLOG_ENABLE_JSON=OFF '' @ bslash),
      ''        -DXLOG_ENABLE_NETWORK=OFF ..'',
      [],
      ''Per-target build:'',
      ''  target_compile_definitions(my_app PRIVATE XLOG_NO_ASYNC XLOG_NO_JSON)'',
      []]"

definition minimal_main :: "features \<Rightarrow> ('rx, 'n) host \<Rightarrow> ('rx, 'a, 'n, 'c) statement" where
  "minimal_main ft h = run_all
     [cout (line_text ''=== Zyrnix Minimal Build Example ===''),
      cout newline,
      show_features ft,
      cout (line_text ''=== Basic Logging (Always Available) ===''),
      run_all
       [make_stdout_logger h ''minimal'',
        say h Info ''Basic logging works in all builds'',
        say h Warn ''Warning message'',
        say h Error ''Error message''],
      cout newline,
      cout (line_text ''=== Async Logging ===''),
      if ft_async ft \<noteq> 0 then run_all
       [make_async_logger h ''async'',
        say h Info ''Async logging is available'']
      else cout (line_text ''Async logging is disabled in this build''),
      cout newline,
      cout (line_text ''=== Structured/JSON Logging ===''),
      cout (line_text
        (if ft_json ft \<noteq> 0 then ''JSON logging is available (not shown in this basic example)''
         else ''JSON logging is disabled in this build'')),
      cout newline,
      cout (line_text ''=== Context Logging ===''),
      cout (line_text
        (if ft_context ft \<noteq> 0 then ''Log context (MDC/NDC) is available''
         else ''Log context is disabled in this build'')),
      cout newline,
      cout (line_text ''=== Build Recommendations ===''),
      cout newline,
      print_lines build_lines,
      cout (line_text ''=== Example completed ==='')]"

section \<open>What it prints\<close>

definition minimal_output :: "features \<Rightarrow> console_item list" where
  "minimal_output ft =
     [Text (line_text ''=== Zyrnix Minimal Build Example ===''),
      Text newline,
      Text (line_text ''=== Zyrnix Feature Configuration ===''),
      Text newline,
      Text (feature_line (ft_async ft) ''Async logging:      '' ''15-20''),
      Text (feature_line (ft_json ft) ''JSON logging:       '' ''10-15''),
      Text (feature_line (ft_network ft) ''Network sinks:      '' ''8-12''),
      Text (feature_line (ft_colors ft) ''Color output:       '' ''2-3''),
      Text (feature_line (ft_file_rotation ft) ''File rotation:      '' ''5-8''),
      Text (feature_line (ft_context ft) ''Log context:        '' ''3-5''),
      Text (feature_line (ft_filters ft) ''Log filters:        '' ''2-4''),
      Text newline,
      Text (line_text ''Total binary size reduction: ~50-70KB with XLOG_MINIMAL''),
      Text newline,
      Text (line_text ''=== Basic Logging (Always Available) ===''),
      Line ''minimal'' Info ''Basic logging works in all builds'',
      Line ''minimal'' Warn ''Warning message'',
      Line ''minimal'' Error ''Error message'',
      Text newline,
      Text (line_text ''=== Async Logging ==='')]
     @ (if ft_async ft \<noteq> 0 then [] else [Text (line_text ''Async logging is disabled in this build'')])
     @ [Text newline,
        Text (line_text ''=== Structured/JSON Logging ===''),
        Text (line_text
          (if ft_json ft \<noteq> 0 then ''JSON logging is available (not shown in this basic example)''
           else ''JSON logging is disabled in this build'')),
        Text newline,
        Text (line_text ''=== Context Logging ===''),
        Text (line_text
          (if ft_context ft \<noteq> 0 then ''Log context (MDC/NDC) is available''
           else ''Log context is disabled in this build'')),
        Text newline,
        Text (line_text ''=== Build Recommendations ===''),
        Text newline]
     @ map (\<lambda>l. Text (line_text l)) build_lines
     @ [Text (line_text ''=== Example completed ==='')]"

lemma basic_logging_prints:
  "prints h (run_all
       [make_stdout_logger h ''minimal'',
        say h Info ''Basic logging works in all builds'',
        say h Warn ''Warning message'',
        say h Error ''Error message''])
     [Line ''minimal'' Info ''Basic logging works in all builds'',
      Line ''minimal'' Warn ''Warning message'',
      Line ''minimal'' Error ''Error message'']"
  by (rule printsI) (simp add: demo_simps)

text \<open>A logger of \<open>create\_async\<close> has no sink.\<close>

lemma async_logging_silent:
  fixes h :: "('rx, 'n) host"
  shows "prints h (run_all [make_async_logger h ''async'', say h Info ''Async logging is available'']
    :: ('rx, 'a, 'n, 'c) statement) []"
proof -
  have "\<exists>objs. w = w\<lparr>w_objects := objs\<rparr>" for w :: "('a, 'n, 'c) sink_world"
    by (intro exI[of _ "w_objects w"]) simp
  then show ?thesis
    by (intro printsI) (simp add: demo_simps say_silent make_async_logger_def create_async_def
      print_items_def del: say_console)
qed

lemma print_lines_prints:
  "prints h (print_lines ls) (map (\<lambda>l. Text (line_text l)) ls)"
  by (rule printsI) (simp add: lines_printed[where h = h] demo_simps)

text \<open>
  The program \<open>examples/minimal\_build\_example.cpp\<close>, built with any macros, prints exactly the output
  that the flags derived from them give: each feature as enabled or disabled, three log lines of the
  console logger, and in a build with asynchronous logging nothing of what it logs to the
  asynchronous logger, which has no sink.
\<close>

theorem minimal_program_prints:
  "prints h (minimal_main (features_of ms) h) (minimal_output (features_of ms))"
proof -
  have async: "prints h (if ft_async (features_of ms) \<noteq> 0 then run_all
      [make_async_logger h ''async'', say h Info ''Async logging is available'']
    else cout (line_text ''Async logging is disabled in this build''))
    (if ft_async (features_of ms) \<noteq> 0 then [] else [Text (line_text ''Async logging is disabled in this build'')])"
    by (simp add: async_logging_silent prints_cout)
  show ?thesis
    unfolding minimal_main_def show_features_def
    by (rule prints_eq, (rule prints_intros basic_logging_prints async print_lines_prints)+)
      (simp only: minimal_output_def append.simps append_assoc append_Nil)
qed

end
