(* ===== verification/Spec2Isabelle.thy ===== *)
theory Spec2Isabelle
  imports Logger_Threads Sink_Removal Logger_Ops Pii_Redaction Config_Roundtrip Hot_Reload
    Log_Health Rate_Limiter Async_Queue Thread_Pool Compression All_Sinks Platform_Paths
    Experimental_Sinks Metrics_Threads Ring_Threads Example_Conditional Example_Features
    Example_Comprehensive Example_Minimal
begin

text \<open>
  Zyrnix is a C++ logging library.  A program logs through a \<open>Logger\<close>, which tests the message
  against a level, a function and filters, redacts it, and hands it to its sinks; around the logger
  there are a configuration loader with hot reload, metrics and health checks, rate limiters, a
  queue and a thread pool for asynchronous use, and a thread-local context.

  \<^bold>\<open>The theories, and what they model.\<close>  Paths are relative to \<open>src/\<close> and \<open>include/Zyrnix/\<close>.

  \<^item> \<open>Zyrnix_Prelude\<close>: 64-bit words, times (nanoseconds), the operations of \<open>std::string\<close>, and
    \<open>std::map\<close> as the locale \<open>std_map\<close> with sorted association lists (\<open>omap\<close>) as its instance.
    \<open>Doubles\<close>: \<open>double\<close> as a rational number, each operation followed by rounding to 53 bits.
    \<open>Transitions\<close>: reachable states and runs of a step relation, and the locale \<open>invariant_of\<close>,
    which every concurrent component interprets on its own steps.  \<open>File_System\<close>: files by path.
    \<open>Platform_Paths\<close> (\<open>util.cpp\<close>): the POSIX and the Windows branch of every path function over the
    system calls, with the conversions between UTF-8 and UTF-16 as the locale \<open>utf_conversion\<close>.
  \<^item> \<open>Log_Level\<close> (\<open>log_level.hpp\<close>, \<open>log_record.hpp\<close>, \<open>color.cpp\<close>), \<open>Formatter\<close> (\<open>formatter.cpp\<close>, the
    string helpers), \<open>Log_Context\<close> (\<open>log_context.cpp\<close>), \<open>Log_Filter\<close> (\<open>log_filter.cpp\<close>: filters are
    objects of a heap, since composites share them and regex filters count).
  \<^item> \<open>Logger\<close> (\<open>logger.cpp\<close>, \<open>log_macros.hpp\<close>): the record \<open>logger\<close> holds the class's fields, each
    method is a function of it and of the world that sinks and callbacks act on.  What \<open>log\<close> calls on
    a sink is the record \<open>sink_ops\<close>, and what it relies on is the locale \<open>log_sinks\<close>.
    \<open>Logger_Facts\<close> has the theorems.  \<open>Logger_Ops\<close> has every public operation as a constructor, so
    that a program is a list of them.  \<open>Logger_Threads\<close> is the same class seen by threads: every
    method as the list of its lock operations, reference counts, shared accesses and calls of the
    user's code, with the point at which callbacks and filters run under \<open>mtx_\<close>;
    \<open>Sink_Removal\<close> adds the entries themselves, their marks and reference counts.
  \<^item> \<open>Std_Regex\<close>: a parser and an ordered backtracking matcher for a fragment of \<open>std::regex\<close>, the one
    the presets of \<open>logger.cpp\<close> are written in; \<open>Pii_Redaction\<close> is the logger's redaction over it.
  \<^item> \<open>Config\<close> and \<open>Config_Roundtrip\<close> (\<open>config.cpp\<close>), \<open>Hot_Reload\<close> (\<open>hot_reload_manager.cpp\<close>,
    \<open>config_watcher.cpp\<close>), \<open>Log_Metrics\<close> and, for recordings by
    several threads, \<open>Metrics_Threads\<close> (\<open>log_metrics.cpp\<close>), \<open>Log_Health\<close> (\<open>log_health.cpp\<close>),
    \<open>Rate_Limiter\<close> (\<open>rate_limiter.cpp\<close>).  \<open>Async_Queue\<close> (\<open>async/\<close>) separates the three points
    of a push (its call, the queueing under the mutex, its return); \<open>Thread_Pool\<close> has a worker's
    test of the predicate, its falling asleep, its waking and the start of its task as steps of
    their own, and the destructor's clearing of the flag, its notification and its join.
  \<^item> The sinks: \<open>File_Sinks\<close> (plain, daily, rotating), \<open>Compressed_Sink\<close> and \<open>Compression\<close> (its calls
    of zlib and zstd), \<open>Signal_Safe_Sink\<close> (with the locale \<open>byte_queue\<close> for its ring
    buffer) and \<open>Ring_Threads\<close> (the same sink as atomic actions of many threads), \<open>Loki_Sink\<close>,
    \<open>Cloud_Sinks\<close> (CloudWatch, Azure Monitor and the HTTP client; both sinks interpret the locale \<open>batch_sender\<close>), \<open>Json_Sink\<close> (the JSON sink
    and the structured logger), \<open>Experimental_Sinks\<close> (\<open>experimental.disabled/\<close>: the JSON sink, and
    the network sink with its worker), and \<open>All_Sinks\<close>: console, syslog, UDP, null and multi sinks, and
    the virtual calls over all the classes.  There \<open>log_sinks\<close> is interpreted, so that what is
    proved of the logger holds of the logger over the library's sinks.
  \<^item> The programs of \<open>examples/\<close>: \<open>Example_Console\<close> (a program's state is the world, the context, the
    logger at hand, the heap of filters and the registries of the process; a statement is a function
    on it; \<open>prints_when\<close> states what a statement prints, and its rules compose such statements),
    \<open>Example_Conditional\<close> (\<open>conditional_logging.cpp\<close>), \<open>Example_Health\<close> and \<open>Example_Features\<close>
    (\<open>v1.1.1_beta2_features.cpp\<close>, and the first three demonstrations of \<open>v1.1.1_features.cpp\<close>),
    \<open>Example_Config\<close> (\<open>config_file_example.cpp\<close>), \<open>Example_Minimal\<close> (the flags of \<open>Zyrnix_features.hpp\<close>
    by the macros of the build, and \<open>minimal_build_example.cpp\<close>),
    \<open>Example_Limits\<close> (\<open>rate_limiting_example.cpp\<close>), \<open>Example_Metrics\<close> (\<open>metrics_example.cpp\<close>) and
    \<open>Example_Comprehensive\<close> (\<open>comprehensive_test.cpp\<close>).  \<open>Double_Eval\<close> evaluates roundings and
    numbers in the proofs about them.

  \<^bold>\<open>What is proved.\<close>
  \<^item> The path of a message: which sinks it reaches, how often, in which order and with exactly which
    text (C1, once an expired temporary level has been reverted); what redaction guarantees: no
    match of a preset is left (C2, C5), and only what a pattern covers is starred (C8); what a multi
    sink does to a message (C27), and that it hides the cloud sinks behind it from cloud-only
    redaction (C40); that a removed sink is not called again while other threads log (C3).
  \<^item> The logger's state: every program of operations, over the library's sinks without a multi sink
    that contains itself, returns, keeps the logger well formed and leaves no call stuck (C4, in
    \<open>All_Sinks\<close>); level requests (C6), temporary levels and their history (C7); its locking: no
    deadlock as long as the user's code under \<open>mtx_\<close> does not come back to the logger and
    \<open>set_sink_level\<close> is not called on an index (C11), the protection of the sinks (C12), and the deadlock of
    \<open>clear_sinks\<close> with \<open>set_level\<close> (C36); the lemmas \<open>callback_self_deadlock\<close> and
    \<open>filter_self_deadlock\<close> show that the first condition is needed.
  \<^item> Round trips: configuration texts whose strings the parser can read back (C9), structured JSON
    files (C10), Windows paths (C34), rotated and compressed archives (C35).
  \<^item> Concurrent components, as invariants and termination under every interleaving: the queue (C13),
    the ring buffer (C14, C38), the pool (C15, C16), the cloud sinks (C17), the metrics (C29).  The
    pool starts tasks in the order of their dequeuing only on one worker, and it stops when no
    worker is between its test of the predicate and its sleep while the destructor notifies: the
    lemmas \<open>tasks_overtake\<close> and \<open>destructor_misses_sleeper\<close> are the runs in which it does not.
  \<^item> Loops: when \<open>send_batch\<close> returns, what it sleeps and what it answers (C18), the limiter's
    bound, within one part in 2^50 of the bucket per call (C19), evaluation of filters
    and its equality with a reference (C21), the cache (C22), the watcher (C24).
  \<^item> Files: rotation, as the exact content of every file of the set, with a suffix of the log (C20);
    lemmas on the daily partition and on failing compression.
  \<^item> Whole programs, as exactly what they print, written out: regular expressions, health and level
    control together (C32), macros, filters and contexts (C33), limiters and metrics (C39); lemmas
    for the other examples.
  \<^item> The signal-safe sink as a refinement of a queue of bytes (C25), Loki batches, each posted until
    the first success and at most three times (C26), metrics, flush durations included (C28, C30),
    health (C31), loading and reloading with the reason of a failure (C23, C37).

  \<^bold>\<open>Conventions.\<close>  A clock is a function from the number of the reading to a time.  Loops that need not
  end are partial functions over options, \<^const>\<open>None\<close> standing for a call that does not return:
  redaction with an empty pattern, composite filters and multi sinks that contain themselves, and
  the retry loop of the cloud sinks; for each of them a theorem says when the result is not
  \<^const>\<open>None\<close>.  Calls of sinks, level callbacks and lambda filters are total functions (user code
  that does not return is outside the model); a multi sink that contains itself marks the world as
  stuck instead.  Posting a batch of a cloud sink, with its retries and sleeps, is one step of its
  worker.  The parser of regular expressions has fuel, three times the length of the
  pattern and three; \<open>parse_regex_fuel\<close> proves that more changes nothing.  \<open>sink_leaves\<close> takes a
  depth, and any depth above the ranks of the multi sinks is enough.  Counters are 64-bit words; sizes and positions within
  memory or files, those of the signal-safe sink's ring buffer too, are natural numbers.  Witness theorems apply the properties to concrete inputs.

  \<^bold>\<open>Parameters.\<close>  The regular expressions of the C++ library (\<open>regex_lib\<close>, with an instance for the
  presets' fragment), libcurl (\<open>curl_lib\<close>, \<open>transport\<close>), the shell, the compression libraries
  (\<open>compressor\<close>), the calls of POSIX and of the Windows API behind the path functions, the dump
  function of nlohmann::json, connections of Asio, sockets and name resolution, the time zone, which
  files can be opened, and the order of an \<open>std::unordered_map\<close>.

  \<^bold>\<open>Not modelled.\<close>  The weak memory of relaxed atomics (steps are sequentially consistent);
  regular expressions outside the fragment; \<open>fmt_compat\<close>, which is preprocessor switches; the empty source files; the compression demonstrations of the examples, whose output
  depends on the sizes zlib produces, and the remaining examples, the tests and the tools, which call
  the operations modelled here and hold no logic of their own.
\<close>

end
